(* ===== verification/Prelude.thy ===== *)
theory Prelude
  imports Main "HOL-Library.Sublist"
begin

text \<open>
  The prelude of the gbuild development: the lemma collections that the component theories
  fill, the Rust slice primitives the sources use (indexing and open-ended slicing that
  answer \<open>None\<close> out of range), and the list facts the components share.
\<close>

named_theorems window_simps \<open>abstraction equations of the sliding window\<close>
named_theorems breaker_simps \<open>equations of the circuit-breaker operations\<close>

section \<open>Rust slices\<close>

text \<open>\<open>slice.get(i)\<close> and \<open>slice.get(i..)\<close>: \<open>None\<close> where the index is out of range.\<close>

definition nth_opt :: "'a list \<Rightarrow> nat \<Rightarrow> 'a option" where
  "nth_opt xs i = (if i < length xs then Some (xs ! i) else None)"

definition slice_from :: "'a list \<Rightarrow> nat \<Rightarrow> 'a list option" where
  "slice_from xs i = (if i \<le> length xs then Some (drop i xs) else None)"

lemma nth_opt_Some [simp]: "nth_opt xs i = Some x \<longleftrightarrow> i < length xs \<and> xs ! i = x"
  by (simp add: nth_opt_def)

lemma nth_opt_None [simp]: "nth_opt xs i = None \<longleftrightarrow> length xs \<le> i"
  by (simp add: nth_opt_def not_less)

lemma nth_opt_in_set: "nth_opt xs i = Some x \<Longrightarrow> x \<in> set xs"
  by auto

lemma slice_from_SomeD: "slice_from xs i = Some ys \<Longrightarrow> suffix ys xs \<and> length ys = length xs - i"
  by (auto simp: slice_from_def suffix_drop split: if_splits)

section \<open>Suffixes\<close>

text \<open>A peeler hands on a strictly shorter tail of the words it was given.\<close>

definition proper_tail :: "'a list \<Rightarrow> 'a list \<Rightarrow> bool" where
  "proper_tail ys xs \<longleftrightarrow> suffix ys xs \<and> ys \<noteq> [] \<and> length ys < length xs"

lemma proper_tail_drop: "0 < i \<Longrightarrow> i < length xs \<Longrightarrow> proper_tail (drop i xs) xs"
  by (auto simp: proper_tail_def suffix_drop)

lemma proper_tail_length: "proper_tail ys xs \<Longrightarrow> 0 < length ys \<and> length ys < length xs"
  by (simp add: proper_tail_def)

lemma proper_tail_trans_suffix: "proper_tail ys xs \<Longrightarrow> suffix xs zs \<Longrightarrow> proper_tail ys zs"
  by (auto simp: proper_tail_def dest: suffix_length_le intro: suffix_order.trans)

lemma suffix_proper_tail: "proper_tail ys xs \<Longrightarrow> suffix ys xs"
  by (simp add: proper_tail_def)

lemma suffix_eq_or_shorter: "suffix ys xs \<Longrightarrow> ys = xs \<or> length ys < length xs"
  by (auto simp: suffix_def)

section \<open>Fallible traversal\<close>

text \<open>A loop that calls a fallible function on each element and returns at the first failure.\<close>

fun traverse :: "('a \<Rightarrow> 'b option) \<Rightarrow> 'a list \<Rightarrow> 'b list option" where
  "traverse f [] = Some []"
| "traverse f (x # xs) =
     (case f x of None \<Rightarrow> None | Some y \<Rightarrow> map_option ((#) y) (traverse f xs))"

lemma traverse_Some: "traverse f xs = Some ys \<longleftrightarrow> list_all2 (\<lambda>x y. f x = Some y) xs ys"
  by (induction xs arbitrary: ys) (auto simp: list_all2_Cons1 split: option.splits)

lemma traverse_None: "traverse f xs = None \<longleftrightarrow> (\<exists>x \<in> set xs. f x = None)"
  by (induction xs) (auto split: option.splits)

lemma set_map_filter: "y \<in> set (List.map_filter f xs) \<longleftrightarrow> (\<exists>x \<in> set xs. f x = Some y)"
  by (induction xs) (auto split: option.split)

end
