(* ===== verification/Rust_Str.thy ===== *)
theory Rust_Str
  imports Prelude
begin

text \<open>
  Rust strings. A \<open>&str\<close> is a UTF-8 byte sequence, so it is modelled as a \<open>string\<close> whose
  characters are its bytes: lengths, offsets and slices are then byte lengths, offsets and
  slices, as in the sources. The operations below are the ones of the standard library that
  the modelled sources call. Searching for or comparing with an ASCII character is the same on
  bytes as on \<open>char\<close>s, because no byte of a multi-byte UTF-8 sequence is an ASCII byte;
  where a source works on \<open>char\<close>s that need not be ASCII (\<open>trim\<close>, \<open>is_whitespace\<close>) the
  multi-byte encodings are spelled out.
\<close>

section \<open>Characters the sources name\<close>

abbreviation bslash :: char where "bslash \<equiv> CHR 0x5C"
abbreviation dquote :: char where "dquote \<equiv> CHR 0x22"
abbreviation squote :: char where "squote \<equiv> CHR 0x27"
abbreviation backtick :: char where "backtick \<equiv> CHR 0x60"
abbreviation newline :: char where "newline \<equiv> CHR 0x0A"
abbreviation creturn :: char where "creturn \<equiv> CHR 0x0D"
abbreviation nul :: char where "nul \<equiv> CHR 0x00"

section \<open>Prefixes, suffixes, substrings\<close>

definition starts_with :: "string \<Rightarrow> string \<Rightarrow> bool" where
  "starts_with s p = prefix p s"

definition ends_with :: "string \<Rightarrow> string \<Rightarrow> bool" where
  "ends_with s p = suffix p s"

definition strip_prefix :: "string \<Rightarrow> string \<Rightarrow> string option" where
  "strip_prefix p s = (if prefix p s then Some (drop (length p) s) else None)"

definition strip_suffix :: "string \<Rightarrow> string \<Rightarrow> string option" where
  "strip_suffix p s = (if suffix p s then Some (take (length s - length p) s) else None)"

lemma suffix_code [code]: "suffix xs ys = prefix (rev xs) (rev ys)"
  by (simp add: suffix_to_prefix)

lemma strip_prefix_Some: "strip_prefix p s = Some r \<longleftrightarrow> s = p @ r"
  by (auto simp: strip_prefix_def prefix_def)

lemma strip_suffix_Some: "strip_suffix p s = Some r \<longleftrightarrow> s = r @ p"
  by (auto simp: strip_suffix_def suffix_def)

lemma starts_with_Nil [simp]: "starts_with s [] "
  by (simp add: starts_with_def)

lemma starts_with_Cons [simp]:
  "starts_with (c # s) (d # p) = (c = d \<and> starts_with s p)" "\<not> starts_with [] (d # p)"
  by (auto simp: starts_with_def)

text \<open>\<open>s.contains(p)\<close>.\<close>

definition str_contains :: "string \<Rightarrow> string \<Rightarrow> bool" where
  "str_contains s p = list_ex (\<lambda>k. starts_with (drop k s) p) [0..<Suc (length s)]"

text \<open>The piece after the last path separator: \<open>s.rsplit(['/', '\\']).next()\<close>.\<close>

definition basename :: "string \<Rightarrow> string" where
  "basename s = rev (takeWhile (\<lambda>c. c \<noteq> CHR ''/'' \<and> c \<noteq> bslash) (rev s))"

text \<open>\<open>s.find(c)\<close> for an ASCII character.\<close>

fun find_char :: "char \<Rightarrow> string \<Rightarrow> nat option" where
  "find_char c [] = None"
| "find_char c (x # xs) = (if x = c then Some 0 else map_option Suc (find_char c xs))"

text \<open>\<open>words.join(sep)\<close>.\<close>

fun join :: "string \<Rightarrow> string list \<Rightarrow> string" where
  "join sep [] = []"
| "join sep [w] = w"
| "join sep (w # ws) = w @ sep @ join sep ws"

text \<open>\<open>s.replace(from, to)\<close> for a non-empty \<open>from\<close>: leftmost, non-overlapping.\<close>

function (sequential) replace :: "string \<Rightarrow> string \<Rightarrow> string \<Rightarrow> string" where
  "replace from to [] = []"
| "replace from to (c # s) =
     (if from \<noteq> [] \<and> prefix from (c # s) then to @ replace from to (drop (length from) (c # s))
      else c # replace from to s)"
  by pat_completeness auto
termination
  by (relation "measure (\<lambda>(f, t, s). length s)") (auto simp: neq_Nil_conv)

declare replace.simps [simp del]

lemma replace_Nil [simp]: "replace from to [] = []"
  by (simp add: replace.simps)

lemma replace_pair:
  "replace [a, b] t (x # y # s) =
     (if x = a \<and> y = b then t @ replace [a, b] t s else x # replace [a, b] t (y # s))"
  by (simp add: replace.simps)

lemma replace_skip: "x \<noteq> a \<Longrightarrow> replace (a # p) t (x # s) = x # replace (a # p) t s"
  by (simp add: replace.simps)

lemma replace_pair_skip:
  assumes "s = [] \<or> hd s \<noteq> b"
  shows "replace [a, b] t (x # s) = x # replace [a, b] t s"
  using assms by (cases s) (auto simp: replace.simps)

text \<open>The first and the last index that a predicate selects.\<close>

lemma find_upt_first:
  assumes "i < n" "P i" "\<And>j. j < i \<Longrightarrow> \<not> P j"
  shows "find P [0..<n] = Some i"
  using assms by (auto simp: find_Some_iff intro!: exI [of _ i])

lemma find_rev_upt_last: "P n \<Longrightarrow> find P (rev [0..<Suc n]) = Some n"
  by simp

section \<open>Unicode white space\<close>

text \<open>
  \<open>char::is_whitespace\<close> is the Unicode property White\_Space. \<open>ws_len s\<close> is the number of
  bytes of the white-space character that \<open>s\<close> starts with, 0 where it starts with none:
  U+0009..U+000D, U+0020, U+0085, U+00A0, U+1680, U+2000..U+200A, U+2028, U+2029, U+202F,
  U+205F and U+3000.
\<close>

definition ascii_ws :: "char \<Rightarrow> bool" where
  "ascii_ws c \<longleftrightarrow> (let n = of_char c :: nat in n = 32 \<or> (9 \<le> n \<and> n \<le> 13))"

definition ws2 :: "char \<Rightarrow> char \<Rightarrow> bool" where
  "ws2 a b \<longleftrightarrow> a = CHR 0xC2 \<and> (b = CHR 0x85 \<or> b = CHR 0xA0)"

definition ws3 :: "char \<Rightarrow> char \<Rightarrow> char \<Rightarrow> bool" where
  "ws3 a b c \<longleftrightarrow>
     (let n = of_char c :: nat in
      (a = CHR 0xE1 \<and> b = CHR 0x9A \<and> n = 128)
      \<or> (a = CHR 0xE2 \<and> b = CHR 0x80 \<and> ((128 \<le> n \<and> n \<le> 138) \<or> n = 168 \<or> n = 169 \<or> n = 175))
      \<or> (a = CHR 0xE2 \<and> b = CHR 0x81 \<and> n = 159)
      \<or> (a = CHR 0xE3 \<and> b = CHR 0x80 \<and> n = 128))"

fun ws_len :: "string \<Rightarrow> nat" where
  "ws_len [] = 0"
| "ws_len [a] = (if ascii_ws a then 1 else 0)"
| "ws_len [a, b] = (if ascii_ws a then 1 else if ws2 a b then 2 else 0)"
| "ws_len (a # b # c # s) =
     (if ascii_ws a then 1 else if ws2 a b then 2 else if ws3 a b c then 3 else 0)"

lemma ws_len_le: "ws_len s \<le> length s"
  by (induction s rule: ws_len.induct) auto

function trim_start :: "string \<Rightarrow> string" where
  "trim_start s = (if ws_len s = 0 then s else trim_start (drop (ws_len s) s))"
  by pat_completeness auto
termination
proof (relation "measure length")
  fix s :: string
  assume "ws_len s \<noteq> 0"
  with ws_len_le [of s] show "(drop (ws_len s) s, s) \<in> measure length" by auto
qed simp

declare trim_start.simps [simp del]

text \<open>
  \<open>trim_end\<close> looks at the last character. The bytes of a trailing white-space character are
  recognised in reverse; in valid UTF-8 the last bytes determine the last character.
\<close>

fun ws_len_rev :: "string \<Rightarrow> nat" where
  "ws_len_rev [] = 0"
| "ws_len_rev [a] = (if ascii_ws a then 1 else 0)"
| "ws_len_rev [a, b] = (if ascii_ws a then 1 else if ws2 b a then 2 else 0)"
| "ws_len_rev (a # b # c # s) =
     (if ascii_ws a then 1 else if ws2 b a then 2 else if ws3 c b a then 3 else 0)"

lemma ws_len_rev_le: "ws_len_rev s \<le> length s"
  by (induction s rule: ws_len_rev.induct) auto

function trim_rev :: "string \<Rightarrow> string" where
  "trim_rev s = (if ws_len_rev s = 0 then s else trim_rev (drop (ws_len_rev s) s))"
  by pat_completeness auto
termination
proof (relation "measure length")
  fix s :: string
  assume "ws_len_rev s \<noteq> 0"
  with ws_len_rev_le [of s] show "(drop (ws_len_rev s) s, s) \<in> measure length" by auto
qed simp

declare trim_rev.simps [simp del]

definition trim_end :: "string \<Rightarrow> string" where
  "trim_end s = rev (trim_rev (rev s))"

definition trim :: "string \<Rightarrow> string" where
  "trim s = trim_end (trim_start s)"

text \<open>\<open>s.trim_end_matches(c)\<close> for an ASCII character.\<close>

definition trim_end_matches :: "char \<Rightarrow> string \<Rightarrow> string" where
  "trim_end_matches c s = rev (dropWhile (\<lambda>x. x = c) (rev s))"

lemma trim_start_suffix: "suffix (trim_start s) s"
proof (induction s rule: trim_start.induct)
  case (1 s)
  then show ?case
    by (cases "ws_len s = 0")
      (auto simp: trim_start.simps [of s] intro: suffix_order.trans suffix_drop)
qed

lemma ws_len_trim_start [simp]: "ws_len (trim_start s) = 0"
proof (induction s rule: trim_start.induct)
  case (1 s)
  then show ?case by (cases "ws_len s = 0") (auto simp: trim_start.simps [of s])
qed

lemma trim_start_idem [simp]: "trim_start (trim_start s) = trim_start s"
  by (simp add: trim_start.simps [of "trim_start s"])

lemma ws_len_ascii [simp]: "ascii_ws a \<Longrightarrow> ws_len (a # s) = 1"
  by (cases s rule: remdups_adj.cases; cases "tl s") auto

lemma ws_len_ws2: "\<not> ascii_ws a \<Longrightarrow> ws2 a b \<Longrightarrow> ws_len (a # b # s) = 2"
  by (cases s) auto

lemma ws_len_append: "0 < ws_len s \<Longrightarrow> ws_len (s @ t) = ws_len s"
  by (induction s rule: ws_len.induct) (auto simp: ws_len_ws2 split: if_splits)

lemma ws_len_plain:
  assumes "\<not> ascii_ws a" "(of_char a :: nat) < 128"
  shows "ws_len (a # s) = 0"
proof -
  have "\<not> ws2 a b" "\<not> ws3 a b c" for b c
    using assms(2) by (auto simp: ws2_def ws3_def Let_def)
  with assms(1) show ?thesis by (cases s rule: remdups_adj.cases) auto
qed

lemma ws_len_rev_plain:
  assumes "\<not> ascii_ws a" "(of_char a :: nat) < 128"
  shows "ws_len_rev (a # s) = 0"
proof -
  have "\<not> ws2 b a" "\<not> ws3 c b a" for b c
    using assms(2) by (auto simp: ws2_def ws3_def Let_def)
  with assms(1) show ?thesis by (cases s rule: remdups_adj.cases) auto
qed

text \<open>A string between two plain ASCII characters has nothing to trim.\<close>

lemma trim_plain:
  assumes "\<not> ascii_ws a" "(of_char a :: nat) < 128" "\<not> ascii_ws b" "(of_char b :: nat) < 128"
  shows "trim (a # s @ [b]) = a # s @ [b]"
  using assms
  by (simp add: trim_def trim_end_def trim_start.simps [of "a # s @ [b]"]
      trim_rev.simps [of "b # rev s @ [a]"] ws_len_plain ws_len_rev_plain)

text \<open>A string that trims to nothing is white space; in front of another it is skipped.\<close>

lemma trim_start_append:
  assumes "trim_start w = []"
  shows "trim_start (w @ s) = trim_start s"
  using assms
proof (induction w rule: trim_start.induct)
  case (1 w)
  show ?case
  proof (cases "ws_len w = 0")
    case True
    with "1.prems" show ?thesis by (simp add: trim_start.simps [of w])
  next
    case False
    with "1.prems" have d: "trim_start (drop (ws_len w) w) = []"
      by (simp add: trim_start.simps [of w])
    have "trim_start (w @ s) = trim_start (drop (ws_len w) w @ s)"
      using False ws_len_le [of w] by (simp add: trim_start.simps [of "w @ s"] ws_len_append)
    also have "\<dots> = trim_start s" using "1.IH" [OF False d] .
    finally show ?thesis .
  qed
qed

section \<open>UTF-8\<close>

text \<open>
  \<open>std::str::from_utf8\<close> accepts exactly the well-formed UTF-8 byte sequences; \<open>chars\<close> cuts a
  string at its character boundaries by the length that each lead byte announces.
\<close>

definition cont_byte :: "char \<Rightarrow> bool" where
  "cont_byte c \<longleftrightarrow> (let n = of_char c :: nat in 128 \<le> n \<and> n < 192)"

definition byte_in :: "nat \<Rightarrow> nat \<Rightarrow> char \<Rightarrow> bool" where
  "byte_in lo hi c \<longleftrightarrow> (let n = of_char c :: nat in lo \<le> n \<and> n \<le> hi)"

definition utf8_char_ok :: "string \<Rightarrow> bool" where
  "utf8_char_ok w \<longleftrightarrow>
     (case w of
        [a] \<Rightarrow> byte_in 0 127 a
      | [a, b] \<Rightarrow> byte_in 194 223 a \<and> cont_byte b
      | [a, b, c] \<Rightarrow>
          ((byte_in 224 224 a \<and> byte_in 160 191 b) \<or> (byte_in 225 236 a \<and> cont_byte b)
           \<or> (byte_in 237 237 a \<and> byte_in 128 159 b) \<or> (byte_in 238 239 a \<and> cont_byte b))
          \<and> cont_byte c
      | [a, b, c, d] \<Rightarrow>
          ((byte_in 240 240 a \<and> byte_in 144 191 b) \<or> (byte_in 241 243 a \<and> cont_byte b)
           \<or> (byte_in 244 244 a \<and> byte_in 128 143 b))
          \<and> cont_byte c \<and> cont_byte d
      | _ \<Rightarrow> False)"

definition lead_len :: "char \<Rightarrow> nat" where
  "lead_len c =
     (let n = of_char c :: nat in
      if n < 192 then 1 else if n < 224 then 2 else if n < 240 then 3 else 4)"

lemma lead_len_pos [simp]: "0 < lead_len c"
  by (simp add: lead_len_def Let_def)

function (sequential) chars :: "string \<Rightarrow> string list" where
  "chars [] = []"
| "chars (c # s) = take (lead_len c) (c # s) # chars (drop (lead_len c) (c # s))"
  by pat_completeness auto
termination
  by (relation "measure length") auto

declare chars.simps [simp del]

definition utf8_valid :: "string \<Rightarrow> bool" where
  "utf8_valid s = list_all utf8_char_ok (chars s)"

lemma concat_chars: "concat (chars s) = s"
  by (induction s rule: chars.induct) (auto simp: chars.simps simp del: take_Cons' drop_Cons')

definition is_char_boundary :: "string \<Rightarrow> nat \<Rightarrow> bool" where
  "is_char_boundary s i \<longleftrightarrow> i = 0 \<or> i = length s \<or> (i < length s \<and> \<not> cont_byte (s ! i))"

text \<open>\<open>char::is_whitespace\<close> on one encoded character.\<close>

definition is_whitespace :: "string \<Rightarrow> bool" where
  "is_whitespace w \<longleftrightarrow> w \<noteq> [] \<and> ws_len w = length w"

section \<open>Splitting\<close>

text \<open>\<open>s.split(c)\<close> for an ASCII character, and \<open>s.lines()\<close>.\<close>

fun split_char :: "char \<Rightarrow> string \<Rightarrow> string list" where
  "split_char c [] = [[]]"
| "split_char c (x # xs) =
     (if x = c then [] # split_char c xs
      else case split_char c xs of y # ys \<Rightarrow> (x # y) # ys | [] \<Rightarrow> [[x]])"

definition strip_cr :: "string \<Rightarrow> string" where
  "strip_cr l = (case strip_suffix [creturn] l of Some m \<Rightarrow> m | None \<Rightarrow> l)"

definition str_lines :: "string \<Rightarrow> string list" where
  "str_lines s =
     (let ps = split_char newline s
      in map strip_cr (butlast ps) @ (if last ps = [] then [] else [last ps]))"

lemma split_char_other: "c \<notin> set s \<Longrightarrow> split_char c s = [s]"
  by (induction s) auto

lemma split_char_append: "c \<notin> set s \<Longrightarrow> split_char c (s @ c # t) = s # split_char c t"
  by (induction s) auto

lemma join_snoc: "join sep (xs @ [y]) = (if xs = [] then y else join sep xs @ sep @ y)"
  by (induction xs rule: induct_list012) auto

lemma split_char_join:
  "xs \<noteq> [] \<Longrightarrow> list_all (\<lambda>s. c \<notin> set s) xs \<Longrightarrow> split_char c (join [c] xs) = xs"
proof (induction xs rule: induct_list012)
  case (3 x y zs)
  then show ?case by (simp add: split_char_append)
qed (simp_all add: split_char_other)

lemma split_char_parts: "\<forall>s \<in> set (split_char c p). c \<notin> set s"
  by (induction p) (auto split: list.splits)

lemma split_char_not_Nil [simp]: "split_char c p \<noteq> []"
  by (cases p) (auto split: list.splits)

lemma split_char_app: "split_char c (s @ c # t) = split_char c s @ split_char c t"
  by (induction s) (auto split: list.splits)

lemma str_lines_newline: "l \<in> set (str_lines s) \<Longrightarrow> newline \<notin> set l"
  using split_char_parts [of newline s] last_in_set [of "split_char newline s"]
  by (auto simp: str_lines_def Let_def strip_cr_def strip_suffix_Some split: option.splits if_splits
      dest!: in_set_butlastD)

end
