(* ===== verification/Permission_Types.thy ===== *)
theory Permission_Types
  imports Rust_Str
begin

text \<open>
  The data of the permission subsystem (\<open>gbuild-workspace/src/permission/types.rs\<close>): the
  access a tool call asks for, the decisions, the rules and their configuration, and the
  classification of a parsed tool call into the access it needs. \<open>ToolInput\<close> carries, per
  variant, the fields the classification reads.
\<close>

section \<open>JSON values\<close>

text \<open>\<open>serde_json::Value\<close>; a number is kept as its text.\<close>

datatype json =
    JNull
  | JBool bool
  | JNumber string
  | JString string
  | JArray "json list"
  | JObject "(string \<times> json) list"

definition json_get :: "json \<Rightarrow> string \<Rightarrow> json option" where
  "json_get v key = (case v of JObject kvs \<Rightarrow> map_of kvs key | _ \<Rightarrow> None)"

definition json_as_str :: "json \<Rightarrow> string option" where
  "json_as_str v = (case v of JString s \<Rightarrow> Some s | _ \<Rightarrow> None)"

section \<open>Access kinds, decisions, rules\<close>

datatype access_kind =
    Access_Read "string option"
  | Access_Grep "string option" "string option"
  | Access_Edit string
  | Access_Bash string
  | Access_MCPTool string json
  | Access_WebFetch string
  | Access_WebSearch string

datatype decision =
    Allow
  | Ask
  | FollowupMessage string
  | Reject string
  | PolicyDeny string
  | Cancelled

datatype edit_policy = Edit_Ask | Edit_Allow | Edit_Reject

datatype prompt_policy = Prompt_Ask | Prompt_Deny | Prompt_Auto

datatype pattern_mode = Mode_Glob | Mode_Domain

datatype rule_action = Act_Allow | Act_Deny | Act_Ask

datatype tool_filter =
    Filter_Any
  | Filter_Bash
  | Filter_Edit
  | Filter_Read
  | Filter_Grep
  | Filter_Mcp
  | Filter_WebFetch
  | Filter_WebSearch

record permission_rule =
  action :: rule_action
  tool :: tool_filter
  pattern :: "string option"
  pattern_mode_of :: pattern_mode

record permission_config =
  rules :: "permission_rule list"
  prompt_policy_of :: prompt_policy

definition permission_config_new :: "permission_rule list \<Rightarrow> permission_config" where
  "permission_config_new rs = \<lparr>rules = rs, prompt_policy_of = Prompt_Ask\<rparr>"

section \<open>Classifying a tool call\<close>

datatype tool_input =
    Input_ReadFile string
  | Input_ListDir string
  | Input_Grep "string option" "string option"
  | Input_TodoWrite
  | Input_TaskOutput
  | Input_WaitTasks
  | Input_Skill
  | Input_SearchTool
  | Input_EnterPlanMode
  | Input_ExitPlanMode
  | Input_AskUserQuestion
  | Input_SchedulerList
  | Input_UpdateGoal
  | Input_KillTask
  | Input_Task
  | Input_ImageGen
  | Input_ImageEdit
  | Input_ImageToVideo
  | Input_ReferenceToVideo
  | Input_Lsp
  | Input_SchedulerCreate
  | Input_SchedulerDelete
  | Input_Workflow
  | Input_WebSearch string
  | Input_SearchReplace string
  | Input_ApplyPatch
  | Input_HashlineEdit string
  | Input_Write string
  | Input_Bash string
  | Input_Monitor string
  | Input_MCPTool string json
  | Input_UseTool string json
  | Input_WebFetch string
  | Input_CodexListDir string
  | Input_CodexGrepFiles "string option" "string option"
  | Input_CodexReadFile string
  | Input_MemorySearch
  | Input_MemoryGet string
  | Input_Dynamic json

fun first_str :: "json \<Rightarrow> string list \<Rightarrow> string option" where
  "first_str v [] = None"
| "first_str v (k # ks) =
     (case Option.bind (json_get v k) json_as_str of
        Some s \<Rightarrow> Some s
      | None \<Rightarrow> first_str v ks)"

definition classify_dynamic_tool :: "string \<Rightarrow> json \<Rightarrow> access_kind option" where
  "classify_dynamic_tool tool_name v =
     (if tool_name = ''edit'' \<or> tool_name = ''write''
        then map_option Access_Edit (first_str v [''filePath'', ''file_path'', ''path''])
      else if tool_name = ''bash''
        then map_option Access_Bash (first_str v [''command''])
      else if tool_name = ''read'' \<or> tool_name = ''read_file''
        then Some (Access_Read (first_str v [''filePath'', ''file_path'', ''path'']))
      else if tool_name = ''glob'' \<or> tool_name = ''list_dir''
        then Some (Access_Read (first_str v [''path'', ''target_directory'', ''dir_path'']))
      else if tool_name = ''grep'' \<or> tool_name = ''grep_files''
        then Some (Access_Grep (first_str v [''path'']) (first_str v [''glob'', ''include'']))
      else if tool_name = ''todowrite'' \<or> tool_name = ''todo_write'' \<or> tool_name = ''skill''
        then Some (Access_Read None)
      else None)"

text \<open>
  \<open>to_value\<close> stands for \<open>serde_json::to_value\<close>, whose error answers \<open>Null\<close>.
\<close>

definition from_tool_input ::
  "(tool_input \<Rightarrow> json option) \<Rightarrow> string \<Rightarrow> tool_input \<Rightarrow> access_kind" where
  "from_tool_input to_value tool_name input =
     (let prompt = Access_MCPTool tool_name
            (case to_value input of Some v \<Rightarrow> v | None \<Rightarrow> JNull)
      in case input of
           Input_ReadFile path \<Rightarrow> Access_Read (Some path)
         | Input_ListDir dir \<Rightarrow> Access_Read (Some dir)
         | Input_Grep path glob \<Rightarrow> Access_Grep path glob
         | Input_TodoWrite \<Rightarrow> Access_Read None
         | Input_TaskOutput \<Rightarrow> Access_Read None
         | Input_WaitTasks \<Rightarrow> Access_Read None
         | Input_Skill \<Rightarrow> Access_Read None
         | Input_SearchTool \<Rightarrow> Access_Read None
         | Input_EnterPlanMode \<Rightarrow> Access_Read None
         | Input_ExitPlanMode \<Rightarrow> Access_Read None
         | Input_AskUserQuestion \<Rightarrow> Access_Read None
         | Input_SchedulerList \<Rightarrow> Access_Read None
         | Input_UpdateGoal \<Rightarrow> Access_Read None
         | Input_KillTask \<Rightarrow> prompt
         | Input_Task \<Rightarrow> prompt
         | Input_ImageGen \<Rightarrow> prompt
         | Input_ImageEdit \<Rightarrow> prompt
         | Input_ImageToVideo \<Rightarrow> prompt
         | Input_ReferenceToVideo \<Rightarrow> prompt
         | Input_Lsp \<Rightarrow> prompt
         | Input_SchedulerCreate \<Rightarrow> prompt
         | Input_SchedulerDelete \<Rightarrow> prompt
         | Input_Workflow \<Rightarrow> prompt
         | Input_WebSearch query \<Rightarrow> Access_WebSearch query
         | Input_SearchReplace path \<Rightarrow> Access_Edit path
         | Input_ApplyPatch \<Rightarrow> Access_Edit ''apply_patch''
         | Input_HashlineEdit path \<Rightarrow> Access_Edit path
         | Input_Write path \<Rightarrow> Access_Edit path
         | Input_Bash command \<Rightarrow> Access_Bash command
         | Input_Monitor command \<Rightarrow> Access_Bash command
         | Input_MCPTool name v \<Rightarrow> Access_MCPTool name v
         | Input_UseTool name v \<Rightarrow> Access_MCPTool name v
         | Input_WebFetch url \<Rightarrow> Access_WebFetch url
         | Input_CodexListDir dir \<Rightarrow> Access_Read (Some dir)
         | Input_CodexGrepFiles path glob \<Rightarrow> Access_Grep path glob
         | Input_CodexReadFile path \<Rightarrow> Access_Read (Some path)
         | Input_MemorySearch \<Rightarrow> Access_Read None
         | Input_MemoryGet path \<Rightarrow> Access_Read (Some path)
         | Input_Dynamic v \<Rightarrow>
             (case classify_dynamic_tool tool_name v of Some a \<Rightarrow> a | None \<Rightarrow> prompt))"

end
