(* ===== verification/Permission_Rules.thy ===== *)
theory Permission_Rules
  imports Permission_Types
begin

text \<open>
  The permission rule-string language (\<open>gbuild-workspace/src/permission/rules.rs\<close>):
  \<open>Tool(pattern)\<close> strings, their escape-aware parser with its error values, and the
  permission modes. The lemmas give the parser's inverse: a content that is escaped, wrapped
  in a recognised tool name and parsed comes back as it was.
\<close>

section \<open>Permission modes\<close>

datatype default_permission_mode =
    Mode_Default
  | Mode_AcceptEdits
  | Mode_Plan
  | Mode_Auto
  | Mode_DontAsk
  | Mode_BypassPermissions

definition default_permission_mode_from_str :: "string \<Rightarrow> string + default_permission_mode" where
  "default_permission_mode_from_str s =
     (if s = ''default'' then Inr Mode_Default
      else if s = ''acceptEdits'' then Inr Mode_AcceptEdits
      else if s = ''plan'' then Inr Mode_Plan
      else if s = ''auto'' then Inr Mode_Auto
      else if s = ''dontAsk'' then Inr Mode_DontAsk
      else if s = ''bypassPermissions'' then Inr Mode_BypassPermissions
      else Inl s)"

record default_mode_effects =
  eff_prompt_policy :: prompt_policy
  accept_edits :: bool
  bypass_permissions :: bool

definition default_mode_effects_default :: default_mode_effects where
  "default_mode_effects_default =
     \<lparr>eff_prompt_policy = Prompt_Ask, accept_edits = False, bypass_permissions = False\<rparr>"

fun effects :: "default_permission_mode \<Rightarrow> default_mode_effects" where
  "effects Mode_AcceptEdits = default_mode_effects_default\<lparr>accept_edits := True\<rparr>"
| "effects Mode_BypassPermissions = default_mode_effects_default\<lparr>bypass_permissions := True\<rparr>"
| "effects Mode_Default = default_mode_effects_default"
| "effects Mode_Plan = default_mode_effects_default"
| "effects Mode_DontAsk = default_mode_effects_default\<lparr>eff_prompt_policy := Prompt_Deny\<rparr>"
| "effects Mode_Auto = default_mode_effects_default\<lparr>eff_prompt_policy := Prompt_Auto\<rparr>"

section \<open>The parser\<close>

datatype rule_parse_error =
    UnsupportedToolPrefix string
  | UnknownToolPrefix string
  | MalformedRule string

definition rule_parse_error_fmt :: "rule_parse_error \<Rightarrow> string" where
  "rule_parse_error_fmt e =
     (case e of
        UnsupportedToolPrefix p \<Rightarrow> ''unsupported tool prefix: '' @ p
      | UnknownToolPrefix p \<Rightarrow> ''unknown tool prefix: '' @ p
      | MalformedRule d \<Rightarrow> ''malformed rule: '' @ d)"

definition tool_name_to_filter :: "string \<Rightarrow> tool_filter option" where
  "tool_name_to_filter name =
     (if name = ''Bash'' then Some Filter_Bash
      else if name = ''Read'' \<or> name = ''NotebookRead'' then Some Filter_Read
      else if name = ''Edit'' \<or> name = ''Write'' \<or> name = ''NotebookEdit'' then Some Filter_Edit
      else if name = ''MCPTool'' then Some Filter_Mcp
      else if name = ''Grep'' \<or> name = ''Glob'' then Some Filter_Grep
      else if name = ''WebFetch'' then Some Filter_WebFetch
      else if name = ''WebSearch'' then Some Filter_WebSearch
      else None)"

text \<open>The number of backslashes just before position \<open>j\<close> (the loop of \<open>is_unescaped\<close>).\<close>

fun backslashes_before :: "string \<Rightarrow> nat \<Rightarrow> nat" where
  "backslashes_before bytes 0 = 0"
| "backslashes_before bytes (Suc j) =
     (if bytes ! j = bslash then Suc (backslashes_before bytes j) else 0)"

definition is_unescaped :: "string \<Rightarrow> nat \<Rightarrow> bool" where
  "is_unescaped bytes pos = even (backslashes_before bytes pos)"

definition find_first_unescaped :: "string \<Rightarrow> char \<Rightarrow> nat option" where
  "find_first_unescaped s target =
     find (\<lambda>i. s ! i = target \<and> is_unescaped s i) [0..<length s]"

definition find_last_unescaped :: "string \<Rightarrow> char \<Rightarrow> nat option" where
  "find_last_unescaped s target =
     find (\<lambda>i. s ! i = target \<and> is_unescaped s i) (rev [0..<length s])"

definition unescape_rule_content :: "string \<Rightarrow> string" where
  "unescape_rule_content s =
     (if bslash \<notin> set s then s
      else replace [bslash, bslash] [bslash]
             (replace [bslash, CHR '')''] '')''
               (replace [bslash, CHR ''(''] ''('' s)))"

definition strip_domain_prefix :: "string \<Rightarrow> string \<times> pattern_mode" where
  "strip_domain_prefix p =
     (case strip_prefix ''domain:'' p of
        Some d \<Rightarrow> (d, Mode_Domain)
      | None \<Rightarrow> (p, Mode_Glob))"

definition strip_bash_colon_wildcard :: "string \<Rightarrow> string" where
  "strip_bash_colon_wildcard p =
     (case strip_suffix '':*'' p of Some q \<Rightarrow> q | None \<Rightarrow> p)"

text \<open>The rule for a recognised tool and the trimmed text between the parentheses.\<close>

definition rule_of_content :: "rule_action \<Rightarrow> tool_filter \<Rightarrow> string \<Rightarrow> permission_rule" where
  "rule_of_content act flt raw_content =
     (let pat0 = (if raw_content = [] \<or> raw_content = ''*'' then []
                  else unescape_rule_content raw_content);
          pat1 = (if flt = Filter_Bash then strip_bash_colon_wildcard pat0 else pat0);
          (pat2, mode) = strip_domain_prefix pat1
      in \<lparr>action = act, tool = flt, pattern = (if pat2 = [] then None else Some pat2),
          pattern_mode_of = mode\<rparr>)"

definition parse_permission_rule ::
  "string \<Rightarrow> rule_action \<Rightarrow> rule_parse_error + permission_rule" where
  "parse_permission_rule rule0 act =
     (let rule = trim rule0 in
      case find_first_unescaped rule CHR ''('' of
        Some open_paren \<Rightarrow>
          (let prefix_trimmed = trim (take open_paren rule);
               content_and_close = drop (open_paren + 1) rule
           in case find_last_unescaped content_and_close CHR '')'' of
                None \<Rightarrow> Inl (MalformedRule ''missing closing parenthesis'')
              | Some close_paren \<Rightarrow>
                  (case tool_name_to_filter prefix_trimmed of
                     None \<Rightarrow>
                       (if prefix_trimmed = ''EnterWorktree''
                        then Inl (UnsupportedToolPrefix prefix_trimmed)
                        else Inl (UnknownToolPrefix prefix_trimmed))
                   | Some flt \<Rightarrow>
                       Inr (rule_of_content act flt (trim (take close_paren content_and_close)))))
      | None \<Rightarrow>
          (case tool_name_to_filter rule of
             Some flt \<Rightarrow> Inr \<lparr>action = act, tool = flt, pattern = None, pattern_mode_of = Mode_Glob\<rparr>
           | None \<Rightarrow> Inr \<lparr>action = act, tool = Filter_Any,
                        pattern = (if rule = [] then None else Some rule),
                        pattern_mode_of = Mode_Glob\<rparr>))"

section \<open>Escaping and its inverse\<close>

text \<open>
  The escaping that \<open>unescape_rule_content\<close> reverses: a backslash is doubled, a parenthesis
  gets a backslash in front.
\<close>

definition esc_char :: "char \<Rightarrow> string" where
  "esc_char x = (if x = bslash \<or> x = CHR ''('' \<or> x = CHR '')'' then [bslash, x] else [x])"

definition escape_rule_content :: "string \<Rightarrow> string" where
  "escape_rule_content s = concat (map esc_char s)"

definition esc_close :: "char \<Rightarrow> string" where
  "esc_close x = (if x = bslash \<or> x = CHR '')'' then [bslash, x] else [x])"

definition esc_bslash :: "char \<Rightarrow> string" where
  "esc_bslash x = (if x = bslash then [bslash, x] else [x])"

lemma esc_char_cases:
  "esc_char bslash = [bslash, bslash]" "esc_char CHR ''('' = [bslash, CHR ''('']"
  "esc_char CHR '')'' = [bslash, CHR '')'']"
  "x \<noteq> bslash \<Longrightarrow> x \<noteq> CHR ''('' \<Longrightarrow> x \<noteq> CHR '')'' \<Longrightarrow> esc_char x = [x]"
  by (simp_all add: esc_char_def)

lemma esc_close_cases:
  "esc_close bslash = [bslash, bslash]" "esc_close CHR '')'' = [bslash, CHR '')'']"
  "x \<noteq> bslash \<Longrightarrow> x \<noteq> CHR '')'' \<Longrightarrow> esc_close x = [x]"
  by (simp_all add: esc_close_def)

lemma esc_bslash_cases:
  "esc_bslash bslash = [bslash, bslash]" "x \<noteq> bslash \<Longrightarrow> esc_bslash x = [x]"
  by (simp_all add: esc_bslash_def)

lemma escape_simps [simp]:
  "escape_rule_content [] = []"
  "escape_rule_content (x # s) = esc_char x @ escape_rule_content s"
  "escape_rule_content (s @ s') = escape_rule_content s @ escape_rule_content s'"
  by (simp_all add: escape_rule_content_def)

lemma hd_escape: "concat (map esc_char s) = [] \<or> hd (concat (map esc_char s)) \<noteq> CHR ''(''"
  by (cases s) (auto simp: esc_char_def)

lemma hd_esc_close: "concat (map esc_close s) = [] \<or> hd (concat (map esc_close s)) \<noteq> CHR '')''"
  by (cases s) (auto simp: esc_close_def)

lemma replace_open:
  "replace [bslash, CHR ''(''] ''('' (concat (map esc_char s)) = concat (map esc_close s)"
proof (induction s)
  case (Cons x s)
  consider "x = bslash" | "x = CHR ''(''" | "x = CHR '')''"
    | "x \<noteq> bslash" "x \<noteq> CHR ''(''" "x \<noteq> CHR '')''" by blast
  then show ?case
    using Cons.IH replace_pair_skip [OF hd_escape]
    by cases (simp_all add: esc_char_cases esc_close_cases replace_pair replace_skip)
qed simp

lemma replace_close:
  "replace [bslash, CHR '')''] '')'' (concat (map esc_close s)) = concat (map esc_bslash s)"
proof (induction s)
  case (Cons x s)
  consider "x = bslash" | "x = CHR '')''" | "x \<noteq> bslash" "x \<noteq> CHR '')''" by blast
  then show ?case
    using Cons.IH replace_pair_skip [OF hd_esc_close]
    by cases (simp_all add: esc_close_cases esc_bslash_cases replace_pair replace_skip)
qed simp

lemma replace_bslash: "replace [bslash, bslash] [bslash] (concat (map esc_bslash s)) = s"
  by (induction s) (auto simp: esc_bslash_def replace_pair replace_skip)

lemma escape_plain: "bslash \<notin> set (escape_rule_content s) \<Longrightarrow> escape_rule_content s = s"
  by (induction s) (auto simp: esc_char_def split: if_splits)

lemma unescape_escape: "unescape_rule_content (escape_rule_content s) = s"
proof (cases "bslash \<in> set (escape_rule_content s)")
  case True
  then show ?thesis
    by (simp add: unescape_rule_content_def escape_rule_content_def
        replace_open replace_close replace_bslash)
next
  case False
  then have "bslash \<notin> set s" using escape_plain [of s] by simp
  with False show ?thesis by (simp add: unescape_rule_content_def escape_plain)
qed

lemma escape_eq_Nil [simp]: "escape_rule_content s = [] \<longleftrightarrow> s = []"
  by (cases s) (auto simp: esc_char_def)

lemma escape_eq_star: "escape_rule_content s = ''*'' \<Longrightarrow> s = ''*''"
  using unescape_escape [of s] by (simp add: unescape_rule_content_def)

section \<open>Locating the parentheses\<close>

lemma backslashes_before_run:
  "j \<le> length s \<Longrightarrow>
     backslashes_before s j = length (takeWhile (\<lambda>c. c = bslash) (rev (take j s)))"
  by (induction j) (auto simp: take_Suc_conv_app_nth)

lemma even_run_escape:
  "even (length (takeWhile (\<lambda>c. c = bslash) (rev (escape_rule_content s))))"
  by (induction s rule: rev_induct) (auto simp: esc_char_def)

lemma find_last_unescaped_close:
  "find_last_unescaped (escape_rule_content c @ '')'') CHR '')'' = Some (length (escape_rule_content c))"
proof -
  let ?e = "escape_rule_content c"
  have "is_unescaped (?e @ '')'') (length ?e)"
    by (simp add: is_unescaped_def backslashes_before_run even_run_escape)
  then show ?thesis
    unfolding find_last_unescaped_def
    using find_rev_upt_last [of "\<lambda>i. (?e @ '')'') ! i = CHR '')'' \<and> is_unescaped (?e @ '')'') i"]
    by simp
qed

lemma find_first_unescaped_open:
  assumes "CHR ''('' \<notin> set name" "bslash \<notin> set name"
  shows "find_first_unescaped (name @ ''('' @ s) CHR ''('' = Some (length name)"
proof -
  let ?r = "name @ ''('' @ s"
  have "takeWhile (\<lambda>c. c = bslash) (rev name) = []"
    using assms(2) by (cases name rule: rev_cases) auto
  then have "is_unescaped ?r (length name)"
    by (simp add: is_unescaped_def backslashes_before_run)
  moreover have "\<And>j. j < length name \<Longrightarrow> ?r ! j \<noteq> CHR ''(''"
    using assms(1) by (auto simp: nth_append) (metis nth_mem)
  ultimately show ?thesis
    unfolding find_first_unescaped_def by (intro find_upt_first) auto
qed

lemma tool_name_cases:
  assumes "tool_name_to_filter name = Some flt"
  shows "name \<in> {''Bash'', ''Read'', ''NotebookRead'', ''Edit'', ''Write'', ''NotebookEdit'',
    ''MCPTool'', ''Grep'', ''Glob'', ''WebFetch'', ''WebSearch''}"
  using assms unfolding tool_name_to_filter_def by (auto split: if_split_asm)

lemma plain_letters:
  "c \<in> set ''BRNEWMGhdtebpl'' \<Longrightarrow> \<not> ascii_ws c \<and> (of_char c :: nat) < 128"
  by (auto simp: ascii_ws_def Let_def)

lemma tool_name_plain:
  assumes "tool_name_to_filter name = Some flt"
  shows "CHR ''('' \<notin> set name" "bslash \<notin> set name"
    "\<exists>a n b. name = a # n @ [b] \<and> {a, b} \<subseteq> set ''BRNEWMGhdtebpl''"
  using tool_name_cases [OF assms]
  by (auto simp: Cons_eq_append_conv append_eq_Cons_conv)

lemma trim_tool_name:
  assumes "tool_name_to_filter name = Some flt"
  shows "trim name = name" "trim (name @ s @ '')'') = name @ s @ '')''"
proof -
  obtain a n b where n: "name = a # n @ [b]" and ab: "{a, b} \<subseteq> set ''BRNEWMGhdtebpl''"
    using tool_name_plain(3) [OF assms] by blast
  have *: "\<not> ascii_ws CHR '')''" "(of_char CHR '')'' :: nat) < 128"
    by (simp_all add: ascii_ws_def)
  show "trim name = name"
    using n ab plain_letters [of a] plain_letters [of b] trim_plain [of a b n] by simp
  show "trim (name @ s @ '')'') = name @ s @ '')''"
    using n ab plain_letters [of a] trim_plain [of a "CHR '')''" "n @ b # s"] * by simp
qed

section \<open>Properties\<close>

text \<open>
  The rule strings that the documentation of the parser describes, with the rules they stand for:
  the name of a tool alone, with nothing or with \<open>*\<close> in parentheses; a pattern with its
  backslashes and parentheses escaped; the prefix idiom of \<open>Bash\<close>; the domains of \<open>WebFetch\<close>.
\<close>

abbreviation named_rule :: "string \<Rightarrow> string \<Rightarrow> string" where
  "named_rule name content \<equiv> name @ ''('' @ escape_rule_content content @ '')''"

abbreviation rule_for :: "rule_action \<Rightarrow> tool_filter \<Rightarrow> string option \<Rightarrow> pattern_mode \<Rightarrow> permission_rule" where
  "rule_for act flt pat mode \<equiv> \<lparr>action = act, tool = flt, pattern = pat, pattern_mode_of = mode\<rparr>"

definition no_outer_space :: "string \<Rightarrow> bool" where
  "no_outer_space c \<longleftrightarrow> trim (escape_rule_content c) = escape_rule_content c"

inductive spells :: "rule_action \<Rightarrow> string \<Rightarrow> permission_rule \<Rightarrow> bool" for act where
  spells_bare: "tool_name_to_filter name = Some flt \<Longrightarrow> spells act name (rule_for act flt None Mode_Glob)"
| spells_all: "tool_name_to_filter name = Some flt \<Longrightarrow> c = [] \<or> c = ''*'' \<Longrightarrow>
    spells act (named_rule name c) (rule_for act flt None Mode_Glob)"
| spells_pattern: "tool_name_to_filter name = Some flt \<Longrightarrow> p \<noteq> [] \<Longrightarrow> p \<noteq> ''*'' \<Longrightarrow> no_outer_space p \<Longrightarrow>
    \<not> prefix ''domain:'' p \<Longrightarrow> flt = Filter_Bash \<longrightarrow> \<not> suffix '':*'' p \<Longrightarrow>
    spells act (named_rule name p) (rule_for act flt (Some p) Mode_Glob)"
| spells_bash_prefix: "p \<noteq> [] \<Longrightarrow> no_outer_space (p @ '':*'') \<Longrightarrow> \<not> prefix ''domain:'' p \<Longrightarrow>
    spells act (named_rule ''Bash'' (p @ '':*'')) (rule_for act Filter_Bash (Some p) Mode_Glob)"
| spells_domain: "d \<noteq> [] \<Longrightarrow> no_outer_space (''domain:'' @ d) \<Longrightarrow>
    spells act (named_rule ''WebFetch'' (''domain:'' @ d)) (rule_for act Filter_WebFetch (Some d) Mode_Domain)"

lemma parse_named_rule:
  assumes "tool_name_to_filter name = Some flt" "no_outer_space c"
  shows "parse_permission_rule (named_rule name c) act = Inr (rule_of_content act flt (escape_rule_content c))"
proof -
  have t: "trim (named_rule name c) = named_rule name c"
    using trim_tool_name(2) [OF assms(1), of "''('' @ escape_rule_content c"] by simp
  have f: "find_first_unescaped (named_rule name c) CHR ''('' = Some (length name)"
    by (rule find_first_unescaped_open [OF tool_name_plain(1,2) [OF assms(1)]])
  show ?thesis
    using assms t f find_last_unescaped_close [of c] trim_tool_name(1) [OF assms(1)]
    by (simp add: parse_permission_rule_def no_outer_space_def)
qed

lemma rule_of_escaped:
  assumes "c \<noteq> []" "c \<noteq> ''*''"
  shows "rule_of_content act flt (escape_rule_content c) =
    (let p = (if flt = Filter_Bash then strip_bash_colon_wildcard c else c); (q, m) = strip_domain_prefix p
     in rule_for act flt (if q = [] then None else Some q) m)"
proof -
  have "escape_rule_content c \<noteq> ''*''" using assms(2) escape_eq_star by blast
  with assms(1) show ?thesis by (simp add: rule_of_content_def unescape_escape)
qed

lemma parse_bare_name:
  assumes "tool_name_to_filter name = Some flt"
  shows "parse_permission_rule name act = Inr (rule_for act flt None Mode_Glob)"
proof -
  have "find_first_unescaped name CHR ''('' = None"
    using tool_name_plain(1) [OF assms] unfolding find_first_unescaped_def
    by (auto simp: find_None_iff in_set_conv_nth)
  with assms show ?thesis by (simp add: parse_permission_rule_def trim_tool_name(1) [OF assms])
qed



text \<open>The documentation gives the prefix \<open>domain:\<close> to \<open>WebFetch\<close> only; the parser takes it off for every tool.\<close>

lemma domain_prefix_of_any_tool:
  "parse_permission_rule ''Read(domain:x)'' Act_Deny = Inr (rule_for Act_Deny Filter_Read (Some ''x'') Mode_Domain)"
  by code_simp

text \<open>
  Which rule strings are refused: the parser answers a rule exactly when the trimmed string
  has no unescaped opening parenthesis, or when an unescaped closing parenthesis follows it
  and the trimmed text before it is a recognised tool name. In particular a rule whose
  parenthesis is never closed, or that names an unknown tool, is an error and never becomes a
  catch-all rule.
\<close>

theorem parse_rule_ok_iff:
  "(\<exists>rule. parse_permission_rule r act = Inr rule) \<longleftrightarrow>
     (case find_first_unescaped (trim r) CHR ''('' of
        None \<Rightarrow> True
      | Some i \<Rightarrow> find_last_unescaped (drop (i + 1) (trim r)) CHR '')'' \<noteq> None
          \<and> tool_name_to_filter (trim (take i (trim r))) \<noteq> None)"
proof (cases "find_first_unescaped (trim r) CHR ''(''")
  case None
  then show ?thesis
    by (cases "tool_name_to_filter (trim r)") (simp_all add: parse_permission_rule_def Let_def)
next
  case (Some i)
  then show ?thesis
    by (cases "find_last_unescaped (drop (i + 1) (trim r)) CHR '')''";
        cases "tool_name_to_filter (trim (take i (trim r)))")
      (simp_all add: parse_permission_rule_def Let_def)
qed

end
