(* ===== verification/Bash_Tree.thy ===== *)
theory Bash_Tree
  imports Rust_Str "HOL-Library.Product_Lexorder" "HOL-Library.Multiset"
begin

text \<open>
  The part of \<open>gbuild-workspace/src/permission/bash_command_splitting.rs\<close> that reads a parsed
  Bash script: the decomposition of a script into plain word-only commands, the primary
  command and its highlights, and the display soft breaks. The grammar (tree-sitter-bash) is
  not part of the repository: the parser is the argument \<open>parse\<close>, which answers a syntax
  tree or \<open>None\<close>. A tree carries what the node interface offers: kind, named flag, byte
  span, error flag, the field name under which its parent holds it, children.
\<close>

datatype ts_node = TsNode
  (ts_kind: string)
  (ts_named: bool)
  (ts_start: nat)
  (ts_end: nat)
  (ts_has_error: bool)
  (ts_field: "string option")
  (ts_children: "ts_node list")

definition ts_named_children :: "ts_node \<Rightarrow> ts_node list" where
  "ts_named_children n = filter ts_named (ts_children n)"

text \<open>\<open>node.child_by_field_name(name)\<close>: the first child that the grammar labels so.\<close>

definition child_by_field_name :: "ts_node \<Rightarrow> string \<Rightarrow> ts_node option" where
  "child_by_field_name n name = find (\<lambda>c. ts_field c = Some name) (ts_children n)"

text \<open>
  \<open>node.utf8_text(src)\<close>: the bytes of the node's span, an error where they are not UTF-8. The
  span of a node lies inside the source it was parsed from.
\<close>

definition utf8_text :: "ts_node \<Rightarrow> string \<Rightarrow> string option" where
  "utf8_text n src =
     (let b = take (ts_end n - ts_start n) (drop (ts_start n) src)
      in if utf8_valid b then Some b else None)"

fun node_count :: "ts_node \<Rightarrow> nat" where
  "node_count (TsNode k m s e h f cs) = Suc (sum_list (map node_count cs))"

lemma node_count_children:
  "sum_list (map node_count (ts_children n)) < node_count n"
  by (cases n) simp

text \<open>All nodes of a tree, parents before children.\<close>

fun ts_nodes :: "ts_node \<Rightarrow> ts_node list" where
  "ts_nodes (TsNode k m s e h f cs) = TsNode k m s e h f cs # concat (map ts_nodes cs)"

lemma ts_nodes_unfold: "ts_nodes n = n # concat (map ts_nodes (ts_children n))"
  by (cases n) simp

section \<open>Decomposing a script into plain commands\<close>

record plain_command =
  words :: "string list"
  span_start :: nat
  span_end :: nat

definition ALLOWED_KINDS :: "string list" where
  "ALLOWED_KINDS =
    [''program'', ''list'', ''pipeline'',
     ''command'', ''command_name'', ''word'', ''string'', ''string_content'', ''raw_string'',
     ''number'', ''concatenation'',
     ''variable_assignment'', ''variable_name'',
     ''redirected_statement'', ''file_redirect'', ''file_descriptor'',
     ''comment'',
     ''heredoc_redirect'', ''heredoc_start'', ''heredoc_body'', ''heredoc_content'',
     ''heredoc_end'']"

definition ALLOWED_PUNCT_TOKENS :: "string list" where
  "ALLOWED_PUNCT_TOKENS =
    [''&&'', ''||'', '';'', ''|'', [dquote], [squote], ''='', ''>'', ''>>'', ''<'', ''<<'',
     ''>&'', ''&>'', ''&>>'']"

text \<open>The checks the walk makes at one node.\<close>

definition node_allowed :: "ts_node \<Rightarrow> bool" where
  "node_allowed n =
     (if ts_named n then ts_kind n \<in> set ALLOWED_KINDS
      else \<not> (list_ex (\<lambda>c. c \<in> set ''&;|'') (ts_kind n)
              \<and> ts_kind n \<notin> set ALLOWED_PUNCT_TOKENS)
           \<and> (ts_kind n \<in> set ALLOWED_PUNCT_TOKENS \<or> trim (ts_kind n) = []))"

definition is_command_node :: "ts_node \<Rightarrow> bool" where
  "is_command_node n \<longleftrightarrow> ts_named n \<and> ts_kind n = ''command''"

text \<open>
  The walk keeps a stack whose head is its top; the children of a node are pushed in order,
  so the last one is visited first. The command nodes are collected in visiting order.
\<close>

function (sequential) walk :: "ts_node list \<Rightarrow> ts_node list \<Rightarrow> ts_node list option" where
  "walk [] acc = Some acc"
| "walk (n # stack) acc =
     (if node_allowed n
      then walk (rev (ts_children n) @ stack) (if is_command_node n then acc @ [n] else acc)
      else None)"
  by pat_completeness auto
termination
proof (relation "measure (\<lambda>(stack, acc). sum_list (map node_count stack))")
  fix n stack acc
  assume "node_allowed n"
  show "((rev (ts_children n) @ stack, if is_command_node n then acc @ [n] else acc), n # stack, acc)
     \<in> measure (\<lambda>(stack, acc). sum_list (map node_count stack))"
    using node_count_children [of n] by (simp add: rev_map [symmetric])
qed simp

text \<open>
  One child of a command node: the word it contributes with the span it covers, nothing for an
  assignment, or \<open>None\<close> for a construct that is not a plain word.
\<close>

definition child_word ::
  "string \<Rightarrow> ts_node \<Rightarrow> (string \<times> nat \<times> nat) option option" where
  "child_word src child =
     (if ts_kind child = ''variable_assignment'' then Some None
      else if ts_kind child = ''command_name'' then
        (case ts_named_children child of
           [] \<Rightarrow> None
         | word_node # _ \<Rightarrow>
             if ts_kind word_node \<noteq> ''word'' then None
             else map_option (\<lambda>text. Some (text, ts_start word_node, ts_end word_node))
                    (utf8_text word_node src))
      else if ts_kind child = ''word'' \<or> ts_kind child = ''number'' then
        map_option (\<lambda>text. Some (text, ts_start child, ts_end child)) (utf8_text child src)
      else if ts_kind child = ''string'' then
        (case ts_children child of
           [q1, content_node, q2] \<Rightarrow>
             if ts_kind q1 = [dquote] \<and> ts_kind content_node = ''string_content''
                \<and> ts_kind q2 = [dquote]
             then map_option (\<lambda>text. Some (text, ts_start child, ts_end child))
                    (utf8_text content_node src)
             else None
         | _ \<Rightarrow> None)
      else if ts_kind child = ''raw_string'' then
        (case utf8_text child src of
           None \<Rightarrow> None
         | Some raw \<Rightarrow>
             map_option (\<lambda>s. Some (s, ts_start child, ts_end child))
               (Option.bind (strip_prefix [squote] raw) (strip_suffix [squote])))
      else if ts_kind child = ''concatenation'' then
        map_option (\<lambda>text. Some (text, ts_start child, ts_end child)) (utf8_text child src)
      else None)"

fun parse_children ::
  "string \<Rightarrow> ts_node list \<Rightarrow> string list \<Rightarrow> nat option \<Rightarrow> nat option
     \<Rightarrow> (string list \<times> nat option \<times> nat option) option" where
  "parse_children src [] ws ss se = Some (ws, ss, se)"
| "parse_children src (c # cs) ws ss se =
     (case child_word src c of
        None \<Rightarrow> None
      | Some None \<Rightarrow> parse_children src cs ws ss se
      | Some (Some (w, a, b)) \<Rightarrow>
          parse_children src cs (ws @ [w]) (if ss = None then Some a else ss) (Some b))"

definition parse_plain_command_from_node :: "ts_node \<Rightarrow> string \<Rightarrow> plain_command option" where
  "parse_plain_command_from_node cmd src =
     (if ts_kind cmd \<noteq> ''command'' then None
      else case parse_children src (ts_named_children cmd) [] None None of
             None \<Rightarrow> None
           | Some (ws, ss, se) \<Rightarrow>
               Some \<lparr>words = ws,
                     span_start = (case ss of Some a \<Rightarrow> a | None \<Rightarrow> ts_start cmd),
                     span_end = (case se of Some b \<Rightarrow> b | None \<Rightarrow> ts_end cmd)\<rparr>)"

definition try_parse_word_only_commands_sequence ::
  "ts_node \<Rightarrow> string \<Rightarrow> plain_command list option" where
  "try_parse_word_only_commands_sequence tree src =
     (if ts_has_error tree then None
      else case walk [tree] [] of
             None \<Rightarrow> None
           | Some command_nodes \<Rightarrow>
               traverse (\<lambda>n. parse_plain_command_from_node n src)
                 (sort_key ts_start command_nodes))"

definition all_commands_from_script ::
  "(string \<Rightarrow> ts_node option) \<Rightarrow> string \<Rightarrow> plain_command list option" where
  "all_commands_from_script parse script =
     (case parse script of
        None \<Rightarrow> None
      | Some tree \<Rightarrow> try_parse_word_only_commands_sequence tree script)"

section \<open>The primary command\<close>

definition is_setup_command :: "string list \<Rightarrow> bool" where
  "is_setup_command cmd =
     (case cmd of
        [] \<Rightarrow> True
      | w # _ \<Rightarrow> w \<in> set [''cd'', ''pushd'', ''popd'', ''export'', ''unset'', ''set'', ''sleep'',
                   ''timeout''])"

text \<open>The splitter's loop over characters; a backslash takes the next character literally.\<close>

fun sh_split_loop ::
  "string list \<Rightarrow> string list \<Rightarrow> string \<Rightarrow> bool \<Rightarrow> bool \<Rightarrow> string list" where
  "sh_split_loop [] result current in_single in_double =
     (if current \<noteq> [] then result @ [current] else result)"
| "sh_split_loop (c # cs) result current in_single in_double =
     (if c = [squote] \<and> \<not> in_double
        then sh_split_loop cs result current (\<not> in_single) in_double
      else if c = [dquote] \<and> \<not> in_single
        then sh_split_loop cs result current in_single (\<not> in_double)
      else if c = [bslash]
        then (case cs of
                [] \<Rightarrow> sh_split_loop [] result current in_single in_double
              | next # cs' \<Rightarrow> sh_split_loop cs' result (current @ next) in_single in_double)
      else if is_whitespace c \<and> \<not> in_single \<and> \<not> in_double
        then (if current \<noteq> [] then sh_split_loop cs (result @ [current]) [] in_single in_double
              else sh_split_loop cs result current in_single in_double)
      else sh_split_loop cs result (current @ c) in_single in_double)"

definition sh_split_simple :: "string \<Rightarrow> string list" where
  "sh_split_simple s = sh_split_loop (chars s) [] [] False False"

record bash_command_highlights =
  hl_prefix :: "string list"
  highlighted_words :: "string list"
  hl_suffix :: "string list"

definition primary_command_from_script ::
  "(string \<Rightarrow> ts_node option) \<Rightarrow> string \<Rightarrow> bash_command_highlights option" where
  "primary_command_from_script parse script =
     (case parse script of
        None \<Rightarrow> None
      | Some tree \<Rightarrow>
          (case try_parse_word_only_commands_sequence tree script of
             None \<Rightarrow> None
           | Some commands \<Rightarrow>
               (case find (\<lambda>c. \<not> is_setup_command (words c)) commands of
                  None \<Rightarrow> None
                | Some primary \<Rightarrow>
                    Some \<lparr>hl_prefix = sh_split_simple (take (span_start primary) script),
                          highlighted_words = words primary,
                          hl_suffix = sh_split_simple (drop (span_end primary) script)\<rparr>)))"

section \<open>Display soft breaks\<close>

definition PAYLOAD_NODE_KINDS :: "string list" where
  "PAYLOAD_NODE_KINDS =
    [''heredoc_body'', ''simple_heredoc_body'', ''heredoc_content'', ''heredoc_end'',
     ''string'', ''raw_string'', ''string_content'', ''ansi_c_string'', ''translated_string'',
     ''comment'']"

definition is_soft_break_operator_kind :: "string \<Rightarrow> bool" where
  "is_soft_break_operator_kind kind \<longleftrightarrow> kind \<in> set [''&&'', ''||'', ''|'', '';'']"

definition is_payload_node_kind :: "string \<Rightarrow> bool" where
  "is_payload_node_kind kind \<longleftrightarrow> kind \<in> set PAYLOAD_NODE_KINDS"

function (sequential) collect_breaks :: "string \<Rightarrow> ts_node list \<Rightarrow> nat list \<Rightarrow> nat list" where
  "collect_breaks script [] breaks = breaks"
| "collect_breaks script (n # stack) breaks =
     (if is_payload_node_kind (ts_kind n) then collect_breaks script stack breaks
      else collect_breaks script (ts_children n @ stack)
             (if is_soft_break_operator_kind (ts_kind n)
                 \<and> 0 < ts_end n \<and> ts_end n \<le> length script \<and> is_char_boundary script (ts_end n)
              then breaks @ [ts_end n] else breaks))"
  by pat_completeness auto
termination
proof (relation "measure (\<lambda>(script, stack, breaks). sum_list (map node_count stack))")
  fix script :: string and n stack and breaks :: "nat list"
  show "((script, stack, breaks), script, n # stack, breaks)
     \<in> measure (\<lambda>(script, stack, breaks). sum_list (map node_count stack))"
    using node_count_children [of n] by simp
  fix bs :: "nat list"
  show "((script, ts_children n @ stack, bs), script, n # stack, breaks)
     \<in> measure (\<lambda>(script, stack, breaks). sum_list (map node_count stack))"
    using node_count_children [of n] by simp
qed simp

definition soft_break_offsets_after_operators ::
  "(string \<Rightarrow> ts_node option) \<Rightarrow> string \<Rightarrow> nat list" where
  "soft_break_offsets_after_operators parse script =
     (case parse script of
        None \<Rightarrow> []
      | Some root \<Rightarrow>
          if ts_has_error root then []
          else remdups_adj (sort (collect_breaks script [root] [])))"

definition HEREDOC_PAYLOAD :: "string list" where
  "HEREDOC_PAYLOAD = [''heredoc_body'', ''simple_heredoc_body'', ''heredoc_content'']"

function (sequential) collect_ranges ::
  "string \<Rightarrow> ts_node list \<Rightarrow> (nat \<times> nat) list \<Rightarrow> (nat \<times> nat) list" where
  "collect_ranges script [] ranges = ranges"
| "collect_ranges script (n # stack) ranges =
     (if ts_kind n \<in> set HEREDOC_PAYLOAD
      then collect_ranges script stack
             (if ts_start n < ts_end n \<and> ts_end n \<le> length script
              then ranges @ [(ts_start n, ts_end n)] else ranges)
      else collect_ranges script (ts_children n @ stack) ranges)"
  by pat_completeness auto
termination
proof (relation "measure (\<lambda>(script, stack, ranges). sum_list (map node_count stack))")
  fix script :: string and n stack and ranges rs :: "(nat \<times> nat) list"
  show "((script, ts_children n @ stack, ranges), script, n # stack, ranges)
     \<in> measure (\<lambda>(script, stack, ranges). sum_list (map node_count stack))"
    using node_count_children [of n] by simp
  show "((script, stack, rs), script, n # stack, ranges)
     \<in> measure (\<lambda>(script, stack, ranges). sum_list (map node_count stack))"
    using node_count_children [of n] by simp
qed simp

definition heredoc_payload_byte_ranges ::
  "(string \<Rightarrow> ts_node option) \<Rightarrow> string \<Rightarrow> (nat \<times> nat) list" where
  "heredoc_payload_byte_ranges parse script =
     (case parse script of
        None \<Rightarrow> []
      | Some root \<Rightarrow>
          if ts_has_error root then []
          else remdups_adj (sort (collect_ranges script [root] [])))"

definition range_fully_inside :: "nat \<Rightarrow> nat \<Rightarrow> (nat \<times> nat) list \<Rightarrow> bool" where
  "range_fully_inside start stop ranges =
     (if stop < start then False
      else list_ex (\<lambda>(rs, re). start \<ge> rs \<and> stop \<le> re) ranges)"

text \<open>
  The cutting loop shared by the two chunk functions: at each offset past the current start
  and within the text a chunk ends; what is left over is the last chunk. (The offsets of
  \<open>split_physical_line_at_soft_breaks\<close> are all inside the line, so it needs no upper guard.)
\<close>

fun cut_loop :: "string \<Rightarrow> nat list \<Rightarrow> nat \<Rightarrow> string list \<Rightarrow> string list \<times> nat" where
  "cut_loop src [] start chunks = (chunks, start)"
| "cut_loop src (b # bs) start chunks =
     (if b > start \<and> b \<le> length src
      then cut_loop src bs b (chunks @ [take (b - start) (drop start src)])
      else cut_loop src bs start chunks)"

definition split_physical_line_at_soft_breaks ::
  "string \<Rightarrow> nat \<Rightarrow> nat list \<Rightarrow> string list" where
  "split_physical_line_at_soft_breaks line line_start breaks =
     (let line_end = line_start + length line;
          rel = remdups_adj
                  (filter (is_char_boundary line)
                    (map (\<lambda>b. b - line_start)
                      (filter (\<lambda>b. b > line_start \<and> b < line_end) breaks)))
      in if rel = [] then [line]
         else let (chunks, start) = cut_loop line rel 0 [];
                  chunks' = (if start < length line then chunks @ [drop start line] else chunks)
              in if chunks' = [] then [line] else chunks')"

definition soft_break_chunks :: "(string \<Rightarrow> ts_node option) \<Rightarrow> string \<Rightarrow> string list" where
  "soft_break_chunks parse script =
     (let breaks = soft_break_offsets_after_operators parse script
      in if breaks = [] then [script]
         else let (out, start) = cut_loop script breaks 0 []
              in if start < length script then out @ [drop start script] else out)"

section \<open>The walk visits every node\<close>

lemma walk_Some_iff:
  "walk stack acc = Some r \<Longrightarrow>
     list_all node_allowed (concat (map ts_nodes stack))
     \<and> mset r = mset acc + mset (filter is_command_node (concat (map ts_nodes stack)))"
proof (induction stack acc arbitrary: r rule: walk.induct)
  case (1 acc)
  then show ?case by simp
next
  case (2 n stack acc)
  from "2.prems" have ok: "node_allowed n"
    and r: "walk (rev (ts_children n) @ stack) (if is_command_node n then acc @ [n] else acc) = Some r"
    by (auto split: if_splits)
  from "2.IH" [OF ok r] have
    all: "list_all node_allowed (concat (map ts_nodes (rev (ts_children n) @ stack)))" and
    ms: "mset r = mset (if is_command_node n then acc @ [n] else acc)
         + mset (filter is_command_node (concat (map ts_nodes (rev (ts_children n) @ stack))))"
    by auto
  have rev_ms: "mset (concat (map ts_nodes (rev cs))) = mset (concat (map ts_nodes cs))" for cs
    by (induction cs) simp_all
  show ?case
    using ok all ms by (auto simp: ts_nodes_unfold [of n] list_all_iff rev_ms)
qed

lemma walk_None_iff:
  "walk stack acc = None \<Longrightarrow> \<not> list_all node_allowed (concat (map ts_nodes stack))"
proof (induction stack acc rule: walk.induct)
  case (2 n stack acc)
  show ?case
  proof (cases "node_allowed n")
    case True
    with 2 have "\<not> list_all node_allowed (concat (map ts_nodes (rev (ts_children n) @ stack)))"
      by simp
    then show ?thesis by (auto simp: ts_nodes_unfold [of n] list_all_iff)
  next
    case False
    then show ?thesis by (simp add: ts_nodes_unfold [of n])
  qed
qed simp

lemma walk_root:
  "(\<exists>r. walk [t] [] = Some r) \<longleftrightarrow> list_all node_allowed (ts_nodes t)"
  using walk_Some_iff [of "[t]" "[]"] walk_None_iff [of "[t]" "[]"] by (cases "walk [t] []") auto

lemma sorted_by_start:
  assumes "list_all2 (\<lambda>n c. f n = Some c) ns cs"
  shows "length cs = length ns" "\<And>n. n \<in> set ns \<Longrightarrow> \<exists>c \<in> set cs. f n = Some c"
    "\<And>c. c \<in> set cs \<Longrightarrow> \<exists>n \<in> set ns. f n = Some c"
  using assms by (auto simp: list_all2_conv_all_nth in_set_conv_nth) (metis nth_mem)+

text \<open>
  Decomposition is all or nothing: a script is decomposed into plain commands only if the
  parse has no error, every node of its syntax tree (however deep) is of an allowed kind, and
  every command node of the tree is a plain word-only command; the answer then has exactly one
  entry per command node of the tree, and each entry is the reading of a command node. No
  command of the script is left out of what the permission gates examine.
\<close>

theorem commands_sequence_complete:
  assumes "try_parse_word_only_commands_sequence tree src = Some cmds"
  shows "\<not> ts_has_error tree \<and> list_all node_allowed (ts_nodes tree)
    \<and> length cmds = length (filter is_command_node (ts_nodes tree))
    \<and> (\<forall>n. n \<in> set (ts_nodes tree) \<and> is_command_node n \<longrightarrow>
          (\<exists>c \<in> set cmds. parse_plain_command_from_node n src = Some c))
    \<and> (\<forall>c. c \<in> set cmds \<longrightarrow>
          (\<exists>n \<in> set (ts_nodes tree). is_command_node n \<and> parse_plain_command_from_node n src = Some c))"
proof -
  from assms obtain ns where e: "\<not> ts_has_error tree" and w: "walk [tree] [] = Some ns"
    and t: "list_all2 (\<lambda>n c. parse_plain_command_from_node n src = Some c) (sort_key ts_start ns) cmds"
    by (auto simp: try_parse_word_only_commands_sequence_def traverse_Some
        split: if_splits option.splits)
  from walk_Some_iff [OF w] have all: "list_all node_allowed (ts_nodes tree)"
    and ms: "mset ns = mset (filter is_command_node (ts_nodes tree))" by auto
  then have "set ns = set (filter is_command_node (ts_nodes tree))"
    and "length ns = length (filter is_command_node (ts_nodes tree))"
    by (metis set_mset_mset, metis size_mset)
  then show ?thesis
    using e all sorted_by_start(1) [OF t] sorted_by_start(2,3) [OF t] by auto blast
qed

text \<open>The tree of \<open>ls && rm x\<close>, with its spans in the source.\<close>

definition ls_rm_src :: string where
  "ls_rm_src = ''ls && rm x''"

definition ls_rm_tree :: ts_node where
  "ls_rm_tree =
     TsNode ''program'' True 0 10 False None
      [TsNode ''list'' True 0 10 False None
        [TsNode ''command'' True 0 2 False None
           [TsNode ''command_name'' True 0 2 False (Some ''name'') [TsNode ''word'' True 0 2 False None []]],
         TsNode ''&&'' False 3 5 False None [],
         TsNode ''command'' True 6 10 False None
           [TsNode ''command_name'' True 6 8 False (Some ''name'') [TsNode ''word'' True 6 8 False None []],
            TsNode ''word'' True 9 10 False None []]]]"

lemma ls_rm_parse:
  "try_parse_word_only_commands_sequence ls_rm_tree ls_rm_src =
     Some [\<lparr>words = [''ls''], span_start = 0, span_end = 2\<rparr>,
           \<lparr>words = [''rm'', ''x''], span_start = 6, span_end = 10\<rparr>]"
  by code_simp

theorem commands_sequence_complete_witness:
  "list_all node_allowed (ts_nodes ls_rm_tree)
   \<and> length (filter is_command_node (ts_nodes ls_rm_tree)) = 2"
  using commands_sequence_complete [OF ls_rm_parse] by simp

section \<open>Chunks put back together\<close>

lemma cut_loop_concat:
  assumes "cut_loop src bs start chunks = (out, stop)" and "start \<le> length src"
    and "concat chunks = take start src"
  shows "stop \<le> length src" "concat out = take stop src"
proof -
  have "stop \<le> length src \<and> concat out = take stop src"
    using assms
  proof (induction src bs start chunks rule: cut_loop.induct)
    case (2 src b bs start chunks)
    show ?case
    proof (cases "b > start \<and> b \<le> length src")
      case True
      then have "take start src @ take (b - start) (drop start src) = take b src"
        by (metis le_add_diff_inverse less_imp_le_nat take_add)
      with True 2 show ?thesis by simp
    next
      case False
      with 2 show ?thesis by simp
    qed
  qed simp
  then show "stop \<le> length src" "concat out = take stop src" by simp_all
qed

lemma cut_loop_nonempty:
  assumes "cut_loop src bs start chunks = (out, stop)" and "[] \<notin> set chunks"
  shows "[] \<notin> set out"
  using assms by (induction src bs start chunks rule: cut_loop.induct) (auto split: if_splits)

text \<open>
  The display soft breaks lose nothing: whatever the offsets (sorted or not), the pieces a
  physical line is cut into are, put back together, the line itself, and a piece is empty
  exactly when the line is.
\<close>

theorem split_line_concat:
  "concat (split_physical_line_at_soft_breaks line line_start breaks) = line
   \<and> ([] \<in> set (split_physical_line_at_soft_breaks line line_start breaks) \<longleftrightarrow> line = [])"
proof -
  define rel where "rel = remdups_adj (filter (is_char_boundary line)
      (map (\<lambda>b. b - line_start) (filter (\<lambda>b. b > line_start \<and> b < line_start + length line) breaks)))"
  obtain chunks at where c: "cut_loop line rel 0 [] = (chunks, at)"
    by (cases "cut_loop line rel 0 []")
  note facts = cut_loop_concat [OF c] cut_loop_nonempty [OF c]
  show ?thesis
    using c facts
    by (auto simp: split_physical_line_at_soft_breaks_def Let_def rel_def [symmetric])
qed

text \<open>
  The chunks of a whole script likewise concatenate to the script, for every parser.
\<close>

theorem soft_break_chunks_concat: "concat (soft_break_chunks parse script) = script"
proof -
  obtain out at where
    c: "cut_loop script (soft_break_offsets_after_operators parse script) 0 [] = (out, at)"
    by (cases "cut_loop script (soft_break_offsets_after_operators parse script) 0 []")
  show ?thesis
    using c cut_loop_concat [OF c] by (auto simp: soft_break_chunks_def Let_def)
qed

end
