(* ===== verification/Command_Peel.thy ===== *)
theory Command_Peel
  imports Rust_Str
begin

text \<open>
  The command normaliser of
  \<open>gbuild-workspace/src/permission/bash_command_splitting.rs\<close>: the option scanner for
  \<open>env\<close>, the canonical wrappers (\<open>timeout\<close>, \<open>nice\<close>, \<open>ionice\<close>, \<open>chrt\<close>, \<open>stdbuf\<close>,
  \<open>env\<close>), the shell-transparent prefixes (\<open>exec\<close>, \<open>command\<close>, \<open>builtin\<close>), and the bounded
  alternation of the two that the security gates call. A command is the list of its words;
  the sub-slices the source returns are suffixes of that list.
\<close>

section \<open>Scanning the options of env\<close>

definition ascii_alpha :: "char \<Rightarrow> bool" where
  "ascii_alpha c \<longleftrightarrow>
     (let n = of_char c :: nat in (65 \<le> n \<and> n \<le> 90) \<or> (97 \<le> n \<and> n \<le> 122))"

definition ascii_alnum :: "char \<Rightarrow> bool" where
  "ascii_alnum c \<longleftrightarrow> ascii_alpha c \<or> (let n = of_char c :: nat in 48 \<le> n \<and> n \<le> 57)"

definition is_env_assignment :: "string \<Rightarrow> bool" where
  "is_env_assignment tok =
     (case find_char CHR ''='' tok of
        None \<Rightarrow> False
      | Some eq \<Rightarrow>
          (let name = take eq tok in
           (case name of
              [] \<Rightarrow> False
            | b # _ \<Rightarrow> ascii_alpha b \<or> b = CHR ''_'')
           \<and> list_all (\<lambda>b. ascii_alnum b \<or> b = CHR ''_'') name))"

record env_scan_result =
  chdir :: "string option"
  has_split_string :: bool
  options_uncertain :: bool
  split_string_script :: "string option"
  command_start :: nat

text \<open>
  \<open>decode_shell_literal_spelling\<close> over the remaining bytes, the output so far and the open
  quote. A backslash at the end, like a quote that stays open, answers \<open>None\<close>.
\<close>

fun decode_loop :: "string \<Rightarrow> string \<Rightarrow> char option \<Rightarrow> string option" where
  "decode_loop [] out quote = (if quote = None then Some out else None)"
| "decode_loop (ch # rest) out quote =
     (if quote = None \<and> (ch = squote \<or> ch = dquote) then decode_loop rest out (Some ch)
      else if quote = Some ch then decode_loop rest out None
      else if quote = None \<and> ch = bslash then
        (case rest of [] \<Rightarrow> None | n # rest' \<Rightarrow> decode_loop rest' (out @ [n]) quote)
      else if quote = Some dquote \<and> ch = bslash then
        (case rest of
           [] \<Rightarrow> None
         | n # rest' \<Rightarrow>
             if n \<in> set [CHR ''$'', backtick, dquote, bslash, newline]
             then decode_loop rest' (out @ [n]) quote
             else decode_loop rest' (out @ [bslash, n]) quote)
      else decode_loop rest (out @ [ch]) quote)"

definition decode_shell_literal_spelling :: "string \<Rightarrow> string option" where
  "decode_shell_literal_spelling raw = decode_loop raw [] None"

definition decode_env_option_token :: "string \<Rightarrow> string" where
  "decode_env_option_token raw =
     (if squote \<notin> set raw \<and> dquote \<notin> set raw then raw
      else case decode_shell_literal_spelling raw of Some d \<Rightarrow> d | None \<Rightarrow> raw)"

definition is_high_confidence_env_s_payload :: "string \<Rightarrow> bool" where
  "is_high_confidence_env_s_payload s \<longleftrightarrow>
     s \<noteq> [] \<and> nul \<notin> set s
     \<and> \<not> list_ex (\<lambda>c. c \<in> set [squote, dquote, bslash, CHR ''#'', backtick, CHR ''$'',
                               newline, creturn]) s"

definition take_high_confidence_payload :: "string \<Rightarrow> string option" where
  "take_high_confidence_payload raw =
     (if is_high_confidence_env_s_payload raw then Some raw else None)"

datatype env_short =
    SplitStringNext
  | SplitStringGlued string
  | SplitStringDetect
  | NoArg
  | ArgNeedNext char
  | ArgGlued char
  | Uncertain

fun env_short_loop :: "string \<Rightarrow> env_short" where
  "env_short_loop [] = NoArg"
| "env_short_loop (c # cs) =
     (if c \<in> set ''iv0'' then env_short_loop cs
      else if c = CHR ''S'' then SplitStringDetect
      else if c \<in> set ''uCPa'' then (if cs \<noteq> [] then ArgGlued c else ArgNeedNext c)
      else Uncertain)"

definition classify_env_short :: "string \<Rightarrow> env_short" where
  "classify_env_short tok =
     (if \<not> starts_with tok ''-'' \<or> starts_with tok ''--'' \<or> tok = ''-'' then Uncertain
      else let body = drop 1 tok in
           if body = [] then Uncertain
           else case strip_prefix ''S'' body of
                  Some rest \<Rightarrow> (if rest = [] then SplitStringNext else SplitStringGlued rest)
                | None \<Rightarrow> env_short_loop body)"

definition take_option_operand :: "string list \<Rightarrow> nat \<Rightarrow> string option" where
  "take_option_operand cmd i = nth_opt cmd (i + 1)"

definition env_break ::
  "string option \<Rightarrow> bool \<Rightarrow> bool \<Rightarrow> string option \<Rightarrow> nat \<Rightarrow> env_scan_result" where
  "env_break cd split unc script i =
     \<lparr>chdir = cd, has_split_string = split, options_uncertain = unc,
      split_string_script = script, command_start = i\<rparr>"

text \<open>
  One round of the scanning loop at index \<open>i\<close>: \<open>Inl\<close> is a \<open>break\<close> with what the scan answers,
  \<open>Inr\<close> continues with a new index and \<open>chdir\<close>. The flags other than \<open>chdir\<close> are only set
  when the loop is left, so they appear in the breaks. An operand-taking option advances by
  two, every other one by one.
\<close>

definition env_long_step ::
  "string list \<Rightarrow> nat \<Rightarrow> string option \<Rightarrow> string \<Rightarrow> env_scan_result + nat \<times> string option" where
  "env_long_step cmd i cd tok_raw =
     (if tok_raw = ''--chdir'' then
        (case take_option_operand cmd i of
           Some dir \<Rightarrow> Inr (i + 2, Some dir)
         | None \<Rightarrow> Inl (env_break cd False True None i))
      else if starts_with tok_raw ''--chdir='' then
        Inr (i + 1, strip_prefix ''--chdir='' tok_raw)
      else if tok_raw \<in> set [''--unset'', ''--path'', ''--argv0''] then
        (case take_option_operand cmd i of
           Some _ \<Rightarrow> Inr (i + 2, cd)
         | None \<Rightarrow> Inl (env_break cd False True None i))
      else if starts_with tok_raw ''--unset='' \<or> starts_with tok_raw ''--path=''
              \<or> starts_with tok_raw ''--argv0='' then
        Inr (i + 1, cd)
      else if tok_raw \<in> set [''--ignore-environment'', ''--null'', ''--debug'', ''--version'',
                             ''--help''] then
        Inr (i + 1, cd)
      else if tok_raw = ''--split-string'' then
        Inl (env_break cd True False
          (Option.bind (nth_opt cmd (i + 1)) take_high_confidence_payload) i)
      else (case strip_prefix ''--split-string='' tok_raw of
              Some payload \<Rightarrow>
                Inl (env_break cd True False
                  (take_high_confidence_payload
                    (case strip_prefix ''--split-string='' (decode_env_option_token tok_raw) of
                       Some p \<Rightarrow> p
                     | None \<Rightarrow> payload)) i)
            | None \<Rightarrow> Inl (env_break cd False True None i)))"

definition env_short_step ::
  "string list \<Rightarrow> nat \<Rightarrow> string option \<Rightarrow> string \<Rightarrow> env_scan_result + nat \<times> string option" where
  "env_short_step cmd i cd tok_raw =
     (case classify_env_short (decode_env_option_token tok_raw) of
        SplitStringNext \<Rightarrow>
          Inl (env_break cd True False
            (Option.bind (nth_opt cmd (i + 1)) take_high_confidence_payload) i)
      | SplitStringGlued payload \<Rightarrow>
          Inl (env_break cd True False (take_high_confidence_payload payload) i)
      | SplitStringDetect \<Rightarrow> Inl (env_break cd True False None i)
      | NoArg \<Rightarrow> Inr (i + 1, cd)
      | ArgNeedNext kind \<Rightarrow>
          (case take_option_operand cmd i of
             Some operand \<Rightarrow> Inr (i + 2, if kind = CHR ''C'' then Some operand else cd)
           | None \<Rightarrow> Inl (env_break cd False True None i))
      | ArgGlued kind \<Rightarrow>
          Inr (i + 1,
            if kind = CHR ''C''
            then Some (case strip_prefix ''-C'' tok_raw of Some d \<Rightarrow> d | None \<Rightarrow> [])
            else cd)
      | Uncertain \<Rightarrow> Inl (env_break cd False True None i))"

definition env_step ::
  "string list \<Rightarrow> nat \<Rightarrow> string option \<Rightarrow> env_scan_result + nat \<times> string option" where
  "env_step cmd i cd =
     (case nth_opt cmd i of
        None \<Rightarrow> Inl (env_break cd False False None i)
      | Some tok_raw \<Rightarrow>
          if tok_raw = ''--'' then Inl (env_break cd False False None (i + 1))
          else if tok_raw = ''-'' then Inr (i + 1, cd)
          else if \<not> starts_with tok_raw ''-'' then
            (if is_env_assignment tok_raw then Inr (i + 1, cd)
             else Inl (env_break cd False False None i))
          else if starts_with tok_raw ''--'' then env_long_step cmd i cd tok_raw
          else env_short_step cmd i cd tok_raw)"

lemma env_step_continue: "env_step cmd i cd = Inr (i', cd') \<Longrightarrow> i < i' \<and> i < length cmd"
  by (auto simp: env_step_def env_long_step_def env_short_step_def
      split: option.splits if_splits env_short.splits)

lemma env_step_break: "env_step cmd i cd = Inl r \<Longrightarrow> i \<le> command_start r"
  by (auto simp: env_step_def env_long_step_def env_short_step_def env_break_def
      split: option.splits if_splits env_short.splits)

function env_scan_loop :: "string list \<Rightarrow> nat \<Rightarrow> string option \<Rightarrow> env_scan_result" where
  "env_scan_loop cmd i cd =
     (case env_step cmd i cd of
        Inl r \<Rightarrow> r
      | Inr (i', cd') \<Rightarrow> env_scan_loop cmd i' cd')"
  by pat_completeness auto
termination
  by (relation "measure (\<lambda>(cmd, i, cd). length cmd - i)")
    (auto dest: env_step_continue [OF sym] env_step_continue)

declare env_scan_loop.simps [simp del]

definition env_scan :: "string list \<Rightarrow> env_scan_result" where
  "env_scan cmd = env_scan_loop cmd 1 None"

definition head_basename :: "string list \<Rightarrow> string option" where
  "head_basename cmd = (case cmd of [] \<Rightarrow> None | w # _ \<Rightarrow> Some (basename w))"

definition env_split_string_script :: "string list \<Rightarrow> string option" where
  "env_split_string_script cmd =
     (if head_basename cmd \<noteq> Some ''env'' then None
      else let scan = env_scan cmd in
           if \<not> has_split_string scan then None else split_string_script scan)"

section \<open>Canonical wrappers\<close>

text \<open>Skipping options: one that takes a value (\<open>takes\<close>) advances by two.\<close>

function skip_options :: "(string \<Rightarrow> bool) \<Rightarrow> string list \<Rightarrow> nat \<Rightarrow> nat" where
  "skip_options takes cmd i =
     (if i < length cmd \<and> starts_with (cmd ! i) ''-''
      then skip_options takes cmd (if takes (cmd ! i) then i + 2 else i + 1)
      else i)"
  by pat_completeness auto
termination
  by (relation "measure (\<lambda>(takes, cmd, i). length cmd - i)") auto

declare skip_options.simps [simp del]

text \<open>The non-empty tail of \<open>cmd\<close> from index \<open>i\<close>, if there is one.\<close>

definition inner_from :: "string list \<Rightarrow> nat \<Rightarrow> string list option" where
  "inner_from cmd i =
     (case slice_from cmd i of
        None \<Rightarrow> None
      | Some inner \<Rightarrow> if inner = [] then None else Some inner)"

definition strip_wrapper_command :: "string list \<Rightarrow> string list option" where
  "strip_wrapper_command cmd =
     (case head_basename cmd of
        None \<Rightarrow> None
      | Some head \<Rightarrow>
          if head = ''timeout'' then
            (let i = skip_options (\<lambda>w. w \<in> set [''-k'', ''-s'', ''--kill-after'', ''--signal'']) cmd 1
             in if i \<ge> length cmd then None else inner_from cmd (i + 1))
          else if head = ''nice'' then
            inner_from cmd (skip_options (\<lambda>w. w \<in> set [''-n'', ''--adjustment'']) cmd 1)
          else if head = ''ionice'' then
            inner_from cmd
              (skip_options (\<lambda>w. w \<in> set [''-c'', ''-n'', ''-p'', ''-P'', ''-u'', ''--class'',
                 ''--classdata'', ''--pid'', ''--pgid'', ''--uid'']) cmd 1)
          else if head = ''chrt'' then
            (let i = skip_options (\<lambda>w. False) cmd 1
             in if i \<ge> length cmd then None else inner_from cmd (i + 1))
          else if head = ''stdbuf'' then
            inner_from cmd (skip_options (\<lambda>w. w \<in> set [''-i'', ''-o'', ''-e'']) cmd 1)
          else if head = ''env'' then
            (let scan = env_scan cmd
             in if has_split_string scan \<or> options_uncertain scan then None
                else inner_from cmd (command_start scan))
          else None)"

definition is_wrapper_command :: "string list \<Rightarrow> bool" where
  "is_wrapper_command cmd =
     (case head_basename cmd of
        None \<Rightarrow> False
      | Some head \<Rightarrow> head \<in> set [''timeout'', ''nice'', ''ionice'', ''chrt'', ''stdbuf'', ''env''])"

definition MAX_WRAPPER_DEPTH :: nat where "MAX_WRAPPER_DEPTH = 8"
definition MAX_INLINE_SHELL_DEPTH :: nat where "MAX_INLINE_SHELL_DEPTH = 8"
definition MAX_TRANSPARENT_PREFIX_DEPTH :: nat where "MAX_TRANSPARENT_PREFIX_DEPTH = 8"
definition MAX_NORMALIZE_ROUNDS :: nat where
  "MAX_NORMALIZE_ROUNDS = MAX_WRAPPER_DEPTH + MAX_TRANSPARENT_PREFIX_DEPTH"

record checked_wrapper_peel =
  cw_words :: "string list"
  cw_has_chdir :: bool
  cw_has_split_string :: bool
  cw_env_options_uncertain :: bool
  cw_exhausted :: bool

fun unwrap_loop ::
  "nat \<Rightarrow> string list \<Rightarrow> bool \<Rightarrow> bool \<Rightarrow> bool \<Rightarrow> checked_wrapper_peel" where
  "unwrap_loop 0 current cd sp un =
     \<lparr>cw_words = current, cw_has_chdir = cd, cw_has_split_string = sp,
      cw_env_options_uncertain = un,
      cw_exhausted = (is_wrapper_command current \<and> strip_wrapper_command current \<noteq> None)\<rparr>"
| "unwrap_loop (Suc n) current cd sp un =
     (let is_env = (head_basename current = Some ''env'');
          scan = env_scan current;
          cd' = (cd \<or> (is_env \<and> chdir scan \<noteq> None));
          sp' = (sp \<or> (is_env \<and> has_split_string scan));
          un' = (un \<or> (is_env \<and> options_uncertain scan))
      in case strip_wrapper_command current of
           Some inner \<Rightarrow> unwrap_loop n inner cd' sp' un'
         | None \<Rightarrow> \<lparr>cw_words = current, cw_has_chdir = cd', cw_has_split_string = sp',
                    cw_env_options_uncertain = un', cw_exhausted = False\<rparr>)"

definition unwrap_wrappers_checked :: "string list \<Rightarrow> checked_wrapper_peel" where
  "unwrap_wrappers_checked ws = unwrap_loop MAX_WRAPPER_DEPTH ws False False False"

definition unwrap_wrappers :: "string list \<Rightarrow> string list" where
  "unwrap_wrappers ws = cw_words (unwrap_wrappers_checked ws)"

section \<open>Transparent prefixes\<close>

datatype transparent_strip = NotPrefix | Peeled "string list" | Ambiguous

definition peel_from :: "string list \<Rightarrow> nat \<Rightarrow> transparent_strip" where
  "peel_from cmd i =
     (case inner_from cmd i of Some inner \<Rightarrow> Peeled inner | None \<Rightarrow> NotPrefix)"

function strip_exec_loop :: "string list \<Rightarrow> nat \<Rightarrow> transparent_strip" where
  "strip_exec_loop cmd i =
     (case nth_opt cmd i of
        None \<Rightarrow> peel_from cmd i
      | Some tok \<Rightarrow>
          if tok = ''--'' then peel_from cmd (i + 1)
          else if tok = ''-'' \<or> \<not> starts_with tok ''-'' then peel_from cmd i
          else if tok \<in> set [''-c'', ''-l'', ''-cl'', ''-lc''] then strip_exec_loop cmd (i + 1)
          else if tok = ''-a'' then
            (case nth_opt cmd (i + 1) of
               Some v \<Rightarrow> if v \<noteq> [nul] \<and> v \<noteq> [] then strip_exec_loop cmd (i + 2) else Ambiguous
             | None \<Rightarrow> Ambiguous)
          else if starts_with tok ''-a'' then
            (if drop 2 tok = [nul] then Ambiguous else strip_exec_loop cmd (i + 1))
          else if \<not> starts_with tok ''--''
                  \<and> list_all (\<lambda>c. c = CHR ''c'' \<or> c = CHR ''l'') (drop 1 tok) then
            strip_exec_loop cmd (i + 1)
          else Ambiguous)"
  by pat_completeness auto
termination
  by (relation "measure (\<lambda>(cmd, i). length cmd - i)") auto

declare strip_exec_loop.simps [simp del]

definition strip_exec_prefix :: "string list \<Rightarrow> transparent_strip" where
  "strip_exec_prefix cmd = strip_exec_loop cmd 1"

function strip_command_loop :: "string list \<Rightarrow> nat \<Rightarrow> transparent_strip" where
  "strip_command_loop cmd i =
     (case nth_opt cmd i of
        None \<Rightarrow> peel_from cmd i
      | Some tok \<Rightarrow>
          if tok = ''--'' then peel_from cmd (i + 1)
          else if tok = ''-'' \<or> \<not> starts_with tok ''-'' then peel_from cmd i
          else if tok \<in> set [''-v'', ''-V'', ''--help'', ''--version'']
                  \<or> (\<not> starts_with tok ''--''
                     \<and> list_ex (\<lambda>c. c = CHR ''v'' \<or> c = CHR ''V'') (drop 1 tok)) then
            NotPrefix
          else if tok = ''-p''
                  \<or> (\<not> starts_with tok ''--'' \<and> list_all (\<lambda>c. c = CHR ''p'') (drop 1 tok)) then
            strip_command_loop cmd (i + 1)
          else Ambiguous)"
  by pat_completeness auto
termination
  by (relation "measure (\<lambda>(cmd, i). length cmd - i)") auto

declare strip_command_loop.simps [simp del]

definition strip_command_prefix :: "string list \<Rightarrow> transparent_strip" where
  "strip_command_prefix cmd = strip_command_loop cmd 1"

definition strip_builtin_prefix :: "string list \<Rightarrow> transparent_strip" where
  "strip_builtin_prefix cmd =
     (case nth_opt cmd 1 of
        None \<Rightarrow> NotPrefix
      | Some tok \<Rightarrow>
          if starts_with tok ''-'' \<and> tok \<noteq> ''-'' then Ambiguous else peel_from cmd 1)"

definition strip_transparent_prefix :: "string list \<Rightarrow> transparent_strip" where
  "strip_transparent_prefix cmd =
     (case cmd of
        [] \<Rightarrow> NotPrefix
      | h # _ \<Rightarrow>
          if h = [] \<or> h = [nul] then NotPrefix
          else let head = basename h in
               if head = ''exec'' then strip_exec_prefix cmd
               else if head = ''command'' then strip_command_prefix cmd
               else if head = ''builtin'' then strip_builtin_prefix cmd
               else NotPrefix)"

datatype transparent_prefix_peel = Ready "string list" | Prefix_Ambiguous

fun peel_transparent_loop :: "nat \<Rightarrow> string list \<Rightarrow> transparent_prefix_peel" where
  "peel_transparent_loop 0 current =
     (case strip_transparent_prefix current of
        NotPrefix \<Rightarrow> Ready current
      | Peeled _ \<Rightarrow> Prefix_Ambiguous
      | Ambiguous \<Rightarrow> Prefix_Ambiguous)"
| "peel_transparent_loop (Suc n) current =
     (case strip_transparent_prefix current of
        NotPrefix \<Rightarrow> Ready current
      | Peeled inner \<Rightarrow> peel_transparent_loop n inner
      | Ambiguous \<Rightarrow> Prefix_Ambiguous)"

definition peel_transparent_prefixes :: "string list \<Rightarrow> transparent_prefix_peel" where
  "peel_transparent_prefixes ws = peel_transparent_loop MAX_TRANSPARENT_PREFIX_DEPTH ws"

section \<open>The bounded alternation\<close>

record normalized_command_peel =
  nc_words :: "string list"
  nc_has_chdir :: bool
  nc_has_split_string :: bool
  nc_env_options_uncertain :: bool
  nc_exhausted :: bool
  nc_ambiguous :: bool

text \<open>
  The rounds. The words are always a suffix of the argv they started as, so the source's test
  for the same length at the same address is the test for the same length.
\<close>

fun normalize_loop :: "nat \<Rightarrow> normalized_command_peel \<Rightarrow> normalized_command_peel" where
  "normalize_loop 0 st = st"
| "normalize_loop (Suc n) st =
     (let wrapped = unwrap_wrappers_checked (nc_words st);
          st1 = \<lparr>nc_words = cw_words wrapped,
                 nc_has_chdir = (nc_has_chdir st \<or> cw_has_chdir wrapped),
                 nc_has_split_string = (nc_has_split_string st \<or> cw_has_split_string wrapped),
                 nc_env_options_uncertain =
                   (nc_env_options_uncertain st \<or> cw_env_options_uncertain wrapped),
                 nc_exhausted = (nc_exhausted st \<or> cw_exhausted wrapped),
                 nc_ambiguous = nc_ambiguous st\<rparr>
      in if nc_has_split_string st1 \<or> nc_env_options_uncertain st1 then st1
         else case peel_transparent_prefixes (nc_words st1) of
                Prefix_Ambiguous \<Rightarrow> st1\<lparr>nc_ambiguous := True\<rparr>
              | Ready inner \<Rightarrow>
                  (if length inner = length (nc_words st) then st1\<lparr>nc_words := inner\<rparr>
                   else normalize_loop n (st1\<lparr>nc_words := inner\<rparr>)))"

definition normalize_command_words :: "string list \<Rightarrow> normalized_command_peel" where
  "normalize_command_words ws =
     (let st = normalize_loop MAX_NORMALIZE_ROUNDS
            \<lparr>nc_words = ws, nc_has_chdir = False, nc_has_split_string = False,
             nc_env_options_uncertain = False, nc_exhausted = False, nc_ambiguous = False\<rparr>;
          cur = nc_words st
      in if \<not> nc_ambiguous st \<and> \<not> nc_has_split_string st \<and> \<not> nc_env_options_uncertain st
         then let still_wrapper = (is_wrapper_command cur \<and> strip_wrapper_command cur \<noteq> None);
                  still_transparent = (strip_transparent_prefix cur \<noteq> NotPrefix)
              in st\<lparr>nc_exhausted := (nc_exhausted st \<or> still_wrapper \<or> still_transparent)\<rparr>
         else st)"

section \<open>Shell quoting\<close>

text \<open>
  The shell's three ways to spell a literal text, and the spelling of a word put together
  from them.
\<close>

datatype literal_piece = Bare string | Single_Quoted string | Double_Quoted string

fun piece_text :: "literal_piece \<Rightarrow> string" where
  "piece_text (Bare s) = s"
| "piece_text (Single_Quoted s) = s"
| "piece_text (Double_Quoted s) = s"

definition bare_char :: "char \<Rightarrow> string" where
  "bare_char c = (if c \<in> {squote, dquote, bslash} then [bslash, c] else [c])"

definition dq_char :: "char \<Rightarrow> string" where
  "dq_char c = (if c \<in> {CHR ''$'', backtick, dquote, bslash} then [bslash, c] else [c])"

fun spell_piece :: "literal_piece \<Rightarrow> string" where
  "spell_piece (Bare s) = concat (map bare_char s)"
| "spell_piece (Single_Quoted s) = squote # s @ [squote]"
| "spell_piece (Double_Quoted s) = dquote # concat (map dq_char s) @ [dquote]"

fun piece_ok :: "literal_piece \<Rightarrow> bool" where
  "piece_ok (Single_Quoted s) \<longleftrightarrow> squote \<notin> set s"
| "piece_ok _ \<longleftrightarrow> True"

lemma decode_bare: "decode_loop (concat (map bare_char s) @ rest) out None = decode_loop rest (out @ s) None"
  by (induction s arbitrary: out) (auto simp: bare_char_def)

lemma decode_single:
  "squote \<notin> set s \<Longrightarrow>
     decode_loop (s @ squote # rest) out (Some squote) = decode_loop rest (out @ s) None"
  by (induction s arbitrary: out) auto

lemma decode_double:
  "decode_loop (concat (map dq_char s) @ dquote # rest) out (Some dquote) =
     decode_loop rest (out @ s) None"
  by (induction s arbitrary: out) (auto simp: dq_char_def)

lemma decode_piece:
  "piece_ok p \<Longrightarrow>
     decode_loop (spell_piece p @ rest) out None = decode_loop rest (out @ piece_text p) None"
  by (cases p) (simp_all add: decode_bare decode_single decode_double)

lemma decode_pieces:
  "list_all piece_ok ps \<Longrightarrow>
     decode_loop (concat (map spell_piece ps)) out None = Some (out @ concat (map piece_text ps))"
  by (induction ps arbitrary: out) (simp_all add: decode_piece)

text \<open>
  Reading a literal under the shell's quote rules: any text, spelled with any mixture of
  backslash-escaped, single-quoted (without single quotes inside) and double-quoted (with
  \<open>$\<close>, backtick, double quote and backslash escaped) pieces, decodes to that text.
\<close>

theorem decode_spelling_roundtrip:
  assumes "list_all piece_ok ps"
  shows "decode_shell_literal_spelling (concat (map spell_piece ps)) =
    Some (concat (map piece_text ps))"
  using decode_pieces [OF assms, of "[]"] by (simp add: decode_shell_literal_spelling_def)

theorem decode_spelling_roundtrip_witness:
  "decode_shell_literal_spelling
     (concat (map spell_piece [Bare ''-S'', Single_Quoted ''rm '', Double_Quoted ''a$b''])) =
   Some ''-Srm a$b''"
  using decode_spelling_roundtrip [of "[Bare ''-S'', Single_Quoted ''rm '', Double_Quoted ''a$b'']"]
  by simp

section \<open>Peelers\<close>

text \<open>
  Both kinds of peeling keep one contract: a successful strip hands on a non-empty, strictly
  shorter tail of the command. \<open>peel_n\<close> strips at most \<open>n\<close> times.
\<close>

fun peel_n :: "('w list \<Rightarrow> 'w list option) \<Rightarrow> nat \<Rightarrow> 'w list \<Rightarrow> 'w list" where
  "peel_n strip 0 ws = ws"
| "peel_n strip (Suc n) ws = (case strip ws of None \<Rightarrow> ws | Some inner \<Rightarrow> peel_n strip n inner)"

locale peeler =
  fixes strip :: "string list \<Rightarrow> string list option"
  assumes strip_tail: "strip ws = Some inner \<Longrightarrow> proper_tail inner ws"
begin

lemma peel_n_suffix: "suffix (peel_n strip n ws) ws"
proof (induction n arbitrary: ws)
  case (Suc n)
  show ?case
  proof (cases "strip ws")
    case (Some inner)
    then have "suffix inner ws" by (intro suffix_proper_tail strip_tail)
    with Some Suc.IH [of inner] show ?thesis by (auto intro: suffix_order.trans)
  qed simp
qed simp

lemma peel_n_nonempty: "ws \<noteq> [] \<Longrightarrow> peel_n strip n ws \<noteq> []"
proof (induction n arbitrary: ws)
  case (Suc n)
  show ?case
  proof (cases "strip ws")
    case (Some inner)
    with proper_tail_length [OF strip_tail [OF Some]] have "inner \<noteq> []" by auto
    with Some Suc.IH show ?thesis by simp
  qed (simp add: Suc.prems)
qed simp

lemma peel_n_Nil: "peel_n strip n ws = [] \<longleftrightarrow> ws = []"
  using peel_n_suffix [of n "[]"] peel_n_nonempty [of ws n] by auto

text \<open>A budget of one strip per word always reaches a command that cannot be stripped.\<close>

lemma peel_n_done: "length ws \<le> Suc n \<Longrightarrow> strip (peel_n strip n ws) = None"
proof (induction n arbitrary: ws)
  case 0
  show ?case
  proof (cases "strip ws")
    case (Some inner)
    with proper_tail_length [OF strip_tail [OF Some]] 0 show ?thesis by linarith
  qed simp
next
  case (Suc n)
  show ?case
  proof (cases "strip ws")
    case (Some inner)
    with strip_tail [OF Some] Suc.prems have "length inner \<le> Suc n"
      by (simp add: proper_tail_def)
    with Some Suc.IH show ?thesis by simp
  qed simp
qed

lemma peel_n_same: "length (peel_n strip n ws) = length ws \<Longrightarrow> peel_n strip n ws = ws"
  using suffix_eq_or_shorter [OF peel_n_suffix, of n ws] by auto

end

lemma inner_from_SomeD: "inner_from cmd i = Some inner \<Longrightarrow> 0 < i \<Longrightarrow> proper_tail inner cmd"
  by (auto simp: inner_from_def slice_from_def proper_tail_drop split: if_splits)

lemma skip_options_ge: "i \<le> skip_options takes cmd i"
proof (induction takes cmd i rule: skip_options.induct)
  case (1 takes cmd i)
  then show ?case
    by (cases "i < length cmd \<and> starts_with (cmd ! i) ''-''")
      (auto simp: skip_options.simps [of takes cmd i] split: if_splits)
qed

lemma env_scan_loop_ge: "i \<le> command_start (env_scan_loop cmd i cd)"
proof (induction cmd i cd rule: env_scan_loop.induct)
  case (1 cmd i cd)
  show ?case
  proof (cases "env_step cmd i cd")
    case (Inl r)
    then show ?thesis by (simp add: env_scan_loop.simps [of cmd i cd] env_step_break)
  next
    case (Inr p)
    obtain i' cd' where p: "p = (i', cd')" by (cases p)
    with Inr env_step_continue have "i < i'" by blast
    with "1.IH" [OF Inr p [symmetric]] Inr p show ?thesis
      by (simp add: env_scan_loop.simps [of cmd i cd])
  qed
qed

lemma strip_wrapper_tail: "strip_wrapper_command cmd = Some inner \<Longrightarrow> proper_tail inner cmd"
  using env_scan_loop_ge [of 1 cmd None] skip_options_ge [of 1 _ cmd]
  by (auto simp: strip_wrapper_command_def Let_def env_scan_def Suc_le_eq
      split: option.splits if_splits elim!: inner_from_SomeD)

lemma peel_from_Peeled: "peel_from cmd i = Peeled inner \<Longrightarrow> 0 < i \<Longrightarrow> proper_tail inner cmd"
  by (auto simp: peel_from_def dest: inner_from_SomeD split: option.splits)

lemma strip_exec_tail: "strip_exec_loop cmd i = Peeled inner \<Longrightarrow> 0 < i \<Longrightarrow> proper_tail inner cmd"
proof (induction cmd i rule: strip_exec_loop.induct)
  case (1 cmd i)
  from "1.prems" show ?case
    by (auto simp: strip_exec_loop.simps [of cmd i] intro: "1.IH" peel_from_Peeled
        split: option.splits if_splits)
qed

lemma strip_command_tail:
  "strip_command_loop cmd i = Peeled inner \<Longrightarrow> 0 < i \<Longrightarrow> proper_tail inner cmd"
proof (induction cmd i rule: strip_command_loop.induct)
  case (1 cmd i)
  from "1.prems" show ?case
    by (auto simp: strip_command_loop.simps [of cmd i] intro: "1.IH" peel_from_Peeled
        split: option.splits if_splits)
qed

lemma strip_transparent_tail: "strip_transparent_prefix cmd = Peeled inner \<Longrightarrow> proper_tail inner cmd"
  by (auto simp: strip_transparent_prefix_def strip_exec_prefix_def strip_command_prefix_def
      strip_builtin_prefix_def Let_def intro: strip_exec_tail strip_command_tail peel_from_Peeled
      split: list.splits option.splits if_splits)

definition transparent_inner :: "string list \<Rightarrow> string list option" where
  "transparent_inner cmd =
     (case strip_transparent_prefix cmd of Peeled inner \<Rightarrow> Some inner | _ \<Rightarrow> None)"

interpretation wrapper: peeler strip_wrapper_command
  by unfold_locales (rule strip_wrapper_tail)

interpretation transparent: peeler transparent_inner
  by unfold_locales
    (auto simp: transparent_inner_def intro: strip_transparent_tail split: transparent_strip.splits)

section \<open>The normal form of a command\<close>

text \<open>
  The specification of the normaliser: a command steps to its inner command by stripping one
  wrapper or one transparent prefix, and the normal form is where no step is possible. The
  two kinds of step exclude each other, so the normal form is unique.
\<close>

inductive peel_step :: "string list \<Rightarrow> string list \<Rightarrow> bool" where
  step_wrapper: "strip_wrapper_command ws = Some inner \<Longrightarrow> peel_step ws inner"
| step_transparent: "strip_transparent_prefix ws = Peeled inner \<Longrightarrow> peel_step ws inner"

inductive_cases peel_stepE: "peel_step ws inner"

definition irreducible :: "string list \<Rightarrow> bool" where
  "irreducible ws \<longleftrightarrow> strip_wrapper_command ws = None \<and> strip_transparent_prefix ws = NotPrefix"

lemma strip_wrapper_is_wrapper: "strip_wrapper_command ws = Some inner \<Longrightarrow> is_wrapper_command ws"
  by (auto simp: strip_wrapper_command_def is_wrapper_command_def split: option.splits if_splits)

lemma wrapper_not_transparent:
  "is_wrapper_command ws \<Longrightarrow> strip_transparent_prefix ws = NotPrefix"
  by (auto simp: is_wrapper_command_def strip_transparent_prefix_def head_basename_def Let_def
      split: list.splits)

lemma strip_wrapper_not_transparent:
  "strip_wrapper_command ws = Some inner \<Longrightarrow> strip_transparent_prefix ws = NotPrefix"
  by (rule wrapper_not_transparent [OF strip_wrapper_is_wrapper])

lemma peel_step_deterministic: "peel_step ws a \<Longrightarrow> peel_step ws b \<Longrightarrow> a = b"
  by (auto elim!: peel_stepE dest: strip_wrapper_not_transparent)

lemma peel_step_tail: "peel_step ws inner \<Longrightarrow> proper_tail inner ws"
  by (auto elim: peel_stepE intro: strip_wrapper_tail strip_transparent_tail)

lemma irreducible_no_step: "irreducible ws \<Longrightarrow> \<not> peel_step ws inner"
  by (auto simp: irreducible_def elim: peel_stepE)

lemma normal_form_unique:
  assumes "peel_step\<^sup>*\<^sup>* ws a" "irreducible a" "peel_step\<^sup>*\<^sup>* ws b" "irreducible b"
  shows "a = b"
  using assms
proof (induction rule: converse_rtranclp_induct)
  case base
  then show ?case by (metis converse_rtranclpE irreducible_no_step)
next
  case (step ws ws')
  then have "peel_step\<^sup>*\<^sup>* ws' b"
    by (metis converse_rtranclpE irreducible_no_step peel_step_deterministic)
  with step show ?case by blast
qed

lemma unwrap_loop_steps: "peel_step\<^sup>*\<^sup>* ws (cw_words (unwrap_loop n ws cd sp un))"
proof (induction n arbitrary: ws cd sp un)
  case (Suc n)
  show ?case
  proof (cases "strip_wrapper_command ws")
    case (Some inner)
    then have "peel_step ws inner" by (rule step_wrapper)
    with Some Suc.IH show ?thesis
      by (auto simp: Let_def intro: converse_rtranclp_into_rtranclp)
  qed (simp add: Let_def)
qed simp

lemma peel_transparent_loop_steps:
  "peel_transparent_loop n ws = Ready inner \<Longrightarrow> peel_step\<^sup>*\<^sup>* ws inner"
proof (induction n arbitrary: ws)
  case (Suc n)
  then show ?case
    by (auto split: transparent_strip.splits
        intro: converse_rtranclp_into_rtranclp step_transparent)
qed (auto split: transparent_strip.splits)

lemmas peel_loop_steps = unwrap_loop_steps peel_transparent_loop_steps

lemma normalize_loop_steps: "peel_step\<^sup>*\<^sup>* (nc_words st) (nc_words (normalize_loop n st))"
proof (induction n arbitrary: st)
  case (Suc n)
  let ?w = "unwrap_wrappers_checked (nc_words st)"
  have 1: "peel_step\<^sup>*\<^sup>* (nc_words st) (cw_words ?w)"
    by (simp add: unwrap_wrappers_checked_def peel_loop_steps)
  have 2: "peel_transparent_prefixes (cw_words ?w) = Ready inner \<Longrightarrow> peel_step\<^sup>*\<^sup>* (nc_words st) inner"
    for inner
    using 1 peel_transparent_loop_steps [of MAX_TRANSPARENT_PREFIX_DEPTH "cw_words ?w" inner]
    by (auto simp: peel_transparent_prefixes_def)
  have 3: "peel_step\<^sup>*\<^sup>* (nc_words st') (nc_words (normalize_loop n st'))" for st' by (rule Suc.IH)
  show ?case
    using 1 2 rtranclp_trans [OF 2 3]
    by (simp add: Let_def split: transparent_prefix_peel.splits)
qed simp

lemma peel_steps_suffix:
  "peel_step\<^sup>*\<^sup>* ws inner \<Longrightarrow> suffix inner ws \<and> (ws \<noteq> [] \<longrightarrow> inner \<noteq> [])"
proof (induction rule: rtranclp_induct)
  case (step a b)
  then show ?case
    using peel_step_tail [of a b] by (auto simp: proper_tail_def intro: suffix_order.trans)
qed simp

lemma nc_words_normalize:
  "peel_step\<^sup>*\<^sup>* ws (nc_words (normalize_command_words ws))"
  using normalize_loop_steps
    [of "\<lparr>nc_words = ws, nc_has_chdir = False, nc_has_split_string = False,
      nc_env_options_uncertain = False, nc_exhausted = False, nc_ambiguous = False\<rparr>"
      MAX_NORMALIZE_ROUNDS]
  by (simp add: normalize_command_words_def Let_def)

definition peel_certain :: "normalized_command_peel \<Rightarrow> bool" where
  "peel_certain r \<longleftrightarrow> \<not> nc_exhausted r \<and> \<not> nc_ambiguous r \<and> \<not> nc_has_split_string r
     \<and> \<not> nc_env_options_uncertain r"

lemma certain_irreducible:
  assumes "peel_certain (normalize_command_words ws)"
  shows "irreducible (nc_words (normalize_command_words ws))"
  using assms strip_wrapper_is_wrapper [of "nc_words (normalize_command_words ws)"]
  by (cases "strip_wrapper_command (nc_words (normalize_command_words ws))")
    (auto simp: peel_certain_def normalize_command_words_def irreducible_def Let_def
      split: if_splits)

lemma unwrap_loop_words:
  "cw_words (unwrap_loop n ws cd sp un) = peel_n strip_wrapper_command n ws"
  by (induction n arbitrary: ws cd sp un) (auto simp: Let_def split: option.splits)

lemma unwrap_loop_exhausted:
  "cw_exhausted (unwrap_loop n ws cd sp un) \<longleftrightarrow>
     strip_wrapper_command (peel_n strip_wrapper_command n ws) \<noteq> None"
proof (induction n arbitrary: ws cd sp un)
  case 0
  then show ?case using strip_wrapper_is_wrapper by auto
next
  case (Suc n)
  then show ?case by (auto simp: Let_def split: option.splits)
qed

section \<open>Properties\<close>

text \<open>
  Peeling the canonical wrappers: the answer is a non-empty tail of a non-empty command,
  and the exhausted flag is raised exactly when a ninth wrapper could still be stripped; a
  command of at most nine words never exhausts the budget.
\<close>

theorem unwrap_wrappers_correct:
  "suffix (unwrap_wrappers ws) ws
   \<and> (unwrap_wrappers ws = [] \<longleftrightarrow> ws = [])
   \<and> (cw_exhausted (unwrap_wrappers_checked ws) \<longleftrightarrow>
        strip_wrapper_command (unwrap_wrappers ws) \<noteq> None)
   \<and> (length ws \<le> 9 \<longrightarrow> \<not> cw_exhausted (unwrap_wrappers_checked ws))"
  using wrapper.peel_n_suffix [of MAX_WRAPPER_DEPTH ws]
    wrapper.peel_n_Nil [of MAX_WRAPPER_DEPTH ws]
    wrapper.peel_n_done [of ws MAX_WRAPPER_DEPTH]
  by (auto simp: unwrap_wrappers_def unwrap_wrappers_checked_def unwrap_loop_words
      unwrap_loop_exhausted MAX_WRAPPER_DEPTH_def)

theorem unwrap_wrappers_correct_witness:
  "\<not> cw_exhausted (unwrap_wrappers_checked [''timeout'', ''5'', ''nice'', ''ls''])"
  using unwrap_wrappers_correct [of "[''timeout'', ''5'', ''nice'', ''ls'']"] by auto

lemma peel_transparent_loop_Ready:
  "peel_transparent_loop n ws = Ready inner \<longleftrightarrow>
     inner = peel_n transparent_inner n ws \<and> strip_transparent_prefix inner = NotPrefix"
  by (induction n arbitrary: ws)
    (auto simp: transparent_inner_def split: transparent_strip.splits option.splits)

text \<open>
  Peeling \<open>exec\<close>, \<open>command\<close> and \<open>builtin\<close>: an answer \<open>Ready\<close> is a non-empty tail that no
  longer starts with such a prefix; everything else (an unmodelled option, or a prefix left
  after the budget of eight) is reported as ambiguous, never passed through.
\<close>

theorem transparent_prefixes_correct:
  "(case peel_transparent_prefixes ws of
      Ready inner \<Rightarrow> suffix inner ws \<and> (inner = [] \<longleftrightarrow> ws = [])
        \<and> strip_transparent_prefix inner = NotPrefix
    | Prefix_Ambiguous \<Rightarrow>
        strip_transparent_prefix (peel_n transparent_inner MAX_TRANSPARENT_PREFIX_DEPTH ws)
          \<noteq> NotPrefix)"
proof -
  let ?w = "peel_n transparent_inner MAX_TRANSPARENT_PREFIX_DEPTH ws"
  have w: "suffix ?w ws" "?w = [] \<longleftrightarrow> ws = []"
    by (rule transparent.peel_n_suffix, rule transparent.peel_n_Nil)
  have R: "peel_transparent_prefixes ws = Ready inner \<longleftrightarrow>
      inner = ?w \<and> strip_transparent_prefix inner = NotPrefix" for inner
    unfolding peel_transparent_prefixes_def by (rule peel_transparent_loop_Ready)
  show ?thesis
  proof (cases "peel_transparent_prefixes ws")
    case (Ready inner)
    then have "inner = ?w \<and> strip_transparent_prefix inner = NotPrefix" by (rule R [THEN iffD1])
    then have "inner = ?w" "strip_transparent_prefix ?w = NotPrefix" by auto
    with Ready w show ?thesis by simp
  next
    case Prefix_Ambiguous
    with R [of ?w] show ?thesis by simp
  qed
qed

text \<open>
  What the normaliser answers is always a tail of the command it was given, reached by
  stripping wrappers and transparent prefixes one after another; no word is invented, changed
  or reordered, and a non-empty command keeps its words from some point on.
\<close>

theorem normalize_is_tail:
  "peel_step\<^sup>*\<^sup>* ws (nc_words (normalize_command_words ws))
   \<and> suffix (nc_words (normalize_command_words ws)) ws
   \<and> (nc_words (normalize_command_words ws) = [] \<longleftrightarrow> ws = [])"
  using nc_words_normalize [of ws] peel_steps_suffix [OF nc_words_normalize [of ws]] by auto

text \<open>
  C21. The normaliser refines its specification: unless it raises one of its four flags
  (exhausted, ambiguous, split string, uncertain options), the command it answers is the
  unique normal form of the argv, so no wrapper and no transparent prefix can still hide the
  command that will run, however they are nested; where the budgets do not suffice, a flag is
  raised.
\<close>

theorem normalize_refines_normal_form:
  assumes "peel_certain (normalize_command_words ws)"
  shows "irreducible inner \<and> peel_step\<^sup>*\<^sup>* ws inner \<longleftrightarrow>
    inner = nc_words (normalize_command_words ws)"
  using normal_form_unique [OF nc_words_normalize certain_irreducible [OF assms]]
    nc_words_normalize [of ws] certain_irreducible [OF assms] by blast

theorem normalize_refines_normal_form_witness:
  "irreducible [''rm'', ''-rf'', ''/'']
   \<and> peel_step\<^sup>*\<^sup>* [''timeout'', ''30'', ''command'', ''nice'', ''rm'', ''-rf'', ''/''] [''rm'', ''-rf'', ''/'']"
proof -
  let ?ws = "[''timeout'', ''30'', ''command'', ''nice'', ''rm'', ''-rf'', ''/'']"
  have c: "peel_certain (normalize_command_words ?ws)" by code_simp
  have w: "nc_words (normalize_command_words ?ws) = [''rm'', ''-rf'', ''/'']" by code_simp
  show ?thesis
    using normalize_refines_normal_form [OF c, of "[''rm'', ''-rf'', ''/'']"] w by simp
qed

end
