(* ===== verification/Rust_Num.thy ===== *)
theory Rust_Num
  imports Rust_Str "HOL-Library.Word" "HOL-Library.Log_Nat"
begin

text \<open>
  Numbers of the Rust standard library as the sources use them: \<open>f64\<close> values with division and
  comparison, \<open>str::parse\<close> for unsigned integers, \<open>bool\<close> and \<open>f64\<close>, and durations and
  instants in nanoseconds.
\<close>

section \<open>Binary64 values\<close>

text \<open>
  A finite \<open>f64\<close> is the rational it denotes (the sign of zero is never observed: the sources
  only compare). Results are rounded to nearest, ties to even, with 53 bits of precision,
  gradual underflow at \<open>2^-1074\<close> and overflow to infinity from \<open>2^1024\<close> on.
\<close>

datatype f64 = Finite rat | Infinite bool | NaN

definition round_half_even :: "rat \<Rightarrow> int" where
  "round_half_even x =
     (let f = \<lfloor>x\<rfloor>; d = x - of_int f
      in if d < 1 / 2 then f else if d > 1 / 2 then f + 1 else if even f then f else f + 1)"

text \<open>\<open>rat_exp2 e\<close> is \<open>2^e\<close>; \<open>rat_log2 a b\<close> is the binary exponent of \<open>a / b\<close> for positive \<open>a\<close>, \<open>b\<close>.\<close>

definition rat_exp2 :: "int \<Rightarrow> rat" where
  "rat_exp2 e = (if 0 \<le> e then 2 ^ nat e else 1 / 2 ^ nat (- e))"

definition rat_log2 :: "int \<Rightarrow> int \<Rightarrow> int" where
  "rat_log2 a b =
     (let k = bitlen a - bitlen b
      in if rat_exp2 k * of_int b \<le> of_int a then k else k - 1)"

definition round_pos :: "int \<Rightarrow> int \<Rightarrow> f64" where
  "round_pos a b =
     (let e = max (- 1074) (rat_log2 a b - 52);
          v = of_int (round_half_even (of_int a / of_int b * rat_exp2 (- e))) * rat_exp2 e
      in if v \<ge> 2 ^ 1024 then Infinite False else Finite v)"

fun f64_neg :: "f64 \<Rightarrow> f64" where
  "f64_neg (Finite x) = Finite (- x)"
| "f64_neg (Infinite s) = Infinite (\<not> s)"
| "f64_neg NaN = NaN"

text \<open>The quotient of two unsigned integers below \<open>2^53\<close> (so exactly converted), the second not 0.\<close>

definition f64_div_nat :: "nat \<Rightarrow> nat \<Rightarrow> f64" where
  "f64_div_nat a b = (if a = 0 then Finite 0 else round_pos (int a) (int b))"

fun f64_ge :: "f64 \<Rightarrow> f64 \<Rightarrow> bool" where
  "f64_ge NaN y = False"
| "f64_ge x NaN = False"
| "f64_ge (Infinite s) (Infinite t) = (\<not> s \<or> t)"
| "f64_ge (Infinite s) (Finite y) = (\<not> s)"
| "f64_ge (Finite x) (Infinite t) = t"
| "f64_ge (Finite x) (Finite y) = (y \<le> x)"

lemma round_half_even_bounds:
  "of_int (round_half_even x) \<le> x + 1 / 2" "x - 1 / 2 \<le> of_int (round_half_even x)"
  by (auto simp: round_half_even_def Let_def field_simps) linarith+

lemma round_half_even_mono_int: "of_int m \<le> x \<Longrightarrow> m \<le> round_half_even x"
  by (simp add: round_half_even_def Let_def) (metis add_increasing2 le_floor_iff zero_le_one)

lemma round_half_even_le_int: "x \<le> of_int m \<Longrightarrow> round_half_even x \<le> m"
proof -
  assume x: "x \<le> of_int m"
  show ?thesis
  proof (cases "x = of_int m")
    case False
    with x have "\<lfloor>x\<rfloor> + 1 \<le> m" by (simp add: floor_less_iff add1_zle_eq)
    then show ?thesis by (auto simp: round_half_even_def Let_def)
  qed (simp add: round_half_even_def)
qed

lemma rat_exp2_pos [simp]: "0 < rat_exp2 e"
  by (simp add: rat_exp2_def)

lemma rat_exp2_add: "rat_exp2 (a + b) = rat_exp2 a * rat_exp2 b"
proof -
  have "rat_exp2 e = 2 powi e" for e by (simp add: rat_exp2_def power_int_def field_simps)
  then show ?thesis by (simp add: power_int_add)
qed

lemma rat_exp2_mono: "a \<le> b \<Longrightarrow> rat_exp2 a \<le> rat_exp2 b"
proof -
  have "rat_exp2 e = 2 powi e" for e by (simp add: rat_exp2_def power_int_def field_simps)
  then show "a \<le> b \<Longrightarrow> ?thesis" by (simp add: power_int_increasing)
qed

lemma rat_exp2_nat: "rat_exp2 (int n) = of_int (2 ^ n)"
  by (simp add: rat_exp2_def)

lemma rat_log2_le_0:
  assumes "0 < a" "a \<le> b"
  shows "rat_log2 a b \<le> 0"
proof -
  have "bitlen a \<le> bitlen b" using assms by (simp add: bitlen_def floorlog_mono)
  then show ?thesis by (simp add: rat_log2_def Let_def)
qed

text \<open>
  A quotient \<open>a / b \<le> 1\<close> is rounded at an exponent of at most \<open>-52\<close>: the result stays
  in \<open>[0, 1]\<close>, is off by at most \<open>2^-53\<close>, and does not cross \<open>1/2\<close>.
\<close>

lemma round_pos_unit:
  assumes "0 < a" "a \<le> b"
  obtains v where "round_pos a b = Finite v" "0 \<le> v" "v \<le> 1"
    "v \<le> of_int a / of_int b + 1 / 2 ^ 53" "b \<le> 2 * a \<Longrightarrow> 1 / 2 \<le> v"
proof -
  define e where "e = max (- 1074) (rat_log2 a b - 52)"
  define n where "n = nat (- e)"
  have e: "e = - int n" "52 \<le> n"
    using rat_log2_le_0 [OF assms] by (auto simp: e_def n_def)
  define x :: rat where "x = of_int a / of_int b"
  define r where "r = round_half_even (x * 2 ^ n)"
  define v :: rat where "v = of_int r / 2 ^ n"
  have x: "0 < x" "x \<le> 1" using assms by (simp_all add: x_def)
  have r0: "0 \<le> r" unfolding r_def by (rule round_half_even_mono_int) (use x in simp)
  have r1: "r \<le> 2 ^ n" unfolding r_def by (rule round_half_even_le_int) (use x in simp)
  have v01: "0 \<le> v" "v \<le> 1" using r0 r1 by (simp_all add: v_def)
  have "round_pos a b = (if v \<ge> 2 ^ 1024 then Infinite False else Finite v)"
    unfolding round_pos_def e_def [symmetric] Let_def
    by (simp add: e(1) rat_exp2_def v_def r_def x_def)
  moreover have "\<not> v \<ge> 2 ^ 1024"
  proof -
    have "(1::rat) < 2 ^ 1024" by (rule one_less_power) simp_all
    with v01 show ?thesis by linarith
  qed
  ultimately have val: "round_pos a b = Finite v" by simp
  have "of_int r \<le> x * 2 ^ n + 1 / 2" unfolding r_def by (rule round_half_even_bounds)
  then have "v \<le> x + 1 / 2 / 2 ^ n" by (simp add: v_def field_simps)
  also have "\<dots> \<le> x + 1 / 2 ^ 53"
  proof -
    have "(2::rat) ^ 52 \<le> 2 ^ n" by (rule power_increasing) (use e in simp_all)
    then show ?thesis by (simp add: field_simps)
  qed
  finally have up: "v \<le> of_int a / of_int b + 1 / 2 ^ 53" by (simp add: x_def)
  have low: "1 / 2 \<le> v" if "b \<le> 2 * a"
  proof -
    obtain m where n: "n = Suc m" using e(2) by (cases n) auto
    from that assms have "1 / 2 \<le> x"
      by (simp add: x_def field_simps flip: of_int_mult)
    then have "of_int (2 ^ m) \<le> x * 2 ^ n" by (simp add: n)
    then have "2 ^ m \<le> r" unfolding r_def by (rule round_half_even_mono_int)
    then have "(of_int (2 ^ m) :: rat) \<le> of_int r" by (simp only: of_int_le_iff)
    then show ?thesis by (simp add: v_def n field_simps)
  qed
  from that [OF val v01 up low] show thesis .
qed

lemma f64_div_half:
  assumes "a \<le> b" "0 < b" "b \<le> 2 ^ 51"
  shows "f64_ge (f64_div_nat a b) (Finite (1 / 2)) \<longleftrightarrow> b \<le> 2 * a"
proof (cases "a = 0")
  case False
  with assms have "0 < int a" "int a \<le> int b" by simp_all
  then obtain v where v: "round_pos (int a) (int b) = Finite v"
    "v \<le> of_int (int a) / of_int (int b) + 1 / 2 ^ 53" "int b \<le> 2 * int a \<Longrightarrow> 1 / 2 \<le> v"
    by (blast elim: round_pos_unit)
  have "v < 1 / 2" if "\<not> b \<le> 2 * a"
  proof -
    have b0: "(0::rat) < of_nat b" using assms(2) by simp
    have "(of_nat b :: rat) \<le> of_nat (2 ^ 51)" using assms(3) by (simp only: of_nat_le_iff)
    then have b1: "(of_nat b :: rat) \<le> 2 ^ 51" by simp
    from that have "2 * a + 1 \<le> b" by simp
    then have "(of_nat (2 * a + 1) :: rat) \<le> of_nat b" by (simp only: of_nat_le_iff)
    then have "(of_nat a :: rat) / of_nat b \<le> 1 / 2 - 1 / (2 * of_nat b)"
      using b0 by (simp add: field_simps)
    moreover have "(1::rat) / 2 ^ 53 < 1 / (2 * of_nat b)"
      by (rule divide_strict_left_mono) (use b0 b1 in simp_all)
    ultimately show ?thesis using v(2) by simp
  qed
  moreover have "1 / 2 \<le> v" if "b \<le> 2 * a" using v(3) that by simp
  ultimately show ?thesis using False v(1) by (auto simp: f64_div_nat_def not_less [symmetric])
qed (use assms in \<open>simp add: f64_div_nat_def\<close>)

lemma f64_div_unit:
  assumes "a \<le> b" "0 < b"
  shows "\<exists>v. f64_div_nat a b = Finite v \<and> 0 \<le> v \<and> v \<le> 1"
proof (cases "a = 0")
  case False
  with assms have "0 < int a" "int a \<le> int b" by simp_all
  then obtain v where "round_pos (int a) (int b) = Finite v" "0 \<le> v" "v \<le> 1"
    by (blast elim: round_pos_unit)
  with False show ?thesis by (simp add: f64_div_nat_def)
qed (simp add: f64_div_nat_def)

section \<open>Parsing numbers\<close>

definition is_digit :: "char \<Rightarrow> bool" where
  "is_digit c \<longleftrightarrow> 48 \<le> (of_char c :: nat) \<and> (of_char c :: nat) \<le> 57"

definition digits_value :: "string \<Rightarrow> nat" where
  "digits_value ds = foldl (\<lambda>n c. 10 * n + (of_char c - 48)) 0 ds"

text \<open>\<open>str::parse\<close> for an unsigned integer of \<open>w\<close> bits: an optional \<open>+\<close>, then digits in range.\<close>

definition parse_uint :: "nat \<Rightarrow> string \<Rightarrow> nat option" where
  "parse_uint w s =
     (let ds = (case s of c # t \<Rightarrow> if c = CHR ''+'' then t else s | [] \<Rightarrow> [])
      in if ds \<noteq> [] \<and> list_all is_digit ds \<and> digits_value ds < 2 ^ w
         then Some (digits_value ds) else None)"

definition parse_bool :: "string \<Rightarrow> bool option" where
  "parse_bool s = (if s = ''true'' then Some True else if s = ''false'' then Some False else None)"

definition ascii_lower :: "char \<Rightarrow> char" where
  "ascii_lower c =
     (if 65 \<le> (of_char c :: nat) \<and> (of_char c :: nat) \<le> 90 then char_of (of_char c + 32 :: nat) else c)"

text \<open>
  \<open>str::parse\<close> for \<open>f64\<close>: an optional sign, then a decimal number (digits, an optional
  fraction, at least one digit in all, an optional exponent) that is correctly rounded, or
  one of the words \<open>inf\<close>, \<open>infinity\<close>, \<open>nan\<close> in any case.
\<close>

definition parse_exponent :: "string \<Rightarrow> int option" where
  "parse_exponent s =
     (case s of
        [] \<Rightarrow> Some 0
      | c # t \<Rightarrow>
          if ascii_lower c \<noteq> CHR ''e'' then None
          else let ds = (case t of d # u \<Rightarrow> if d = CHR ''-'' \<or> d = CHR ''+'' then u else t | [] \<Rightarrow> []);
                   v = int (digits_value ds)
               in if ds = [] \<or> \<not> list_all is_digit ds then None
                  else Some (if hd t = CHR ''-'' then - v else v))"

definition decimal_value :: "nat \<Rightarrow> int \<Rightarrow> f64" where
  "decimal_value m e =
     (if m = 0 then Finite 0 else round_pos (int m * 10 ^ nat e) (10 ^ nat (- e)))"

definition parse_decimal :: "string \<Rightarrow> f64 option" where
  "parse_decimal s =
     (let ip = takeWhile is_digit s; r = dropWhile is_digit s;
          fp = (case r of c # t \<Rightarrow> if c = CHR ''.'' then takeWhile is_digit t else [] | [] \<Rightarrow> []);
          r' = (case r of c # t \<Rightarrow> if c = CHR ''.'' then dropWhile is_digit t else r | [] \<Rightarrow> [])
      in if ip @ fp = [] then None
         else map_option (\<lambda>e. decimal_value (digits_value (ip @ fp)) (e - int (length fp)))
                (parse_exponent r'))"

definition parse_f64 :: "string \<Rightarrow> f64 option" where
  "parse_f64 s =
     (let negative = (s \<noteq> [] \<and> hd s = CHR ''-'');
          body = (case s of c # t \<Rightarrow> if c = CHR ''-'' \<or> c = CHR ''+'' then t else s | [] \<Rightarrow> []);
          word = map ascii_lower body
      in map_option (\<lambda>v. if negative then f64_neg v else v)
           (case parse_decimal body of
              Some v \<Rightarrow> Some v
            | None \<Rightarrow> if word = ''nan'' then Some NaN
                      else if word = ''inf'' \<or> word = ''infinity'' then Some (Infinite False)
                      else None))"

text \<open>Decimal notation, and that parsing reads it back.\<close>

definition digit_char :: "nat \<Rightarrow> char" where
  "digit_char d = char_of (48 + d)"

fun show_nat :: "nat \<Rightarrow> string" where
  "show_nat n = (if n < 10 then [digit_char n] else show_nat (n div 10) @ [digit_char (n mod 10)])"

declare show_nat.simps [simp del]

lemma of_char_digit [simp]: "d < 10 \<Longrightarrow> (of_char (digit_char d) :: nat) = 48 + d"
  by (simp add: digit_char_def of_char_of)

lemma digits_value_snoc: "digits_value (ds @ [c]) = 10 * digits_value ds + (of_char c - 48)"
  by (simp add: digits_value_def)

lemma show_nat_facts:
  "show_nat n \<noteq> [] \<and> list_all is_digit (show_nat n) \<and> digits_value (show_nat n) = n"
proof (induction n rule: show_nat.induct)
  case (1 n)
  show ?case
  proof (cases "n < 10")
    case True
    then show ?thesis by (simp add: show_nat.simps [of n] is_digit_def digits_value_def)
  next
    case False
    with 1 show ?thesis
      by (simp add: show_nat.simps [of n] is_digit_def digits_value_snoc del: of_char_eq_iff)
  qed
qed

lemma show_nat_digits: "c \<in> set (show_nat n) \<Longrightarrow> is_digit c"
  using show_nat_facts [of n] by (auto simp: list_all_iff)

lemma parse_show_nat: "n < 2 ^ w \<Longrightarrow> parse_uint w (show_nat n) = Some n"
proof -
  assume n: "n < 2 ^ w"
  have "CHR ''+'' \<notin> set (show_nat n)" using show_nat_digits [of "CHR ''+''" n] by (auto simp: is_digit_def)
  then have "(case show_nat n of c # t \<Rightarrow> if c = CHR ''+'' then t else show_nat n | [] \<Rightarrow> []) = show_nat n"
    by (cases "show_nat n") auto
  with n show ?thesis using show_nat_facts [of n] by (simp add: parse_uint_def)
qed

section \<open>Durations and instants\<close>

text \<open>
  A \<open>Duration\<close> is a number of nanoseconds; an \<open>Instant\<close> is a signed number of nanoseconds
  whose seconds are an \<open>i64\<close> (the Unix representation), so \<open>checked_sub\<close> fails below
  \<open>-2^63\<close> seconds.
\<close>

type_synonym duration = nat
type_synonym instant = int

definition from_secs :: "nat \<Rightarrow> duration" where
  "from_secs s = s * 1000000000"

definition from_millis :: "nat \<Rightarrow> duration" where
  "from_millis m = m * 1000000"

definition as_millis_u64 :: "duration \<Rightarrow> 64 word" where
  "as_millis_u64 d = of_nat (d div 1000000)"

definition checked_sub :: "instant \<Rightarrow> duration \<Rightarrow> instant option" where
  "checked_sub t d = (if t - int d < - (2 ^ 63) * 1000000000 then None else Some (t - int d))"

definition saturating_duration_since :: "instant \<Rightarrow> instant \<Rightarrow> duration" where
  "saturating_duration_since t earlier = nat (t - earlier)"

definition saturating_sub_u64 :: "64 word \<Rightarrow> 64 word \<Rightarrow> 64 word" where
  "saturating_sub_u64 a b = (if b \<le> a then a - b else 0)"

lemma unat_saturating_sub: "unat (saturating_sub_u64 a b) = unat a - unat b"
  by (auto simp: saturating_sub_u64_def unat_sub word_le_nat_alt)

end
