(* ===== verification/Shell_Paths.thy ===== *)
theory Shell_Paths
  imports Rust_Num
begin

text \<open>
  Paths as the permission system reads them: the parts of \<open>std::path\<close> the sources use (on
  Unix), \<open>normalize_lexically\<close> of \<open>gbuild-paths/src/lib.rs\<close>, and the path helpers of
  \<open>gbuild-workspace/src/permission/shell_access.rs\<close>: normalisation of shell operands, the
  bounded resolution of symbolic links and the protected edit targets. The file system is the
  argument \<open>fs\<close>: what \<open>canonicalize\<close>, \<open>symlink_metadata\<close> and \<open>read_link\<close> answer.
\<close>

section \<open>\<open>std::path\<close>\<close>

datatype path_component = RootDir | CurDir | ParentDir | Normal string

definition is_absolute :: "string \<Rightarrow> bool" where
  "is_absolute p = starts_with p ''/''"

definition component_of :: "string \<Rightarrow> path_component option" where
  "component_of seg =
     (if seg = [] \<or> seg = ''.'' then None
      else if seg = ''..'' then Some ParentDir
      else Some (Normal seg))"

text \<open>
  \<open>path.components()\<close>: repeated separators and inner \<open>.\<close> segments vanish; a leading \<open>.\<close> of a
  relative path is kept.
\<close>

definition components :: "string \<Rightarrow> path_component list" where
  "components p =
     (let segs = split_char CHR ''/'' p
      in (if is_absolute p then [RootDir]
          else if hd segs = ''.'' then [CurDir] else [])
         @ List.map_filter component_of segs)"

text \<open>\<open>path.join(q)\<close>: an absolute \<open>q\<close> replaces the path.\<close>

definition path_join :: "string \<Rightarrow> string \<Rightarrow> string" where
  "path_join p q =
     (if is_absolute q then q
      else if p = [] \<or> last p = CHR ''/'' then p @ q
      else p @ ''/'' @ q)"

text \<open>
  What a component iterator still covers, as a path: no trailing separator and no trailing
  \<open>.\<close> segment, except for the root and a lone \<open>.\<close>.
\<close>

function as_path :: "string \<Rightarrow> string" where
  "as_path p =
     (if length p \<le> 1 then p
      else if last p = CHR ''/'' then as_path (butlast p)
      else if ends_with p ''/.'' then as_path (butlast p)
      else p)"
  by pat_completeness auto
termination
  by (relation "measure length") auto

declare as_path.simps [simp del]

definition last_segment :: "string \<Rightarrow> string" where
  "last_segment p = rev (takeWhile (\<lambda>c. c \<noteq> CHR ''/'') (rev p))"

definition path_parent :: "string \<Rightarrow> string option" where
  "path_parent p =
     (let t = as_path p
      in if t = [] \<or> t = ''/'' then None
         else Some (as_path (take (length t - length (last_segment t)) t)))"

definition path_file_name :: "string \<Rightarrow> string option" where
  "path_file_name p =
     (case component_of (last_segment (as_path p)) of
        Some (Normal name) \<Rightarrow> Some name
      | _ \<Rightarrow> None)"

text \<open>\<open>path.starts_with(base)\<close> compares whole components.\<close>

definition path_starts_with :: "string \<Rightarrow> string \<Rightarrow> bool" where
  "path_starts_with p base = prefix (components base) (components p)"

fun push_component :: "string \<Rightarrow> path_component \<Rightarrow> string" where
  "push_component p RootDir = ''/''"
| "push_component p CurDir = path_join p ''.''"
| "push_component p ParentDir = path_join p ''..''"
| "push_component p (Normal s) = path_join p s"

definition from_components :: "path_component list \<Rightarrow> string" where
  "from_components cs = foldl push_component [] cs"

section \<open>\<open>gbuild_paths::normalize_lexically\<close>\<close>

text \<open>The vector of kept components is held reversed: its head is the last one.\<close>

fun lexical_step :: "path_component list \<Rightarrow> path_component \<Rightarrow> path_component list" where
  "lexical_step kept CurDir = kept"
| "lexical_step kept ParentDir =
     (case kept of
        Normal _ # rest \<Rightarrow> rest
      | RootDir # _ \<Rightarrow> kept
      | _ \<Rightarrow> ParentDir # kept)"
| "lexical_step kept c = c # kept"

definition lexical_components :: "path_component list \<Rightarrow> path_component list" where
  "lexical_components cs = rev (foldl lexical_step [] cs)"

definition normalize_lexically :: "string \<Rightarrow> string" where
  "normalize_lexically p =
     (let cs = lexical_components (components p)
      in if cs = [] then ''.'' else from_components cs)"

section \<open>Normalising shell operands\<close>

definition is_absolute_shell_path :: "string \<Rightarrow> bool" where
  "is_absolute_shell_path path \<longleftrightarrow>
     starts_with path ''/'' \<or> starts_with path ''~/'' \<or> nth_opt path 1 = Some CHR '':''"

definition trim_quotes :: "string \<Rightarrow> string" where
  "trim_quotes s =
     (let q = (\<lambda>c. c = dquote \<or> c = squote)
      in rev (dropWhile q (rev (dropWhile q s))))"

definition normalize_shell_path_raw :: "string \<Rightarrow> string" where
  "normalize_shell_path_raw path =
     (let p = map (\<lambda>c. if c = bslash then CHR ''/'' else c) (trim_quotes path)
      in case strip_prefix ''/c/'' p of
           Some rest \<Rightarrow> ''C:/'' @ rest
         | None \<Rightarrow> p)"

text \<open>One segment; the collected segments are held reversed.\<close>

definition segment_step :: "bool \<Rightarrow> string list \<Rightarrow> string \<Rightarrow> string list" where
  "segment_step absolute out seg =
     (if seg = [] \<or> seg = ''.'' then out
      else if seg = ''..'' then
        (case out of
           s # rest \<Rightarrow> if s \<noteq> ''..'' then rest else if \<not> absolute then ''..'' # out else out
         | [] \<Rightarrow> if \<not> absolute then [''..''] else [])
      else seg # out)"

definition normal_segments :: "bool \<Rightarrow> string list \<Rightarrow> string list" where
  "normal_segments absolute segs = rev (foldl (segment_step absolute) [] segs)"

definition lexical_normalize :: "string \<Rightarrow> string" where
  "lexical_normalize path =
     (let prefix_len = (if nth_opt path 1 = Some CHR '':'' then 2 else 0);
          pre = take prefix_len path;
          rest = drop prefix_len path;
          absolute = starts_with rest ''/'';
          body = join ''/'' (normal_segments absolute (split_char CHR ''/'' rest))
      in if pre \<noteq> []
         then (if absolute then pre @ ''/'' @ body else pre @ body)
         else (if absolute then ''/'' @ body else body))"

definition normalize_shell_path :: "string \<Rightarrow> string" where
  "normalize_shell_path path = lexical_normalize (normalize_shell_path_raw path)"

section \<open>Symbolic links\<close>

datatype link_status = Is_Symlink | Not_Symlink | Meta_NotFound | Meta_Error

record filesystem =
  canonicalize :: "string \<Rightarrow> string option"
  symlink_metadata :: "string \<Rightarrow> link_status"
  read_link :: "string \<Rightarrow> string option"

definition MAX_SYMLINK_DEPTH :: nat where "MAX_SYMLINK_DEPTH = 40"

function resolve_following_symlinks :: "filesystem \<Rightarrow> string \<Rightarrow> nat \<Rightarrow> string option" where
  "resolve_following_symlinks fs path depth =
     (if depth > MAX_SYMLINK_DEPTH then None
      else case canonicalize fs path of
        Some canonical \<Rightarrow> Some canonical
      | None \<Rightarrow>
          (case path_parent path of
             None \<Rightarrow> None
           | Some parent \<Rightarrow>
          (case path_file_name path of
             None \<Rightarrow> None
           | Some file_name \<Rightarrow>
          (case resolve_following_symlinks fs parent (depth + 1) of
             None \<Rightarrow> None
           | Some resolved_parent \<Rightarrow>
               let candidate = path_join resolved_parent file_name
               in case symlink_metadata fs candidate of
                    Meta_Error \<Rightarrow> None
                  | Is_Symlink \<Rightarrow>
                      (case read_link fs candidate of
                         None \<Rightarrow> None
                       | Some target \<Rightarrow>
                           resolve_following_symlinks fs
                             (if is_absolute target then target else path_join resolved_parent target)
                             (depth + 1))
                  | _ \<Rightarrow> Some candidate))))"
  by pat_completeness auto
termination
  by (relation "measure (\<lambda>(fs, path, depth). Suc MAX_SYMLINK_DEPTH - depth)") auto

declare resolve_following_symlinks.simps [simp del]

definition path_has_symlink :: "filesystem \<Rightarrow> string \<Rightarrow> bool" where
  "path_has_symlink fs absolute =
     (is_absolute absolute
      \<and> list_ex (\<lambda>k. symlink_metadata fs (from_components (take k (components absolute))) = Is_Symlink)
          [1..<Suc (length (components absolute))])"

definition resolve_symlink_target :: "filesystem \<Rightarrow> string \<Rightarrow> string option" where
  "resolve_symlink_target fs absolute =
     (if \<not> is_absolute absolute then None
      else map_option normalize_shell_path (resolve_following_symlinks fs absolute 0))"

section \<open>Places\<close>

text \<open>
  The specification of lexical normalisation: the place an absolute path leads to in a tree of
  directories without symbolic links, as the names from the root.
\<close>

definition place_step :: "string list \<Rightarrow> string \<Rightarrow> string list" where
  "place_step d seg =
     (if seg = [] \<or> seg = ''.'' then d
      else if seg = ''..'' then butlast d
      else d @ [seg])"

definition place :: "string \<Rightarrow> string list" where
  "place p = foldl place_step [] (split_char CHR ''/'' p)"

definition proper_name :: "string \<Rightarrow> bool" where
  "proper_name seg \<longleftrightarrow> seg \<notin> set [[], ''.'', ''..''] \<and> CHR ''/'' \<notin> set seg"

lemma place_step_proper:
  "list_all proper_name d \<Longrightarrow> CHR ''/'' \<notin> set seg \<Longrightarrow> list_all proper_name (place_step d seg)"
  by (auto simp: place_step_def proper_name_def list_all_iff dest: in_set_butlastD)

lemma foldl_place_proper:
  "list_all proper_name d \<Longrightarrow> (\<forall>s \<in> set segs. CHR ''/'' \<notin> set s) \<Longrightarrow>
   list_all proper_name (foldl place_step d segs)"
  by (induction segs arbitrary: d) (auto intro: place_step_proper)

lemma place_proper: "list_all proper_name (place p)"
  unfolding place_def by (rule foldl_place_proper) (simp_all add: split_char_parts)

lemma foldl_place_names: "list_all proper_name ns \<Longrightarrow> foldl place_step d ns = d @ ns"
  by (induction ns arbitrary: d) (auto simp: place_step_def proper_name_def)

lemma segment_step_place:
  "list_all proper_name (rev out) \<Longrightarrow> segment_step True out seg = rev (place_step (rev out) seg)"
  by (cases out) (auto simp: segment_step_def place_step_def proper_name_def)

lemma foldl_segment_step_place:
  "list_all proper_name (rev out) \<Longrightarrow> (\<forall>s \<in> set segs. CHR ''/'' \<notin> set s) \<Longrightarrow>
   foldl (segment_step True) out segs = rev (foldl place_step (rev out) segs)"
proof (induction segs arbitrary: out)
  case (Cons s segs)
  then show ?case
    using place_step_proper [of "rev out" s] by (simp add: segment_step_place)
qed simp

lemma normal_segments_place: "normal_segments True (split_char CHR ''/'' p) = place p"
  using foldl_segment_step_place [of "[]"] by (simp add: normal_segments_def place_def split_char_parts)

lemma place_of_names:
  assumes "list_all proper_name ns"
  shows "place (''/'' @ join ''/'' ns) = ns"
proof (cases "ns = []")
  case False
  then have "split_char CHR ''/'' (join [CHR ''/''] ns) = ns"
    using assms by (intro split_char_join) (auto simp: list_all_iff proper_name_def)
  then show ?thesis
    using foldl_place_names [OF assms, of "[]"] by (simp add: place_def place_step_def)
qed (simp add: place_def place_step_def)

text \<open>An absolute operand whose second byte is not the colon of a drive prefix.\<close>

definition plain_absolute :: "string \<Rightarrow> bool" where
  "plain_absolute p \<longleftrightarrow> is_absolute p \<and> nth_opt p 1 \<noteq> Some CHR '':''"

lemma lexical_normalize_place:
  assumes "plain_absolute p"
  shows "lexical_normalize p = ''/'' @ join ''/'' (place p)"
proof -
  have "nth_opt p 1 \<noteq> Some CHR '':''" and "starts_with p ''/''"
    using assms by (auto simp: plain_absolute_def is_absolute_def)
  then show ?thesis
    by (simp only: lexical_normalize_def Let_def normal_segments_place if_False take_0 drop_0) simp
qed

lemma place_lexical_normalize:
  "plain_absolute p \<Longrightarrow> place (lexical_normalize p) = place p"
  using place_of_names [OF place_proper] by (simp add: lexical_normalize_place)

text \<open>
  C32. Normalising an operand decides sameness of place: two absolute operands (without a drive
  prefix) get the same normal form exactly when they lead to the same place in a tree without
  symbolic links, and the normal form is the plain spelling of that place: a slash and the
  names on the way, none of them empty, \<open>.\<close> or \<open>..\<close>.
\<close>

theorem lexical_normalize_canonical:
  assumes "plain_absolute p" and "plain_absolute q"
  shows "(lexical_normalize p = lexical_normalize q \<longleftrightarrow> place p = place q)
    \<and> lexical_normalize p = ''/'' @ join ''/'' (place p) \<and> list_all proper_name (place p)"
proof -
  have "lexical_normalize p = lexical_normalize q \<longleftrightarrow> place p = place q"
    by (metis assms lexical_normalize_place place_lexical_normalize)
  then show ?thesis
    using assms place_proper lexical_normalize_place by blast
qed

theorem lexical_normalize_canonical_witness:
  "lexical_normalize ''/w/./x/..//.env'' = lexical_normalize ''/w/.env''
   \<and> place ''/w/./x/..//.env'' = [''w'', ''.env'']"
  using lexical_normalize_canonical [of "''/w/./x/..//.env''" "''/w/.env''"]
  by (simp add: plain_absolute_def is_absolute_def nth_opt_def place_def place_step_def)

section \<open>Normal forms as component lists\<close>

lemma split_char_names:
  assumes "list_all proper_name ns" and "ns \<noteq> []"
  shows "split_char CHR ''/'' (join ''/'' ns) = ns"
  using assms by (intro split_char_join) (auto simp: list_all_iff proper_name_def)

lemma map_filter_component_names:
  "list_all proper_name ns \<Longrightarrow> List.map_filter component_of ns = map Normal ns"
  by (induction ns) (auto simp: component_of_def proper_name_def)

lemma components_of_names:
  assumes "list_all proper_name ns"
  shows "components (''/'' @ join ''/'' ns) = RootDir # map Normal ns"
proof (cases "ns = []")
  case True
  then show ?thesis
    by (simp add: components_def is_absolute_def component_of_def)
next
  case False
  have "component_of [] = None"
    by (simp add: component_of_def)
  then show ?thesis
    using split_char_names [OF assms False] map_filter_component_names [OF assms]
    by (simp add: components_def is_absolute_def Let_def)
qed

lemma last_join_names:
  "list_all proper_name ns \<Longrightarrow> ns \<noteq> [] \<Longrightarrow> join ''/'' ns \<noteq> [] \<and> last (join ''/'' ns) \<noteq> CHR ''/''"
  by (induction ns rule: induct_list012) (auto simp: proper_name_def dest: last_in_set)

lemma path_join_name:
  assumes "list_all proper_name ns" and "proper_name n"
  shows "path_join (''/'' @ join ''/'' ns) n = ''/'' @ join ''/'' (ns @ [n])"
proof -
  have "\<not> is_absolute n"
    using assms(2) by (cases n) (auto simp: is_absolute_def proper_name_def)
  then show ?thesis
    using last_join_names [OF assms(1)] by (cases "ns = []") (auto simp: path_join_def join_snoc)
qed

lemma foldl_push_names:
  "list_all proper_name (ns @ ms) \<Longrightarrow>
   foldl push_component (''/'' @ join ''/'' ns) (map Normal ms) = ''/'' @ join ''/'' (ns @ ms)"
proof (induction ms arbitrary: ns)
  case (Cons m ms)
  then have "path_join (''/'' @ join ''/'' ns) m = ''/'' @ join ''/'' (ns @ [m])"
    by (intro path_join_name) auto
  then show ?case
    using Cons.IH [of "ns @ [m]"] Cons.prems by simp
qed simp

lemma from_components_names:
  "list_all proper_name ns \<Longrightarrow> from_components (RootDir # map Normal ns) = ''/'' @ join ''/'' ns"
  using foldl_push_names [of "[]" ns] by (simp add: from_components_def)

lemma lexical_step_place:
  "(case component_of seg of
      None \<Rightarrow> rev (RootDir # map Normal d)
    | Some c \<Rightarrow> lexical_step (rev (RootDir # map Normal d)) c) =
   rev (RootDir # map Normal (place_step d seg))"
  by (cases d rule: rev_cases) (auto simp: component_of_def place_step_def)

lemma foldl_lexical_place:
  "foldl lexical_step (rev (RootDir # map Normal d)) (List.map_filter component_of segs) =
   rev (RootDir # map Normal (foldl place_step d segs))"
proof (induction segs arbitrary: d)
  case (Cons s segs)
  have "foldl lexical_step (rev (RootDir # map Normal d)) (List.map_filter component_of (s # segs)) =
    foldl lexical_step (case component_of s of
        None \<Rightarrow> rev (RootDir # map Normal d)
      | Some c \<Rightarrow> lexical_step (rev (RootDir # map Normal d)) c) (List.map_filter component_of segs)"
    by (simp split: option.splits)
  then show ?case
    using Cons.IH [of "place_step d s"] by (simp only: lexical_step_place foldl_Cons)
qed simp

lemma lexical_components_place:
  assumes "is_absolute p"
  shows "lexical_components (components p) = RootDir # map Normal (place p)"
  using foldl_lexical_place [of "[]" "split_char CHR ''/'' p"] assms
  by (simp add: lexical_components_def components_def place_def Let_def)

lemma normalize_lexically_place:
  assumes "is_absolute p"
  shows "normalize_lexically p = ''/'' @ join ''/'' (place p)"
    and "components (normalize_lexically p) = RootDir # map Normal (place p)"
  using from_components_names [OF place_proper] components_of_names [OF place_proper]
  by (simp_all add: normalize_lexically_def lexical_components_place [OF assms] Let_def)

section \<open>Resolution never ends on a link\<close>

lemma resolve_cases:
  assumes "resolve_following_symlinks fs path depth = Some r"
  obtains "canonicalize fs path = Some r"
  | "symlink_metadata fs r \<noteq> Is_Symlink"
  | target where "resolve_following_symlinks fs target (depth + 1) = Some r" "depth < Suc MAX_SYMLINK_DEPTH"
  using assms
  by (subst (asm) resolve_following_symlinks.simps)
    (auto simp: Let_def split: if_splits option.splits link_status.splits)

text \<open>
  Resolving a path never stops on a symbolic link: if canonical paths are not links, then
  whatever the resolver answers, through existing, dangling and chained links and for paths
  whose last components do not exist yet, is not a symbolic link.
\<close>

theorem resolve_never_a_link:
  assumes "\<And>p c. canonicalize fs p = Some c \<Longrightarrow> symlink_metadata fs c \<noteq> Is_Symlink"
    and "resolve_following_symlinks fs path depth = Some r"
  shows "symlink_metadata fs r \<noteq> Is_Symlink"
  using assms(2)
proof (induction "Suc MAX_SYMLINK_DEPTH - depth" arbitrary: path depth rule: less_induct)
  case less
  from less.prems show ?case
  proof (cases rule: resolve_cases)
    case (3 target)
    then show ?thesis
      using less.hyps [of "depth + 1" target] by simp
  qed (use assms(1) in auto)
qed

text \<open>A file system without links, in which every path exists.\<close>

definition flat_fs :: filesystem where
  "flat_fs = \<lparr>canonicalize = (\<lambda>p. Some (normalize_lexically p)),
     symlink_metadata = (\<lambda>p. Not_Symlink), read_link = (\<lambda>p. None)\<rparr>"

definition sample_fs :: filesystem where
  "sample_fs = \<lparr>
     canonicalize = (\<lambda>p. if p = ''/'' then Some ''/'' else None),
     symlink_metadata = (\<lambda>p. if p = ''/a'' \<or> p = ''/loop'' then Is_Symlink else Meta_NotFound),
     read_link = (\<lambda>p. if p = ''/a'' then Some ''b'' else Some ''loop'')\<rparr>"

text \<open>\<open>/a\<close> links to \<open>b\<close>, which does not exist; \<open>/loop\<close> links to itself.\<close>

lemma sample_fs_resolve:
  "resolve_following_symlinks sample_fs ''/a/x'' 0 = Some ''/b/x''"
  "resolve_following_symlinks sample_fs ''/loop'' 0 = None"
  by code_simp+

theorem resolve_never_a_link_witness:
  "resolve_following_symlinks sample_fs ''/a/x'' 0 = Some ''/b/x''
   \<and> symlink_metadata sample_fs ''/b/x'' \<noteq> Is_Symlink"
proof -
  have "symlink_metadata sample_fs c \<noteq> Is_Symlink" if "canonicalize sample_fs p = Some c" for p c
    using that by (auto simp: sample_fs_def split: if_splits)
  then show ?thesis
    using resolve_never_a_link [OF _ sample_fs_resolve(1)] sample_fs_resolve(1) by simp
qed

end
