(* ===== verification/Shell_Access.thy ===== *)
theory Shell_Access
  imports Permission_Policy Shell_Paths
begin

text \<open>
  File accesses inside shell commands (\<open>gbuild-workspace/src/permission/shell_access.rs\<close>): the
  redirects and invocations of a parsed script, the operands that programs read and write,
  the scopes in which a change of directory makes relative operands unpinnable, and the gate
  that applies the \<open>Read\<close> and \<open>Edit\<close> rules to all of them.
\<close>

section \<open>Programs and their operands\<close>

datatype file_mode = Mode_Read | Mode_Write

definition shell_file_mode :: "string \<Rightarrow> file_mode option" where
  "shell_file_mode program =
     (if program \<in> set [''cat'', ''tac'', ''nl'', ''head'', ''tail'', ''grep'', ''egrep'', ''fgrep'',
          ''rg'', ''sed'', ''awk'', ''less'', ''more'', ''bat'', ''strings'', ''xxd'', ''od'',
          ''hexdump'', ''base64'', ''base32'', ''cut'', ''sort'', ''uniq'', ''wc'', ''type'',
          ''get-content'', ''gc'', ''diff'', ''comm'', ''rev'', ''jq'', ''yq'', ''select-string'',
          ''sls'', ''ag'', ''ack'', ''zcat'', ''zless'', ''zmore'', ''zgrep'', ''zegrep'', ''zfgrep'',
          ''bzcat'', ''bzgrep'', ''xzcat'', ''xzgrep'', ''zstdcat'', ''lz4cat''] then Some Mode_Read
      else if program \<in> set [''tee'', ''set-content'', ''out-file'', ''add-content'', ''tee-object'',
          ''truncate''] then Some Mode_Write
      else None)"

definition shell_program_name :: "string \<Rightarrow> string" where
  "shell_program_name word = basename word"

definition shell_sed_in_place :: "string list \<Rightarrow> bool" where
  "shell_sed_in_place ws =
     list_ex (\<lambda>word. word = ''--in-place'' \<or> starts_with word ''--in-place=''
        \<or> (starts_with word ''-'' \<and> \<not> starts_with word ''--'' \<and> CHR ''i'' \<in> set word)) (drop 1 ws)"

text \<open>The value an output option at index \<open>i\<close> names.\<close>

definition output_value :: "string list \<Rightarrow> nat \<Rightarrow> string option" where
  "output_value ws i =
     (let token = ws ! i
      in case strip_prefix ''--output='' token of
           Some v \<Rightarrow> Some v
         | None \<Rightarrow>
        (case strip_prefix ''-o'' token of
           Some (c # v) \<Rightarrow> Some (c # v)
         | _ \<Rightarrow> if token = ''--output'' \<or> token = ''-o'' then nth_opt ws (i + 1) else None))"

definition shell_output_flag_values :: "string list \<Rightarrow> string list" where
  "shell_output_flag_values ws = List.map_filter (output_value ws) [0..<length ws]"

definition flag_value :: "string \<Rightarrow> string list \<Rightarrow> nat \<Rightarrow> string option" where
  "flag_value flag ws i =
     (let token = ws ! i
      in case strip_prefix (flag @ ''='') token of
           Some v \<Rightarrow> Some v
         | None \<Rightarrow>
             if token = flag then nth_opt ws (i + 1)
             else if \<not> starts_with flag ''--'' then
               (case strip_prefix flag token of Some (c # v) \<Rightarrow> Some (c # v) | _ \<Rightarrow> None)
             else None)"

definition value_flag_values :: "string list \<Rightarrow> string \<Rightarrow> string list" where
  "value_flag_values ws flag = List.map_filter (flag_value flag ws) [0..<length ws]"

fun candidates_loop :: "string list \<Rightarrow> bool \<Rightarrow> string list" where
  "candidates_loop [] end_of_options = []"
| "candidates_loop (token # ts) end_of_options =
     (if \<not> end_of_options \<and> token = ''--'' then candidates_loop ts True
      else if end_of_options \<or> (token \<noteq> ''-'' \<and> \<not> starts_with token ''-'')
        then token # candidates_loop ts end_of_options
      else candidates_loop ts end_of_options)"

definition shell_file_candidates :: "string list \<Rightarrow> string list" where
  "shell_file_candidates ws = candidates_loop (drop 1 ws) False"

definition dd_operand :: "string \<Rightarrow> (string \<times> file_mode) option" where
  "dd_operand token =
     (case strip_prefix ''if='' token of
        Some path \<Rightarrow> Some (path, Mode_Read)
      | None \<Rightarrow> map_option (\<lambda>path. (path, Mode_Write)) (strip_prefix ''of='' token))"

definition special_file_operands :: "string \<Rightarrow> string list \<Rightarrow> (string \<times> file_mode) list" where
  "special_file_operands program ws =
     (if program = ''dd'' then List.map_filter dd_operand (drop 1 ws)
      else if program \<in> set [''sort'', ''go'', ''git''] then
        map (\<lambda>output. (output, Mode_Write)) (shell_output_flag_values ws)
      else if program = ''rustc'' then
        map (\<lambda>output. (output, Mode_Write))
          (shell_output_flag_values ws @ value_flag_values ws ''--out-dir'')
      else if program = ''rustfmt'' then
        map (\<lambda>path. (path, Mode_Write)) (shell_file_candidates ws)
      else [])"

definition shell_path_command_operands ::
  "string \<Rightarrow> string list \<Rightarrow> (string \<times> file_mode) list option" where
  "shell_path_command_operands program ws =
     (let operands = shell_file_candidates ws
      in if program \<in> set [''cp'', ''mv'', ''ln'', ''install''] then
           (if operands = [] then None
            else Some (map (\<lambda>s. (s, Mode_Read)) (butlast operands) @ [(last operands, Mode_Write)]))
         else if program \<in> set [''rm'', ''rmdir'', ''mkdir'', ''touch''] then
           Some (map (\<lambda>c. (c, Mode_Write)) operands)
         else if program = ''uniq'' then
           (case operands of
              inp # outp # _ \<Rightarrow> Some [(inp, Mode_Read), (outp, Mode_Write)]
            | _ \<Rightarrow> None)
         else None)"

definition shell_arg_is_ambiguous :: "string \<Rightarrow> bool" where
  "shell_arg_is_ambiguous token \<longleftrightarrow>
     CHR ''*'' \<in> set token \<or> CHR ''?'' \<in> set token \<or> CHR ''['' \<in> set token"

definition is_directory_operand :: "string \<Rightarrow> bool" where
  "is_directory_operand token \<longleftrightarrow> token = ''.'' \<or> token = ''..'' \<or> ends_with token ''/''"

definition shell_reader_can_recurse :: "string \<Rightarrow> string list \<Rightarrow> string list \<Rightarrow> bool" where
  "shell_reader_can_recurse program ws candidates \<longleftrightarrow>
     (program \<in> set [''grep'', ''egrep'', ''fgrep'']
      \<and> list_ex (\<lambda>word. word = ''--recursive'' \<or> word = ''--dereference-recursive''
            \<or> (starts_with word ''-'' \<and> \<not> starts_with word ''--''
               \<and> (CHR ''r'' \<in> set word \<or> CHR ''R'' \<in> set word))) ws)
     \<or> (program \<in> set [''rg'', ''ag'', ''ack'']
        \<and> (length candidates \<le> 1 \<or> list_ex is_directory_operand (drop 1 candidates)))"

definition shell_access :: "file_mode \<Rightarrow> string \<Rightarrow> access_kind" where
  "shell_access mode path =
     (case mode of Mode_Read \<Rightarrow> Access_Read (Some path) | Mode_Write \<Rightarrow> Access_Edit path)"

definition is_safe_write_sink :: "string \<Rightarrow> bool" where
  "is_safe_write_sink path \<longleftrightarrow> path \<in> set [''/dev/null'', ''/dev/stdout'', ''/dev/stderr'']"

definition command_words_write_paths :: "string list \<Rightarrow> string list" where
  "command_words_write_paths ws =
     (let inner = unwrap_wrappers ws
      in case inner of
           [] \<Rightarrow> []
         | w # _ \<Rightarrow>
             let program = map ascii_lower (shell_program_name w);
                 special = map fst (filter (\<lambda>pm. snd pm = Mode_Write)
                   (special_file_operands program inner))
             in case shell_path_command_operands program inner of
                  Some operands \<Rightarrow>
                    special @ map fst (filter (\<lambda>pm. snd pm = Mode_Write) operands)
                | None \<Rightarrow>
                    special @
                    (if shell_file_mode program = Some Mode_Write
                        \<or> (program = ''sed'' \<and> shell_sed_in_place inner)
                     then shell_file_candidates inner else []))"

section \<open>Scopes of a change of directory\<close>

record execution_scope =
  scope_start :: int
  scope_end :: int

definition scope_contains :: "execution_scope \<Rightarrow> execution_scope \<Rightarrow> bool" where
  "scope_contains s t \<longleftrightarrow> scope_start s \<le> scope_start t \<and> scope_end t \<le> scope_end s"

text \<open>
  A node in its tree: the way up, innermost parent first, each with the child index taken
  there.
\<close>

type_synonym cursor = "ts_node \<times> (ts_node \<times> nat) list"

definition span_scope :: "ts_node \<Rightarrow> execution_scope" where
  "span_scope n = \<lparr>scope_start = int (ts_start n), scope_end = int (ts_end n)\<rparr>"

definition whole_scope :: execution_scope where
  "whole_scope = \<lparr>scope_start = 0, scope_end = 2 ^ 64 - 1\<rparr>"

fun execution_scope_at :: "ts_node \<Rightarrow> (ts_node \<times> nat) list \<Rightarrow> execution_scope" where
  "execution_scope_at current [] = whole_scope"
| "execution_scope_at current ((parent, i) # up) =
     (if map_option ts_kind (nth_opt (ts_children parent) (i + 1)) = Some ''&'' then
        span_scope (if ts_kind current = ''list'' then current else parent)
      else if ts_kind parent \<in> set [''subshell'', ''command_substitution'', ''process_substitution'']
        then span_scope parent
      else if ts_kind parent = ''pipeline'' then span_scope current
      else execution_scope_at parent up)"

definition execution_scope_of :: "cursor \<Rightarrow> execution_scope" where
  "execution_scope_of c = execution_scope_at (fst c) (snd c)"

definition child_cursors :: "cursor \<Rightarrow> cursor list" where
  "child_cursors c =
     map (\<lambda>i. (ts_children (fst c) ! i, (fst c, i) # snd c)) [0..<length (ts_children (fst c))]"

text \<open>The loop all three scans share: pop a node, visit it, push its children.\<close>

function (sequential) stack_walk :: "cursor list \<Rightarrow> cursor list" where
  "stack_walk [] = []"
| "stack_walk (c # stack) = c # stack_walk (rev (child_cursors c) @ stack)"
  by pat_completeness auto
termination
proof (relation "measure (\<lambda>stack. sum_list (map (node_count \<circ> fst) stack))")
  fix c :: cursor and stack :: "cursor list"
  have "map (node_count \<circ> fst) (child_cursors c) = map node_count (ts_children (fst c))"
    by (rule nth_equalityI) (simp_all add: child_cursors_def)
  then show "(rev (child_cursors c) @ stack, c # stack) \<in>
      measure (\<lambda>stack. sum_list (map (node_count \<circ> fst) stack))"
    using node_count_children [of "fst c"] by (simp add: rev_map [symmetric])
qed simp

definition all_cursors :: "ts_node \<Rightarrow> cursor list" where
  "all_cursors root_node = stack_walk [(root_node, [])]"

definition is_cwd_change :: "string \<Rightarrow> cursor \<Rightarrow> bool" where
  "is_cwd_change src c \<longleftrightarrow>
     ts_kind (fst c) = ''command''
     \<and> (case Option.bind (child_by_field_name (fst c) ''name'') (\<lambda>n. utf8_text n src) of
          Some program \<Rightarrow> shell_program_name program \<in> set [''cd'', ''pushd'', ''popd'']
        | None \<Rightarrow> False)"

definition cwd_poison_positions :: "ts_node \<Rightarrow> string \<Rightarrow> (nat \<times> execution_scope) list" where
  "cwd_poison_positions root_node src =
     map (\<lambda>c. (ts_start (fst c), execution_scope_of c))
       (filter (is_cwd_change src) (all_cursors root_node))"

definition cwd_unpinned_before ::
  "(nat \<times> execution_scope) list \<Rightarrow> nat \<Rightarrow> execution_scope \<Rightarrow> bool" where
  "cwd_unpinned_before positions pos scope =
     list_ex (\<lambda>(p_at, p_scope). p_at < pos \<and> (p_scope = scope \<or> scope_contains p_scope scope)) positions"

section \<open>Words of an invocation\<close>

datatype invocation_word = Inv_Literal string | Inv_Untrusted

record shell_invocation =
  inv_start :: nat
  inv_scope :: execution_scope
  inv_words :: "invocation_word list"
  wrapper_words :: "string list"

definition inv_literal :: "invocation_word \<Rightarrow> string option" where
  "inv_literal w = (case w of Inv_Literal s \<Rightarrow> Some s | Inv_Untrusted \<Rightarrow> None)"

definition literal_words :: "invocation_word list \<Rightarrow> string list" where
  "literal_words ws = List.map_filter inv_literal ws"

definition shell_words :: "invocation_word list \<Rightarrow> shell_word list" where
  "shell_words ws = map (\<lambda>w. case w of Inv_Literal s \<Rightarrow> Literal s | Inv_Untrusted \<Rightarrow> Untrusted) ws"

record checked_invocation_peel =
  pl_words :: "invocation_word list"
  pl_has_chdir :: bool
  pl_has_split_string :: bool
  pl_env_options_uncertain :: bool
  pl_exhausted :: bool
  pl_transparent_ambiguous :: bool

definition unwrap_invocation_checked :: "shell_invocation \<Rightarrow> checked_invocation_peel" where
  "unwrap_invocation_checked invocation =
     (let norm = normalize_command_words (wrapper_words invocation);
          peeled_count = length (wrapper_words invocation) - length (nc_words norm)
      in \<lparr>pl_words = (case slice_from (inv_words invocation) peeled_count of Some ws \<Rightarrow> ws | None \<Rightarrow> []),
          pl_has_chdir = nc_has_chdir norm,
          pl_has_split_string = nc_has_split_string norm,
          pl_env_options_uncertain = nc_env_options_uncertain norm,
          pl_exhausted = nc_exhausted norm,
          pl_transparent_ambiguous = nc_ambiguous norm\<rparr>)"

datatype arg_text = Arg_Literal string | Arg_Ambiguous

definition EXPANSION_KINDS :: "string list" where
  "EXPANSION_KINDS = [''expansion'', ''simple_expansion'', ''command_substitution'',
     ''arithmetic_expansion'', ''process_substitution'']"

definition node_has_expansion :: "ts_node \<Rightarrow> bool" where
  "node_has_expansion n = list_ex (\<lambda>d. ts_kind d \<in> set EXPANSION_KINDS) (tl (ts_nodes n))"

definition is_ascii_alphabetic :: "char \<Rightarrow> bool" where
  "is_ascii_alphabetic c \<longleftrightarrow> (of_char (ascii_lower c) :: nat) \<in> {97..122}"

definition is_windows_path_like :: "string \<Rightarrow> bool" where
  "is_windows_path_like raw \<longleftrightarrow>
     starts_with raw [bslash, bslash]
     \<or> (case raw of b # c # _ \<Rightarrow> is_ascii_alphabetic b \<and> c = CHR '':'' | _ \<Rightarrow> False)"

fun fold_escapes :: "string \<Rightarrow> string option" where
  "fold_escapes [] = Some []"
| "fold_escapes (ch # rest) =
     (if ch = bslash
      then (case rest of [] \<Rightarrow> None | n # rest' \<Rightarrow> map_option ((#) n) (fold_escapes rest'))
      else map_option ((#) ch) (fold_escapes rest))"

definition decode_unquoted_word :: "string \<Rightarrow> string option" where
  "decode_unquoted_word raw =
     (if bslash \<notin> set raw then Some raw
      else if is_windows_path_like raw then Some raw
      else fold_escapes raw)"

fun fold_double_quoted :: "string \<Rightarrow> string option" where
  "fold_double_quoted [] = Some []"
| "fold_double_quoted (ch # rest) =
     (if ch \<noteq> bslash then map_option ((#) ch) (fold_double_quoted rest)
      else case rest of
             [] \<Rightarrow> None
           | n # rest' \<Rightarrow>
               map_option
                 ((@) (if n \<in> set [CHR ''$'', backtick, dquote, bslash, newline] then [n]
                       else [bslash, n]))
                 (fold_double_quoted rest'))"

definition decode_double_quoted_content :: "string \<Rightarrow> string option" where
  "decode_double_quoted_content content =
     (if bslash \<notin> set content then Some content else fold_double_quoted content)"

definition strip_quotes :: "char \<Rightarrow> string \<Rightarrow> string" where
  "strip_quotes q raw =
     (case Option.bind (strip_prefix [q] raw) (strip_suffix [q]) of Some s \<Rightarrow> s | None \<Rightarrow> raw)"

definition literal_or_ambiguous :: "string option \<Rightarrow> arg_text" where
  "literal_or_ambiguous r = (case r of Some s \<Rightarrow> Arg_Literal s | None \<Rightarrow> Arg_Ambiguous)"

definition shell_node_arg :: "ts_node \<Rightarrow> string \<Rightarrow> arg_text option" where
  "shell_node_arg n src =
     (if ts_kind n = ''variable_assignment'' then None
      else if ts_kind n = ''word'' \<or> ts_kind n = ''number'' then
        Some (literal_or_ambiguous (Option.bind (utf8_text n src) decode_unquoted_word))
      else if ts_kind n = ''raw_string'' then
        map_option (\<lambda>raw. Arg_Literal (strip_quotes squote raw)) (utf8_text n src)
      else if ts_kind n = ''string'' then
        (if node_has_expansion n then Some Arg_Ambiguous
         else map_option (\<lambda>raw. literal_or_ambiguous
                (decode_double_quoted_content (strip_quotes dquote raw))) (utf8_text n src))
      else if ts_kind n = ''concatenation'' then
        (if node_has_expansion n then Some Arg_Ambiguous
         else Some (literal_or_ambiguous (Option.bind (utf8_text n src) decode_shell_literal_spelling)))
      else Some Arg_Ambiguous)"

definition invocation_operand :: "string \<Rightarrow> ts_node \<Rightarrow> invocation_word option" where
  "invocation_operand src child =
     (case (if ts_kind child = ''command_name''
            then (case ts_named_children child of [] \<Rightarrow> None | inner # _ \<Rightarrow> shell_node_arg inner src)
            else shell_node_arg child src) of
        Some (Arg_Literal w) \<Rightarrow> Some (Inv_Literal w)
      | Some Arg_Ambiguous \<Rightarrow> Some Inv_Untrusted
      | None \<Rightarrow> None)"

definition wrapper_word :: "invocation_word \<Rightarrow> string" where
  "wrapper_word w = (case w of Inv_Literal s \<Rightarrow> s | Inv_Untrusted \<Rightarrow> [nul])"

definition invocation_at :: "string \<Rightarrow> cursor \<Rightarrow> shell_invocation" where
  "invocation_at src c =
     (let ws = List.map_filter (invocation_operand src) (ts_named_children (fst c))
      in \<lparr>inv_start = ts_start (fst c), inv_scope = execution_scope_of c, inv_words = ws,
          wrapper_words = map wrapper_word ws\<rparr>)"

definition shell_command_invocations :: "ts_node \<Rightarrow> string \<Rightarrow> shell_invocation list" where
  "shell_command_invocations root_node src =
     sort_key inv_start
       (map (invocation_at src) (filter (\<lambda>c. ts_kind (fst c) = ''command'') (all_cursors root_node)))"

definition words_are_opaque_shell :: "shell_word list \<Rightarrow> bool" where
  "words_are_opaque_shell ws \<longleftrightarrow>
     is_potential_inline (shell_dash_c_script ws)
     \<or> (case ws of Literal program # _ \<Rightarrow> shell_program_name program = ''eval'' | _ \<Rightarrow> False)"

definition tree_has_opaque_shell :: "ts_node \<Rightarrow> string \<Rightarrow> bool" where
  "tree_has_opaque_shell root_node src =
     list_ex (\<lambda>inv. words_are_opaque_shell (shell_words (pl_words (unwrap_invocation_checked inv))))
       (shell_command_invocations root_node src)"

section \<open>Redirects\<close>

record shell_redirect_target =
  rd_path :: "string option"
  rd_mode :: file_mode
  rd_ambiguous :: bool
  rd_start :: nat
  rd_scope :: execution_scope

fun redirect_operator :: "string list \<Rightarrow> string option" where
  "redirect_operator [] = None"
| "redirect_operator (kind # kinds) =
     (if str_contains kind ''<<'' then None
      else if CHR ''>'' \<in> set kind \<or> CHR ''<'' \<in> set kind then Some kind
      else redirect_operator kinds)"

definition shell_redirect_one ::
  "ts_node \<Rightarrow> string \<Rightarrow> (string option \<times> file_mode \<times> bool) option" where
  "shell_redirect_one n src =
     (case redirect_operator (map ts_kind (ts_children n)) of
        None \<Rightarrow> None
      | Some redirect \<Rightarrow>
          let mode = (if CHR ''>'' \<in> set redirect then Mode_Write else Mode_Read);
              duplicates_fd = (redirect \<in> set [''>&'', ''<&''])
          in case Option.bind (child_by_field_name n ''destination'') (\<lambda>d. shell_node_arg d src) of
               None \<Rightarrow> None
             | Some (Arg_Literal s) \<Rightarrow>
                 if s = [] \<or> starts_with s ''&''
                    \<or> (duplicates_fd \<and> (s = ''-'' \<or> list_all is_digit s))
                 then None
                 else Some (Some s, mode, shell_arg_is_ambiguous s)
             | Some Arg_Ambiguous \<Rightarrow> Some (None, mode, True))"

definition redirect_at :: "string \<Rightarrow> cursor \<Rightarrow> shell_redirect_target option" where
  "redirect_at src c =
     (if ts_kind (fst c) \<noteq> ''file_redirect'' then None
      else map_option (\<lambda>(path, mode, ambig).
             \<lparr>rd_path = path, rd_mode = mode, rd_ambiguous = ambig,
              rd_start = ts_start (fst c), rd_scope = execution_scope_of c\<rparr>)
           (shell_redirect_one (fst c) src))"

definition shell_redirect_targets :: "ts_node \<Rightarrow> string \<Rightarrow> shell_redirect_target list" where
  "shell_redirect_targets root_node src = List.map_filter (redirect_at src) (all_cursors root_node)"

definition command_write_paths_in_tree :: "ts_node \<Rightarrow> string \<Rightarrow> string list" where
  "command_write_paths_in_tree root_node src =
     List.map_filter (\<lambda>r. if rd_mode r = Mode_Write then rd_path r else None)
       (shell_redirect_targets root_node src)
     @ concat (map (\<lambda>inv. command_words_write_paths (literal_words (inv_words inv)))
         (shell_command_invocations root_node src))"

section \<open>Judging one path\<close>

text \<open>Escalate only: an allow rule for files approves nothing here.\<close>

definition escalate_access ::
  "'g externs \<Rightarrow> 'g compiled_policy \<Rightarrow> access_kind \<Rightarrow> gate_decision option" where
  "escalate_access ext p access =
     (case evaluate ext p access of
        Some (Reject reason) \<Rightarrow> Some (Gate_Reject reason)
      | Some Ask \<Rightarrow> Some AskRuleMatch
      | _ \<Rightarrow> None)"

definition raw_absolute_path :: "string \<Rightarrow> string \<Rightarrow> bool \<Rightarrow> string option" where
  "raw_absolute_path token cwd cwd_unpinned =
     (let raw = normalize_shell_path_raw token
      in if is_absolute_shell_path raw then Some raw
         else if cwd_unpinned then None
         else Some (normalize_shell_path_raw (path_join cwd raw)))"

definition anchored_path :: "string \<Rightarrow> string \<Rightarrow> string" where
  "anchored_path token cwd =
     (let path = normalize_shell_path token
      in if is_absolute_shell_path path then path
         else normalize_shell_path (path_join cwd path))"

definition resolved_decision ::
  "'g externs \<Rightarrow> filesystem \<Rightarrow> 'g compiled_policy \<Rightarrow> string \<Rightarrow> string \<Rightarrow> file_mode \<Rightarrow> bool
     \<Rightarrow> gate_decision option" where
  "resolved_decision ext fs p token cwd mode cwd_unpinned =
     (case raw_absolute_path token cwd cwd_unpinned of
        None \<Rightarrow> None
      | Some raw_absolute \<Rightarrow>
          (case resolve_symlink_target fs raw_absolute of
             Some resolved \<Rightarrow>
               if resolved \<noteq> anchored_path token cwd
               then escalate_access ext p (shell_access mode resolved) else None
           | None \<Rightarrow> if path_has_symlink fs raw_absolute then Some AskFailClosed else None))"

definition evaluate_shell_path ::
  "'g externs \<Rightarrow> filesystem \<Rightarrow> 'g compiled_policy \<Rightarrow> string \<Rightarrow> string \<Rightarrow> file_mode \<Rightarrow> bool
     \<Rightarrow> gate_decision option" where
  "evaluate_shell_path ext fs p token cwd mode cwd_unpinned =
     (let path = normalize_shell_path token;
          floating = (cwd_unpinned \<and> \<not> is_absolute_shell_path path);
          path_decision = escalate_access ext p (shell_access mode path);
          anchored_decision =
            (if floating then None
             else combine_gate_decisions
                    (escalate_access ext p (shell_access mode (anchored_path token cwd)))
                    (resolved_decision ext fs p token cwd mode cwd_unpinned))
      in combine_gate_decisions (combine_gate_decisions path_decision anchored_decision)
           (ask_if floating))"

section \<open>The gate\<close>

text \<open>The answer so far and the flag that forces at least an ask.\<close>

type_synonym gate_state = "gate_decision option \<times> bool"

definition judge_operands ::
  "'g externs \<Rightarrow> filesystem \<Rightarrow> 'g compiled_policy \<Rightarrow> string \<Rightarrow> bool \<Rightarrow> (string \<times> file_mode) list
     \<Rightarrow> gate_state \<Rightarrow> gate_state" where
  "judge_operands ext fs p cwd cwd_unpinned operands st =
     foldl (\<lambda>(decision, forced_ask) (path, mode).
         (combine_gate_decisions decision (evaluate_shell_path ext fs p path cwd mode cwd_unpinned),
          forced_ask \<or> shell_arg_is_ambiguous path)) st operands"

definition redirect_step ::
  "'g externs \<Rightarrow> filesystem \<Rightarrow> 'g compiled_policy \<Rightarrow> string \<Rightarrow> bool
     \<Rightarrow> (nat \<times> execution_scope) list \<Rightarrow> gate_state \<Rightarrow> shell_redirect_target \<Rightarrow> gate_state" where
  "redirect_step ext fs p cwd cwd_unpinned cwd_changes st redirect =
     (case st of (decision, forced_ask) \<Rightarrow>
        (case rd_path redirect of
           Some path \<Rightarrow>
             combine_gate_decisions decision
               (evaluate_shell_path ext fs p path cwd (rd_mode redirect)
                  (cwd_unpinned
                   \<or> cwd_unpinned_before cwd_changes (rd_start redirect) (rd_scope redirect)))
         | None \<Rightarrow> decision,
         forced_ask \<or> rd_ambiguous redirect))"

text \<open>
  The inline script of an invocation. \<open>enter\<close> is the recursive call, absent when the nesting
  budget is used up.
\<close>

definition inline_step ::
  "(string \<Rightarrow> bool \<Rightarrow> gate_decision option) option \<Rightarrow> bool \<Rightarrow> bool \<Rightarrow> shell_word list
     \<Rightarrow> gate_state \<Rightarrow> gate_state" where
  "inline_step enter parse_failed cwd_unpinned ws st =
     (case st of (decision, forced_ask) \<Rightarrow>
        let inline_script = shell_dash_c_script ws;
            forced_ask = (forced_ask \<or> (parse_failed \<and> inline_script \<noteq> NotInline))
        in case inline_script of
             Inline_Literal index \<Rightarrow>
               (case enter of
                  None \<Rightarrow> (decision, True)
                | Some enter' \<Rightarrow>
                    (case ws ! index of
                       Literal inner \<Rightarrow>
                         (combine_gate_decisions decision (enter' inner cwd_unpinned), forced_ask)
                     | Untrusted \<Rightarrow> (decision, forced_ask)))
           | NotInline \<Rightarrow> (decision, forced_ask)
           | _ \<Rightarrow> (decision, True))"

text \<open>The file operands of the program an invocation runs.\<close>

definition operand_modes :: "string \<Rightarrow> string list \<Rightarrow> file_mode list option" where
  "operand_modes program ws =
     (case shell_file_mode program of
        None \<Rightarrow> None
      | Some mode \<Rightarrow>
          if program = ''sed'' \<and> shell_sed_in_place ws then Some [Mode_Read, Mode_Write]
          else Some [mode])"

definition program_operands :: "string \<Rightarrow> string list \<Rightarrow> (string \<times> file_mode) list" where
  "program_operands program ws =
     special_file_operands program ws @
     (if program = ''dd'' then []
      else case shell_path_command_operands program ws of
             Some operands \<Rightarrow> operands
           | None \<Rightarrow>
               (case operand_modes program ws of
                  None \<Rightarrow> []
                | Some modes \<Rightarrow>
                    concat (map (\<lambda>token. map (Pair token) modes) (shell_file_candidates ws))))"

definition program_is_known :: "string \<Rightarrow> string list \<Rightarrow> bool" where
  "program_is_known program ws \<longleftrightarrow>
     program = ''dd'' \<or> shell_file_mode program \<noteq> None
     \<or> shell_path_command_operands program ws \<noteq> None"

definition program_recurses :: "string \<Rightarrow> string list \<Rightarrow> bool" where
  "program_recurses program ws \<longleftrightarrow>
     program \<noteq> ''dd'' \<and> shell_path_command_operands program ws = None
     \<and> shell_file_mode program \<noteq> None
     \<and> shell_reader_can_recurse program ws (shell_file_candidates ws)"

definition program_step ::
  "'g externs \<Rightarrow> filesystem \<Rightarrow> 'g compiled_policy \<Rightarrow> string \<Rightarrow> bool \<Rightarrow> bool \<Rightarrow> invocation_word list
     \<Rightarrow> gate_state \<Rightarrow> gate_state" where
  "program_step ext fs p cwd parse_failed cwd_unpinned ws st =
     (case ws of
        Inv_Literal head # _ \<Rightarrow>
          let program = map ascii_lower (shell_program_name head);
              literals = literal_words ws
          in if program \<in> set [''cd'', ''pushd'', ''popd''] then st
             else
               let forced = (program_is_known program literals
                       \<and> (cwd_unpinned \<or> Inv_Untrusted \<in> set ws \<or> parse_failed));
                   (decision, forced_ask) = judge_operands ext fs p cwd cwd_unpinned
                     (program_operands program literals) (fst st, snd st \<or> forced)
               in (decision, forced_ask \<or> program_recurses program literals)
      | _ \<Rightarrow> st)"

definition invocation_step ::
  "'g externs \<Rightarrow> filesystem \<Rightarrow> 'g compiled_policy \<Rightarrow> string
     \<Rightarrow> (string \<Rightarrow> bool \<Rightarrow> gate_decision option) option \<Rightarrow> bool \<Rightarrow> bool
     \<Rightarrow> (nat \<times> execution_scope) list \<Rightarrow> gate_state \<Rightarrow> shell_invocation \<Rightarrow> gate_state" where
  "invocation_step ext fs p cwd enter parse_failed cwd_unpinned cwd_changes st invocation =
     (let peeled = unwrap_invocation_checked invocation;
          ws = pl_words peeled;
          unpinned = (cwd_unpinned
            \<or> cwd_unpinned_before cwd_changes (inv_start invocation) (inv_scope invocation)
            \<or> pl_has_chdir peeled);
          st = (fst st, snd st \<or> pl_exhausted peeled \<or> pl_has_split_string peeled
            \<or> pl_env_options_uncertain peeled \<or> pl_transparent_ambiguous peeled);
          st = inline_step enter parse_failed unpinned (shell_words ws) st
      in program_step ext fs p cwd parse_failed unpinned ws st)"

definition shell_script_gate ::
  "'g externs \<Rightarrow> filesystem \<Rightarrow> 'g compiled_policy \<Rightarrow> string
     \<Rightarrow> (string \<Rightarrow> bool \<Rightarrow> gate_decision option) option \<Rightarrow> string \<Rightarrow> bool \<Rightarrow> bool
     \<Rightarrow> gate_decision option" where
  "shell_script_gate ext fs p cwd enter cmd cwd_unpinned entered_inline =
     (case parse_shell ext cmd of
        None \<Rightarrow> ask_if entered_inline
      | Some tree \<Rightarrow>
          let parse_failed = ts_has_error tree;
              cwd_changes = cwd_poison_positions tree cmd;
              st0 = (None, entered_inline \<and> parse_failed);
              st1 = foldl (redirect_step ext fs p cwd cwd_unpinned cwd_changes) st0
                (shell_redirect_targets tree cmd);
              st2 = foldl (invocation_step ext fs p cwd enter parse_failed cwd_unpinned cwd_changes) st1
                (shell_command_invocations tree cmd)
          in combine_gate_decisions (fst st2) (ask_if (snd st2)))"

fun evaluate_shell_file_access_inner ::
  "'g externs \<Rightarrow> filesystem \<Rightarrow> 'g compiled_policy \<Rightarrow> string \<Rightarrow> nat \<Rightarrow> string \<Rightarrow> bool \<Rightarrow> bool
     \<Rightarrow> gate_decision option" where
  "evaluate_shell_file_access_inner ext fs p cwd 0 cmd cwd_unpinned entered_inline =
     shell_script_gate ext fs p cwd None cmd cwd_unpinned entered_inline"
| "evaluate_shell_file_access_inner ext fs p cwd (Suc d) cmd cwd_unpinned entered_inline =
     shell_script_gate ext fs p cwd
       (Some (\<lambda>inner unpinned. evaluate_shell_file_access_inner ext fs p cwd d inner unpinned True))
       cmd cwd_unpinned entered_inline"

definition evaluate_shell_file_access_gate ::
  "'g externs \<Rightarrow> filesystem \<Rightarrow> 'g compiled_policy \<Rightarrow> string \<Rightarrow> string \<Rightarrow> gate_decision option" where
  "evaluate_shell_file_access_gate ext fs p cmd cwd =
     (if \<not> has_file_restrictions p then None
      else evaluate_shell_file_access_inner ext fs p cwd MAX_INLINE_SHELL_DEPTH cmd False False)"

definition evaluate_shell_file_access ::
  "'g externs \<Rightarrow> filesystem \<Rightarrow> 'g compiled_policy \<Rightarrow> string \<Rightarrow> string \<Rightarrow> decision option" where
  "evaluate_shell_file_access ext fs p cmd cwd =
     map_option into_decision (evaluate_shell_file_access_gate ext fs p cmd cwd)"

section \<open>Combining decisions\<close>

fun decision_rank :: "decision \<Rightarrow> nat" where
  "decision_rank (Reject _) = 3"
| "decision_rank (PolicyDeny _) = 3"
| "decision_rank Ask = 2"
| "decision_rank Allow = 1"
| "decision_rank _ = 0"

fun combine_decisions :: "decision option \<Rightarrow> decision option \<Rightarrow> decision option" where
  "combine_decisions None other = other"
| "combine_decisions (Some a) None = Some a"
| "combine_decisions (Some a) (Some b) =
     Some (if decision_rank a \<ge> decision_rank b then a else b)"

end
