(* ===== verification/Auto_Mode.thy ===== *)
theory Auto_Mode
  imports Shell_Access
begin

text \<open>
  The heuristic classifier of auto mode (\<open>gbuild-workspace/src/permission/auto_mode.rs\<close>): the
  transcript it reads, the risk of environment assignments, which commands count as routine,
  the verdict on an access and the fast path before it. Sampling a model is not part of it.
\<close>

section \<open>Verdicts and transcript\<close>

datatype classifier_verdict = Verdict_Allow | Verdict_Block | Verdict_Unavailable

datatype classifier_turn =
    UserText string
  | AssistantToolUse string string
  | PermissionDecision string string bool

definition neutralize_line :: "string \<Rightarrow> string" where
  "neutralize_line line =
     (let heading = trim_start line
      in if starts_with heading ''#'' then
           take (length line - length heading) line @ [bslash] @ heading
         else line)"

definition neutralize_headings :: "string \<Rightarrow> string" where
  "neutralize_headings text = join [newline] (map neutralize_line (str_lines text))"

text \<open>Line breaks of every kind become spaces; the characters are UTF-8 sequences.\<close>

definition sanitize_recorded_decision_field :: "string \<Rightarrow> string" where
  "sanitize_recorded_decision_field text =
     concat (map (\<lambda>ch. if ch \<in> set [[creturn], [newline], [CHR 0xC2, CHR 0x85], [CHR 0x0B], [CHR 0x0C],
            [CHR 0xE2, CHR 0x80, CHR 0xA8], [CHR 0xE2, CHR 0x80, CHR 0xA9]] then '' '' else ch)
       (chars text))"

fun render_untrusted :: "classifier_turn \<Rightarrow> string option" where
  "render_untrusted (UserText text) = Some (''User: '' @ neutralize_headings text)"
| "render_untrusted (AssistantToolUse tool_name args) =
     Some (neutralize_headings tool_name @ '' '' @ neutralize_headings args)"
| "render_untrusted (PermissionDecision _ _ _) = None"

definition transcript_text :: "classifier_turn list \<Rightarrow> string" where
  "transcript_text turns = join [newline] (List.map_filter render_untrusted turns)"

section \<open>Environment assignments\<close>

datatype env_risk = Env_Safe | Env_Unvetted | Env_Injection

fun env_risk_rank :: "env_risk \<Rightarrow> nat" where
  "env_risk_rank Env_Safe = 0"
| "env_risk_rank Env_Unvetted = 1"
| "env_risk_rank Env_Injection = 2"

instantiation env_risk :: linorder
begin

definition less_eq_env_risk :: "env_risk \<Rightarrow> env_risk \<Rightarrow> bool" where
  "less_eq_env_risk a b \<longleftrightarrow> env_risk_rank a \<le> env_risk_rank b"

definition less_env_risk :: "env_risk \<Rightarrow> env_risk \<Rightarrow> bool" where
  "less_env_risk a b \<longleftrightarrow> env_risk_rank a < env_risk_rank b"

instance
proof
  fix a b :: env_risk
  show "a \<le> b \<Longrightarrow> b \<le> a \<Longrightarrow> a = b"
    by (cases a; cases b) (simp_all add: less_eq_env_risk_def)
qed (auto simp: less_eq_env_risk_def less_env_risk_def)

end

definition SAFE_ENV_KEYS :: "string list" where
  "SAFE_ENV_KEYS =
     [''CARGO_TERM_COLOR'', ''CARGO_TERM_PROGRESS_WHEN'', ''RUST_LOG'', ''RUST_LOG_STYLE'',
      ''RUST_BACKTRACE'', ''RUST_TEST_THREADS'', ''RUST_MIN_STACK'', ''NO_COLOR'', ''CLICOLOR'',
      ''CLICOLOR_FORCE'', ''FORCE_COLOR'', ''COLORTERM'']"

definition INJECTION_ENV_KEYS :: "string list" where
  "INJECTION_ENV_KEYS =
     [''LD_PRELOAD'', ''LD_AUDIT'', ''BASH_ENV'', ''ENV'', ''IFS'', ''PATH'', ''GIT_EXTERNAL_DIFF'',
      ''GIT_PROXY_COMMAND'', ''PROMPT_COMMAND'']"

definition INJECTION_ENV_KEY_PREFIXES :: "string list" where
  "INJECTION_ENV_KEY_PREFIXES = [''DYLD_'', ''GIT_CONFIG'']"

definition is_safe_env_key :: "string \<Rightarrow> bool" where
  "is_safe_env_key key \<longleftrightarrow> key \<in> set SAFE_ENV_KEYS"

definition env_key_risk :: "string \<Rightarrow> env_risk" where
  "env_key_risk key =
     (if is_safe_env_key key then Env_Safe
      else if key \<in> set INJECTION_ENV_KEYS
              \<or> list_ex (\<lambda>p. starts_with key p) INJECTION_ENV_KEY_PREFIXES then Env_Injection
      else Env_Unvetted)"

definition before_equals :: "string \<Rightarrow> string" where
  "before_equals w = takeWhile (\<lambda>c. c \<noteq> CHR ''='') w"

text \<open>
  The arguments of one \<open>env\<close>: an option before \<open>--\<close> is an injection at once (\<open>Inl\<close>), otherwise the
  risk of the assignments before the first plain word.
\<close>

fun env_args_risk :: "string list \<Rightarrow> bool \<Rightarrow> env_risk \<Rightarrow> env_risk + env_risk" where
  "env_args_risk [] options_done risk = Inr risk"
| "env_args_risk (arg # args) options_done risk =
     (if arg = ''--'' then env_args_risk args True risk
      else if \<not> options_done \<and> starts_with arg ''-'' then Inl Env_Injection
      else if CHR ''='' \<in> set arg
        then env_args_risk args options_done (max risk (env_key_risk (before_equals arg)))
      else Inr risk)"

fun command_env_loop :: "nat \<Rightarrow> string list \<Rightarrow> env_risk \<Rightarrow> env_risk" where
  "command_env_loop 0 current risk = risk"
| "command_env_loop (Suc n) current risk =
     (case (if head_basename current = Some ''env'' then env_args_risk (tl current) False risk
            else Inr risk) of
        Inl r \<Rightarrow> r
      | Inr risk' \<Rightarrow>
          (case strip_wrapper_command current of
             Some inner \<Rightarrow> command_env_loop n inner risk'
           | None \<Rightarrow> risk'))"

definition command_env_risk :: "string list \<Rightarrow> env_risk" where
  "command_env_risk ws = command_env_loop 8 ws Env_Safe"

definition assignment_key :: "ts_node \<Rightarrow> string \<Rightarrow> string" where
  "assignment_key n src =
     (case List.map_filter (\<lambda>c. if ts_kind c = ''variable_name'' then utf8_text c src else None)
             (ts_children n) of
        t # _ \<Rightarrow> t
      | [] \<Rightarrow> (case utf8_text n src of Some t \<Rightarrow> before_equals t | None \<Rightarrow> []))"

definition script_env_risk :: "ts_node \<Rightarrow> string \<Rightarrow> plain_command list \<Rightarrow> env_risk" where
  "script_env_risk root_node src cmds =
     (let risk = foldl (\<lambda>risk c. if ts_kind (fst c) = ''variable_assignment''
             then max risk (env_key_risk (assignment_key (fst c) src)) else risk)
           Env_Safe (all_cursors root_node)
      in foldl (\<lambda>risk c. max risk (command_env_risk (words c))) risk cmds)"

section \<open>Routine commands\<close>

definition is_lone_wrapper :: "string list \<Rightarrow> bool" where
  "is_lone_wrapper ws \<longleftrightarrow> length ws = 1 \<and> is_wrapper_command ws"

definition find_is_read_only :: "string list \<Rightarrow> bool" where
  "find_is_read_only ws \<longleftrightarrow>
     \<not> list_ex (\<lambda>w. w \<in> set [''-delete'', ''-exec'', ''-execdir'', ''-ok'', ''-okdir'', ''-fprint'',
          ''-fprint0'', ''-fprintf'', ''-fls'']) ws"

definition ROUTINE_PREFIXES :: "string list" where
  "ROUTINE_PREFIXES =
     [''cargo '', ''git status'', ''git diff'', ''git log'', ''git branch'', ''git add'',
      ''git commit'', ''git checkout'', ''git switch'', ''git stash'', ''git pull'', ''git fetch'',
      ''git show'', ''git blame'', ''git grep'', ''git ls-files'', ''git rev-parse'',
      ''git describe'', ''git merge-base'', ''git worktree list'', ''pytest'', ''python '',
      ''python3 '', ''node '', ''rustc '', ''rustfmt'', ''clippy'', ''make '', ''cmake '', ''cd'',
      ''pushd'', ''popd'', ''ls'', ''pwd'', ''echo '', ''printf '', ''cat '', ''head '', ''tail '',
      ''wc '', ''rg '', ''grep '', ''which '', ''type '', ''true'', ''false'', ''test '', ''sort '',
      ''uniq '', ''tr '', ''cut '', ''diff '', ''jq '', ''date'', ''whoami'', ''hostname'', ''uname'',
      ''nproc'', ''printenv'', ''stat '', ''file '', ''tree'', ''basename '', ''dirname '',
      ''realpath '', ''readlink '', ''strings '', ''sleep '', ''df '', ''du '', ''ps '', ''top'',
      ''htop'', ''bazel '', ''just '', ''go '', ''kubectl get'', ''kubectl logs'',
      ''kubectl describe'', ''set'']"

definition KUBECTL_UNSAFE_FLAGS :: "string list" where
  "KUBECTL_UNSAFE_FLAGS =
     [''--kubeconfig'', ''--context'', ''--cluster'', ''--server'', ''-s'', ''--token'', ''--user'',
      ''--as'', ''--as-group'', ''--as-uid'', ''--as-user-extra'', ''--username'', ''--password'',
      ''--client-certificate'', ''--client-key'', ''--certificate-authority'']"

definition nonflag_tokens :: "string list \<Rightarrow> nat \<Rightarrow> string list" where
  "nonflag_tokens inner n = take n (filter (\<lambda>w. \<not> starts_with w ''-'') (drop 1 inner))"

definition gh_subcommand_is_read_only :: "string list \<Rightarrow> bool" where
  "gh_subcommand_is_read_only inner =
     (case nonflag_tokens inner 2 of
        [grp, sub] \<Rightarrow>
          (grp \<in> set [''pr'', ''issue'', ''release'', ''run'', ''workflow'', ''repo'', ''gist'']
             \<and> sub \<in> set [''view'', ''list'', ''status'', ''checks'', ''diff''])
          \<or> (grp = ''auth'' \<and> sub = ''status'')
      | [t] \<Rightarrow> t = ''status''
      | _ \<Rightarrow> False)"

definition launched_writes_nonsink :: "string list \<Rightarrow> bool" where
  "launched_writes_nonsink ws =
     list_ex (\<lambda>p. \<not> is_safe_write_sink p) (command_words_write_paths ws)"

definition launcher_subcommand :: "string \<Rightarrow> string list \<Rightarrow> string option" where
  "launcher_subcommand head inner =
     map_option (\<lambda>sub.
         if head \<in> set [''npm'', ''pnpm'', ''yarn''] \<and> sub = ''x'' then ''exec''
         else if head \<in> set [''npm'', ''pnpm'', ''yarn''] \<and> sub = ''innit'' then ''init''
         else sub)
       (nth_opt inner 1)"

definition is_remote_launcher :: "string \<Rightarrow> string list \<Rightarrow> bool" where
  "is_remote_launcher head inner =
     (if head = ''npx'' \<or> head = ''uvx'' then True
      else if head = ''uv'' \<and> nth_opt inner 1 = Some ''tool'' \<and> nth_opt inner 2 = Some ''run''
        then True
      else case launcher_subcommand head inner of
             None \<Rightarrow> False
           | Some sub \<Rightarrow>
               head \<in> set [''npm'', ''pnpm'', ''yarn'']
               \<and> (sub \<in> set [''dlx'', ''create'', ''explore'']
                  \<or> (sub = ''init''
                     \<and> (case nth_opt inner 2 of Some a \<Rightarrow> \<not> starts_with a ''-'' | None \<Rightarrow> False))))"

datatype launch_target = NotLauncher | Launch_Inner "string list" | Unresolved

definition launch_from :: "string list \<Rightarrow> nat \<Rightarrow> launch_target" where
  "launch_from inner start =
     (case nth_opt inner start of
        Some tok \<Rightarrow> if \<not> starts_with tok ''-'' then Launch_Inner (drop start inner) else Unresolved
      | None \<Rightarrow> Unresolved)"

definition explicit_launch_target :: "string \<Rightarrow> string list \<Rightarrow> launch_target" where
  "explicit_launch_target head inner =
     (case launcher_subcommand head inner of
        None \<Rightarrow> NotLauncher
      | Some sub \<Rightarrow>
          if head = ''uv'' \<and> sub = ''run'' then launch_from inner 2
          else if head = ''rustup'' \<and> sub = ''run'' then
            (case nth_opt inner 2 of
               Some toolchain \<Rightarrow>
                 if \<not> starts_with toolchain ''-'' then launch_from inner 3 else Unresolved
             | None \<Rightarrow> Unresolved)
          else if head \<in> set [''npm'', ''pnpm'', ''yarn''] \<and> sub = ''exec'' then
            launch_from inner (if nth_opt inner 2 = Some ''--'' then 3 else 2)
          else NotLauncher)"

definition NPM_SAFE_SUBCOMMANDS :: "string list" where
  "NPM_SAFE_SUBCOMMANDS =
     [''install'', ''i'', ''ci'', ''add'', ''remove'', ''rm'', ''uninstall'', ''update'', ''up'',
      ''upgrade'', ''test'', ''t'', ''run'', ''run-script'', ''start'', ''build'', ''audit'', ''list'',
      ''ls'', ''ll'', ''outdated'', ''why'', ''view'', ''info'', ''dedupe'', ''prune'', ''version'',
      ''pack'', ''config'', ''link'', ''unlink'', ''rebuild'', ''store'', ''fetch'', ''import'']"

definition UV_SAFE_SUBCOMMANDS :: "string list" where
  "UV_SAFE_SUBCOMMANDS =
     [''sync'', ''pip'', ''lock'', ''venv'', ''add'', ''remove'', ''tree'', ''export'', ''build'',
      ''version'', ''python'', ''cache'', ''init'', ''self'', ''help'']"

definition RUSTUP_SAFE_SUBCOMMANDS :: "string list" where
  "RUSTUP_SAFE_SUBCOMMANDS =
     [''show'', ''toolchain'', ''component'', ''target'', ''default'', ''update'', ''which'', ''doc'',
      ''self'', ''completions'', ''set'', ''override'']"

definition safe_subcommand :: "string \<Rightarrow> string list \<Rightarrow> bool" where
  "safe_subcommand prog inner =
     (case launcher_subcommand prog inner of
        None \<Rightarrow> False
      | Some s \<Rightarrow>
          if prog \<in> set [''npm'', ''pnpm'', ''yarn''] then s \<in> set NPM_SAFE_SUBCOMMANDS
          else if prog = ''uv'' then s \<in> set UV_SAFE_SUBCOMMANDS
          else if prog = ''rustup'' then s \<in> set RUSTUP_SAFE_SUBCOMMANDS
          else False)"

definition PACKAGE_MANAGERS :: "string list" where
  "PACKAGE_MANAGERS = [''uv'', ''uvx'', ''npm'', ''npx'', ''pnpm'', ''yarn'', ''rustup'']"

definition git_grep_runs_pager :: "string list \<Rightarrow> bool" where
  "git_grep_runs_pager inner \<longleftrightarrow>
     (case nth_opt inner 1 of Some s \<Rightarrow> map ascii_lower s = ''grep'' | None \<Rightarrow> False)
     \<and> list_ex (\<lambda>w. starts_with w ''-O''
          \<or> (starts_with (before_equals w) ''--o''
             \<and> starts_with ''--open-files-in-pager'' (before_equals w))) inner"

definition tree_writes_output :: "string list \<Rightarrow> bool" where
  "tree_writes_output inner =
     list_ex (\<lambda>w. (starts_with w ''-'' \<and> \<not> starts_with w ''--'' \<and> CHR ''o'' \<in> set w)
        \<or> starts_with w ''--output'') inner"

definition has_pre_flag :: "string list \<Rightarrow> bool" where
  "has_pre_flag inner = list_ex (\<lambda>w. w = ''--pre'' \<or> starts_with w ''--pre='') inner"

definition has_kubectl_unsafe_flag :: "string list \<Rightarrow> bool" where
  "has_kubectl_unsafe_flag inner =
     list_ex (\<lambda>w. before_equals w \<in> set KUBECTL_UNSAFE_FLAGS) (drop 1 inner)"

definition routine_prefix_matches :: "string \<Rightarrow> bool" where
  "routine_prefix_matches joined =
     list_ex (\<lambda>p. let base = trim p
        in joined = base
           \<or> (starts_with joined base \<and> starts_with (drop (length base) joined) '' '')) ROUTINE_PREFIXES"

text \<open>The checks on a command that is neither empty, a lone wrapper nor a package manager.\<close>

definition plain_command_is_routine :: "string \<Rightarrow> string list \<Rightarrow> bool" where
  "plain_command_is_routine head inner =
     (if head = ''find'' then find_is_read_only inner
      else if head = ''git'' \<and> git_grep_runs_pager inner then False
      else if head = ''tree'' \<and> tree_writes_output inner then False
      else if head = ''rg'' \<and> has_pre_flag inner then False
      else if head = ''kubectl'' \<and> has_kubectl_unsafe_flag inner then False
      else if head = ''gh'' then gh_subcommand_is_read_only inner
      else routine_prefix_matches (map ascii_lower (join '' '' inner)))"

lemma launch_shorter:
  "explicit_launch_target head inner = Launch_Inner launched \<Longrightarrow> length launched < length inner"
  by (auto simp: explicit_launch_target_def launch_from_def split: option.splits if_splits)

lemma unwrap_wrappers_shorter: "length (unwrap_wrappers ws) \<le> length ws"
  using wrapper.peel_n_suffix [of MAX_WRAPPER_DEPTH ws]
  by (simp add: unwrap_wrappers_def unwrap_wrappers_checked_def unwrap_loop_words suffix_length_le)

function bash_command_is_routine :: "string list \<Rightarrow> bool" where
  "bash_command_is_routine ws =
     (let inner = unwrap_wrappers ws
      in if inner = [] \<or> is_lone_wrapper inner then True
         else
           let head = map ascii_lower (basename (hd inner))
           in if head \<in> set PACKAGE_MANAGERS then
                (if is_remote_launcher head inner then False
                 else case explicit_launch_target head inner of
                        Unresolved \<Rightarrow> False
                      | Launch_Inner launched \<Rightarrow>
                          command_env_risk launched = Env_Safe
                          \<and> \<not> launched_writes_nonsink launched
                          \<and> bash_command_is_routine launched
                      | NotLauncher \<Rightarrow> safe_subcommand head inner)
              else plain_command_is_routine head inner)"
  by pat_completeness auto
termination
  by (relation "measure length") (auto dest!: launch_shorter intro: less_le_trans [OF _ unwrap_wrappers_shorter])

declare bash_command_is_routine.simps [simp del]

definition classify_bash :: "(string \<Rightarrow> ts_node option) \<Rightarrow> string \<Rightarrow> classifier_verdict" where
  "classify_bash parse cmd =
     (case parse cmd of
        None \<Rightarrow> Verdict_Block
      | Some tree \<Rightarrow>
          (case try_parse_word_only_commands_sequence tree cmd of
             None \<Rightarrow> Verdict_Block
           | Some cmds \<Rightarrow>
               if script_env_risk tree cmd cmds \<noteq> Env_Safe then Verdict_Block
               else if list_ex (\<lambda>path. \<not> is_safe_write_sink path) (command_write_paths_in_tree tree cmd)
                 then Verdict_Block
               else if cmds \<noteq> [] \<and> list_all (\<lambda>c. bash_command_is_routine (words c)) cmds
                 then Verdict_Allow
               else Verdict_Block))"

section \<open>Verdict on an access\<close>

definition DANGEROUS_PATTERNS :: "string list" where
  "DANGEROUS_PATTERNS =
     [''rm -rf /'', ''rm -rf /*'', ''mkfs'', ''dd if='', '':(){ :|:& };:'', ''curl | sh'', ''curl|sh'',
      ''curl | bash'', ''curl|bash'', ''wget | sh'', ''wget|sh'', ''wget | bash'', ''wget|bash'',
      ''chmod 777'', ''chmod -r 777'', ''chmod +x /tmp'', ''base64 -d'', ''base64 --decode'', ''nc -e'',
      ''ncat -e'', ''/dev/tcp/'', ''shutdown'', ''reboot'', ''useradd'', ''userdel'', ''passwd '',
      ''chown -r /'', ''iptables -f'', ''kill -9 1'', ''sudo rm'', ''sudo dd'', ''sudo mkfs'',
      ''exfiltrat'', ''steal credential'', ''send secrets'']"

definition HOSTILE_INTENT :: "string list" where
  "HOSTILE_INTENT =
     [''delete all files'', ''wipe the disk'', ''exfiltrate'', ''steal secrets'', ''send my credentials'',
      ''ignore safety'', ''bypass permission'']"

definition pipes_download_to_shell :: "string \<Rightarrow> bool" where
  "pipes_download_to_shell blob \<longleftrightarrow>
     list_ex (str_contains blob) [''curl'', ''wget'', ''fetch'']
     \<and> list_ex (str_contains blob) [''| sh'', ''|sh'', ''| bash'', ''|bash'', ''| zsh'', ''|zsh'']"

definition classify_sync ::
  "(string \<Rightarrow> ts_node option) \<Rightarrow> string \<Rightarrow> access_kind \<Rightarrow> string option \<Rightarrow> classifier_turn list
     \<Rightarrow> classifier_verdict" where
  "classify_sync parse tool_name access access_detail turns =
     (let detail = map ascii_lower (case access_detail of Some d \<Rightarrow> d | None \<Rightarrow> []);
          tool_l = map ascii_lower tool_name;
          transcript = map ascii_lower (transcript_text turns);
          blob = tool_l @ '' '' @ detail @ '' '' @ transcript
      in if str_contains tool_l ''ask_user'' \<or> str_contains tool_l ''askuserquestion'' then Verdict_Block
         else if list_ex (str_contains blob) DANGEROUS_PATTERNS then Verdict_Block
         else if pipes_download_to_shell blob then Verdict_Block
         else if list_ex (str_contains transcript) HOSTILE_INTENT then Verdict_Block
         else (case access of
                 Access_Bash cmd \<Rightarrow> classify_bash parse cmd
               | Access_WebFetch _ \<Rightarrow> Verdict_Block
               | Access_Edit _ \<Rightarrow> Verdict_Block
               | Access_MCPTool _ _ \<Rightarrow> Verdict_Block
               | Access_Read _ \<Rightarrow> Verdict_Allow
               | Access_Grep _ _ \<Rightarrow> Verdict_Allow
               | Access_WebSearch _ \<Rightarrow> Verdict_Allow))"

definition access_requires_user_interaction :: "string \<Rightarrow> access_kind \<Rightarrow> bool" where
  "access_requires_user_interaction tool_name access \<longleftrightarrow>
     (let t = map ascii_lower tool_name
      in str_contains t ''ask_user'' \<or> str_contains t ''askuserquestion''
         \<or> str_contains t ''user_question'' \<or> t = ''ask_user_question'')
     \<or> (case access of
          Access_MCPTool name _ \<Rightarrow>
            let n = map ascii_lower name
            in str_contains n ''ask_user'' \<or> (str_contains n ''confirm'' \<and> str_contains n ''human'')
        | _ \<Rightarrow> False)"

fun is_auto_mode_allowlisted_access :: "access_kind \<Rightarrow> bool" where
  "is_auto_mode_allowlisted_access (Access_Read _) = True"
| "is_auto_mode_allowlisted_access (Access_Grep _ _) = True"
| "is_auto_mode_allowlisted_access (Access_WebSearch _) = True"
| "is_auto_mode_allowlisted_access _ = False"

definition is_auto_mode_allowlisted_tool_name :: "string \<Rightarrow> bool" where
  "is_auto_mode_allowlisted_tool_name tool_name \<longleftrightarrow>
     tool_name \<in> set [''todo_write'', ''TodoWrite'', ''task_output'', ''TaskOutput'', ''wait_tasks'',
       ''WaitTasks'', ''ask_user_question'', ''AskUserQuestion'', ''enter_plan_mode'', ''EnterPlanMode'',
       ''exit_plan_mode'', ''ExitPlanMode'', ''switch_mode'', ''SwitchMode'', ''create_plan'',
       ''CreatePlan'', ''update_plan'', ''UpdatePlan'', ''list_mcp_resources'', ''ListMcpResources'',
       ''read_mcp_resource'', ''ReadMcpResource'', ''tool_search'', ''ToolSearch'', ''sleep'', ''Sleep'']"

datatype auto_fast_path = Fast_Allow | Fast_PromptUser | Fast_Classify

definition auto_mode_fast_path :: "access_kind \<Rightarrow> string \<Rightarrow> bool \<Rightarrow> auto_fast_path" where
  "auto_mode_fast_path access tool_name requires_user_interaction =
     (if requires_user_interaction then Fast_PromptUser
      else if is_auto_mode_allowlisted_access access \<or> is_auto_mode_allowlisted_tool_name tool_name
        then Fast_Allow
      else (case access of
              Access_Edit _ \<Rightarrow> Fast_Allow
            | Access_Bash cmd \<Rightarrow>
                if trim cmd \<in> set [''true'', '':'', ''false''] then Fast_Allow else Fast_Classify
            | _ \<Rightarrow> Fast_Classify))"

section \<open>The walk visits every node\<close>

lemma set_child_cursors: "fst ` set (child_cursors c) = set (ts_children (fst c))"
  by (auto simp: child_cursors_def image_image in_set_conv_nth)

lemma stack_walk_nodes: "fst ` set (stack_walk cs) = (\<Union>c \<in> set cs. set (ts_nodes (fst c)))"
proof (induction cs rule: stack_walk.induct)
  case (2 c stack)
  have "(\<Union>d \<in> set (child_cursors c). set (ts_nodes (fst d))) =
      (\<Union>n \<in> fst ` set (child_cursors c). set (ts_nodes n))" by auto
  then show ?case
    using 2 by (simp add: image_Un set_child_cursors ts_nodes_unfold [of "fst c"])
qed simp

lemma all_cursors_nodes: "fst ` set (all_cursors n) = set (ts_nodes n)"
  unfolding all_cursors_def stack_walk_nodes by simp

lemma env_risk_Safe_le [simp]: "Env_Safe \<le> r" "r \<le> Env_Safe \<longleftrightarrow> r = Env_Safe"
  by (cases r; simp add: less_eq_env_risk_def)+

lemma max_env_Safe [simp]: "max a b = Env_Safe \<longleftrightarrow> a = Env_Safe \<and> b = Env_Safe"
  by (cases a; cases b) (auto simp: max_def less_eq_env_risk_def)

lemma foldl_max_Safe:
  "foldl (\<lambda>risk c. if P c then max risk (f c) else risk) r xs = Env_Safe \<longleftrightarrow>
     r = Env_Safe \<and> (\<forall>x \<in> set xs. P x \<longrightarrow> f x = Env_Safe)"
  by (induction xs arbitrary: r) auto

lemma foldl_max_Safe_all:
  "foldl (\<lambda>risk c. max risk (f c)) r xs = Env_Safe \<longleftrightarrow> r = Env_Safe \<and> (\<forall>x \<in> set xs. f x = Env_Safe)"
  by (induction xs arbitrary: r) auto

lemma script_env_risk_Safe:
  "script_env_risk root_node src cmds = Env_Safe \<longleftrightarrow>
     (\<forall>n \<in> set (ts_nodes root_node). ts_kind n = ''variable_assignment'' \<longrightarrow>
        env_key_risk (assignment_key n src) = Env_Safe)
     \<and> (\<forall>c \<in> set cmds. command_env_risk (words c) = Env_Safe)"
  by (auto simp: script_env_risk_def foldl_max_Safe foldl_max_Safe_all all_cursors_nodes [symmetric])

lemma env_key_Safe: "env_key_risk key = Env_Safe \<longleftrightarrow> key \<in> set SAFE_ENV_KEYS"
  by (auto simp: env_key_risk_def is_safe_env_key_def)

section \<open>Properties\<close>

text \<open>
  The scan for written paths finds every operand that the file gate judges as written, once the
  wrappers of the command are peeled.
\<close>

lemma written_operand_found:
  assumes "unwrap_wrappers ws = w # rest"
    and "(tok, Mode_Write) \<in> set (program_operands (map ascii_lower (shell_program_name w)) (w # rest))"
  shows "tok \<in> set (command_words_write_paths ws)"
proof -
  let ?p = "map ascii_lower (shell_program_name w)" and ?ws = "w # rest"
  let ?written = "\<lambda>ops. map fst (filter (\<lambda>pm. snd pm = Mode_Write) ops)"
  have found: "command_words_write_paths ws = ?written (special_file_operands ?p ?ws) @
      (case shell_path_command_operands ?p ?ws of
         Some ops \<Rightarrow> ?written ops
       | None \<Rightarrow> if shell_file_mode ?p = Some Mode_Write \<or> (?p = ''sed'' \<and> shell_sed_in_place ?ws)
                then shell_file_candidates ?ws else [])"
    unfolding command_words_write_paths_def assms(1) by (simp only: Let_def list.case split: option.split) simp
  show ?thesis
    using assms(2) unfolding found program_operands_def operand_modes_def
    by (auto simp: image_iff split: option.splits if_splits file_mode.splits)
qed

lemma redirect_found:
  assumes "n \<in> set (ts_nodes tree)" "ts_kind n = ''file_redirect''"
    and "shell_redirect_one n cmd = Some (Some path, Mode_Write, b)"
  shows "path \<in> set (command_write_paths_in_tree tree cmd)"
proof -
  from assms(1) have "n \<in> fst ` set (all_cursors tree)"
    by (simp only: all_cursors_nodes)
  then obtain c where c: "c \<in> set (all_cursors tree)" "fst c = n"
    by blast
  with assms(2,3) obtain r where "redirect_at cmd c = Some r" "rd_mode r = Mode_Write" "rd_path r = Some path"
    by (auto simp: redirect_at_def)
  with c(1) show ?thesis
    unfolding command_write_paths_in_tree_def shell_redirect_targets_def
    by (auto simp: set_map_filter intro!: bexI [of _ r] bexI [of _ c])
qed

text \<open>
  C31. What the heuristic classifier lets run: a script that it allows decomposes into at least one
  plain command, all of them routine; it sets no environment variable outside the list of
  cosmetic ones anywhere in the script; and it writes no file but the standard sinks, neither by
  a redirect with a literal target nor by an operand that the file gate judges as written once
  the wrappers of the command are peeled (the destination of \<open>cp\<close>, the output of \<open>sort -o\<close> or
  \<open>dd of=\<close>, the files of \<open>tee\<close>, of \<open>touch\<close> or of \<open>sed\<close> in place).
\<close>

theorem classifier_allow_sound:
  assumes "classify_bash parse cmd = Verdict_Allow"
  shows "\<exists>tree cmds. parse cmd = Some tree \<and> try_parse_word_only_commands_sequence tree cmd = Some cmds
    \<and> cmds \<noteq> []
    \<and> (\<forall>n \<in> set (ts_nodes tree). ts_kind n = ''variable_assignment'' \<longrightarrow>
         assignment_key n cmd \<in> set SAFE_ENV_KEYS)
    \<and> (\<forall>n \<in> set (ts_nodes tree). ts_kind n = ''file_redirect'' \<longrightarrow>
         (case shell_redirect_one n cmd of
            Some (Some path, Mode_Write, _) \<Rightarrow> is_safe_write_sink path | _ \<Rightarrow> True))
    \<and> (\<forall>i \<in> set (shell_command_invocations tree cmd). \<forall>w rest tok.
         unwrap_wrappers (literal_words (inv_words i)) = w # rest
         \<and> (tok, Mode_Write) \<in> set (program_operands (map ascii_lower (shell_program_name w)) (w # rest))
         \<longrightarrow> is_safe_write_sink tok)
    \<and> (\<forall>c \<in> set cmds. bash_command_is_routine (words c) \<and> command_env_risk (words c) = Env_Safe)"
proof -
  from assms obtain tree cmds where p: "parse cmd = Some tree"
    and d: "try_parse_word_only_commands_sequence tree cmd = Some cmds"
    and env: "script_env_risk tree cmd cmds = Env_Safe"
    and wr: "\<not> list_ex (\<lambda>path. \<not> is_safe_write_sink path) (command_write_paths_in_tree tree cmd)"
    and ro: "cmds \<noteq> [] \<and> list_all (\<lambda>c. bash_command_is_routine (words c)) cmds"
    by (auto simp: classify_bash_def split: option.splits if_splits)
  have "case shell_redirect_one n cmd of
      Some (Some path, Mode_Write, _) \<Rightarrow> is_safe_write_sink path | _ \<Rightarrow> True"
    if "n \<in> set (ts_nodes tree)" "ts_kind n = ''file_redirect''" for n
    using wr redirect_found [OF that] by (auto simp: list_ex_iff split: option.split file_mode.split)
  moreover have "is_safe_write_sink tok"
    if "i \<in> set (shell_command_invocations tree cmd)" "unwrap_wrappers (literal_words (inv_words i)) = w # rest"
      "(tok, Mode_Write) \<in> set (program_operands (map ascii_lower (shell_program_name w)) (w # rest))" for i w rest tok
    using wr that(1) written_operand_found [OF that(2,3)] by (auto simp: command_write_paths_in_tree_def list_ex_iff)
  ultimately show ?thesis
    using p d env ro by (auto simp: script_env_risk_Safe env_key_Safe list_all_iff)
qed

definition all_write_tree :: ts_node where
  "all_write_tree =
     TsNode ''program'' True 0 14 False None
      [TsNode ''redirected_statement'' True 0 14 False None
        [TsNode ''command'' True 0 2 False None
           [TsNode ''command_name'' True 0 2 False (Some ''name'') [TsNode ''word'' True 0 2 False None []]],
         TsNode ''file_redirect'' True 3 14 False None
           [TsNode ''>'' False 3 4 False None [],
            TsNode ''word'' True 5 14 False (Some ''destination'') []]]]"

theorem classifier_allow_sound_witness:
  "classify_bash (\<lambda>_. Some all_write_tree) ''ls > /dev/null'' = Verdict_Allow
   \<and> (\<exists>tree cmds. (\<lambda>_. Some all_write_tree) ''ls > /dev/null'' = Some tree
     \<and> try_parse_word_only_commands_sequence tree ''ls > /dev/null'' = Some cmds \<and> cmds \<noteq> [])"
proof -
  have "classify_bash (\<lambda>_. Some all_write_tree) ''ls > /dev/null'' = Verdict_Allow"
    by code_simp
  with classifier_allow_sound [OF this] show ?thesis by blast
qed

section \<open>Headings in untrusted text\<close>

definition heading_line :: "string \<Rightarrow> bool" where
  "heading_line l \<longleftrightarrow> starts_with (trim_start l) ''#''"

lemma ws_len_take: "ws_len (take (ws_len s) s) = ws_len s"
  by (induction s rule: ws_len.induct) auto

lemma trim_start_indent: "trim_start (take (length l - length (trim_start l)) l) = []"
proof (induction l rule: trim_start.induct)
  case (1 l)
  show ?case
  proof (cases "ws_len l = 0")
    case True
    then show ?thesis by (simp add: trim_start.simps [of l] trim_start.simps [of "[]"])
  next
    case False
    let ?w = "ws_len l" and ?r = "trim_start (drop (ws_len l) l)"
    have r: "trim_start l = ?r" using False by (simp add: trim_start.simps [of l])
    have le: "length ?r \<le> length l - ?w"
      using suffix_length_le [OF trim_start_suffix [of "drop ?w l"]] by simp
    have k: "length l - length ?r = ?w + (length (drop ?w l) - length ?r)"
      using le ws_len_le [of l] by simp
    have split: "take (length l - length ?r) l = take ?w l @ take (length (drop ?w l) - length ?r) (drop ?w l)"
      unfolding k by (simp add: take_add)
    have "ws_len (take ?w l @ t) = ?w" for t
      using False ws_len_append [of "take ?w l" t] by (simp add: ws_len_take)
    then have "trim_start (take ?w l @ t) = trim_start t" for t
      using False ws_len_le [of l] by (simp add: trim_start.simps [of "take ?w l @ t"])
    then show ?thesis
      using "1.IH" [OF False] unfolding r split by simp
  qed
qed

lemma neutralize_line_no_heading: "\<not> heading_line (neutralize_line l)"
proof (cases "heading_line l")
  case True
  have "trim_start (bslash # h) = bslash # h" for h
    by (simp add: trim_start.simps [of "bslash # h"] ws_len_plain ascii_ws_def)
  then show ?thesis
    using True trim_start_append [OF trim_start_indent [of l], of "bslash # trim_start l"]
    by (simp add: neutralize_line_def heading_line_def Let_def)
qed (simp add: neutralize_line_def heading_line_def)

lemma heading_line_append: "heading_line m \<Longrightarrow> heading_line (m @ t)"
proof (induction m rule: trim_start.induct)
  case (1 m)
  show ?case
  proof (cases "ws_len m = 0")
    case True
    with "1.prems" obtain r where "m = CHR ''#'' # r"
      by (auto simp: heading_line_def trim_start.simps [of m] starts_with_def prefix_def)
    then show ?thesis
      by (simp add: heading_line_def trim_start.simps [of "CHR ''#'' # r @ t"] ws_len_plain ascii_ws_def)
  next
    case False
    with 1 have "heading_line (drop (ws_len m) m @ t)"
      by (simp add: heading_line_def trim_start.simps [of m])
    then show ?thesis
      using False ws_len_le [of m] by (simp add: heading_line_def trim_start.simps [of "m @ t"] ws_len_append)
  qed
qed

lemma strip_cr_heading: "heading_line (strip_cr l) \<Longrightarrow> heading_line l"
  using heading_line_append by (auto simp: strip_cr_def strip_suffix_Some split: option.splits)

lemma neutralize_line_newline: "newline \<notin> set l \<Longrightarrow> newline \<notin> set (neutralize_line l)"
  using set_mono_suffix [OF trim_start_suffix [of l]]
  by (auto simp: neutralize_line_def Let_def dest: in_set_takeD)

lemma str_lines_of_join:
  assumes "list_all (\<lambda>s. newline \<notin> set s) ls" and "l \<in> set (str_lines (join [newline] ls))"
  shows "\<exists>m \<in> set ls. l = m \<or> l = strip_cr m"
proof (cases "ls = []")
  case True
  with assms(2) show ?thesis by (simp add: str_lines_def)
next
  case False
  with assms show ?thesis
    by (auto simp: str_lines_def split_char_join Let_def split: if_splits dest: in_set_butlastD)
qed

text \<open>
  Untrusted text cannot open a section of the classifier's prompt: after neutralisation no
  line of a user message or of a tool call starts, after white space of any kind, with the
  character that opens a heading.
\<close>

theorem neutralized_has_no_heading:
  "list_all (\<lambda>l. \<not> starts_with (trim_start l) ''#'') (str_lines (neutralize_headings text))"
proof -
  have nl: "list_all (\<lambda>s. newline \<notin> set s) (map neutralize_line (str_lines text))"
    by (auto simp: list_all_iff dest: str_lines_newline neutralize_line_newline)
  have "\<not> heading_line l" if "l \<in> set (str_lines (neutralize_headings text))" for l
    using str_lines_of_join [OF nl] that neutralize_line_no_heading strip_cr_heading
    unfolding neutralize_headings_def by fastforce
  then show ?thesis by (auto simp: list_all_iff heading_line_def)
qed

end
