(* ===== verification/Exec_Risk.thy ===== *)
theory Exec_Risk
  imports Command_Peel Shell_Paths
begin

text \<open>
  Execution risk of shell segments (\<open>gbuild-workspace/src/permission/exec_risk.rs\<close>): argv flags
  that make \<open>git\<close> or \<open>sort\<close> run other programs, the directories whose Git configuration must
  be looked at, and the scan of that configuration. libgit2 and the file system are the
  argument \<open>git\<close>: what repository discovery, file opening, the configuration reader and the
  boolean parser answer.
\<close>

section \<open>Normalising a segment\<close>

datatype normalized_argv = Argv_Ready "string list" | Argv_FailClosed

text \<open>
  All slices of the loop are tails of one argument vector, so the pointer comparisons of the
  source are comparisons of lengths.
\<close>

fun exec_risk_loop :: "nat \<Rightarrow> string list \<Rightarrow> normalized_argv" where
  "exec_risk_loop 0 current = Argv_FailClosed"
| "exec_risk_loop (Suc n) current =
     (let checked = unwrap_wrappers_checked current
      in if cw_exhausted checked \<or> cw_has_split_string checked \<or> cw_has_chdir checked
         then Argv_FailClosed
         else
           (case peel_transparent_prefixes (cw_words checked) of
              Prefix_Ambiguous \<Rightarrow> Argv_FailClosed
            | Ready after_trans \<Rightarrow>
                if length after_trans = length current then Argv_Ready after_trans
                else if length after_trans = length (cw_words checked) then Argv_Ready after_trans
                else exec_risk_loop n after_trans))"

definition normalize_for_exec_risk :: "string list \<Rightarrow> normalized_argv" where
  "normalize_for_exec_risk ws =
     exec_risk_loop (MAX_WRAPPER_DEPTH + MAX_TRANSPARENT_PREFIX_DEPTH) ws"

section \<open>Flags\<close>

definition is_ascii_alphanumeric :: "char \<Rightarrow> bool" where
  "is_ascii_alphanumeric c \<longleftrightarrow> is_digit c \<or> (of_char (ascii_lower c) :: nat) \<in> {97..122}"

definition is_accepted_long_option_prefix :: "string \<Rightarrow> string \<Rightarrow> nat \<Rightarrow> bool" where
  "is_accepted_long_option_prefix flag full min_len \<longleftrightarrow>
     starts_with flag ''--'' \<and> length flag \<ge> min_len \<and> starts_with full flag
     \<and> list_all (\<lambda>b. is_ascii_alphanumeric b \<or> b = CHR ''-'') flag"

definition normalized_token_basename :: "string \<Rightarrow> string" where
  "normalized_token_basename token =
     (let name = map ascii_lower (basename token)
      in case strip_suffix ''.exe'' name of Some stem \<Rightarrow> stem | None \<Rightarrow> name)"

definition normalized_program_name :: "string list \<Rightarrow> string option" where
  "normalized_program_name ws =
     (case ws of
        [] \<Rightarrow> None
      | raw # _ \<Rightarrow> if basename raw = [] then None else Some (normalized_token_basename raw))"

definition is_git_program :: "string list \<Rightarrow> bool" where
  "is_git_program ws \<longleftrightarrow> normalized_program_name ws = Some ''git''"

definition is_sort_program :: "string list \<Rightarrow> bool" where
  "is_sort_program ws \<longleftrightarrow> normalized_program_name ws = Some ''sort''"

text \<open>The flag part of \<open>flag=value\<close>.\<close>

definition flag_part :: "string \<Rightarrow> string" where
  "flag_part w = takeWhile (\<lambda>c. c \<noteq> CHR ''='') w"

definition is_compress_program_flag :: "string \<Rightarrow> bool" where
  "is_compress_program_flag w \<longleftrightarrow>
     w = ''--compress-program'' \<or> starts_with w ''--compress-program=''
     \<or> is_accepted_long_option_prefix (flag_part w) ''--compress-program'' 4"

definition sort_has_compress_program_flag :: "string list \<Rightarrow> bool" where
  "sort_has_compress_program_flag ws =
     list_ex is_compress_program_flag (takeWhile (\<lambda>w. w \<noteq> ''--'') (drop 1 ws))"

definition is_git_config_env_flag :: "string \<Rightarrow> bool" where
  "is_git_config_env_flag tok \<longleftrightarrow>
     tok = ''--config-env'' \<or> starts_with tok ''--config-env=''
     \<or> is_accepted_long_option_prefix (flag_part tok) ''--config-env'' 4"

definition is_git_repo_retarget_flag :: "string \<Rightarrow> bool" where
  "is_git_repo_retarget_flag tok \<longleftrightarrow>
     tok = ''--git-dir'' \<or> starts_with tok ''--git-dir=''
     \<or> tok = ''--work-tree'' \<or> starts_with tok ''--work-tree=''
     \<or> is_accepted_long_option_prefix (flag_part tok) ''--git-dir'' 4
     \<or> is_accepted_long_option_prefix (flag_part tok) ''--work-tree'' 4"

definition is_attached_git_config_c :: "string \<Rightarrow> bool" where
  "is_attached_git_config_c tok \<longleftrightarrow>
     starts_with tok ''-c'' \<and> length tok > 2 \<and> \<not> starts_with tok ''--''"

definition attached_git_c_path :: "string \<Rightarrow> string option" where
  "attached_git_c_path tok =
     (case strip_prefix ''-C'' tok of
        Some rest \<Rightarrow> if rest \<noteq> [] \<and> \<not> starts_with tok ''--'' then Some rest else None
      | None \<Rightarrow> None)"

definition git_global_option_takes_value :: "string \<Rightarrow> bool" where
  "git_global_option_takes_value tok \<longleftrightarrow>
     tok \<in> set [''-C'', ''-c'', ''--git-dir'', ''--work-tree'', ''--namespace'', ''--super-prefix'',
       ''--exec-path'', ''--list-cmds'', ''--attr-source'', ''--config-env'']
     \<or> is_accepted_long_option_prefix tok ''--config-env'' 4
     \<or> is_accepted_long_option_prefix tok ''--git-dir'' 4
     \<or> is_accepted_long_option_prefix tok ''--work-tree'' 4
     \<or> is_accepted_long_option_prefix tok ''--namespace'' 7
     \<or> is_accepted_long_option_prefix tok ''--super-prefix'' 8
     \<or> is_accepted_long_option_prefix tok ''--exec-path'' 7
     \<or> is_accepted_long_option_prefix tok ''--list-cmds'' 7
     \<or> is_accepted_long_option_prefix tok ''--attr-source'' 8"

text \<open>The flags that let a Git command run other programs, or retarget its configuration.\<close>

definition git_risk_flag :: "string \<Rightarrow> bool" where
  "git_risk_flag tok \<longleftrightarrow>
     tok = ''-c'' \<or> is_attached_git_config_c tok \<or> is_git_config_env_flag tok
     \<or> is_git_repo_retarget_flag tok"

text \<open>How many words a global option at the head takes: itself and possibly its value.\<close>

definition global_option_width :: "string \<Rightarrow> string list \<Rightarrow> nat" where
  "global_option_width tok rest =
     (if CHR ''='' \<notin> set tok \<and> git_global_option_takes_value tok
         \<and> (case rest of n # _ \<Rightarrow> \<not> starts_with n ''-'' \<or> n = ''-'' | [] \<Rightarrow> False)
      then 2 else 1)"

function (sequential) git_risk_scan :: "string list \<Rightarrow> bool" where
  "git_risk_scan [] = False"
| "git_risk_scan (tok # rest) =
     (if tok = ''--'' then False
      else if \<not> starts_with tok ''-'' \<or> tok = ''-'' then False
      else if git_risk_flag tok then True
      else if attached_git_c_path tok \<noteq> None then git_risk_scan rest
      else git_risk_scan (drop (global_option_width tok rest) (tok # rest)))"
  by pat_completeness auto
termination
  by (relation "measure length") (auto simp: global_option_width_def)

definition git_has_exec_risk_global :: "string list \<Rightarrow> bool" where
  "git_has_exec_risk_global ws = git_risk_scan (drop 1 ws)"

definition segment_has_exec_risk_flag :: "string list \<Rightarrow> bool" where
  "segment_has_exec_risk_flag ws =
     (if is_sort_program ws then sort_has_compress_program_flag ws
      else if is_git_program ws then git_has_exec_risk_global ws
      else False)"

record segment_exec_facts_result =
  sf_exec_risk :: bool
  sf_has_git :: bool

definition segment_exec_facts :: "string list \<Rightarrow> segment_exec_facts_result" where
  "segment_exec_facts ws =
     (case normalize_for_exec_risk ws of
        Argv_FailClosed \<Rightarrow> \<lparr>sf_exec_risk = True, sf_has_git = False\<rparr>
      | Argv_Ready inner \<Rightarrow>
          \<lparr>sf_exec_risk = segment_has_exec_risk_flag inner, sf_has_git = is_git_program inner\<rparr>)"

section \<open>Git configuration\<close>

datatype discover_result = Repo_Found string string | Repo_NotFound | Repo_Error

datatype open_result = Open_File | Open_Not_Regular | Open_NotFound | Open_Error

datatype config_level = Level_Local | Level_Worktree | Level_Other

record git_view =
  git_discover :: "string \<Rightarrow> discover_result"
  open_file :: "string \<Rightarrow> open_result"
  git_entries :: "string \<Rightarrow> (config_level \<times> string \<times> string) option list option"
  git_parse_bool :: "string \<Rightarrow> bool option"

definition SAFE_GIT_SUBCOMMANDS :: "string list" where
  "SAFE_GIT_SUBCOMMANDS =
     [''status'', ''branch'', ''log'', ''diff'', ''ls-files'', ''show'', ''rev-parse'']"

definition local_git_config_entry_is_exec :: "git_view \<Rightarrow> string \<Rightarrow> string \<Rightarrow> bool" where
  "local_git_config_entry_is_exec git name0 value0 =
     (let name = map ascii_lower name0; val = trim value0
      in if val = [] then False
         else if name = ''core.fsmonitor'' then git_parse_bool git val = None
         else if name = ''diff.external'' then True
         else if (case strip_prefix ''diff.'' name of
                    Some rest \<Rightarrow> ends_with rest ''.command'' \<or> ends_with rest ''.textconv''
                      \<or> ends_with rest ''.external''
                  | None \<Rightarrow> False) then True
         else (case strip_prefix ''alias.'' name of
                 Some alias \<Rightarrow> alias \<in> set SAFE_GIT_SUBCOMMANDS \<and> starts_with val ''!''
               | None \<Rightarrow> False))"

definition path_unreadable :: "git_view \<Rightarrow> string \<Rightarrow> bool" where
  "path_unreadable git path =
     (case open_file git path of
        Open_File \<Rightarrow> False
      | Open_Not_Regular \<Rightarrow> True
      | Open_NotFound \<Rightarrow> False
      | Open_Error \<Rightarrow> True)"

fun entries_risk :: "git_view \<Rightarrow> (config_level \<times> string \<times> string) option list \<Rightarrow> bool" where
  "entries_risk git [] = False"
| "entries_risk git (None # es) = True"
| "entries_risk git (Some (level, name, val) # es) =
     (if level = Level_Other then entries_risk git es
      else if local_git_config_entry_is_exec git name val then True
      else entries_risk git es)"

definition local_repo_config_has_exec_risk :: "git_view \<Rightarrow> string \<Rightarrow> bool" where
  "local_repo_config_has_exec_risk git cwd =
     (case git_discover git cwd of
        Repo_NotFound \<Rightarrow> False
      | Repo_Error \<Rightarrow> True
      | Repo_Found git_dir common \<Rightarrow>
          if path_unreadable git (path_join common ''config'')
             \<or> path_unreadable git (path_join git_dir ''config'')
             \<or> path_unreadable git (path_join git_dir ''config.worktree'')
          then True
          else (case git_entries git git_dir of
                  None \<Rightarrow> True
                | Some es \<Rightarrow> entries_risk git es))"

section \<open>Where Git runs\<close>

definition is_static_path_operand :: "string \<Rightarrow> bool" where
  "is_static_path_operand p \<longleftrightarrow>
     p \<noteq> [] \<and> p \<noteq> ''-'' \<and> \<not> starts_with p ''-'' \<and> CHR ''$'' \<notin> set p \<and> backtick \<notin> set p"

definition join_cwd :: "string \<Rightarrow> string \<Rightarrow> string" where
  "join_cwd base operand = (if is_absolute operand then operand else path_join base operand)"

fun chdir_target :: "string list \<Rightarrow> string option \<Rightarrow> string option option" where
  "chdir_target [] target = Some target"
| "chdir_target (tok # rest) target =
     (if tok = ''--'' then Some (case rest of t # _ \<Rightarrow> Some t | [] \<Rightarrow> None)
      else if starts_with tok ''-'' then None
      else if target \<noteq> None then None
      else chdir_target rest (Some tok))"

definition apply_literal_chdir :: "string \<Rightarrow> string list \<Rightarrow> string option" where
  "apply_literal_chdir cwd ws =
     (case chdir_target (drop 1 ws) None of
        Some (Some target) \<Rightarrow>
          if is_static_path_operand target then Some (join_cwd cwd target) else None
      | _ \<Rightarrow> None)"

function (sequential) git_cwd_scan :: "string \<Rightarrow> string list \<Rightarrow> string option" where
  "git_cwd_scan cwd [] = Some cwd"
| "git_cwd_scan cwd (tok # rest) =
     (if tok = ''--'' \<or> \<not> starts_with tok ''-'' \<or> tok = ''-'' then Some cwd
      else if is_git_repo_retarget_flag tok then None
      else if tok = ''-C'' then
        (case rest of
           [] \<Rightarrow> None
         | path # rest' \<Rightarrow>
             if is_static_path_operand path then git_cwd_scan (join_cwd cwd path) rest' else None)
      else (case attached_git_c_path tok of
              Some path \<Rightarrow>
                if is_static_path_operand path then git_cwd_scan (join_cwd cwd path) rest else None
            | None \<Rightarrow> git_cwd_scan cwd (drop (global_option_width tok rest) (tok # rest))))"
  by pat_completeness auto
termination
  by (relation "measure (length \<circ> snd)") (auto simp: global_option_width_def)

definition git_effective_cwd :: "string list \<Rightarrow> string \<Rightarrow> string option" where
  "git_effective_cwd ws start_cwd = git_cwd_scan start_cwd (drop 1 ws)"

datatype ambient_scan_plan = Plan_FailClosed | CheckDirs "string list"

fun ambient_loop :: "string list list \<Rightarrow> string \<Rightarrow> string list \<Rightarrow> string list option" where
  "ambient_loop [] cwd git_cwds = Some git_cwds"
| "ambient_loop (raw # segs) cwd git_cwds =
     (case normalize_for_exec_risk raw of
        Argv_FailClosed \<Rightarrow> None
      | Argv_Ready ws \<Rightarrow>
          let prog = normalized_program_name ws
          in if prog = Some ''cd'' \<or> prog = Some ''pushd'' then
               (case apply_literal_chdir cwd ws of
                  Some next_cwd \<Rightarrow> ambient_loop segs next_cwd git_cwds
                | None \<Rightarrow> None)
             else if prog = Some ''popd'' then None
             else if prog = Some ''git'' then
               (case git_effective_cwd ws cwd of
                  Some effective \<Rightarrow> ambient_loop segs cwd (git_cwds @ [effective])
                | None \<Rightarrow> None)
             else ambient_loop segs cwd git_cwds)"

definition ambient_scan_plan_from_segments :: "string list list \<Rightarrow> string \<Rightarrow> ambient_scan_plan" where
  "ambient_scan_plan_from_segments raw_segments session_cwd =
     (case ambient_loop raw_segments session_cwd [] of
        Some (d # ds) \<Rightarrow> CheckDirs (d # ds)
      | _ \<Rightarrow> Plan_FailClosed)"

definition ambient_exec_risk_from_plan :: "git_view \<Rightarrow> ambient_scan_plan \<Rightarrow> bool" where
  "ambient_exec_risk_from_plan git plan =
     (case plan of
        Plan_FailClosed \<Rightarrow> True
      | CheckDirs dirs \<Rightarrow> list_ex (local_repo_config_has_exec_risk git) dirs)"

text \<open>Tokens of a script that could not be decomposed, split at white space and shell operators.\<close>

fun split_chars :: "(string \<Rightarrow> bool) \<Rightarrow> string list \<Rightarrow> string list" where
  "split_chars sep [] = [[]]"
| "split_chars sep (c # cs) =
     (if sep c then [] # split_chars sep cs
      else case split_chars sep cs of t # ts \<Rightarrow> (c @ t) # ts | [] \<Rightarrow> [c])"

definition script_may_invoke_git :: "string \<Rightarrow> bool" where
  "script_may_invoke_git cmd =
     (let sep = (\<lambda>c. is_whitespace c
            \<or> c \<in> set [''|'', ''&'', '';'', ''('', '')'', [backtick], [newline], ''<'', ''>'']);
          q = (\<lambda>c. c = squote \<or> c = dquote \<or> c = backtick)
      in list_ex (\<lambda>token.
           let trimmed = rev (dropWhile q (rev (dropWhile q token)))
           in trimmed \<noteq> [] \<and> normalized_token_basename trimmed = ''git'')
         (split_chars sep (chars cmd)))"

section \<open>Properties\<close>

lemma unwrap_checked_done:
  assumes "\<not> cw_exhausted (unwrap_wrappers_checked ws)"
  shows "strip_wrapper_command (cw_words (unwrap_wrappers_checked ws)) = None"
    and "peel_step\<^sup>*\<^sup>* ws (cw_words (unwrap_wrappers_checked ws))"
  using assms unwrap_loop_steps
  by (simp_all add: unwrap_wrappers_checked_def unwrap_loop_words unwrap_loop_exhausted)

lemma peel_transparent_done:
  assumes "peel_transparent_prefixes ws = Ready inner"
  shows "strip_transparent_prefix inner = NotPrefix" and "peel_step\<^sup>*\<^sup>* ws inner"
  using assms transparent_prefixes_correct [of ws] peel_transparent_loop_steps
  by (auto simp: peel_transparent_prefixes_def)

lemma exec_risk_loop_ready:
  "exec_risk_loop n ws = Argv_Ready inner \<Longrightarrow> peel_step\<^sup>*\<^sup>* ws inner \<and> irreducible inner"
proof (induction n arbitrary: ws)
  case (Suc n)
  let ?w = "unwrap_wrappers_checked ws"
  from Suc.prems obtain t where ne: "\<not> cw_exhausted ?w"
    and t: "peel_transparent_prefixes (cw_words ?w) = Ready t"
    and ans: "(if length t = length ws \<or> length t = length (cw_words ?w) then Argv_Ready t
               else exec_risk_loop n t) = Argv_Ready inner"
    by (auto simp: Let_def split: if_splits transparent_prefix_peel.splits)
  note w = unwrap_checked_done [OF ne] and tr = peel_transparent_done [OF t]
  from w(2) tr(2) have steps: "peel_step\<^sup>*\<^sup>* ws t" by simp
  show ?case
  proof (cases "length t = length ws \<or> length t = length (cw_words ?w)")
    case True
    have "suffix t (cw_words ?w)" "suffix (cw_words ?w) ws"
      using peel_steps_suffix [OF tr(2)] peel_steps_suffix [OF w(2)] by auto
    with True have "t = cw_words ?w"
      by (metis suffix_eq_or_shorter suffix_length_le not_less)
    with True ans w(1) tr(1) steps show ?thesis by (simp add: irreducible_def)
  next
    case False
    with ans Suc.IH steps show ?thesis by (auto intro: rtranclp_trans)
  qed
qed simp

text \<open>
  The risk analysis looks at the right command: where it reads a segment at all, the argv it
  inspects is the unique normal form of the segment, so no wrapper and no transparent prefix
  stands between it and the program that will run.
\<close>

theorem exec_risk_normal_form:
  assumes "normalize_for_exec_risk ws = Argv_Ready inner"
  shows "(peel_step\<^sup>*\<^sup>* ws form \<and> irreducible form) = (form = inner)"
  using exec_risk_loop_ready [of _ ws inner] normal_form_unique [of ws form inner] assms
  by (auto simp: normalize_for_exec_risk_def)

theorem exec_risk_normal_form_witness:
  "normalize_for_exec_risk [''command'', ''nice'', ''git'', ''-c'', ''a=b''] = Argv_Ready [''git'', ''-c'', ''a=b'']
   \<and> irreducible [''git'', ''-c'', ''a=b'']"
proof -
  have "normalize_for_exec_risk [''command'', ''nice'', ''git'', ''-c'', ''a=b''] =
      Argv_Ready [''git'', ''-c'', ''a=b'']"
    by code_simp
  then show ?thesis using exec_risk_normal_form by blast
qed

text \<open>
  An unmodelled peel is let through: \<open>env\<close> with an option that the scanner does not know hides
  the command behind it from the risk analysis, which then reports neither a risk nor a use of
  Git, although the same command without the wrapper is reported as a risk.
\<close>

theorem uncertain_env_not_flagged:
  "segment_exec_facts [''env'', ''--block-signal'', ''git'', ''-c'', ''core.fsmonitor=x'', ''status''] =
     \<lparr>sf_exec_risk = False, sf_has_git = False\<rparr>
   \<and> segment_exec_facts [''env'', ''git'', ''-c'', ''core.fsmonitor=x'', ''status''] =
     \<lparr>sf_exec_risk = True, sf_has_git = True\<rparr>"
  by code_simp

text \<open>An option word, as a command line spells it.\<close>

definition option_word :: "string \<Rightarrow> bool" where
  "option_word w \<longleftrightarrow> starts_with w ''-'' \<and> w \<noteq> ''-'' \<and> w \<noteq> ''--''"

lemma git_risk_scan_options:
  "list_all option_word pre \<Longrightarrow> option_word tok \<Longrightarrow> git_risk_flag tok \<Longrightarrow>
     git_risk_scan (pre @ tok # post)"
proof (induction pre)
  case (Cons w pre)
  have "global_option_width w (pre @ tok # post) = 1"
    using Cons.prems by (cases pre) (auto simp: global_option_width_def option_word_def)
  with Cons show ?case by (auto simp: option_word_def)
qed (simp add: option_word_def)

text \<open>An abbreviation of a long option, alone or with a value attached.\<close>

definition abbreviates :: "string \<Rightarrow> string \<Rightarrow> nat \<Rightarrow> bool" where
  "abbreviates w full min_len \<longleftrightarrow>
     (\<exists>n v. min_len \<le> n \<and> n \<le> length full \<and> w = take n full @ v \<and> (v = [] \<or> hd v = CHR ''=''))"

definition long_option_name :: "string \<Rightarrow> bool" where
  "long_option_name full \<longleftrightarrow>
     starts_with full ''--'' \<and> list_all (\<lambda>b. is_ascii_alphanumeric b \<or> b = CHR ''-'') full"

lemma equals_not_alphanumeric: "\<not> is_ascii_alphanumeric CHR ''=''"
  by code_simp

lemma abbreviation_accepted:
  assumes "long_option_name full" and "abbreviates w full m" and "2 \<le> m"
  shows "is_accepted_long_option_prefix (flag_part w) full m"
proof -
  from assms(2) obtain n v where n: "m \<le> n" "n \<le> length full"
    and w: "w = take n full @ v" and v: "v = [] \<or> hd v = CHR ''=''"
    by (auto simp: abbreviates_def)
  have chars: "is_ascii_alphanumeric b \<or> b = CHR ''-''" if "b \<in> set (take n full)" for b
    using assms(1) in_set_takeD [OF that] by (auto simp: long_option_name_def list_all_iff)
  then have "b \<noteq> CHR ''=''" if "b \<in> set (take n full)" for b
    using that equals_not_alphanumeric by auto
  then have "flag_part w = take n full"
    using v by (cases v) (auto simp: flag_part_def w takeWhile_append)
  moreover have "starts_with (take n full) ''--''"
    using assms(1,3) n by (auto simp: long_option_name_def starts_with_def prefix_def take_Cons')
  ultimately show ?thesis
    using n chars by (auto simp: is_accepted_long_option_prefix_def list_all_iff starts_with_def
        intro: take_is_prefix)
qed

lemma abbreviation_option_word:
  assumes "starts_with full ''--''" and "abbreviates w full m" and "3 \<le> m"
  shows "option_word w"
proof -
  from assms(1) obtain r where f: "full = ''--'' @ r" by (auto simp: starts_with_def prefix_def)
  from assms(2) obtain n v where n: "m \<le> n" "n \<le> length full" and w: "w = take n full @ v"
    by (auto simp: abbreviates_def)
  have "3 \<le> length w" "starts_with w ''-''"
    using n assms(3) by (auto simp: w f starts_with_def take_Cons' )
  then show ?thesis by (auto simp: option_word_def)
qed

text \<open>
  Abbreviated options are seen: \<open>sort --compress-program\<close>, and Git's \<open>--git-dir\<close>, \<open>--work-tree\<close>
  and \<open>--config-env\<close> among the global options, are reported as a risk in every abbreviation of
  at least four characters that the programs accept, with or without an attached value, wherever
  they stand among the options.
\<close>

theorem abbreviated_flags_found:
  assumes "abbreviates w full 4"
  shows "(full = ''--compress-program'' \<and> ''--'' \<notin> set pre \<longrightarrow>
      sort_has_compress_program_flag (prog # pre @ w # post))
    \<and> (full \<in> set [''--git-dir'', ''--work-tree'', ''--config-env''] \<and> list_all option_word pre \<longrightarrow>
      git_has_exec_risk_global (prog # pre @ w # post))"
proof (intro conjI impI)
  assume "full = ''--compress-program'' \<and> ''--'' \<notin> set pre"
  then have f: "full = ''--compress-program''" and pre: "''--'' \<notin> set pre" by auto
  have "long_option_name full" unfolding f by code_simp
  then have "is_compress_program_flag w" and "w \<noteq> ''--''"
    using abbreviation_accepted [OF _ assms] abbreviation_option_word [OF _ assms]
    by (auto simp: is_compress_program_flag_def f long_option_name_def option_word_def)
  then show "sort_has_compress_program_flag (prog # pre @ w # post)"
    using pre by (auto simp: sort_has_compress_program_flag_def takeWhile_append)
next
  assume "full \<in> set [''--git-dir'', ''--work-tree'', ''--config-env''] \<and> list_all option_word pre"
  then have f: "full \<in> set [''--git-dir'', ''--work-tree'', ''--config-env'']"
    and pre: "list_all option_word pre" by auto
  have "long_option_name ''--git-dir''" "long_option_name ''--work-tree''" "long_option_name ''--config-env''"
    by code_simp+
  with f have "long_option_name full" by auto
  then have "option_word w" and "is_accepted_long_option_prefix (flag_part w) full 4"
    using abbreviation_accepted [OF _ assms] abbreviation_option_word [OF _ assms]
    by (auto simp: long_option_name_def)
  then have "git_risk_flag w"
    using f by (auto simp: git_risk_flag_def is_git_config_env_flag_def is_git_repo_retarget_flag_def)
  with \<open>option_word w\<close> pre show "git_has_exec_risk_global (prog # pre @ w # post)"
    by (simp add: git_has_exec_risk_global_def git_risk_scan_options)
qed

theorem abbreviated_flags_found_witness:
  "sort_has_compress_program_flag [''sort'', ''-n'', ''--compress=./x'', ''f'']"
proof -
  have "abbreviates ''--compress=./x'' ''--compress-program'' 4"
    unfolding abbreviates_def by (intro exI [of _ 10] exI [of _ "''=./x''"]) simp
  from abbreviated_flags_found [OF this, where prog = "''sort''" and pre = "[''-n'']" and post = "[''f'']"]
  show ?thesis by simp
qed

section \<open>Every directory in which Git runs is scanned\<close>

text \<open>
  Where a script runs Git, on places instead of path strings: \<open>git_dir d args d'\<close> follows the global
  options of one Git command, and \<open>runs_git segs d d'\<close> the segments of a script, each read as the
  normal form of its wrappers, with every change of directory taken to succeed.
\<close>

definition place_from :: "string list \<Rightarrow> string \<Rightarrow> string list" where
  "place_from d p = foldl place_step (if is_absolute p then [] else d) (split_char CHR ''/'' p)"

inductive git_dir :: "string list \<Rightarrow> string list \<Rightarrow> string list \<Rightarrow> bool" where
  git_dir_end: "git_dir d [] d"
| git_dir_command: "\<not> option_word tok \<Longrightarrow> git_dir d (tok # args) d"
| git_dir_separate: "git_dir (place_from d p) args d' \<Longrightarrow> git_dir d (''-C'' # p # args) d'"
| git_dir_attached: "p \<noteq> [] \<Longrightarrow> git_dir (place_from d p) args d' \<Longrightarrow> git_dir d ((''-C'' @ p) # args) d'"
| git_dir_option: "option_word tok \<Longrightarrow> \<not> prefix ''-C'' tok \<Longrightarrow>
    git_dir d (drop (global_option_width tok args) (tok # args)) d' \<Longrightarrow> git_dir d (tok # args) d'"

definition normal_form_of :: "string list \<Rightarrow> string list \<Rightarrow> bool" where
  "normal_form_of raw ws \<longleftrightarrow> peel_step\<^sup>*\<^sup>* raw ws \<and> irreducible ws"

inductive runs_git :: "string list list \<Rightarrow> string list \<Rightarrow> string list \<Rightarrow> bool" where
  git_here: "normal_form_of raw ws \<Longrightarrow> is_git_program ws \<Longrightarrow> git_dir d (tl ws) d' \<Longrightarrow> runs_git (raw # segs) d d'"
| git_after_cd: "normal_form_of raw ws \<Longrightarrow> normalized_program_name ws \<in> {Some ''cd'', Some ''pushd''} \<Longrightarrow>
    tl ws = [t] \<or> tl ws = [''--'', t] \<Longrightarrow> runs_git segs (place_from d t) d' \<Longrightarrow> runs_git (raw # segs) d d'"
| git_after: "normal_form_of raw ws \<Longrightarrow>
    normalized_program_name ws \<notin> {Some ''cd'', Some ''pushd'', Some ''popd''} \<Longrightarrow>
    runs_git segs d d' \<Longrightarrow> runs_git (raw # segs) d d'"

lemma place_join_cwd: "place (join_cwd base p) = place_from (place base) p"
proof (cases "is_absolute p \<or> base = []")
  case True
  then show ?thesis by (auto simp: join_cwd_def place_from_def place_def path_join_def place_step_def)
next
  case rel: False
  show ?thesis
  proof (cases "last base = CHR ''/''")
    case True
    then obtain b where b: "base = b @ [CHR ''/'']" using rel by (metis append_butlast_last_id)
    have "split_char CHR ''/'' (b @ [CHR ''/'']) = split_char CHR ''/'' b @ [[]]"
      using split_char_app [of "CHR ''/''" b "[]"] by simp
    with rel b show ?thesis
      by (simp add: join_cwd_def place_from_def place_def path_join_def place_step_def split_char_app)
  next
    case False
    with rel show ?thesis
      by (simp add: join_cwd_def place_from_def place_def path_join_def split_char_app)
  qed
qed

lemma option_word_iff: "option_word tok \<longleftrightarrow> \<not> (tok = ''--'' \<or> \<not> starts_with tok ''-'' \<or> tok = ''-'')"
  by (auto simp: option_word_def)

text \<open>The scan of the options ends where Git runs.\<close>

lemma git_cwd_scan_place:
  "git_dir d args d' \<Longrightarrow> git_cwd_scan cwd args = Some r \<Longrightarrow> place cwd = d \<Longrightarrow> place r = d'"
proof (induction arbitrary: cwd rule: git_dir.induct)
  case (git_dir_command tok d args)
  then show ?case by (simp add: option_word_iff split: if_splits)
next
  case (git_dir_separate d p args d')
  then show ?case by (auto simp: place_join_cwd split: if_splits)
next
  case (git_dir_attached p d args d')
  have "attached_git_c_path (''-C'' @ p) = Some p" "option_word (''-C'' @ p)" "''-C'' @ p \<noteq> ''-C''"
    using git_dir_attached.hyps(1) by (auto simp: attached_git_c_path_def strip_prefix_def option_word_def starts_with_def)
  with git_dir_attached show ?case
    by (auto simp: option_word_iff place_join_cwd simp del: append_Cons split: if_splits)
next
  case (git_dir_option tok args d d')
  then have "attached_git_c_path tok = None" "tok \<noteq> ''-C''"
    by (auto simp: attached_git_c_path_def strip_prefix_def starts_with_def)
  with git_dir_option show ?case
    by (auto simp: option_word_iff simp del: drop_Suc_Cons split: if_splits)
qed simp

lemma ambient_loop_keeps: "ambient_loop segs cwd acc = Some dirs \<Longrightarrow> set acc \<subseteq> set dirs"
proof (induction segs arbitrary: cwd acc)
  case (Cons raw segs)
  then show ?case
    by (fastforce simp: Let_def split: normalized_argv.splits if_splits option.splits dest: Cons.IH)
qed simp

lemma ambient_loop_reads:
  "ambient_loop segs cwd acc = Some dirs \<Longrightarrow> raw \<in> set segs \<Longrightarrow>
     \<exists>ws. normal_form_of raw ws \<and> normalized_program_name ws \<noteq> Some ''popd''"
proof (induction segs arbitrary: cwd acc)
  case (Cons r segs)
  then obtain ws where ws: "normalize_for_exec_risk r = Argv_Ready ws"
    by (auto split: normalized_argv.splits)
  then have "normal_form_of r ws" using exec_risk_loop_ready by (simp add: normal_form_of_def normalize_for_exec_risk_def)
  with Cons ws show ?case
    by (auto simp: Let_def split: if_splits option.splits)
qed simp

text \<open>A change of directory with one operand is followed.\<close>

lemma apply_literal_chdir_place:
  assumes "apply_literal_chdir cwd ws = Some next_cwd" "tl ws = [t] \<or> tl ws = [''--'', t]"
  shows "place next_cwd = place_from (place cwd) t"
  using assms
  by (auto simp: apply_literal_chdir_def drop_Suc place_join_cwd [symmetric] split: if_splits option.splits)

lemma ambient_loop_scans:
  "runs_git segs d d' \<Longrightarrow> ambient_loop segs cwd acc = Some dirs \<Longrightarrow> place cwd = d \<Longrightarrow>
     \<exists>dir \<in> set dirs. place dir = d'"
proof (induction arbitrary: cwd acc rule: runs_git.induct)
  case (git_here raw ws d d' segs)
  have n: "normalize_for_exec_risk raw = Argv_Ready ws"
    using git_here.prems(1) git_here.hyps(1) exec_risk_normal_form [of raw _ ws]
    by (auto simp: normal_form_of_def split: normalized_argv.splits)
  from git_here.prems(1) git_here.hyps(2) n obtain eff where
      eff: "git_effective_cwd ws cwd = Some eff" "ambient_loop segs cwd (acc @ [eff]) = Some dirs"
    by (auto simp: is_git_program_def split: option.splits)
  then have "eff \<in> set dirs" using ambient_loop_keeps by fastforce
  moreover have "place eff = d'"
    using git_cwd_scan_place [OF git_here.hyps(3) _ git_here.prems(2)] eff(1)
    by (simp add: git_effective_cwd_def drop_Suc)
  ultimately show ?case by blast
next
  case (git_after_cd raw ws t segs d d')
  have n: "normalize_for_exec_risk raw = Argv_Ready ws"
    using git_after_cd.prems(1) git_after_cd.hyps(1) exec_risk_normal_form [of raw _ ws]
    by (auto simp: normal_form_of_def split: normalized_argv.splits)
  from git_after_cd.prems(1) git_after_cd.hyps(2) n obtain next_cwd where
      "apply_literal_chdir cwd ws = Some next_cwd" "ambient_loop segs next_cwd acc = Some dirs"
    by (auto split: option.splits)
  with git_after_cd show ?case using apply_literal_chdir_place by metis
next
  case (git_after raw ws segs d d')
  have n: "normalize_for_exec_risk raw = Argv_Ready ws"
    using git_after.prems(1) git_after.hyps(1) exec_risk_normal_form [of raw _ ws]
    by (auto simp: normal_form_of_def split: normalized_argv.splits)
  from git_after.prems(1) git_after.hyps(2) n obtain acc' where "ambient_loop segs cwd acc' = Some dirs"
    by (auto simp: Let_def split: option.splits if_splits)
  with git_after show ?case by blast
qed


definition empty_git :: git_view where
  "empty_git = \<lparr>git_discover = (\<lambda>_. Repo_NotFound), open_file = (\<lambda>_. Open_NotFound),
     git_entries = (\<lambda>_. None), git_parse_bool = (\<lambda>_. None)\<rparr>"

lemma argv_ready_normal_form: "normalize_for_exec_risk raw = Argv_Ready ws \<Longrightarrow> normal_form_of raw ws"
  using exec_risk_normal_form by (simp add: normal_form_of_def)


text \<open>
  The scan takes every change of directory to succeed: after one that fails, Git runs in the
  directory before it, which is not scanned.
\<close>

definition hostile_git :: git_view where
  "hostile_git = \<lparr>git_discover = (\<lambda>d. if d = ''/w'' then Repo_Error else Repo_NotFound), open_file = (\<lambda>_. Open_NotFound),
     git_entries = (\<lambda>_. None), git_parse_bool = (\<lambda>_. None)\<rparr>"

lemma failed_cd_not_scanned:
  "ambient_exec_risk_from_plan hostile_git (ambient_scan_plan_from_segments [[''git'', ''status'']] ''/w'')"
  "\<not> ambient_exec_risk_from_plan hostile_git
     (ambient_scan_plan_from_segments [[''cd'', ''/missing''], [''git'', ''status'']] ''/w'')"
  by code_simp+

end
