(* ===== verification/Grant_Lists.thy ===== *)
theory Grant_Lists
  imports Permission_Policy Exec_Risk
begin

text \<open>
  The look-ups behind remembered grants: the domain allow-list of web fetches
  (\<open>gbuild-tools/src/implementations/gbuild/web_fetch/domain.rs\<close>) and the qualified names of MCP
  tools (\<open>gbuild-mcp/src/servers.rs\<close>, with the identifier syntax of
  \<open>xai-tool-protocol/src/ids.rs\<close>). A URL is what the url crate makes of it: a host, if it has one,
  and a path.
\<close>

section \<open>Domains\<close>

datatype host_entry = AnyPath | PathPrefixes "string list"

type_synonym domain_matcher = "string \<Rightarrow> host_entry option"

definition add_prefix :: "string \<Rightarrow> string \<Rightarrow> domain_matcher \<Rightarrow> domain_matcher" where
  "add_prefix host pre entries =
     (case entries host of
        None \<Rightarrow> entries(host \<mapsto> PathPrefixes [pre])
      | Some (PathPrefixes v) \<Rightarrow>
          entries(host \<mapsto> PathPrefixes (if pre \<in> set v then v else v @ [pre]))
      | Some AnyPath \<Rightarrow> entries)"

definition domain_step :: "'g externs \<Rightarrow> domain_matcher \<Rightarrow> string \<Rightarrow> domain_matcher" where
  "domain_step ext entries raw =
     (let normalized = normalize_domain ext raw
      in if normalized = [] then entries
         else case find_char CHR ''/'' normalized of
                None \<Rightarrow> entries(normalized \<mapsto> AnyPath)
              | Some i \<Rightarrow>
                  let host = take i normalized; raw_path = drop i normalized
                  in if entries host = Some AnyPath then entries
                     else
                       let pre = trim_end_matches CHR ''/'' raw_path
                       in if pre = [] \<or> pre = ''/'' then entries(host \<mapsto> AnyPath)
                          else add_prefix host
                                 (if starts_with pre ''/'' then pre else ''/'' @ pre) entries)"

definition domain_matcher_new :: "'g externs \<Rightarrow> string list \<Rightarrow> domain_matcher" where
  "domain_matcher_new ext raw_entries = foldl (domain_step ext) (\<lambda>_. None) raw_entries"

record url =
  host_str :: "string option"
  url_path :: string

definition prefix_covers :: "string \<Rightarrow> string \<Rightarrow> bool" where
  "prefix_covers path pre \<longleftrightarrow>
     path = pre \<or> (starts_with path pre \<and> nth_opt path (length pre) = Some CHR ''/'')"

text \<open>\<open>None\<close> permits; otherwise the answer is the domain that is not allowed.\<close>

definition domain_check :: "'g externs \<Rightarrow> domain_matcher \<Rightarrow> url \<Rightarrow> string option" where
  "domain_check ext entries u =
     (case host_str u of
        None \<Rightarrow> Some []
      | Some raw_host \<Rightarrow>
          let host = normalize_domain ext raw_host
          in case entries host of
               Some AnyPath \<Rightarrow> None
             | Some (PathPrefixes ps) \<Rightarrow>
                 if list_ex (prefix_covers (to_lowercase ext (url_path u))) ps then None
                 else Some host
             | None \<Rightarrow> Some host)"

section \<open>What an entry permits\<close>

text \<open>The host and, unless the whole host is meant, the path prefix that one entry stands for.\<close>

definition entry_meaning :: "'g externs \<Rightarrow> string \<Rightarrow> (string \<times> string option) option" where
  "entry_meaning ext raw =
     (let normalized = normalize_domain ext raw
      in if normalized = [] then None
         else case find_char CHR ''/'' normalized of
                None \<Rightarrow> Some (normalized, None)
              | Some i \<Rightarrow>
                  let pre = trim_end_matches CHR ''/'' (drop i normalized)
                  in Some (take i normalized,
                       if pre = [] \<or> pre = ''/'' then None
                       else Some (if starts_with pre ''/'' then pre else ''/'' @ pre)))"

definition entry_permits :: "'g externs \<Rightarrow> string \<Rightarrow> string \<Rightarrow> string \<Rightarrow> bool" where
  "entry_permits ext raw host path \<longleftrightarrow>
     (case entry_meaning ext raw of
        None \<Rightarrow> False
      | Some (h, None) \<Rightarrow> h = host
      | Some (h, Some pre) \<Rightarrow> h = host \<and> prefix_covers path pre)"

definition matcher_permits :: "domain_matcher \<Rightarrow> string \<Rightarrow> string \<Rightarrow> bool" where
  "matcher_permits m host path \<longleftrightarrow>
     (case m host of
        None \<Rightarrow> False
      | Some AnyPath \<Rightarrow> True
      | Some (PathPrefixes ps) \<Rightarrow> list_ex (prefix_covers path) ps)"

lemma domain_step_meaning:
  "domain_step ext m raw =
     (case entry_meaning ext raw of
        None \<Rightarrow> m
      | Some (h, None) \<Rightarrow> m(h \<mapsto> AnyPath)
      | Some (h, Some pre) \<Rightarrow> if m h = Some AnyPath then m else add_prefix h pre m)"
  unfolding domain_step_def entry_meaning_def Let_def
  by (simp add: fun_upd_idem split: option.split)

lemma add_prefix_permits:
  "m h \<noteq> Some AnyPath \<Longrightarrow> matcher_permits (add_prefix h pre m) host path \<longleftrightarrow>
     matcher_permits m host path \<or> (h = host \<and> prefix_covers path pre)"
  by (cases "m h"; cases "the (m h)") (auto simp: add_prefix_def matcher_permits_def list_ex_iff)

lemma domain_step_permits:
  "matcher_permits (domain_step ext m raw) host path \<longleftrightarrow>
     matcher_permits m host path \<or> entry_permits ext raw host path"
proof (cases "entry_meaning ext raw")
  case (Some hp)
  obtain h p where hp: "hp = (h, p)" by (cases hp)
  show ?thesis
  proof (cases p)
    case None
    then show ?thesis
      using Some hp by (simp add: domain_step_meaning entry_permits_def matcher_permits_def)
  next
    case (Some pre)
    then show ?thesis
      using \<open>entry_meaning ext raw = Some hp\<close> hp add_prefix_permits [of m h pre host path]
      by (cases "m h = Some AnyPath") (auto simp: domain_step_meaning entry_permits_def matcher_permits_def)
  qed
qed (simp add: domain_step_meaning entry_permits_def)

lemma domain_foldl_permits:
  "matcher_permits (foldl (domain_step ext) m raws) host path \<longleftrightarrow>
     matcher_permits m host path \<or> (\<exists>raw \<in> set raws. entry_permits ext raw host path)"
  by (induction raws arbitrary: m) (auto simp: domain_step_permits)

text \<open>
  An entry, read as text: its normalised form is a host, a path (empty, or with a slash at its
  start and none at its end) and slashes that do not count.
\<close>

definition entry_names :: "'g externs \<Rightarrow> string \<Rightarrow> string \<Rightarrow> string \<Rightarrow> bool" where
  "entry_names ext raw host pre \<longleftrightarrow>
     normalize_domain ext raw \<noteq> [] \<and> CHR ''/'' \<notin> set host
     \<and> (\<exists>k. normalize_domain ext raw = host @ pre @ replicate k CHR ''/'')
     \<and> (pre = [] \<or> hd pre = CHR ''/'' \<and> last pre \<noteq> CHR ''/'')"

definition at_or_below :: "string \<Rightarrow> string \<Rightarrow> bool" where
  "at_or_below path pre \<longleftrightarrow> path = pre \<or> (\<exists>rest. path = pre @ ''/'' @ rest)"

lemma prefix_covers_below: "prefix_covers path pre \<longleftrightarrow> at_or_below path pre"
proof -
  have "starts_with path pre \<and> nth_opt path (length pre) = Some CHR ''/'' \<longleftrightarrow> (\<exists>rest. path = pre @ ''/'' @ rest)"
    by (auto simp: starts_with_def prefix_def nth_opt_def neq_Nil_conv)
  then show ?thesis unfolding prefix_covers_def at_or_below_def by blast
qed

lemma find_char_None: "find_char c s = None \<longleftrightarrow> c \<notin> set s"
  by (induction s) auto

lemma find_char_Some: "find_char c s = Some i \<Longrightarrow> c \<notin> set (take i s) \<and> (\<exists>t. drop i s = c # t)"
  by (induction s arbitrary: i) (auto split: if_splits)

lemma find_char_first: "c \<notin> set h \<Longrightarrow> find_char c (h @ c # t) = Some (length h)"
  by (induction h) auto

lemma trim_end_matches_parts:
  "\<exists>k. s = trim_end_matches c s @ replicate k c"
  "trim_end_matches c s = [] \<or> last (trim_end_matches c s) \<noteq> c"
proof -
  have "\<exists>k. r = replicate k c @ dropWhile (\<lambda>x. x = c) r" for r
    by (metis (mono_tags, lifting) replicate_length_same set_takeWhileD takeWhile_dropWhile_id)
  from this [of "rev s"] show "\<exists>k. s = trim_end_matches c s @ replicate k c"
    unfolding trim_end_matches_def by (metis rev_append rev_replicate rev_swap)
  show "trim_end_matches c s = [] \<or> last (trim_end_matches c s) \<noteq> c"
    using hd_dropWhile [of "\<lambda>x. x = c" "rev s"] by (auto simp: trim_end_matches_def last_rev)
qed

lemma trim_end_matches_replicate: "p = [] \<or> last p \<noteq> c \<Longrightarrow> trim_end_matches c (p @ replicate k c) = p"
  by (cases p rule: rev_cases) (auto simp: trim_end_matches_def dropWhile_append)

lemma entry_names_meaning:
  "entry_names ext raw host pre \<longleftrightarrow> entry_meaning ext raw = Some (host, if pre = [] then None else Some pre)
     \<and> (pre = [] \<or> hd pre = CHR ''/'' \<and> last pre \<noteq> CHR ''/'')"
  (is "?l \<longleftrightarrow> ?r")
proof
  let ?n = "normalize_domain ext raw"
  assume l: ?l
  then obtain k where n: "?n \<noteq> []" "CHR ''/'' \<notin> set host" "?n = host @ pre @ replicate k CHR ''/''"
    and pre: "pre = [] \<or> hd pre = CHR ''/'' \<and> last pre \<noteq> CHR ''/''" unfolding entry_names_def by blast
  show ?r
  proof (cases "pre @ replicate k CHR ''/''")
    case Nil
    with n show ?thesis by (simp add: entry_meaning_def find_char_None [THEN iffD2])
  next
    case (Cons x t)
    with pre have x: "x = CHR ''/''" by (cases pre; cases k) auto
    then have "find_char CHR ''/'' ?n = Some (length host)" using n Cons find_char_first [of "CHR ''/''" host t] by simp
    moreover have "trim_end_matches CHR ''/'' (drop (length host) ?n) = pre"
      using n pre trim_end_matches_replicate [of pre "CHR ''/''" k] by auto
    moreover have "starts_with pre ''/'' \<and> pre \<noteq> ''/''" if "pre \<noteq> []"
      using pre that by (cases pre) (auto simp: starts_with_def)
    ultimately show ?thesis using n pre by (auto simp: entry_meaning_def Let_def)
  qed
next
  let ?n = "normalize_domain ext raw"
  assume r: ?r
  then have ne: "?n \<noteq> []" by (auto simp: entry_meaning_def Let_def split: if_splits)
  show ?l
  proof (cases "find_char CHR ''/'' ?n")
    case None
    with r ne have "host = ?n" "pre = []" by (auto simp: entry_meaning_def Let_def split: if_splits)
    with None ne show ?thesis by (auto simp: entry_names_def find_char_None intro: exI [of _ 0])
  next
    case (Some i)
    obtain t where t: "CHR ''/'' \<notin> set (take i ?n)" "drop i ?n = CHR ''/'' # t" using find_char_Some [OF Some] by blast
    let ?p = "trim_end_matches CHR ''/'' (drop i ?n)"
    obtain k where k: "drop i ?n = ?p @ replicate k CHR ''/''" using trim_end_matches_parts(1) by blast
    have p: "?p = [] \<or> last ?p \<noteq> CHR ''/''" by (rule trim_end_matches_parts(2))
    have "?p = [] \<or> starts_with ?p ''/''" using k t(2) by (cases ?p) (auto simp: starts_with_def)
    with r ne Some p have "host = take i ?n" "pre = ?p"
      by (auto simp: entry_meaning_def Let_def split: if_splits)
    with k t(1) ne r show ?thesis unfolding entry_names_def by (metis append_take_drop_id)
  qed
qed

lemma entry_meaning_prefix:
  assumes "entry_meaning ext raw = Some (h, Some pre)"
  shows "pre \<noteq> [] \<and> hd pre = CHR ''/'' \<and> last pre \<noteq> CHR ''/''"
proof -
  let ?n = "normalize_domain ext raw"
  obtain i where i: "find_char CHR ''/'' ?n = Some i"
    using assms by (auto simp: entry_meaning_def Let_def split: if_splits option.splits)
  obtain t where t: "drop i ?n = CHR ''/'' # t" using find_char_Some [OF i] by blast
  let ?p = "trim_end_matches CHR ''/'' (drop i ?n)"
  obtain k where k: "drop i ?n = ?p @ replicate k CHR ''/''" using trim_end_matches_parts(1) by blast
  have "?p = [] \<or> (hd ?p = CHR ''/'' \<and> starts_with ?p ''/'')" using k t by (cases ?p) (auto simp: starts_with_def)
  moreover have "?p = [] \<or> last ?p \<noteq> CHR ''/''" by (rule trim_end_matches_parts(2))
  ultimately show ?thesis using assms i by (auto simp: entry_meaning_def Let_def split: if_splits)
qed

lemma entry_permits_names:
  "entry_permits ext raw host path \<longleftrightarrow>
     (\<exists>pre. entry_names ext raw host pre \<and> (pre = [] \<or> at_or_below path pre))"
proof (cases "entry_meaning ext raw")
  case (Some hp)
  then show ?thesis
    using entry_meaning_prefix [of ext raw]
    by (cases hp; cases "snd hp") (auto simp: entry_permits_def entry_names_meaning prefix_covers_below split: if_splits)
qed (simp add: entry_permits_def entry_names_meaning)


section \<open>Qualified MCP names\<close>

definition is_id_char :: "char \<Rightarrow> bool" where
  "is_id_char c \<longleftrightarrow> is_ascii_alphanumeric c \<or> c = CHR ''_'' \<or> c = CHR ''-''"

definition is_valid_segment :: "string \<Rightarrow> bool" where
  "is_valid_segment s \<longleftrightarrow> s \<noteq> [] \<and> list_all is_id_char s"

text \<open>\<open>splitn(3, ':')\<close> and the pieces it must have.\<close>

definition is_well_formed_tool_id :: "string \<Rightarrow> bool" where
  "is_well_formed_tool_id s =
     (case split_char CHR '':'' s of
        [first] \<Rightarrow> is_valid_segment first
      | [first, second] \<Rightarrow> is_valid_segment first \<and> is_valid_segment second
      | _ \<Rightarrow> False)"

definition tool_id_new :: "string \<Rightarrow> string option" where
  "tool_id_new s = (if s \<noteq> [] \<and> is_well_formed_tool_id s then Some s else None)"

definition delimiter_boundaries :: "string \<Rightarrow> nat list" where
  "delimiter_boundaries name = filter (\<lambda>i. take 2 (drop i name) = ''__'') [0..<length name - 1]"

definition parse_mcp_qualified_name :: "string \<Rightarrow> (string \<times> string \<times> string) option" where
  "parse_mcp_qualified_name name =
     (case delimiter_boundaries name of
        [boundary] \<Rightarrow>
          let server = take boundary name; tool_part = drop (boundary + 2) name
          in if server = [] \<or> tool_part = [] then None
             else map_option (\<lambda>i. (i, server, tool_part)) (tool_id_new name)
      | _ \<Rightarrow> None)"

definition mcp_server_prefix_allowed :: "string \<Rightarrow> string set \<Rightarrow> bool" where
  "mcp_server_prefix_allowed name servers \<longleftrightarrow>
     servers \<noteq> {}
     \<and> (case parse_mcp_qualified_name name of
          Some (_, server, _) \<Rightarrow> server \<in> servers
        | None \<Rightarrow> False)"

lemma boundary_split:
  "i \<in> set (delimiter_boundaries name) \<longleftrightarrow> (\<exists>s t. name = s @ ''__'' @ t \<and> length s = i)"
proof
  assume "i \<in> set (delimiter_boundaries name)"
  then have "i < length name - 1" "take 2 (drop i name) = ''__''"
    by (auto simp: delimiter_boundaries_def)
  then show "\<exists>s t. name = s @ ''__'' @ t \<and> length s = i"
  proof -
    assume "i < length name - 1" and d: "take 2 (drop i name) = ''__''"
    have "name = take i name @ take 2 (drop i name) @ drop 2 (drop i name)"
      by (simp only: append_take_drop_id)
    then show ?thesis
      unfolding d using \<open>i < length name - 1\<close>
      by (intro exI [of _ "take i name"] exI [of _ "drop 2 (drop i name)"]) simp
  qed
qed (auto simp: delimiter_boundaries_def)

lemma singleton_list: "distinct xs \<Longrightarrow> set xs = {x} \<Longrightarrow> xs = [x]"
  by (cases xs; cases "tl xs") auto

lemma delimiter_boundaries_distinct: "distinct (delimiter_boundaries name)"
  by (simp add: delimiter_boundaries_def)

lemma parse_mcp_Some:
  "parse_mcp_qualified_name name = Some (i, server, tool_part) \<longleftrightarrow>
     (\<exists>b. delimiter_boundaries name = [b] \<and> take b name = server \<and> drop (b + 2) name = tool_part
        \<and> server \<noteq> [] \<and> tool_part \<noteq> [] \<and> tool_id_new name = Some i)"
proof (cases "delimiter_boundaries name")
  case (Cons b bs)
  then show ?thesis
    by (cases bs) (auto simp: parse_mcp_qualified_name_def Let_def)
qed (simp add: parse_mcp_qualified_name_def)

lemma boundary_parts:
  assumes "b \<in> set (delimiter_boundaries name)"
  shows "name = take b name @ ''__'' @ drop (b + 2) name"
proof -
  from assms obtain s t where "name = s @ ''__'' @ t" "length s = b"
    unfolding boundary_split by blast
  then show ?thesis by auto
qed

text \<open>
  C24. A server-wide MCP grant cannot be stretched: a name is read as a tool of a server exactly
  when it is a well-formed identifier that consists of the server's name, two underscores and the
  tool's name, neither part is empty, and two underscores occur at no other place of the name; so
  a tool name is attributed to at most one server.
\<close>

theorem mcp_name_unambiguous:
  "(\<exists>i. parse_mcp_qualified_name name = Some (i, server, tool_part)) \<longleftrightarrow>
     is_well_formed_tool_id name \<and> server \<noteq> [] \<and> tool_part \<noteq> []
     \<and> name = server @ ''__'' @ tool_part
     \<and> (\<forall>s t. name = s @ ''__'' @ t \<longrightarrow> s = server)"
proof
  assume "\<exists>i. parse_mcp_qualified_name name = Some (i, server, tool_part)"
  then obtain b i where b: "delimiter_boundaries name = [b]"
    and s: "take b name = server" and t: "drop (b + 2) name = tool_part"
    and ne: "server \<noteq> []" "tool_part \<noteq> []" and i: "tool_id_new name = Some i"
    unfolding parse_mcp_Some by blast
  from i have wf: "is_well_formed_tool_id name" by (simp add: tool_id_new_def split: if_splits)
  have name: "name = server @ ''__'' @ tool_part"
    using boundary_parts [of b name] unfolding s t b by simp
  have "s'' = server" if "name = s'' @ ''__'' @ t''" for s'' t''
  proof -
    have "length s'' \<in> set (delimiter_boundaries name)" using that unfolding boundary_split by blast
    then have "length s'' = b" by (simp add: b)
    then have "take b name = s''" unfolding that by simp
    with s show ?thesis by simp
  qed
  with name ne wf show "is_well_formed_tool_id name \<and> server \<noteq> [] \<and> tool_part \<noteq> []
     \<and> name = server @ ''__'' @ tool_part \<and> (\<forall>s t. name = s @ ''__'' @ t \<longrightarrow> s = server)"
    by blast
next
  assume a: "is_well_formed_tool_id name \<and> server \<noteq> [] \<and> tool_part \<noteq> []
     \<and> name = server @ ''__'' @ tool_part \<and> (\<forall>s t. name = s @ ''__'' @ t \<longrightarrow> s = server)"
  then have "set (delimiter_boundaries name) = {length server}"
  proof -
    have "length server \<in> set (delimiter_boundaries name)"
      unfolding boundary_split using a by blast
    moreover have "i = length server" if "i \<in> set (delimiter_boundaries name)" for i
      using that a unfolding boundary_split by blast
    ultimately show ?thesis by blast
  qed
  then have "delimiter_boundaries name = [length server]"
    by (rule singleton_list [OF delimiter_boundaries_distinct])
  moreover have n: "name = server @ ''__'' @ tool_part" using a by blast
  moreover have "take (length server) name = server" unfolding n by simp
  moreover have "drop (length server + 2) name = tool_part" unfolding n by simp
  moreover have "tool_id_new name = Some name"
    using a unfolding tool_id_new_def n by simp
  ultimately show "\<exists>i. parse_mcp_qualified_name name = Some (i, server, tool_part)"
    using a unfolding parse_mcp_Some by blast
qed

theorem mcp_name_unambiguous_witness:
  "\<exists>i. parse_mcp_qualified_name ''linear__list_issues'' = Some (i, ''linear'', ''list_issues'')"
proof -
  have "parse_mcp_qualified_name ''linear__list_issues'' = Some (''linear__list_issues'', ''linear'', ''list_issues'')"
    by code_simp
  then show ?thesis using mcp_name_unambiguous by blast
qed

end
