(* ===== verification/Bash_Evaluation.thy ===== *)
theory Bash_Evaluation
  imports Auto_Mode Grant_Lists
begin

text \<open>
  The evaluation of a Bash request against the session's grants and the built-in lists
  (\<open>gbuild-workspace/src/permission/manager.rs\<close>, state in \<open>state.rs\<close>): per segment the disallowed
  and allowed prefixes, the dangerous commands and the safe lists, and per script the floors
  (file writes, environment, opaque shells, execution risk) that a grant must not override. A
  \<open>HashSet\<close> of the state is the list of its elements in iteration order.
\<close>

section \<open>The permission state\<close>

record permission_state =
  edit_policy_of :: edit_policy
  allow_bash_execute :: bool
  allowed_bash_commands :: "string list"
  disallowed_bash_commands :: "string list"
  allowed_web_fetch_domains :: "string list"
  allowed_mcp_tools :: "string list"
  allowed_mcp_servers :: "string list"
  validated_mcp_server_grants_version :: int

definition VALIDATED_MCP_SERVER_GRANTS_VERSION :: int where
  "VALIDATED_MCP_SERVER_GRANTS_VERSION = 1"

definition permission_state_default :: permission_state where
  "permission_state_default =
     \<lparr>edit_policy_of = Edit_Ask, allow_bash_execute = False, allowed_bash_commands = [],
      disallowed_bash_commands = [], allowed_web_fetch_domains = [], allowed_mcp_tools = [],
      allowed_mcp_servers = [],
      validated_mcp_server_grants_version = VALIDATED_MCP_SERVER_GRANTS_VERSION\<rparr>"

text \<open>What a stored version marker is read as: a negative or malformed one is legacy.\<close>

definition deserialize_mcp_server_grants_version :: "int option \<Rightarrow> int" where
  "deserialize_mcp_server_grants_version v =
     (case v of Some version \<Rightarrow> if version \<ge> 0 then version else 0 | None \<Rightarrow> 0)"

text \<open>Loading drops the server-wide grants of a legacy state.\<close>

definition migrate_state :: "permission_state \<Rightarrow> permission_state" where
  "migrate_state st =
     (if validated_mcp_server_grants_version st < VALIDATED_MCP_SERVER_GRANTS_VERSION
      then st\<lparr>allowed_mcp_servers := [],
              validated_mcp_server_grants_version := VALIDATED_MCP_SERVER_GRANTS_VERSION\<rparr>
      else st)"

definition sanitize_client_id :: "string \<Rightarrow> string" where
  "sanitize_client_id ident =
     concat (map (\<lambda>c. if (case c of [b] \<Rightarrow> is_id_char b | _ \<Rightarrow> False) then c else ''_'') (chars ident))"

definition state_file_path :: "string \<Rightarrow> string option \<Rightarrow> string" where
  "state_file_path dir client_identifier =
     path_join dir (case client_identifier of
       Some i \<Rightarrow> ''permission_'' @ sanitize_client_id i @ ''.toml''
     | None \<Rightarrow> ''permission.toml'')"

section \<open>Commands by name\<close>

definition rg_has_pre_flag :: "string list \<Rightarrow> bool" where
  "rg_has_pre_flag ws \<longleftrightarrow>
     nth_opt ws 0 = Some ''rg'' \<and> list_ex (\<lambda>w. w = ''--pre'' \<or> starts_with w ''--pre='') ws"

definition kubectl_has_unsafe_flag :: "string list \<Rightarrow> bool" where
  "kubectl_has_unsafe_flag ws \<longleftrightarrow>
     nth_opt ws 0 = Some ''kubectl''
     \<and> list_ex (\<lambda>w. before_equals w \<in> set KUBECTL_UNSAFE_FLAGS) (drop 1 ws)"

definition PS_VALUE_FLAGS :: "string list" where
  "PS_VALUE_FLAGS =
     [''-o'', ''-O'', ''--format'', ''--sort'', ''-p'', ''-q'', ''-t'', ''-u'', ''-U'', ''-g'', ''-G'', ''-C'',
      ''-s'', ''--pid'', ''--ppid'', ''--sid'', ''--tty'', ''--user'', ''--group'', ''--cols'', ''--columns'',
      ''--width'', ''o'', ''O'']"

definition ps_word_dumps :: "string \<Rightarrow> bool" where
  "ps_word_dumps s \<longleftrightarrow>
     CHR ''E'' \<in> set s
     \<or> (CHR ''e'' \<in> set s
        \<and> (\<not> starts_with s ''-''
           \<or> (starts_with s ''-'' \<and> \<not> starts_with s ''--'' \<and> (CHR ''a'' \<in> set s \<or> CHR ''x'' \<in> set s))))"

fun ps_scan :: "string list \<Rightarrow> bool \<Rightarrow> bool" where
  "ps_scan [] skip_next = False"
| "ps_scan (s # ws) skip_next =
     (if skip_next then ps_scan ws False
      else if starts_with s ''--format='' \<or> starts_with s ''--sort='' then ps_scan ws False
      else if s \<in> set PS_VALUE_FLAGS then ps_scan ws True
      else if starts_with s ''-o'' \<or> starts_with s ''-O'' then ps_scan ws False
      else if ps_word_dumps s then True
      else ps_scan ws
        (starts_with s ''-'' \<and> \<not> starts_with s ''--'' \<and> (ends_with s ''o'' \<or> ends_with s ''O'')))"

definition ps_dumps_environment :: "string list \<Rightarrow> bool" where
  "ps_dumps_environment ws \<longleftrightarrow> nth_opt ws 0 = Some ''ps'' \<and> ps_scan (drop 1 ws) False"

definition SAFE_COMMANDS :: "string list" where
  "SAFE_COMMANDS =
     [''ls'', ''cat'', ''pwd'', ''date'', ''git status'', ''git branch'', ''git log'', ''git diff'',
      ''git ls-files'', ''git show'', ''git rev-parse'', ''whoami'', ''hostname'', ''uptime'', ''grep'',
      ''rg'', ''kubectl get'', ''kubectl logs'', ''kubectl describe'', ''ps'', ''bin/explorer ls'',
      ''head'', ''tail'', ''wc'', ''sort'', ''uniq'', ''tr'', ''cut'']"

definition is_safe_command_words_str :: "string \<Rightarrow> bool" where
  "is_safe_command_words_str cmd = list_ex (matches_command_prefix cmd) SAFE_COMMANDS"

definition has_unsafe_variant :: "string list \<Rightarrow> bool" where
  "has_unsafe_variant ws \<longleftrightarrow>
     rg_has_pre_flag ws \<or> kubectl_has_unsafe_flag ws \<or> ps_dumps_environment ws"

definition is_safe_command_words :: "string list \<Rightarrow> bool" where
  "is_safe_command_words ws \<longleftrightarrow>
     ws \<noteq> [] \<and> \<not> has_unsafe_variant ws \<and> is_safe_command_words_str (join '' '' ws)"

definition ALWAYS_SAFE_COMMANDS :: "string list" where
  "ALWAYS_SAFE_COMMANDS =
     [''ls'', ''cat'', ''pwd'', ''date'', ''whoami'', ''hostname'', ''uptime'', ''ps'', ''git status'',
      ''git branch'', ''git log'', ''git diff'', ''git ls-files'', ''git show'', ''git rev-parse'',
      ''grep'', ''rg'', ''kubectl get'', ''kubectl logs'', ''kubectl describe'', ''bin/explorer ls'']"

definition is_always_safe_command_words :: "string list \<Rightarrow> bool" where
  "is_always_safe_command_words ws \<longleftrightarrow>
     ws \<noteq> [] \<and> \<not> has_unsafe_variant ws
     \<and> list_ex (matches_command_prefix (join '' '' ws)) ALWAYS_SAFE_COMMANDS"

fun scope_flags :: "string list \<Rightarrow> nat" where
  "scope_flags [] = 0"
| "scope_flags (w # ws) = (if starts_with w ''-'' then Suc (scope_flags ws) else 0)"

definition default_always_allow_scope :: "string list \<Rightarrow> nat" where
  "default_always_allow_scope ws =
     (if ws = [] then 0
      else if is_safe_command_words ws \<and> is_safe_command_words_str (hd ws) then 1
      else if is_safe_command_words ws \<and> length ws \<ge> 2
              \<and> is_safe_command_words_str (join '' '' (take 2 ws)) then 2
      else let n = min (length ws) 2 in n + scope_flags (drop n ws))"

definition DANGEROUS_COMMANDS :: "string list" where
  "DANGEROUS_COMMANDS =
     [''rm'', ''chmod'', ''chown'', ''chgrp'', ''chattr'', ''pkill'', ''kill'', ''killall'', ''git push'']"

definition is_dangerous_command_words :: "string list \<Rightarrow> bool" where
  "is_dangerous_command_words ws \<longleftrightarrow>
     ws \<noteq> [] \<and> list_ex (matches_command_prefix (join '' '' ws)) DANGEROUS_COMMANDS"

section \<open>Evaluating a script\<close>

datatype segment_evaluation =
    AutoAllow bool
  | Seg_Reject string
  | NeedsPrompts "string list" bool
  | Unparseable

record bash_evaluation =
  be_segments :: segment_evaluation
  writes_real_file :: bool
  be_env_risk :: env_risk
  exact_grant :: bool
  all_segments_granted :: bool
  has_opaque_shell :: bool
  be_exec_risk :: bool
  ambient_segments :: "string list list option"

definition unparseable_exec_risk :: "string \<Rightarrow> bool" where
  "unparseable_exec_risk cmd = script_may_invoke_git cmd"

text \<open>The variables of the loop over segments.\<close>

record bash_acc =
  needs_prompt :: "string list"
  any_dangerous :: bool
  via_session_grant :: bool
  acc_all_granted :: bool
  acc_opaque :: bool
  acc_exec_risk :: bool
  acc_has_git :: bool
  ambient_raw :: "string list list"

definition bash_acc_init :: bash_acc where
  "bash_acc_init =
     \<lparr>needs_prompt = [], any_dangerous = False, via_session_grant = False, acc_all_granted = True,
      acc_opaque = False, acc_exec_risk = False, acc_has_git = False, ambient_raw = []\<rparr>"

text \<open>What every segment adds, before it is judged.\<close>

definition note_segment :: "string list \<Rightarrow> bash_acc \<Rightarrow> bash_acc" where
  "note_segment raw_words acc =
     (let ws = unwrap_wrappers raw_words; facts = segment_exec_facts raw_words
      in acc\<lparr>ambient_raw := ambient_raw acc @ [raw_words],
             acc_opaque := acc_opaque acc \<or> words_are_opaque_shell (map Literal ws),
             acc_exec_risk := acc_exec_risk acc \<or> sf_exec_risk facts,
             acc_has_git := acc_has_git acc \<or> sf_has_git facts\<rparr>)"

text \<open>\<open>Inl\<close> rejects the whole script.\<close>

definition judge_segment ::
  "permission_state \<Rightarrow> bool \<Rightarrow> string list \<Rightarrow> bash_acc \<Rightarrow> string + bash_acc" where
  "judge_segment st honor_safe_lists ws acc =
     (if is_setup_command ws then Inr acc
      else
        let s = join '' '' ws
        in case find (matches_command_prefix s) (disallowed_bash_commands st) of
             Some d \<Rightarrow>
               Inl (''User previously rejected '' @ [backtick] @ d @ [backtick] @ '' for this session'')
           | None \<Rightarrow>
               let matched_grant = list_ex (matches_command_prefix s) (allowed_bash_commands st);
                   acc = acc\<lparr>acc_all_granted := acc_all_granted acc \<and> matched_grant\<rparr>
               in Inr
                 (if is_dangerous_command_words ws then
                    acc\<lparr>any_dangerous := True, needs_prompt := needs_prompt acc @ [s]\<rparr>
                  else if has_unsafe_variant ws \<and> s \<notin> set (allowed_bash_commands st) then
                    acc\<lparr>needs_prompt := needs_prompt acc @ [s]\<rparr>
                  else if matched_grant then acc\<lparr>via_session_grant := True\<rparr>
                  else if honor_safe_lists
                          \<and> (is_safe_command_words ws \<or> is_always_safe_command_words ws) then acc
                  else acc\<lparr>needs_prompt := needs_prompt acc @ [s]\<rparr>))"

fun segments_loop ::
  "permission_state \<Rightarrow> bool \<Rightarrow> plain_command list \<Rightarrow> bash_acc \<Rightarrow> string \<times> bash_acc + bash_acc" where
  "segments_loop st honor [] acc = Inr acc"
| "segments_loop st honor (parsed # segs) acc =
     (let acc = note_segment (words parsed) acc
      in case judge_segment st honor (unwrap_wrappers (words parsed)) acc of
           Inl reason \<Rightarrow> Inl (reason, acc)
         | Inr acc' \<Rightarrow> segments_loop st honor segs acc')"

definition evaluate_bash ::
  "'g externs \<Rightarrow> string \<Rightarrow> permission_state \<Rightarrow> bool \<Rightarrow> bash_evaluation" where
  "evaluate_bash ext cmd st honor_safe_lists =
     (let granted = (cmd \<in> set (allowed_bash_commands st))
      in case parse_shell ext cmd of
           None \<Rightarrow>
             \<lparr>be_segments = Unparseable, writes_real_file = False, be_env_risk = Env_Safe,
              exact_grant = granted, all_segments_granted = False, has_opaque_shell = False,
              be_exec_risk = unparseable_exec_risk cmd, ambient_segments = None\<rparr>
         | Some tree \<Rightarrow>
             let wr = list_ex (\<lambda>path. \<not> is_safe_write_sink path) (command_write_paths_in_tree tree cmd);
                 segs = try_parse_word_only_commands_sequence tree cmd;
                 risk = script_env_risk tree cmd (case segs of Some s \<Rightarrow> s | None \<Rightarrow> [])
             in case segs of
                  None \<Rightarrow>
                    \<lparr>be_segments = Unparseable, writes_real_file = wr, be_env_risk = risk,
                     exact_grant = granted, all_segments_granted = False,
                     has_opaque_shell = tree_has_opaque_shell tree cmd,
                     be_exec_risk = unparseable_exec_risk cmd, ambient_segments = None\<rparr>
                | Some segments \<Rightarrow>
                    (case segments_loop st honor_safe_lists segments bash_acc_init of
                       Inl (reason, acc) \<Rightarrow>
                         \<lparr>be_segments = Seg_Reject reason, writes_real_file = wr, be_env_risk = risk,
                          exact_grant = granted, all_segments_granted = acc_all_granted acc,
                          has_opaque_shell = acc_opaque acc, be_exec_risk = acc_exec_risk acc,
                          ambient_segments = None\<rparr>
                     | Inr acc \<Rightarrow>
                         \<lparr>be_segments = (if needs_prompt acc = [] then AutoAllow (via_session_grant acc)
                            else NeedsPrompts (needs_prompt acc) (any_dangerous acc)),
                          writes_real_file = wr, be_env_risk = risk, exact_grant = granted,
                          all_segments_granted = acc_all_granted acc,
                          has_opaque_shell = acc_opaque acc, be_exec_risk = acc_exec_risk acc,
                          ambient_segments = (if acc_has_git acc \<and> \<not> acc_exec_risk acc
                            then Some (ambient_raw acc) else None)\<rparr>))"

end
