(* ===== verification/Policy_Evaluate.thy ===== *)
theory Policy_Evaluate
  imports Permission_Policy
begin

text \<open>
  What \<open>CompiledPolicy::evaluate\<close> decides: the specification in terms of the set of matching
  rules, the independence of the rules' order, the effect of adding rules, white-space
  insensitivity, and the conjunctive reading of Bash allow rules.
\<close>

section \<open>The rules that match an access\<close>

definition matched ::
  "'g externs \<Rightarrow> 'g compiled_policy \<Rightarrow> access_kind \<Rightarrow> rule_action \<Rightarrow> bool" where
  "matched ext p access act \<longleftrightarrow>
     list_ex (\<lambda>rm. rule_matches ext access rm \<and> action (fst rm) = act)
       (zip (rules (config p)) (matchers p))"

lemma scan_rules_Inl:
  "scan_rules ext a rms x y = Inl d \<Longrightarrow>
     (\<exists>r. d = Reject r) \<and> list_ex (\<lambda>rm. rule_matches ext a rm \<and> action (fst rm) = Act_Deny) rms"
  by (induction rms arbitrary: x y) (auto split: if_splits rule_action.splits)

lemma scan_rules_Inr:
  "scan_rules ext a rms x y = Inr (x', y') \<Longrightarrow>
     \<not> list_ex (\<lambda>rm. rule_matches ext a rm \<and> action (fst rm) = Act_Deny) rms
     \<and> x' = (x \<or> list_ex (\<lambda>rm. rule_matches ext a rm \<and> action (fst rm) = Act_Ask) rms)
     \<and> y' = (y \<or> list_ex (\<lambda>rm. rule_matches ext a rm \<and> action (fst rm) = Act_Allow) rms)"
proof (induction rms arbitrary: x y)
  case (Cons rm rms)
  then show ?case by (cases "action (fst rm)") (auto split: if_splits)
qed simp

definition allow_branch :: "'g externs \<Rightarrow> 'g compiled_policy \<Rightarrow> access_kind \<Rightarrow> bool" where
  "allow_branch ext p access =
     (case access of
        Access_Bash cmd \<Rightarrow>
          has_bash_allow_rules p \<and> bash_chain_fully_allowed ext p MAX_INLINE_SHELL_DEPTH cmd
      | _ \<Rightarrow> matched ext p access Act_Allow)"

lemma evaluate_cases:
  "if matched ext p a Act_Deny then \<exists>r. evaluate ext p a = Some (Reject r)
   else if matched ext p a Act_Ask then evaluate ext p a = Some Ask
   else evaluate ext p a = (if allow_branch ext p a then Some Allow else None)"
proof -
  let ?rms = "zip (rules (config p)) (matchers p)"
  show ?thesis
  proof (cases "scan_rules ext a ?rms False False")
    case (Inl d)
    with scan_rules_Inl [OF Inl] show ?thesis by (auto simp: evaluate_def matched_def)
  next
    case (Inr xy)
    obtain x y where xy: "xy = (x, y)" by (cases xy)
    with scan_rules_Inr [of ext a ?rms False False x y] Inr
    have "\<not> matched ext p a Act_Deny" "x = matched ext p a Act_Ask" "y = matched ext p a Act_Allow"
      by (auto simp: matched_def)
    with Inr xy show ?thesis
      by (cases a) (auto simp: evaluate_def allow_branch_def)
  qed
qed

text \<open>How strict an answer is: allow, no opinion, ask, reject.\<close>

fun strictness :: "decision option \<Rightarrow> nat" where
  "strictness (Some Allow) = 0"
| "strictness None = 1"
| "strictness (Some Ask) = 2"
| "strictness (Some _) = 3"

lemma strictness_evaluate:
  "strictness (evaluate ext p a) =
     (if matched ext p a Act_Deny then 3 else if matched ext p a Act_Ask then 2
      else if allow_branch ext p a then 0 else 1)"
proof (cases "matched ext p a Act_Deny")
  case True
  with evaluate_cases [of ext p a] obtain r where "evaluate ext p a = Some (Reject r)" by auto
  with True show ?thesis by simp
next
  case False
  then show ?thesis using evaluate_cases [of ext p a] by (auto split: if_splits)
qed

section \<open>Compiled policies see the set of rules\<close>

lemma zip_matchers:
  "zip (rules (config (compiled_policy_new ext c))) (matchers (compiled_policy_new ext c)) =
     map (\<lambda>r. (r, compile_matcher ext r)) (rules c)"
  by (simp add: compiled_policy_new_def zip_map2 zip_same_conv_map)

lemma matched_compiled:
  "matched ext (compiled_policy_new ext c) a act \<longleftrightarrow>
     (\<exists>r \<in> set (rules c). rule_matches ext a (r, compile_matcher ext r) \<and> action r = act)"
  by (auto simp: matched_def zip_matchers list_ex_iff)

lemma bash_words_allowed_compiled:
  "bash_words_allowed ext (compiled_policy_new ext c) ws \<longleftrightarrow>
     ws \<noteq> [] \<and> (\<exists>r \<in> set (rules c). action r = Act_Allow \<and> tool r \<in> {Filter_Bash, Filter_Any}
       \<and> bash_allow_pattern_matches ext (join '' '' ws) r (compile_matcher ext r))"
  by (auto simp: bash_words_allowed_def zip_matchers list_ex_iff)

definition allow_rules :: "permission_config \<Rightarrow> permission_rule set" where
  "allow_rules c = {r \<in> set (rules c). action r = Act_Allow}"

lemma bash_chain_cong:
  assumes "bash_words_allowed ext p = bash_words_allowed ext q"
  shows "bash_chain_fully_allowed ext p d cmd = bash_chain_fully_allowed ext q d cmd"
proof (induction d arbitrary: cmd)
  case 0
  show ?case
    by (simp add: bash_chain_fully_allowed.simps [of ext p 0]
        bash_chain_fully_allowed.simps [of ext q 0] assms
        cong: option.case_cong inline_shell_script.case_cong)
next
  case (Suc d)
  show ?case
    by (simp add: bash_chain_fully_allowed.simps [of ext p "Suc d"]
        bash_chain_fully_allowed.simps [of ext q "Suc d"] assms Suc.IH
        cong: option.case_cong inline_shell_script.case_cong)
qed

lemma allow_branch_cong:
  assumes "allow_rules c = allow_rules c'"
  shows "allow_branch ext (compiled_policy_new ext c) a =
    allow_branch ext (compiled_policy_new ext c') a"
proof -
  have "bash_words_allowed ext (compiled_policy_new ext c) =
      bash_words_allowed ext (compiled_policy_new ext c')"
    using assms by (fastforce simp: bash_words_allowed_compiled allow_rules_def)
  then have chain: "bash_chain_fully_allowed ext (compiled_policy_new ext c) d cmd =
      bash_chain_fully_allowed ext (compiled_policy_new ext c') d cmd" for d cmd
    by (rule bash_chain_cong)
  have "has_bash_allow_rules (compiled_policy_new ext c) =
      has_bash_allow_rules (compiled_policy_new ext c')"
    using assms by (auto simp: compiled_policy_new_def list_ex_iff allow_rules_def)
  moreover have "matched ext (compiled_policy_new ext c) a Act_Allow =
      matched ext (compiled_policy_new ext c') a Act_Allow"
    using assms by (auto simp: matched_compiled allow_rules_def)
  ultimately show ?thesis by (cases a) (simp_all add: allow_branch_def chain)
qed

section \<open>White space in front of a command\<close>

lemma rule_matches_trim:
  assumes "trim_start w = []"
  shows "rule_matches ext (Access_Bash (w @ cmd)) rm = rule_matches ext (Access_Bash cmd) rm"
proof -
  have "tool_filter_matches (Access_Bash (w @ cmd)) f = tool_filter_matches (Access_Bash cmd) f" for f
    by (cases f) simp_all
  moreover have "pattern_matches ext (Access_Bash (w @ cmd)) r m =
      pattern_matches ext (Access_Bash cmd) r m" for r m
    using trim_start_append [OF assms, of cmd]
    by (cases "pattern r") (simp_all add: pattern_matches_def)
  ultimately show ?thesis by (simp add: rule_matches_def)
qed

lemma scan_rules_trim:
  assumes "trim_start w = []"
  shows "scan_rules ext (Access_Bash (w @ cmd)) rms x y = scan_rules ext (Access_Bash cmd) rms x y"
  by (induction rms arbitrary: x y)
    (simp_all add: rule_matches_trim [OF assms] split: rule_action.split)

section \<open>Inline scripts\<close>

text \<open>A word that announces an inline script: an option word with a \<open>c\<close> among its letters.\<close>

definition announces_c :: "shell_word \<Rightarrow> bool" where
  "announces_c sw \<longleftrightarrow>
     (case sw of Literal w \<Rightarrow> starts_with w ''-'' \<and> CHR ''c'' \<in> set (drop 1 w) | Untrusted \<Rightarrow> False)"

lemma dash_c_step_literal:
  assumes "dash_c_step dh ws i c u w = Inl (Inline_Literal k)" "i < length ws" "ws ! i = Literal w"
  shows "\<not> dh \<and> c \<and> i \<le> k \<and> k < length ws \<and> (\<exists>v. ws ! k = Literal v)"
  using assms by (auto simp: dash_c_step_def finish_literal_def ambiguous_def no_c_result_def Let_def
      split: if_splits option.splits shell_word.splits)

lemma dash_c_step_flag:
  assumes "dash_c_step dh ws i c u w = Inr (i', c', u')"
  shows "c' \<Longrightarrow> c \<or> announces_c (Literal w)"
  using assms by (auto simp: dash_c_step_def announces_c_def Let_def
      split: if_splits option.splits shell_word.splits)

lemma dash_c_loop_unfold:
  assumes "i < length ws" "ws ! i = Literal w"
  shows "dash_c_loop dh ws i c u =
    (case dash_c_step dh ws i c u w of
       Inl r \<Rightarrow> r | Inr (i', c', u') \<Rightarrow> dash_c_loop dh ws i' c' u')"
  using assms by (simp add: dash_c_loop.simps [of dh ws i c u] nth_opt_def)

lemma dash_c_loop_stop:
  assumes "length ws \<le> i \<or> ws ! i = Untrusted"
  shows "dash_c_loop dh ws i c u \<noteq> Inline_Literal k"
  using assms by (cases "i < length ws")
    (auto simp: dash_c_loop.simps [of dh ws i c u] nth_opt_def ambiguous_def no_c_result_def)

lemma dash_c_loop_literal:
  "dash_c_loop dh ws i c u = Inline_Literal k \<Longrightarrow>
     \<not> dh \<and> i \<le> k \<and> k < length ws \<and> (\<exists>v. ws ! k = Literal v)
     \<and> (c \<or> (\<exists>j. i \<le> j \<and> j < k \<and> announces_c (ws ! j)))"
proof (induction "length ws - i" arbitrary: i c u rule: less_induct)
  case less
  from dash_c_loop_stop [of ws i dh c u k] less.prems obtain w
    where i: "i < length ws" and w: "ws ! i = Literal w"
    by (cases "ws ! i") (auto simp: not_le [symmetric])
  show ?case
  proof (cases "dash_c_step dh ws i c u w")
    case (Inl r)
    with less.prems have "r = Inline_Literal k" by (simp add: dash_c_loop_unfold [OF i w])
    with dash_c_step_literal [of dh ws i c u w k] Inl i w show ?thesis by auto
  next
    case (Inr q)
    obtain i' c' u' where "q = (i', c', u')" by (cases q)
    with Inr have st: "dash_c_step dh ws i c u w = Inr (i', c', u')" by simp
    from st have lt: "i < i'" by (rule dash_c_step_continue)
    from less.prems st have "dash_c_loop dh ws i' c' u' = Inline_Literal k"
      by (simp add: dash_c_loop_unfold [OF i w])
    with less.hyps [of i' c' u'] lt i have ih: "\<not> dh \<and> i' \<le> k \<and> k < length ws
        \<and> (\<exists>v. ws ! k = Literal v) \<and> (c' \<or> (\<exists>j. i' \<le> j \<and> j < k \<and> announces_c (ws ! j)))"
      by simp
    with lt have ik: "i < k" by simp
    from ih consider "c" | "announces_c (ws ! i)" | j where "i' \<le> j" "j < k" "announces_c (ws ! j)"
      using dash_c_step_flag [OF st] w by auto
    then show ?thesis using ih lt ik by cases (auto intro: less_imp_le order_trans)
  qed
qed

section \<open>The commands a script runs, read through wrappers\<close>

text \<open>
  \<open>chain_runs ext cmd ws\<close>: \<open>ws\<close> is the normalised argv of a command that the script \<open>cmd\<close>
  runs, at the top level or inside a literal \<open>shell -c\<close> script nested to any depth.
\<close>

inductive chain_runs :: "'g externs \<Rightarrow> string \<Rightarrow> string list \<Rightarrow> bool" for ext where
  chain_top: "all_commands_from_script (parse_shell ext) cmd = Some segs \<Longrightarrow> parsed \<in> set segs \<Longrightarrow>
    chain_runs ext cmd (nc_words (normalize_command_words (words parsed)))"
| chain_inline: "all_commands_from_script (parse_shell ext) cmd = Some segs \<Longrightarrow> parsed \<in> set segs \<Longrightarrow>
    inner = nc_words (normalize_command_words (words parsed)) \<Longrightarrow>
    shell_dash_c_script (map Literal inner) = Inline_Literal i \<Longrightarrow>
    chain_runs ext (inner ! i) ws \<Longrightarrow> chain_runs ext cmd ws"

lemma chain_allowed_segment:
  assumes "bash_chain_fully_allowed ext p d cmd"
    and "all_commands_from_script (parse_shell ext) cmd = Some segs" and "parsed \<in> set segs"
  shows "peel_certain (normalize_command_words (words parsed))
    \<and> bash_words_allowed ext p (nc_words (normalize_command_words (words parsed)))"
  using assms by (auto simp: bash_chain_fully_allowed.simps [of ext p d cmd] list_all_iff Let_def
      peel_certain_def peel_flagged_def)

lemma chain_allowed_inline:
  assumes "bash_chain_fully_allowed ext p d cmd"
    and "all_commands_from_script (parse_shell ext) cmd = Some segs" and "parsed \<in> set segs"
    and "inner = nc_words (normalize_command_words (words parsed))"
    and "shell_dash_c_script (map Literal inner) = Inline_Literal i"
  obtains d' where "bash_chain_fully_allowed ext p d' (inner ! i)"
proof -
  from assms(1-3) have "case shell_dash_c_script (map Literal inner) of
      Inline_Literal index \<Rightarrow>
        (case d of 0 \<Rightarrow> False | Suc d \<Rightarrow> bash_chain_fully_allowed ext p d (inner ! index))
    | NotInline \<Rightarrow> True | _ \<Rightarrow> False"
    unfolding assms(4) by (simp add: bash_chain_fully_allowed.simps [of ext p d cmd] list_all_iff Let_def)
  with assms(5) that show thesis by (cases d) auto
qed

lemma chain_allowed_runs:
  "chain_runs ext cmd ws \<Longrightarrow> bash_chain_fully_allowed ext p d cmd \<Longrightarrow>
     bash_words_allowed ext p ws \<and> irreducible ws"
proof (induction arbitrary: d rule: chain_runs.induct)
  case (chain_top cmd segs parsed)
  then show ?case
    using chain_allowed_segment certain_irreducible by blast
next
  case (chain_inline cmd segs parsed inner i ws)
  then show ?case by (metis chain_allowed_inline)
qed

section \<open>A small environment and policy\<close>

text \<open>
  Concrete external functions for the worked examples: globs without wildcards, a grammar that
  knows one script, hosts taken as they are.
\<close>

definition sample_ext :: "string externs" where
  "sample_ext =
     \<lparr>glob_new = Some, glob_matches_with = (\<lambda>g t sep. g = t),
      parse_shell = (\<lambda>s. if s = ls_rm_src then Some ls_rm_tree else None),
      url_parse = (\<lambda>u. Some (Some u)), to_lowercase = (\<lambda>s. s)\<rparr>"

definition bash_rule :: "rule_action \<Rightarrow> string \<Rightarrow> permission_rule" where
  "bash_rule act pat =
     \<lparr>action = act, tool = Filter_Bash, pattern = Some pat, pattern_mode_of = Mode_Glob\<rparr>"

section \<open>Properties\<close>

text \<open>
  C19. The evaluation's specification: an access is rejected exactly when some deny rule matches
  it, is asked about exactly when no deny rule but some ask rule matches, and is allowed
  exactly when neither kind matches and (for Bash) every segment of the script is allowed, or
  (otherwise) some allow rule matches; in every other case the policy has no opinion.
\<close>

theorem evaluate_spec:
  "((\<exists>r. evaluate ext p a = Some (Reject r)) \<longleftrightarrow> matched ext p a Act_Deny)
   \<and> (evaluate ext p a = Some Ask \<longleftrightarrow> \<not> matched ext p a Act_Deny \<and> matched ext p a Act_Ask)
   \<and> (evaluate ext p a = Some Allow \<longleftrightarrow>
        \<not> matched ext p a Act_Deny \<and> \<not> matched ext p a Act_Ask \<and> allow_branch ext p a)
   \<and> (evaluate ext p a = None \<longleftrightarrow>
        \<not> matched ext p a Act_Deny \<and> \<not> matched ext p a Act_Ask \<and> \<not> allow_branch ext p a)"
  using evaluate_cases [of ext p a]
  by (cases "matched ext p a Act_Deny"; cases "matched ext p a Act_Ask";
      cases "allow_branch ext p a") auto

text \<open>
  Order independence: two configurations with the same set of rules, in whatever order and
  with whatever repetitions, decide every access equally strictly.
\<close>

theorem evaluate_order_independent:
  assumes "set (rules c) = set (rules c')"
  shows "strictness (evaluate ext (compiled_policy_new ext c) a) =
    strictness (evaluate ext (compiled_policy_new ext c') a)"
proof -
  have "allow_rules c = allow_rules c'" using assms by (simp add: allow_rules_def)
  note allow_branch_cong [OF this, of ext a]
  then show ?thesis
    using assms by (simp add: strictness_evaluate matched_compiled)
qed

theorem evaluate_order_independent_witness:
  "strictness (evaluate sample_ext (compiled_policy_new sample_ext
      (permission_config_new [bash_rule Act_Deny ''rm'', bash_rule Act_Ask ''rm -i''])) (Access_Bash ''rm -i x'')) =
   strictness (evaluate sample_ext (compiled_policy_new sample_ext
      (permission_config_new [bash_rule Act_Ask ''rm -i'', bash_rule Act_Deny ''rm''])) (Access_Bash ''rm -i x''))"
  by (rule evaluate_order_independent) (auto simp: permission_config_new_def)

text \<open>
  Adding restrictions never loosens: if a configuration is extended by deny and ask rules
  only, no access is decided less strictly than before.
\<close>

theorem evaluate_restriction_monotone:
  assumes "set (rules c') = set (rules c) \<union> R" and "\<And>r. r \<in> R \<Longrightarrow> is_restriction r"
  shows "strictness (evaluate ext (compiled_policy_new ext c) a) \<le>
    strictness (evaluate ext (compiled_policy_new ext c') a)"
proof -
  have "allow_rules c = allow_rules c'"
    using assms by (fastforce simp: allow_rules_def is_restriction_def)
  note allow_branch_cong [OF this, of ext a]
  then show ?thesis
    using assms(1) by (simp add: strictness_evaluate matched_compiled) blast
qed

theorem evaluate_restriction_monotone_witness:
  "strictness (evaluate sample_ext (compiled_policy_new sample_ext
      (permission_config_new [bash_rule Act_Allow ''ls''])) (Access_Bash ls_rm_src)) \<le>
   strictness (evaluate sample_ext (compiled_policy_new sample_ext
      (permission_config_new [bash_rule Act_Deny ''rm'', bash_rule Act_Allow ''ls''])) (Access_Bash ls_rm_src))"
  by (rule evaluate_restriction_monotone [where R = "{bash_rule Act_Deny ''rm''}"])
    (auto simp: permission_config_new_def is_restriction_def bash_rule_def)

text \<open>
  An allow rule never overrides a restriction: extending a configuration by allow rules
  leaves every access that is asked about or rejected exactly as strict as it was.
\<close>

theorem allow_never_overrides:
  assumes "set (rules c') = set (rules c) \<union> A" and "\<And>r. r \<in> A \<Longrightarrow> action r = Act_Allow"
    and "2 \<le> strictness (evaluate ext (compiled_policy_new ext c) a)"
  shows "strictness (evaluate ext (compiled_policy_new ext c') a) =
    strictness (evaluate ext (compiled_policy_new ext c) a)"
proof -
  have "matched ext (compiled_policy_new ext c') a act = matched ext (compiled_policy_new ext c) a act"
    if "act \<noteq> Act_Allow" for act
    using assms(1,2) that by (auto simp: matched_compiled)
  then show ?thesis
    using assms(3) by (auto simp: strictness_evaluate split: if_splits)
qed

theorem allow_never_overrides_witness:
  "strictness (evaluate sample_ext (compiled_policy_new sample_ext
      (permission_config_new [bash_rule Act_Allow ''*'', bash_rule Act_Deny ''rm''])) (Access_Bash ''rm x'')) = 3"
proof -
  let ?c = "permission_config_new [bash_rule Act_Deny ''rm'']"
  have "strictness (evaluate sample_ext (compiled_policy_new sample_ext ?c) (Access_Bash ''rm x'')) = 3"
    by code_simp
  then show ?thesis
    using allow_never_overrides [where c = ?c and ext = sample_ext and a = "Access_Bash ''rm x''"
        and c' = "permission_config_new [bash_rule Act_Allow ''*'', bash_rule Act_Deny ''rm'']"
        and A = "{bash_rule Act_Allow ''*''}"]
    by (simp add: permission_config_new_def bash_rule_def)
qed

text \<open>
  White space in front of a command cannot dodge a rule: a command line that starts with
  any Unicode white space is rejected with the same reason, and asked about, exactly like the
  command line without it.
\<close>

theorem leading_space_no_bypass:
  assumes "trim_start w = []"
  shows "(evaluate ext p (Access_Bash (w @ cmd)) = Some (Reject r) \<longleftrightarrow>
      evaluate ext p (Access_Bash cmd) = Some (Reject r))
    \<and> (evaluate ext p (Access_Bash (w @ cmd)) = Some Ask \<longleftrightarrow>
      evaluate ext p (Access_Bash cmd) = Some Ask)"
  by (simp add: evaluate_def scan_rules_trim [OF assms] split: sum.split prod.split)

theorem leading_space_no_bypass_witness:
  "evaluate sample_ext (compiled_policy_new sample_ext
     (permission_config_new [bash_rule Act_Ask ''rm''])) (Access_Bash (''   '' @ ''rm x'')) = Some Ask"
proof -
  let ?p = "compiled_policy_new sample_ext (permission_config_new [bash_rule Act_Ask ''rm''])"
  have w: "trim_start ''   '' = []" by code_simp
  have "evaluate sample_ext ?p (Access_Bash ''rm x'') = Some Ask" by code_simp
  then show ?thesis
    using leading_space_no_bypass [OF w, of sample_ext ?p "''rm x''" "[]"] by blast
qed

text \<open>
  Bash allow is conjunctive: when the policy allows a script, every command that the script
  runs (each segment of a chain, read through all its wrappers and prefixes, and each command
  inside a nested literal \<open>shell -c\<close> script) is in normal form and is itself matched by an
  allow rule of the policy.
\<close>

theorem allow_is_conjunctive:
  assumes "evaluate ext p (Access_Bash cmd) = Some Allow" and "chain_runs ext cmd ws"
  shows "bash_words_allowed ext p ws \<and> irreducible ws"
proof -
  from assms(1) evaluate_cases [of ext p "Access_Bash cmd"]
  have "allow_branch ext p (Access_Bash cmd)" by (auto split: if_splits)
  then have "bash_chain_fully_allowed ext p MAX_INLINE_SHELL_DEPTH cmd"
    by (simp add: allow_branch_def)
  with assms(2) show ?thesis by (rule chain_allowed_runs)
qed

theorem allow_is_conjunctive_witness:
  "bash_words_allowed sample_ext (compiled_policy_new sample_ext
     (permission_config_new [bash_rule Act_Allow ''ls'', bash_rule Act_Allow ''rm''])) [''rm'', ''x'']
   \<and> irreducible [''rm'', ''x'']"
proof -
  let ?p = "compiled_policy_new sample_ext
    (permission_config_new [bash_rule Act_Allow ''ls'', bash_rule Act_Allow ''rm''])"
  have a: "evaluate sample_ext ?p (Access_Bash ls_rm_src) = Some Allow" by code_simp
  have segs: "map_option (map words) (all_commands_from_script (parse_shell sample_ext) ls_rm_src) =
      Some [[''ls''], [''rm'', ''x'']]"
    by code_simp
  then obtain p1 p2 where s: "all_commands_from_script (parse_shell sample_ext) ls_rm_src = Some [p1, p2]"
    and w: "words p2 = [''rm'', ''x'']" by auto
  have n: "nc_words (normalize_command_words [''rm'', ''x'']) = [''rm'', ''x'']" by code_simp
  from chain_top [OF s, of p2] w n have "chain_runs sample_ext ls_rm_src [''rm'', ''x'']" by simp
  with a show ?thesis by (rule allow_is_conjunctive)
qed

text \<open>
  Recognising \<open>shell -c\<close>: when the classifier names word \<open>k\<close> as the inline script, the
  program is one of the five modelled shells, \<open>k\<close> is the index of a literal word of the
  command (so reading it cannot go out of range), and an option word before it carries the
  letter \<open>c\<close>.
\<close>

theorem shell_dash_c_script_literal:
  assumes "shell_dash_c_script ws = Inline_Literal k"
  shows "k < length ws \<and> (\<exists>v. ws ! k = Literal v)
    \<and> (\<exists>j. 1 \<le> j \<and> j < k \<and> announces_c (ws ! j))
    \<and> (\<exists>program. ws ! 0 = Literal program
        \<and> basename program \<in> set [''bash'', ''sh'', ''dash'', ''zsh'', ''ksh''])"
proof -
  from assms obtain program rest where ws: "ws = Literal program # rest"
    and sh: "basename program \<in> set [''bash'', ''sh'', ''dash'', ''zsh'', ''ksh'']"
    and loop: "dash_c_loop False ws 1 False False = Inline_Literal k"
    using dash_c_loop_literal [of True ws 1 False False k]
    by (auto simp: shell_dash_c_script_def split: list.splits shell_word.splits if_splits)
  from dash_c_loop_literal [OF loop] ws sh show ?thesis by auto
qed

theorem shell_dash_c_script_literal_witness:
  "\<exists>j. 1 \<le> j \<and> j < 3 \<and>
     announces_c (map Literal [''/bin/bash'', ''--norc'', ''-lc'', ''rm x''] ! j)"
proof -
  have "shell_dash_c_script (map Literal [''/bin/bash'', ''--norc'', ''-lc'', ''rm x'']) =
      Inline_Literal 3"
    by code_simp
  then show ?thesis using shell_dash_c_script_literal by blast
qed

end
