(* ===== verification/Session_Grants.thy ===== *)
theory Session_Grants
  imports Bash_Evaluation Policy_Evaluate
begin

text \<open>
  What a session's grants decide before anybody is asked
  (\<open>gbuild-workspace/src/permission/manager.rs\<close>): the floors that keep a grant from applying to a
  script with effects it did not name, the pre-decisions of Bash commands, MCP tools, web fetches
  and edits, and what the evaluation of a script says about each of its segments.
\<close>

section \<open>Floors\<close>

definition clamp_yolo :: "bool \<Rightarrow> string option \<Rightarrow> bool" where
  "clamp_yolo requested yolo_pin \<longleftrightarrow> requested \<and> yolo_pin = None"

definition persisted_bash_auto_allows :: "permission_state \<Rightarrow> string \<Rightarrow> string option \<Rightarrow> bool" where
  "persisted_bash_auto_allows st cmd yolo_pin \<longleftrightarrow>
     (allow_bash_execute st \<and> yolo_pin = None) \<or> cmd \<in> set (allowed_bash_commands st)"

definition is_some_and :: "'a option \<Rightarrow> ('a \<Rightarrow> bool) \<Rightarrow> bool" where
  "is_some_and x P = (case x of None \<Rightarrow> False | Some v \<Rightarrow> P v)"

lemma is_some_and_simps [simp]:
  "is_some_and None P = False"
  "is_some_and (Some v) P = P v"
  by (simp_all add: is_some_and_def)

definition bash_write_floor_requires_prompt :: "bash_evaluation option \<Rightarrow> bool" where
  "bash_write_floor_requires_prompt ev =
     is_some_and ev (\<lambda>e. writes_real_file e \<and> \<not> exact_grant e)"

definition bash_unsafe_env_floor_requires_prompt :: "bash_evaluation option \<Rightarrow> bool" where
  "bash_unsafe_env_floor_requires_prompt ev =
     is_some_and ev (\<lambda>e. be_env_risk e \<noteq> Env_Safe \<and> \<not> exact_grant e)"

definition bash_opaque_shell_floor_requires_prompt :: "bash_evaluation option \<Rightarrow> bool" where
  "bash_opaque_shell_floor_requires_prompt ev =
     is_some_and ev (\<lambda>e. has_opaque_shell e \<and> \<not> exact_grant e)"

definition bash_exec_floor_requires_prompt :: "bash_evaluation option \<Rightarrow> bool" where
  "bash_exec_floor_requires_prompt ev =
     is_some_and ev (\<lambda>e. be_exec_risk e \<and> \<not> exact_grant e)"

definition bash_request_floor_requires_prompt :: "bash_evaluation option \<Rightarrow> bool" where
  "bash_request_floor_requires_prompt ev \<longleftrightarrow>
     bash_write_floor_requires_prompt ev \<or> bash_unsafe_env_floor_requires_prompt ev
     \<or> bash_opaque_shell_floor_requires_prompt ev \<or> bash_exec_floor_requires_prompt ev"

definition bash_request_floor_defers_to_classifier :: "bash_evaluation option \<Rightarrow> bool" where
  "bash_request_floor_defers_to_classifier ev =
     is_some_and ev (\<lambda>e. \<not> writes_real_file e \<and> \<not> has_opaque_shell e \<and> \<not> be_exec_risk e
       \<and> be_env_risk e = Env_Unvetted)"

definition sandbox_may_auto_allow_bash :: "bash_evaluation option \<Rightarrow> bool \<Rightarrow> bool" where
  "sandbox_may_auto_allow_bash ev sandbox_active \<longleftrightarrow>
     sandbox_active \<and> \<not> bash_request_floor_requires_prompt ev"

text \<open>The effects of a script that only the grant of that very script covers.\<close>

definition has_floor_effect :: "bash_evaluation \<Rightarrow> bool" where
  "has_floor_effect e \<longleftrightarrow>
     writes_real_file e \<or> be_env_risk e \<noteq> Env_Safe \<or> has_opaque_shell e \<or> be_exec_risk e"

lemma request_floor_Some:
  "bash_request_floor_requires_prompt (Some e) \<longleftrightarrow> has_floor_effect e \<and> \<not> exact_grant e"
  by (auto simp: bash_request_floor_requires_prompt_def bash_write_floor_requires_prompt_def
      bash_unsafe_env_floor_requires_prompt_def bash_opaque_shell_floor_requires_prompt_def
      bash_exec_floor_requires_prompt_def has_floor_effect_def)

lemma request_floor_None [simp]: "\<not> bash_request_floor_requires_prompt None"
  by (simp add: bash_request_floor_requires_prompt_def bash_write_floor_requires_prompt_def
      bash_unsafe_env_floor_requires_prompt_def bash_opaque_shell_floor_requires_prompt_def
      bash_exec_floor_requires_prompt_def)

section \<open>Pre-decisions\<close>

definition SESSION_GRANT :: string where "SESSION_GRANT = ''session_grant''"
definition STATIC_ALLOWLIST :: string where "STATIC_ALLOWLIST = ''static_allowlist''"
definition SAFE_COMMAND :: string where "SAFE_COMMAND = ''safe_command''"
definition SESSION_DENY :: string where "SESSION_DENY = ''session_deny''"

record bash_grant_opts =
  honor_safe_lists :: bool
  allow_blanket :: bool
  conservative_blanket :: bool

definition PRE_CLASSIFIER :: bash_grant_opts where
  "PRE_CLASSIFIER =
     \<lparr>honor_safe_lists = True, allow_blanket = True, conservative_blanket = True\<rparr>"

definition ASK_FLOOR_REMEMBER :: bash_grant_opts where
  "ASK_FLOOR_REMEMBER =
     \<lparr>honor_safe_lists = False, allow_blanket = False, conservative_blanket = False\<rparr>"

definition post_classify :: "bool \<Rightarrow> bash_grant_opts" where
  "post_classify auto_forced_prompt =
     \<lparr>honor_safe_lists = True, allow_blanket = (\<not> auto_forced_prompt), conservative_blanket = False\<rparr>"

definition grant_allow :: "string \<Rightarrow> (decision \<times> string) option" where
  "grant_allow reason = Some (Allow, reason)"

definition bash_grant_pre_decision ::
  "string \<Rightarrow> bash_evaluation \<Rightarrow> permission_state \<Rightarrow> string option \<Rightarrow> bash_grant_opts
     \<Rightarrow> (decision \<times> string) option" where
  "bash_grant_pre_decision cmd e st yolo_pin opts =
     (case be_segments e of
        Seg_Reject reason \<Rightarrow> Some (Reject reason, SESSION_DENY)
      | _ \<Rightarrow>
          if bash_request_floor_requires_prompt (Some e) then None
          else case be_segments e of
                 Seg_Reject _ \<Rightarrow> None
               | AutoAllow via_grant \<Rightarrow>
                   if \<not> honor_safe_lists opts \<and> \<not> all_segments_granted e then None
                   else grant_allow (if via_grant then SESSION_GRANT else SAFE_COMMAND)
               | NeedsPrompts _ dangerous \<Rightarrow>
                   if \<not> allow_blanket opts \<or> (dangerous \<and> conservative_blanket opts) then None
                   else if persisted_bash_auto_allows st cmd yolo_pin
                     then Some (Allow, SESSION_GRANT) else None
               | Unparseable \<Rightarrow>
                   if \<not> allow_blanket opts then None
                   else if (if conservative_blanket opts then exact_grant e
                            else persisted_bash_auto_allows st cmd yolo_pin)
                     then Some (Allow, SESSION_GRANT) else None)"

definition mcp_pre_decision ::
  "string \<Rightarrow> permission_state \<Rightarrow> bool \<Rightarrow> bool \<Rightarrow> decision option" where
  "mcp_pre_decision name st forced_prompt remember_tool_approvals =
     (if forced_prompt \<and> \<not> remember_tool_approvals then None
      else if name \<in> set (allowed_mcp_tools st) then Some Allow
      else if mcp_server_prefix_allowed name (set (allowed_mcp_servers st)) then Some Allow
      else None)"

text \<open>
  \<open>parse_url\<close> is what the url crate makes of a string. The arm for edits is guarded, so an edit
  without the session's permission falls to the last arm.
\<close>

definition session_grant_pre_decision ::
  "'g externs \<Rightarrow> (string \<Rightarrow> url option) \<Rightarrow> access_kind \<Rightarrow> bash_evaluation option
     \<Rightarrow> permission_state \<Rightarrow> bool \<Rightarrow> domain_matcher \<Rightarrow> bool \<Rightarrow> string option
     \<Rightarrow> (decision \<times> string) option" where
  "session_grant_pre_decision ext parse_url access ev st allow_edits matcher honor_static yolo_pin =
     (case access of
        Access_MCPTool name _ \<Rightarrow>
          map_option (\<lambda>d. (d, SESSION_GRANT)) (mcp_pre_decision name st False False)
      | Access_WebFetch u \<Rightarrow>
          (case parse_url u of
             None \<Rightarrow> None
           | Some parsed \<Rightarrow>
               if honor_static \<and> domain_check ext matcher parsed = None
                 then grant_allow STATIC_ALLOWLIST
               else (case host_str parsed of
                       None \<Rightarrow> None
                     | Some host \<Rightarrow>
                         if normalize_domain ext host \<in> set (allowed_web_fetch_domains st)
                           then grant_allow SESSION_GRANT else None))
      | Access_Edit _ \<Rightarrow> if allow_edits then grant_allow SESSION_GRANT else None
      | Access_Bash cmd \<Rightarrow>
          (case ev of
             None \<Rightarrow> None
           | Some e \<Rightarrow> bash_grant_pre_decision cmd e st yolo_pin PRE_CLASSIFIER)
      | _ \<Rightarrow> None)"

section \<open>What the loop over segments establishes\<close>

definition granted_segment :: "permission_state \<Rightarrow> string list \<Rightarrow> bool" where
  "granted_segment st ws = list_ex (matches_command_prefix (join '' '' ws)) (allowed_bash_commands st)"

definition disallowed_segment :: "permission_state \<Rightarrow> string list \<Rightarrow> bool" where
  "disallowed_segment st ws \<longleftrightarrow>
     \<not> is_setup_command ws
     \<and> list_ex (matches_command_prefix (join '' '' ws)) (disallowed_bash_commands st)"

definition safe_segment :: "string list \<Rightarrow> bool" where
  "safe_segment ws \<longleftrightarrow> is_safe_command_words ws \<or> is_always_safe_command_words ws"

text \<open>A segment that runs without a question.\<close>

definition passed_segment :: "permission_state \<Rightarrow> bool \<Rightarrow> string list \<Rightarrow> bool" where
  "passed_segment st honor ws \<longleftrightarrow>
     is_setup_command ws
     \<or> (\<not> is_dangerous_command_words ws
        \<and> (has_unsafe_variant ws \<longrightarrow> join '' '' ws \<in> set (allowed_bash_commands st))
        \<and> (granted_segment st ws \<or> (honor \<and> safe_segment ws)))"

lemma find_list_ex: "find P xs = None \<longleftrightarrow> \<not> list_ex P xs"
  by (auto simp: find_None_iff list_ex_iff)

lemma judge_segment_Inl:
  "(\<exists>r. judge_segment st honor ws acc = Inl r) \<longleftrightarrow> disallowed_segment st ws"
  using find_list_ex [of "matches_command_prefix (join '' '' ws)" "disallowed_bash_commands st"]
  by (cases "find (matches_command_prefix (join '' '' ws)) (disallowed_bash_commands st)")
    (simp_all add: judge_segment_def disallowed_segment_def Let_def)

lemma judge_segment_Inr:
  assumes "judge_segment st honor ws acc = Inr acc'"
  shows "\<not> disallowed_segment st ws"
    and "needs_prompt acc' = [] \<longleftrightarrow> needs_prompt acc = [] \<and> passed_segment st honor ws"
    and "any_dangerous acc' \<longleftrightarrow>
           any_dangerous acc \<or> (\<not> is_setup_command ws \<and> is_dangerous_command_words ws)"
    and "acc_all_granted acc' \<longleftrightarrow>
           acc_all_granted acc \<and> (is_setup_command ws \<or> granted_segment st ws)"
    and "acc_opaque acc' = acc_opaque acc" "acc_exec_risk acc' = acc_exec_risk acc"
proof -
  show "\<not> disallowed_segment st ws"
    using assms judge_segment_Inl [of st honor ws acc] by auto
  show "needs_prompt acc' = [] \<longleftrightarrow> needs_prompt acc = [] \<and> passed_segment st honor ws"
    using assms
    by (auto simp: judge_segment_def passed_segment_def granted_segment_def safe_segment_def Let_def
        split: if_splits option.splits)
  show "any_dangerous acc' \<longleftrightarrow>
      any_dangerous acc \<or> (\<not> is_setup_command ws \<and> is_dangerous_command_words ws)"
    using assms by (auto simp: judge_segment_def Let_def split: if_splits option.splits)
  show "acc_all_granted acc' \<longleftrightarrow>
      acc_all_granted acc \<and> (is_setup_command ws \<or> granted_segment st ws)"
    using assms
    by (auto simp: judge_segment_def granted_segment_def Let_def split: if_splits option.splits)
  show "acc_opaque acc' = acc_opaque acc" "acc_exec_risk acc' = acc_exec_risk acc"
    using assms by (auto simp: judge_segment_def Let_def split: if_splits option.splits)
qed

abbreviation inner_words :: "plain_command \<Rightarrow> string list" where
  "inner_words c \<equiv> unwrap_wrappers (words c)"

lemma note_segment_simps [simp]:
  "needs_prompt (note_segment raw acc) = needs_prompt acc"
  "any_dangerous (note_segment raw acc) = any_dangerous acc"
  "acc_all_granted (note_segment raw acc) = acc_all_granted acc"
  "acc_opaque (note_segment raw acc) \<longleftrightarrow>
     acc_opaque acc \<or> words_are_opaque_shell (map Literal (unwrap_wrappers raw))"
  "acc_exec_risk (note_segment raw acc) \<longleftrightarrow> acc_exec_risk acc \<or> sf_exec_risk (segment_exec_facts raw)"
  by (simp_all add: note_segment_def Let_def)

lemma segments_loop_Inl:
  "(\<exists>r. segments_loop st honor segs acc = Inl r) \<longleftrightarrow>
     (\<exists>c \<in> set segs. disallowed_segment st (inner_words c))"
proof (induction segs arbitrary: acc)
  case (Cons c segs)
  let ?a = "note_segment (words c) acc"
  show ?case
  proof (cases "judge_segment st honor (inner_words c) ?a")
    case (Inl r)
    then have "disallowed_segment st (inner_words c)" using judge_segment_Inl by blast
    with Inl show ?thesis by (simp add: Let_def)
  next
    case (Inr a)
    with Cons.IH [of a] judge_segment_Inr(1) [OF Inr] show ?thesis by (simp add: Let_def)
  qed
qed simp

lemma segments_loop_Inr:
  assumes "segments_loop st honor segs acc = Inr acc'"
  shows "(needs_prompt acc' = [] \<longleftrightarrow>
            needs_prompt acc = [] \<and> (\<forall>c \<in> set segs. passed_segment st honor (inner_words c)))
    \<and> (any_dangerous acc' \<longleftrightarrow> any_dangerous acc
         \<or> (\<exists>c \<in> set segs. \<not> is_setup_command (inner_words c) \<and> is_dangerous_command_words (inner_words c)))
    \<and> (acc_all_granted acc' \<longleftrightarrow> acc_all_granted acc
         \<and> (\<forall>c \<in> set segs. is_setup_command (inner_words c) \<or> granted_segment st (inner_words c)))
    \<and> (acc_opaque acc' \<longleftrightarrow> acc_opaque acc
         \<or> (\<exists>c \<in> set segs. words_are_opaque_shell (map Literal (inner_words c))))
    \<and> (acc_exec_risk acc' \<longleftrightarrow> acc_exec_risk acc
         \<or> (\<exists>c \<in> set segs. sf_exec_risk (segment_exec_facts (words c))))"
  using assms
proof (induction segs arbitrary: acc)
  case (Cons c segs)
  let ?a = "note_segment (words c) acc"
  from Cons.prems obtain a where a: "judge_segment st honor (inner_words c) ?a = Inr a"
    and rest: "segments_loop st honor segs a = Inr acc'"
    by (auto simp: Let_def split: sum.splits)
  show ?case
    using Cons.IH [OF rest] judge_segment_Inr(2-6) [OF a] by auto
qed simp

section \<open>The evaluation of a script\<close>

text \<open>The segments of a script that the parser takes apart completely.\<close>

definition script_segments :: "'g externs \<Rightarrow> string \<Rightarrow> plain_command list option" where
  "script_segments ext cmd =
     Option.bind (parse_shell ext cmd) (\<lambda>tree. try_parse_word_only_commands_sequence tree cmd)"

definition dangerous_segment :: "string list \<Rightarrow> bool" where
  "dangerous_segment ws \<longleftrightarrow> \<not> is_setup_command ws \<and> is_dangerous_command_words ws"

lemma exact_grant_evaluate [simp]:
  "exact_grant (evaluate_bash ext cmd st honor) \<longleftrightarrow> cmd \<in> set (allowed_bash_commands st)"
  by (auto simp: evaluate_bash_def Let_def split: option.split sum.split prod.split)

lemma evaluate_bash_None:
  "script_segments ext cmd = None \<Longrightarrow> be_segments (evaluate_bash ext cmd st honor) = Unparseable"
  by (auto simp: script_segments_def bind_eq_None_conv evaluate_bash_def Let_def split: option.split)

lemma evaluate_bash_Inl:
  "script_segments ext cmd = Some segs \<Longrightarrow> segments_loop st honor segs bash_acc_init = Inl (r, acc) \<Longrightarrow>
     be_segments (evaluate_bash ext cmd st honor) = Seg_Reject r"
  by (auto simp: script_segments_def bind_eq_Some_conv evaluate_bash_def Let_def)

lemma evaluate_bash_Inr:
  assumes "script_segments ext cmd = Some segs"
    and "segments_loop st honor segs bash_acc_init = Inr acc"
  shows "be_segments (evaluate_bash ext cmd st honor) =
           (if needs_prompt acc = [] then AutoAllow (via_session_grant acc)
            else NeedsPrompts (needs_prompt acc) (any_dangerous acc))"
    and "all_segments_granted (evaluate_bash ext cmd st honor) = acc_all_granted acc"
  using assms by (auto simp: script_segments_def bind_eq_Some_conv evaluate_bash_def Let_def)

lemma evaluate_bash_cases:
  obtains (unparsed) "script_segments ext cmd = None"
      "be_segments (evaluate_bash ext cmd st honor) = Unparseable"
  | (rejected) segs c r where "script_segments ext cmd = Some segs" "c \<in> set segs"
      "disallowed_segment st (inner_words c)"
      "be_segments (evaluate_bash ext cmd st honor) = Seg_Reject r"
  | (passed) segs via where "script_segments ext cmd = Some segs"
      "\<forall>c \<in> set segs. \<not> disallowed_segment st (inner_words c)"
      "\<forall>c \<in> set segs. passed_segment st honor (inner_words c)"
      "be_segments (evaluate_bash ext cmd st honor) = AutoAllow via"
      "all_segments_granted (evaluate_bash ext cmd st honor) \<longleftrightarrow>
         (\<forall>c \<in> set segs. is_setup_command (inner_words c) \<or> granted_segment st (inner_words c))"
  | (asks) segs ps where "script_segments ext cmd = Some segs"
      "\<forall>c \<in> set segs. \<not> disallowed_segment st (inner_words c)"
      "be_segments (evaluate_bash ext cmd st honor) =
         NeedsPrompts ps (\<exists>c \<in> set segs. dangerous_segment (inner_words c))"
proof (cases "script_segments ext cmd")
  case None
  then show thesis using unparsed evaluate_bash_None by blast
next
  case (Some segs)
  let ?l = "segments_loop st honor segs bash_acc_init"
  show thesis
  proof (cases ?l)
    case (Inl x)
    obtain r acc where x: "x = (r, acc)" by (cases x)
    from Inl segments_loop_Inl [of st honor segs bash_acc_init]
    obtain c where "c \<in> set segs" "disallowed_segment st (inner_words c)" by auto
    then show ?thesis using rejected [OF Some] evaluate_bash_Inl [OF Some] Inl x by blast
  next
    case (Inr acc)
    have ok: "\<forall>c \<in> set segs. \<not> disallowed_segment st (inner_words c)"
      using Inr segments_loop_Inl [of st honor segs bash_acc_init] by auto
    show ?thesis
    proof (cases "needs_prompt acc = []")
      case True
      then show ?thesis
        using passed [OF Some ok] evaluate_bash_Inr [OF Some Inr] segments_loop_Inr [OF Inr]
        by (auto simp: bash_acc_init_def)
    next
      case False
      then show ?thesis
        using asks [OF Some ok] evaluate_bash_Inr [OF Some Inr] segments_loop_Inr [OF Inr]
        by (auto simp: bash_acc_init_def dangerous_segment_def)
    qed
  qed
qed

lemma evaluate_bash_rejects:
  assumes "script_segments ext cmd = Some segs" "c \<in> set segs" "disallowed_segment st (inner_words c)"
  shows "\<exists>r. be_segments (evaluate_bash ext cmd st honor) = Seg_Reject r"
  by (rule evaluate_bash_cases [of ext cmd st honor]) (use assms in auto)

text \<open>A grammar that reads every script as one bare word, and a state with grants.\<close>

definition word_tree :: "nat \<Rightarrow> ts_node" where
  "word_tree n =
     TsNode ''program'' True 0 n False None
      [TsNode ''command'' True 0 n False None
        [TsNode ''command_name'' True 0 n False (Some ''name'')
          [TsNode ''word'' True 0 n False None []]]]"

definition word_ext :: "string externs" where
  "word_ext = sample_ext\<lparr>parse_shell := \<lambda>s. Some (word_tree (length s))\<rparr>"

definition sample_state :: permission_state where
  "sample_state = permission_state_default\<lparr>allowed_bash_commands := [''make''],
     disallowed_bash_commands := [''curl'']\<rparr>"

text \<open>
  What the user rejected for the session stays rejected: a script with a segment that matches a
  disallowed prefix is rejected by the pre-decision under every set of options, whatever grants
  and safe lists say, wrappers such as \<open>timeout\<close> or \<open>env\<close> around the command included.
\<close>

theorem session_deny_wins:
  assumes "script_segments ext cmd = Some segs" "c \<in> set segs" "disallowed_segment st (inner_words c)"
  shows "\<exists>r. \<forall>opts. bash_grant_pre_decision cmd (evaluate_bash ext cmd st honor) st pin opts =
     Some (Reject r, SESSION_DENY)"
proof -
  obtain r where "be_segments (evaluate_bash ext cmd st honor) = Seg_Reject r"
    using evaluate_bash_rejects [OF assms] by blast
  then show ?thesis by (simp add: bash_grant_pre_decision_def)
qed

theorem session_deny_wins_witness:
  "\<exists>r. \<forall>opts. bash_grant_pre_decision ''curl'' (evaluate_bash word_ext ''curl'' sample_state True)
     sample_state None opts = Some (Reject r, SESSION_DENY)"
proof -
  obtain segs c where "script_segments word_ext ''curl'' = Some segs" "c \<in> set segs"
      "disallowed_segment sample_state (inner_words c)"
  proof (rule that)
    show "script_segments word_ext ''curl'' = Some [the_elem (set (the (script_segments word_ext ''curl'')))]"
      by code_simp
  qed (code_simp | simp)+
  then show ?thesis using session_deny_wins by blast
qed

text \<open>A script every segment of which may run without a question.\<close>

definition script_passes :: "'g externs \<Rightarrow> permission_state \<Rightarrow> bool \<Rightarrow> string \<Rightarrow> bool" where
  "script_passes ext st honor cmd \<longleftrightarrow>
     (\<exists>segs. script_segments ext cmd = Some segs
        \<and> (\<forall>c \<in> set segs. passed_segment st honor (inner_words c)
             \<and> \<not> disallowed_segment st (inner_words c)))"

text \<open>The case analysis of a pre-decision, shared by the properties below.\<close>

lemma grant_pre_decision_Allow:
  assumes "bash_grant_pre_decision cmd (evaluate_bash ext cmd st honor) st pin opts = Some (Allow, why)"
  shows "(has_floor_effect (evaluate_bash ext cmd st honor) \<longrightarrow> cmd \<in> set (allowed_bash_commands st))
    \<and> (script_passes ext st honor cmd
       \<or> (allow_blanket opts
          \<and> (cmd \<in> set (allowed_bash_commands st) \<or> (allow_bash_execute st \<and> pin = None))))"
  by (rule evaluate_bash_cases [of ext cmd st honor])
    (use assms in \<open>auto simp: bash_grant_pre_decision_def request_floor_Some script_passes_def
       persisted_bash_auto_allows_def split: if_splits\<close>)

text \<open>
  Before the classifier, a grant never covers a dangerous command: if the pre-decision allows a
  script, then either it could not be taken apart and exactly this script was granted, or no
  segment of it is dangerous or disallowed; and a script that writes files, sets an unvetted or
  injecting variable, starts an opaque shell or may run other programs passes only by a grant of
  exactly this script.
\<close>

theorem pre_classifier_spares_dangerous:
  assumes "bash_grant_pre_decision cmd (evaluate_bash ext cmd st honor) st pin PRE_CLASSIFIER = Some (Allow, why)"
  shows "(case script_segments ext cmd of
            None \<Rightarrow> cmd \<in> set (allowed_bash_commands st)
          | Some segs \<Rightarrow> \<forall>c \<in> set segs. \<not> dangerous_segment (inner_words c)
              \<and> \<not> disallowed_segment st (inner_words c))
    \<and> (has_floor_effect (evaluate_bash ext cmd st honor) \<longrightarrow> cmd \<in> set (allowed_bash_commands st))"
  by (rule evaluate_bash_cases [of ext cmd st honor])
    (use assms in \<open>auto simp: bash_grant_pre_decision_def request_floor_Some PRE_CLASSIFIER_def
       passed_segment_def dangerous_segment_def split: if_splits\<close>)

theorem pre_classifier_spares_dangerous_witness:
  "case script_segments word_ext ''make'' of None \<Rightarrow> False
   | Some segs \<Rightarrow> \<forall>c \<in> set segs. \<not> dangerous_segment (inner_words c)"
proof -
  have "bash_grant_pre_decision ''make'' (evaluate_bash word_ext ''make'' sample_state True)
      sample_state None PRE_CLASSIFIER = Some (Allow, SESSION_GRANT)"
    and "script_segments word_ext ''make'' \<noteq> None"
    by code_simp+
  then show ?thesis using pre_classifier_spares_dangerous by (fastforce split: option.splits)
qed

text \<open>
  A remembered approval that satisfies an ask rule comes from explicit grants only: if the
  pre-decision for such a rule allows a script, then the script could be taken apart and every
  segment that is not mere set-up matches a granted prefix, is not dangerous and is not
  disallowed. The built-in safe lists and the blanket permission do not count.
\<close>

theorem remembered_approval_needs_grants:
  assumes "bash_grant_pre_decision cmd (evaluate_bash ext cmd st honor) st pin ASK_FLOOR_REMEMBER =
      Some (Allow, why)"
  shows "\<exists>segs. script_segments ext cmd = Some segs
    \<and> (\<forall>c \<in> set segs. is_setup_command (inner_words c)
         \<or> (granted_segment st (inner_words c) \<and> \<not> is_dangerous_command_words (inner_words c)
            \<and> \<not> disallowed_segment st (inner_words c)))"
  by (rule evaluate_bash_cases [of ext cmd st honor])
    (use assms in \<open>auto simp: bash_grant_pre_decision_def ASK_FLOOR_REMEMBER_def
       passed_segment_def split: if_splits\<close>)

theorem remembered_approval_needs_grants_witness:
  "\<exists>segs. script_segments word_ext ''make'' = Some segs
     \<and> (\<forall>c \<in> set segs. is_setup_command (inner_words c) \<or> granted_segment sample_state (inner_words c))"
proof -
  have "bash_grant_pre_decision ''make'' (evaluate_bash word_ext ''make'' sample_state True)
      sample_state None ASK_FLOOR_REMEMBER = Some (Allow, SESSION_GRANT)"
    by code_simp
  then show ?thesis using remembered_approval_needs_grants by blast
qed

end
