(* ===== verification/Policy_Gate.thy ===== *)
theory Policy_Gate
  imports Policy_Evaluate
begin

text \<open>
  What the Bash command gate (\<open>evaluate_bash_command_gate\<close>) decides. The gate folds the answers
  for every command it can reach into one by severity; this theory states the folding as an
  interface (\<open>escalation\<close>), says which commands the gate reaches as a pair of inductive
  predicates, and characterises the gate's answer by them.
\<close>

section \<open>Combining answers by severity\<close>

definition opt_level :: "('d \<Rightarrow> nat) \<Rightarrow> 'd option \<Rightarrow> nat" where
  "opt_level level d = (case d of None \<Rightarrow> 0 | Some a \<Rightarrow> level a)"

lemma opt_level_simps [simp]:
  "opt_level level None = 0" "opt_level level (Some a) = level a"
  by (simp_all add: opt_level_def)

locale escalation =
  fixes level :: "'d \<Rightarrow> nat"
    and combine :: "'d option \<Rightarrow> 'd option \<Rightarrow> 'd option"
  assumes level_pos: "0 < level a"
    and combine_None_left: "combine None x = x"
    and combine_None_right: "combine x None = x"
    and combine_Some: "combine (Some a) (Some b) = (if level b \<le> level a then Some a else Some b)"
begin

lemma opt_level_combine: "opt_level level (combine x y) = max (opt_level level x) (opt_level level y)"
  by (cases x; cases y) (auto simp: combine_None_left combine_None_right combine_Some)

lemma combine_eq_None: "combine x y = None \<longleftrightarrow> x = None \<and> y = None"
  by (cases x; cases y) (auto simp: combine_None_left combine_None_right combine_Some)

lemma combine_assoc: "combine (combine x y) z = combine x (combine y z)"
  by (cases x; cases y; cases z)
    (auto simp: combine_None_left combine_None_right combine_Some)

lemma le_opt_level_combine:
  "k \<le> opt_level level (combine x y) \<longleftrightarrow> k \<le> opt_level level x \<or> k \<le> opt_level level y"
  by (simp add: opt_level_combine le_max_iff_disj)

lemma le_opt_level_foldl:
  "0 < k \<Longrightarrow> k \<le> opt_level level (foldl (\<lambda>d x. combine d (f x)) d xs) \<longleftrightarrow>
     k \<le> opt_level level d \<or> (\<exists>x \<in> set xs. k \<le> opt_level level (f x))"
  by (induction xs arbitrary: d) (auto simp: le_opt_level_combine)

lemma foldl_eq_None:
  "foldl (\<lambda>d x. combine d (f x)) d xs = None \<longleftrightarrow> d = None \<and> (\<forall>x \<in> set xs. f x = None)"
  by (induction xs arbitrary: d) (auto simp: combine_eq_None)

end

interpretation gate: escalation rank combine_gate_decisions
proof
  show "0 < rank a" for a by (cases a) simp_all
  show "combine_gate_decisions None x = x" for x by simp
  show "combine_gate_decisions x None = x" for x by (cases x) simp_all
qed simp

abbreviation gate_level :: "gate_decision option \<Rightarrow> nat" where
  "gate_level \<equiv> opt_level rank"

section \<open>The commands the gate reaches\<close>

text \<open>
  \<open>script_reaches ext d cmd ws\<close>: with \<open>d\<close> levels of nesting left, the argv \<open>ws\<close> is one that the
  script \<open>cmd\<close> runs, taken as written or read through its wrappers, at the top level of
  \<open>cmd\<close>, inside a literal \<open>shell -c\<close> script or inside a packed \<open>env -S\<close> string.
  \<open>words_reach\<close> is the same for one command.
\<close>

inductive script_reaches :: "'g externs \<Rightarrow> nat \<Rightarrow> string \<Rightarrow> string list \<Rightarrow> bool"
  and words_reach :: "'g externs \<Rightarrow> nat \<Rightarrow> string list \<Rightarrow> string list \<Rightarrow> bool" for ext where
  reach_segment: "all_commands_from_script (parse_shell ext) cmd = Some segs \<Longrightarrow> parsed \<in> set segs \<Longrightarrow>
    words_reach ext d (words parsed) ws \<Longrightarrow> script_reaches ext d cmd ws"
| reach_raw: "words_reach ext d raw raw"
| reach_peeled: "words_reach ext d raw (nc_words (normalize_command_words raw))"
| reach_inline: "shell_dash_c_script (map Literal (nc_words (normalize_command_words raw))) =
      Inline_Literal i \<Longrightarrow>
    script_reaches ext d (nc_words (normalize_command_words raw) ! i) ws \<Longrightarrow>
    words_reach ext (Suc d) raw ws"
| reach_packed: "env_split_string_script (nc_words (normalize_command_words raw)) = Some script \<Longrightarrow>
    script_reaches ext d script ws \<Longrightarrow> words_reach ext (Suc d) raw ws"

inductive_simps script_reaches_iff: "script_reaches ext d cmd ws"
inductive_simps words_reach_iff: "words_reach ext d raw ws"

lemma peeled_same_length:
  "length (nc_words (normalize_command_words raw)) = length raw \<Longrightarrow>
     nc_words (normalize_command_words raw) = raw"
  using peel_steps_suffix [OF nc_words_normalize [of raw]]
  by (metis append_self_conv2 length_0_conv length_append add_cancel_left_left suffix_def)

lemma ask_if_level [simp]: "gate_level (ask_if b) = (if b then 1 else 0)"
  by (simp add: ask_if_def)

lemma ask_if_None [simp]: "ask_if b = None \<longleftrightarrow> \<not> b"
  by (simp add: ask_if_def)

text \<open>The two recursive contributions to the answer for one command.\<close>

definition inline_answer ::
  "'g externs \<Rightarrow> 'g compiled_policy \<Rightarrow> nat \<Rightarrow> string list \<Rightarrow> gate_decision option" where
  "inline_answer ext p depth inner =
     (case shell_dash_c_script (map Literal inner) of
        Inline_Literal index \<Rightarrow>
          (case depth of
             Suc d \<Rightarrow> evaluate_bash_command_segments ext p d (inner ! index)
           | 0 \<Rightarrow> Some AskFailClosed)
      | NotInline \<Rightarrow> None
      | _ \<Rightarrow> Some AskFailClosed)"

definition packed_answer ::
  "'g externs \<Rightarrow> 'g compiled_policy \<Rightarrow> nat \<Rightarrow> string list \<Rightarrow> gate_decision option" where
  "packed_answer ext p depth inner =
     (case env_split_string_script inner of
        None \<Rightarrow> None
      | Some script \<Rightarrow>
          (case depth of
             Suc d \<Rightarrow> evaluate_bash_command_segments ext p d script
           | 0 \<Rightarrow> Some AskFailClosed))"

lemma command_words_combine:
  assumes "norm = normalize_command_words raw"
  shows "evaluate_command_words ext p depth raw =
    combine_gate_decisions
     (combine_gate_decisions
       (combine_gate_decisions
         (combine_gate_decisions
           (combine_gate_decisions
             (ask_if (nc_exhausted norm \<or> nc_ambiguous norm \<or> nc_env_options_uncertain norm))
             (ask_if (nc_has_split_string norm)))
           (escalate ext p (join '' '' raw)))
         (if length (nc_words norm) \<noteq> length raw then escalate ext p (join '' '' (nc_words norm)) else None))
       (inline_answer ext p depth (nc_words norm)))
     (packed_answer ext p depth (nc_words norm))"
  unfolding assms evaluate_command_words.simps [of ext p depth raw] Let_def
  by (simp add: inline_answer_def packed_answer_def gate.combine_None_right
      split: inline_shell_script.split option.split nat.split)

lemma command_words_level:
  assumes "norm = normalize_command_words raw" and "2 \<le> k"
  shows "k \<le> gate_level (evaluate_command_words ext p depth raw) \<longleftrightarrow>
    k \<le> gate_level (escalate ext p (join '' '' raw))
    \<or> k \<le> gate_level (escalate ext p (join '' '' (nc_words norm)))
    \<or> k \<le> gate_level (inline_answer ext p depth (nc_words norm))
    \<or> k \<le> gate_level (packed_answer ext p depth (nc_words norm))"
  using assms peeled_same_length [of raw]
  by (auto simp: command_words_combine [OF assms(1)] gate.le_opt_level_combine)

lemma command_words_None:
  assumes "norm = normalize_command_words raw"
  shows "evaluate_command_words ext p depth raw = None \<longleftrightarrow>
    peel_certain norm
    \<and> escalate ext p (join '' '' raw) = None \<and> escalate ext p (join '' '' (nc_words norm)) = None
    \<and> inline_answer ext p depth (nc_words norm) = None
    \<and> packed_answer ext p depth (nc_words norm) = None"
  using assms peeled_same_length [of raw]
  by (auto simp: command_words_combine [OF assms(1)] gate.combine_eq_None peel_certain_def)

lemma segments_level:
  assumes "2 \<le> k"
  shows "k \<le> gate_level (evaluate_bash_command_segments ext p d cmd) \<longleftrightarrow>
    (\<exists>segs. all_commands_from_script (parse_shell ext) cmd = Some segs
       \<and> (\<exists>parsed \<in> set segs. k \<le> gate_level (evaluate_command_words ext p d (words parsed))))"
  using assms by (simp add: evaluate_bash_command_segments.simps [of ext p d cmd]
      gate.le_opt_level_foldl split: option.split)

lemma words_level_step:
  assumes k: "2 \<le> k"
    and IH: "\<And>d' cmd. d = Suc d' \<Longrightarrow> k \<le> gate_level (evaluate_bash_command_segments ext p d' cmd) \<longleftrightarrow>
      (\<exists>ws. script_reaches ext d' cmd ws \<and> k \<le> gate_level (escalate ext p (join '' '' ws)))"
  shows "k \<le> gate_level (evaluate_command_words ext p d raw) \<longleftrightarrow>
    (\<exists>ws. words_reach ext d raw ws \<and> k \<le> gate_level (escalate ext p (join '' '' ws)))"
proof -
  let ?inner = "nc_words (normalize_command_words raw)"
  have inline: "k \<le> gate_level (inline_answer ext p d ?inner) \<longleftrightarrow>
      (\<exists>d' i ws. d = Suc d' \<and> shell_dash_c_script (map Literal ?inner) = Inline_Literal i
         \<and> script_reaches ext d' (?inner ! i) ws \<and> k \<le> gate_level (escalate ext p (join '' '' ws)))"
    using k IH by (auto simp: inline_answer_def split: inline_shell_script.split nat.split)
  have packed: "k \<le> gate_level (packed_answer ext p d ?inner) \<longleftrightarrow>
      (\<exists>d' script ws. d = Suc d' \<and> env_split_string_script ?inner = Some script
         \<and> script_reaches ext d' script ws \<and> k \<le> gate_level (escalate ext p (join '' '' ws)))"
    using k IH by (auto simp: packed_answer_def split: option.split nat.split)
  show ?thesis
    unfolding command_words_level [OF refl k] inline packed words_reach_iff [of ext d raw]
    by blast
qed

lemma segments_level_reaches:
  assumes k: "2 \<le> k"
  shows "k \<le> gate_level (evaluate_bash_command_segments ext p d cmd) \<longleftrightarrow>
    (\<exists>ws. script_reaches ext d cmd ws \<and> k \<le> gate_level (escalate ext p (join '' '' ws)))"
proof (induction d arbitrary: cmd)
  case 0
  show ?case
    unfolding segments_level [OF k] script_reaches_iff [of ext 0 cmd] words_level_step [OF k, of 0, simplified]
    by blast
next
  case (Suc d)
  have "k \<le> gate_level (evaluate_command_words ext p (Suc d) raw) \<longleftrightarrow>
      (\<exists>ws. words_reach ext (Suc d) raw ws \<and> k \<le> gate_level (escalate ext p (join '' '' ws)))" for raw
    using Suc.IH by (intro words_level_step [OF k]) auto
  then show ?case
    unfolding segments_level [OF k] script_reaches_iff [of ext "Suc d" cmd] by blast
qed

section \<open>Scripts the gate reads completely\<close>

text \<open>
  \<open>fully_read ext d cmd\<close>: within \<open>d\<close> levels of nesting the script decomposes into plain
  commands, every argv normalises without a doubt, every inline script is a literal one that
  is itself fully read, and so is every packed \<open>env -S\<close> string.
\<close>

fun fully_read :: "'g externs \<Rightarrow> nat \<Rightarrow> string \<Rightarrow> bool" where
  "fully_read ext depth cmd =
     (case all_commands_from_script (parse_shell ext) cmd of
        None \<Rightarrow> False
      | Some segments \<Rightarrow>
          list_all (\<lambda>parsed.
            let norm = normalize_command_words (words parsed); inner = nc_words norm
            in peel_certain norm
               \<and> (case shell_dash_c_script (map Literal inner) of
                    NotInline \<Rightarrow> True
                  | Inline_Literal i \<Rightarrow>
                      (case depth of 0 \<Rightarrow> False | Suc d \<Rightarrow> fully_read ext d (inner ! i))
                  | _ \<Rightarrow> False)
               \<and> (case env_split_string_script inner of
                    None \<Rightarrow> True
                  | Some script \<Rightarrow>
                      (case depth of 0 \<Rightarrow> False | Suc d \<Rightarrow> fully_read ext d script))) segments)"

declare fully_read.simps [simp del]

lemma escalate_level: "escalate ext p s = None \<longleftrightarrow> \<not> 2 \<le> gate_level (escalate ext p s)"
  by (auto simp: escalate_def split: option.split decision.split)

text \<open>Scripts read without a doubt whose answer stays below a rule match are passed, and conversely.\<close>

definition passes :: "'g externs \<Rightarrow> 'g compiled_policy \<Rightarrow> nat \<Rightarrow> string \<Rightarrow> bool" where
  "passes ext p d cmd \<longleftrightarrow>
     fully_read ext d cmd \<and> \<not> 2 \<le> gate_level (evaluate_bash_command_segments ext p d cmd)"

lemma None_level: "x = None \<Longrightarrow> \<not> 2 \<le> gate_level x"
  by simp

lemma inline_answer_None:
  assumes "\<And>d' cmd. d = Suc d' \<Longrightarrow> evaluate_bash_command_segments ext p d' cmd = None \<longleftrightarrow> passes ext p d' cmd"
  shows "inline_answer ext p d inner = None \<longleftrightarrow>
    (case shell_dash_c_script (map Literal inner) of
       NotInline \<Rightarrow> True
     | Inline_Literal i \<Rightarrow> (case d of 0 \<Rightarrow> False | Suc d \<Rightarrow> fully_read ext d (inner ! i))
     | _ \<Rightarrow> False) \<and> \<not> 2 \<le> gate_level (inline_answer ext p d inner)"
  using assms by (auto simp: inline_answer_def passes_def split: inline_shell_script.split nat.split)

lemma packed_answer_None:
  assumes "\<And>d' cmd. d = Suc d' \<Longrightarrow> evaluate_bash_command_segments ext p d' cmd = None \<longleftrightarrow> passes ext p d' cmd"
  shows "packed_answer ext p d inner = None \<longleftrightarrow>
    (case env_split_string_script inner of
       None \<Rightarrow> True
     | Some script \<Rightarrow> (case d of 0 \<Rightarrow> False | Suc d \<Rightarrow> fully_read ext d script))
    \<and> \<not> 2 \<le> gate_level (packed_answer ext p d inner)"
  using assms by (auto simp: packed_answer_def passes_def split: option.split nat.split)

lemma segments_None_step:
  assumes "\<And>d' cmd. d = Suc d' \<Longrightarrow> evaluate_bash_command_segments ext p d' cmd = None \<longleftrightarrow> passes ext p d' cmd"
  shows "evaluate_bash_command_segments ext p d cmd = None \<longleftrightarrow> passes ext p d cmd"
proof (cases "all_commands_from_script (parse_shell ext) cmd")
  case None
  then show ?thesis
    by (simp add: evaluate_bash_command_segments.simps [of ext p d cmd] passes_def
        fully_read.simps [of ext d cmd])
next
  case (Some segs)
  then show ?thesis
    by (simp add: evaluate_bash_command_segments.simps [of ext p d cmd] passes_def Let_def
        fully_read.simps [of ext d cmd] list_all_iff gate.foldl_eq_None gate.le_opt_level_foldl
        command_words_None [OF refl] command_words_level [OF refl] escalate_level
        inline_answer_None [OF assms] packed_answer_None [OF assms]) blast
qed

lemma segments_None:
  "evaluate_bash_command_segments ext p d cmd = None \<longleftrightarrow> passes ext p d cmd"
  by (induction d arbitrary: cmd) (rule segments_None_step; simp)+

section \<open>Restrictions of a compiled policy\<close>

lemma escalate_Reject: "3 \<le> gate_level (escalate ext p s) \<longleftrightarrow> matched ext p (Access_Bash s) Act_Deny"
proof -
  have "3 \<le> gate_level (escalate ext p s) \<longleftrightarrow> (\<exists>r. evaluate ext p (Access_Bash s) = Some (Reject r))"
    by (auto simp: escalate_def split: option.split decision.split)
  then show ?thesis
    using evaluate_cases [of ext p "Access_Bash s"] by (auto split: if_splits)
qed

lemma escalate_rule: "2 \<le> gate_level (escalate ext p s) \<longleftrightarrow>
    matched ext p (Access_Bash s) Act_Deny \<or> matched ext p (Access_Bash s) Act_Ask"
proof (cases "matched ext p (Access_Bash s) Act_Deny")
  case True
  then show ?thesis using escalate_Reject [of ext p s] by auto
next
  case False
  then show ?thesis
    using evaluate_cases [of ext p "Access_Bash s"]
    by (auto simp: escalate_def split: if_splits)
qed

lemma matched_needs_restriction:
  assumes "matched ext (compiled_policy_new ext c) (Access_Bash s) act" "act \<noteq> Act_Allow"
  shows "has_bash_command_restrictions (compiled_policy_new ext c)"
proof -
  from assms obtain r where r: "r \<in> set (rules c)" "action r = act"
    and t: "tool_filter_matches (Access_Bash s) (tool r)"
    by (auto simp: matched_compiled rule_matches_def)
  from t have "tool r \<in> {Filter_Bash, Filter_Any}" by (cases "tool r") simp_all
  with r assms(2) show ?thesis
    by (cases act) (auto simp: compiled_policy_new_def list_ex_iff is_restriction_def)
qed

text \<open>A script reaches a command on which a rule of the given action binds.\<close>

definition reaches_rule ::
  "'g externs \<Rightarrow> permission_config \<Rightarrow> string \<Rightarrow> rule_action \<Rightarrow> bool" where
  "reaches_rule ext c cmd act \<longleftrightarrow>
     (\<exists>ws. script_reaches ext MAX_INLINE_SHELL_DEPTH cmd ws
        \<and> matched ext (compiled_policy_new ext c) (Access_Bash (join '' '' ws)) act)"

lemma gate_level_reject:
  "3 \<le> gate_level (evaluate_bash_command_gate ext (compiled_policy_new ext c) cmd) \<longleftrightarrow>
     reaches_rule ext c cmd Act_Deny"
  using matched_needs_restriction [of ext c _ Act_Deny]
  by (auto simp: evaluate_bash_command_gate_def reaches_rule_def segments_level_reaches escalate_Reject)

lemma gate_level_ask:
  "2 \<le> gate_level (evaluate_bash_command_gate ext (compiled_policy_new ext c) cmd) \<longleftrightarrow>
     reaches_rule ext c cmd Act_Deny \<or> reaches_rule ext c cmd Act_Ask"
  using matched_needs_restriction [of ext c _ Act_Deny] matched_needs_restriction [of ext c _ Act_Ask]
  by (auto simp: evaluate_bash_command_gate_def reaches_rule_def segments_level_reaches escalate_rule)

lemma gate_level_cases:
  "(\<exists>r. x = Some (Gate_Reject r)) \<longleftrightarrow> 3 \<le> gate_level x"
  "x = Some AskRuleMatch \<longleftrightarrow> 2 \<le> gate_level x \<and> \<not> 3 \<le> gate_level x"
  by (cases x; cases "the x"; simp)+

section \<open>Properties\<close>

text \<open>
  The gate rejects a command line exactly when a deny rule matches one of the commands
  it reaches: any segment of a chain, as written or read through its wrappers and transparent
  prefixes, at the top level or inside \<open>shell -c\<close> scripts and packed \<open>env -S\<close> strings up to
  the nesting budget. It asks because of a rule exactly when no deny rule but some ask rule
  matches such a command.
\<close>

theorem gate_rule_answers:
  "((\<exists>r. evaluate_bash_command_gate ext (compiled_policy_new ext c) cmd = Some (Gate_Reject r)) \<longleftrightarrow>
      reaches_rule ext c cmd Act_Deny)
   \<and> (evaluate_bash_command_gate ext (compiled_policy_new ext c) cmd = Some AskRuleMatch \<longleftrightarrow>
      \<not> reaches_rule ext c cmd Act_Deny \<and> reaches_rule ext c cmd Act_Ask)"
  unfolding gate_level_cases gate_level_reject gate_level_ask by blast

text \<open>
  C3. The gate fails closed: with a Bash restriction configured it lets a command line
  pass exactly when it can read the whole of it (every level parses into plain commands,
  every argv normalises without a doubt, every inline script is literal and within the nesting
  budget) and no deny or ask rule matches any command it reaches; everything else is
  rejected or asked about.
\<close>

theorem gate_fails_closed:
  assumes "has_bash_command_restrictions (compiled_policy_new ext c)"
  shows "evaluate_bash_command_gate ext (compiled_policy_new ext c) cmd = None \<longleftrightarrow>
    fully_read ext MAX_INLINE_SHELL_DEPTH cmd
    \<and> \<not> reaches_rule ext c cmd Act_Deny \<and> \<not> reaches_rule ext c cmd Act_Ask"
  using assms gate_level_ask [of ext c cmd]
  by (auto simp: evaluate_bash_command_gate_def segments_None passes_def)

theorem gate_fails_closed_witness:
  "evaluate_bash_command_gate sample_ext
     (compiled_policy_new sample_ext (permission_config_new [bash_rule Act_Deny ''rm''])) ''ls | sh'' \<noteq> None"
proof -
  have r: "has_bash_command_restrictions
      (compiled_policy_new sample_ext (permission_config_new [bash_rule Act_Deny ''rm'']))"
    by code_simp
  have "\<not> fully_read sample_ext MAX_INLINE_SHELL_DEPTH ''ls | sh''" by code_simp
  then show ?thesis using gate_fails_closed [OF r] by blast
qed

text \<open>
  A deny rule \<open>Bash(prefix)\<close> binds everywhere the gate can look: whatever else is in the
  configuration, a script that reaches a command whose text starts with the prefix is
  rejected, so chaining, wrapping or nesting the command does not dodge the rule.
\<close>

theorem deny_prefix_binds_everywhere:
  assumes "r \<in> set (rules c)" "action r = Act_Deny" "tool r = Filter_Bash" "pattern r = Some pat"
    and "script_reaches ext MAX_INLINE_SHELL_DEPTH cmd ws"
    and "starts_with (trim_start (join '' '' ws)) pat"
  shows "\<exists>reason. evaluate_bash_command_policy ext (compiled_policy_new ext c) cmd = Some (Reject reason)"
proof -
  have "rule_matches ext (Access_Bash (join '' '' ws)) (r, compile_matcher ext r)"
    using assms by (simp add: rule_matches_def pattern_matches_def)
  with assms have "reaches_rule ext c cmd Act_Deny"
    by (auto simp: reaches_rule_def matched_compiled)
  then have "\<exists>reason. evaluate_bash_command_gate ext (compiled_policy_new ext c) cmd = Some (Gate_Reject reason)"
    unfolding gate_level_cases gate_level_reject .
  then show ?thesis by (auto simp: evaluate_bash_command_policy_def)
qed

theorem deny_prefix_binds_everywhere_witness:
  "\<exists>reason. evaluate_bash_command_policy sample_ext
     (compiled_policy_new sample_ext (permission_config_new [bash_rule Act_Deny ''rm''])) ls_rm_src =
     Some (Reject reason)"
proof (rule deny_prefix_binds_everywhere [where r = "bash_rule Act_Deny ''rm''" and pat = "''rm''"
      and ws = "[''rm'', ''x'']"])
  have "map_option (map words) (all_commands_from_script (parse_shell sample_ext) ls_rm_src) =
      Some [[''ls''], [''rm'', ''x'']]"
    by code_simp
  then obtain p1 p2 where s: "all_commands_from_script (parse_shell sample_ext) ls_rm_src = Some [p1, p2]"
    and w: "words p2 = [''rm'', ''x'']" by auto
  show "script_reaches sample_ext MAX_INLINE_SHELL_DEPTH ls_rm_src [''rm'', ''x'']"
    by (rule reach_segment [OF s, of p2]) (simp_all add: w reach_raw)
  show "starts_with (trim_start (join '' '' [''rm'', ''x''])) ''rm''" by code_simp
qed (simp_all add: permission_config_new_def bash_rule_def)

end
