(* ===== verification/Shell_Access_Gate.thy ===== *)
theory Shell_Access_Gate
  imports Shell_Access Policy_Gate
begin

text \<open>
  What the gate for file accesses inside shell commands decides. \<open>script_touches\<close> says which
  operands a script names, \<open>path_spellings\<close> under which paths an operand is judged, and
  \<open>script_doubt\<close> what the gate cannot pin; the gate's answer is characterised by the three.
\<close>

section \<open>Severity of a gate state\<close>

definition state_level :: "gate_state \<Rightarrow> nat" where
  "state_level st = max (gate_level (fst st)) (if snd st then 1 else 0)"

lemma state_level_simps [simp]:
  "state_level (d, b) = max (gate_level d) (if b then 1 else 0)"
  by (simp add: state_level_def)

lemma le_state_level:
  "0 < k \<Longrightarrow> k \<le> state_level st \<longleftrightarrow> k \<le> gate_level (fst st) \<or> (k \<le> 1 \<and> snd st)"
  by (auto simp: state_level_def le_max_iff_disj)

lemma state_level_foldl:
  assumes "\<And>st x. k \<le> state_level (f st x) \<longleftrightarrow> k \<le> state_level st \<or> P x"
  shows "k \<le> state_level (foldl f st xs) \<longleftrightarrow> k \<le> state_level st \<or> (\<exists>x \<in> set xs. P x)"
  by (induction xs arbitrary: st) (auto simp: assms)

lemma judge_operands_level:
  assumes "0 < k"
  shows "k \<le> state_level (judge_operands ext fs p cwd u ops st) \<longleftrightarrow> k \<le> state_level st
    \<or> (\<exists>tm \<in> set ops. k \<le> gate_level (evaluate_shell_path ext fs p (fst tm) cwd (snd tm) u)
          \<or> (k \<le> 1 \<and> shell_arg_is_ambiguous (fst tm)))"
  unfolding judge_operands_def
  by (rule state_level_foldl)
    (auto simp: assms le_max_iff_disj gate.le_opt_level_combine split: prod.splits)

lemma redirect_step_level:
  assumes "0 < k"
  shows "k \<le> state_level (redirect_step ext fs p cwd u pos st r) \<longleftrightarrow> k \<le> state_level st
    \<or> (\<exists>path. rd_path r = Some path \<and> k \<le> gate_level (evaluate_shell_path ext fs p path cwd (rd_mode r)
          (u \<or> cwd_unpinned_before pos (rd_start r) (rd_scope r))))
    \<or> (k \<le> 1 \<and> rd_ambiguous r)"
  using assms by (cases st) (auto simp: redirect_step_def le_max_iff_disj gate.le_opt_level_combine
      split: option.split)

section \<open>One invocation\<close>

lemma dash_c_script_is_literal:
  assumes "shell_dash_c_script ws = Inline_Literal k"
  shows "\<exists>v. ws ! k = Literal v"
  using assms dash_c_loop_literal [of _ ws 1 False False k]
  by (auto simp: shell_dash_c_script_def split: list.splits shell_word.splits if_splits)

text \<open>The literal script that an invocation hands to a shell.\<close>

definition inline_of :: "shell_word list \<Rightarrow> string option" where
  "inline_of ws =
     (case shell_dash_c_script ws of
        Inline_Literal k \<Rightarrow> (case ws ! k of Literal s \<Rightarrow> Some s | Untrusted \<Rightarrow> None)
      | _ \<Rightarrow> None)"

definition inline_doubt :: "bool \<Rightarrow> shell_word list \<Rightarrow> bool" where
  "inline_doubt parse_failed ws \<longleftrightarrow>
     shell_dash_c_script ws \<in> {Inline_Untrusted, Unrecognized}
     \<or> (parse_failed \<and> shell_dash_c_script ws \<noteq> NotInline)"

lemma inline_step_level:
  assumes "0 < k"
  shows "k \<le> state_level (inline_step enter pf u ws st) \<longleftrightarrow> k \<le> state_level st
    \<or> (k \<le> 1 \<and> inline_doubt pf ws)
    \<or> (\<exists>inner. inline_of ws = Some inner \<and>
          (case enter of None \<Rightarrow> k \<le> 1 | Some e \<Rightarrow> k \<le> gate_level (e inner u)))"
  using assms dash_c_script_is_literal [of ws]
  by (cases st) (auto simp: inline_step_def inline_of_def inline_doubt_def Let_def le_max_iff_disj
      gate.le_opt_level_combine split: inline_shell_script.split option.split shell_word.split)

text \<open>The program an invocation runs, where its name is literal and is not a change of directory.\<close>

definition program_of :: "invocation_word list \<Rightarrow> string option" where
  "program_of ws =
     (case ws of
        Inv_Literal head # _ \<Rightarrow>
          let program = map ascii_lower (shell_program_name head)
          in if program \<in> set [''cd'', ''pushd'', ''popd''] then None else Some program
      | _ \<Rightarrow> None)"

definition operands_of :: "invocation_word list \<Rightarrow> (string \<times> file_mode) list" where
  "operands_of ws =
     (case program_of ws of
        None \<Rightarrow> []
      | Some program \<Rightarrow> program_operands program (literal_words ws))"

definition program_doubt :: "bool \<Rightarrow> bool \<Rightarrow> invocation_word list \<Rightarrow> bool" where
  "program_doubt parse_failed cwd_unpinned ws \<longleftrightarrow>
     (case program_of ws of
        None \<Rightarrow> False
      | Some program \<Rightarrow>
          (program_is_known program (literal_words ws)
             \<and> (cwd_unpinned \<or> Inv_Untrusted \<in> set ws \<or> parse_failed))
          \<or> program_recurses program (literal_words ws))
     \<or> list_ex (\<lambda>tm. shell_arg_is_ambiguous (fst tm)) (operands_of ws)"

lemma program_step_None: "program_of ws = None \<Longrightarrow> program_step ext fs p cwd pf u ws st = st"
  unfolding program_step_def program_of_def Let_def
  by (cases ws; cases "hd ws") (auto split: if_splits)

definition known_doubt :: "bool \<Rightarrow> bool \<Rightarrow> string \<Rightarrow> invocation_word list \<Rightarrow> bool" where
  "known_doubt pf u program ws \<longleftrightarrow>
     program_is_known program (literal_words ws) \<and> (u \<or> Inv_Untrusted \<in> set ws \<or> pf)"

lemma program_step_Some:
  assumes "program_of ws = Some program"
    and "judge_operands ext fs p cwd u (program_operands program (literal_words ws))
      (fst st, snd st \<or> known_doubt pf u program ws) = (d, b)"
  shows "program_step ext fs p cwd pf u ws st = (d, b \<or> program_recurses program (literal_words ws))"
proof -
  from assms(1) obtain head rest where ws: "ws = Inv_Literal head # rest"
    and prog: "program = map ascii_lower (shell_program_name head)"
    and nocd: "program \<notin> set [''cd'', ''pushd'', ''popd'']"
    unfolding program_of_def Let_def by (cases ws; cases "hd ws") (auto split: if_splits)
  show ?thesis
    using nocd assms(2) unfolding program_step_def ws list.case invocation_word.case Let_def
      prog [symmetric] known_doubt_def by (simp only: if_False split)
qed

lemma program_step_level:
  assumes "0 < k"
  shows "k \<le> state_level (program_step ext fs p cwd pf u ws st) \<longleftrightarrow> k \<le> state_level st
    \<or> (\<exists>tm \<in> set (operands_of ws). k \<le> gate_level (evaluate_shell_path ext fs p (fst tm) cwd (snd tm) u))
    \<or> (k \<le> 1 \<and> program_doubt pf u ws)"
proof (cases "program_of ws")
  case None
  then show ?thesis
    by (simp add: program_step_None operands_of_def program_doubt_def)
next
  case (Some program)
  let ?ops = "program_operands program (literal_words ws)"
    and ?st = "(fst st, snd st \<or> known_doubt pf u program ws)"
  have ops: "operands_of ws = ?ops"
    by (simp add: operands_of_def Some)
  have doubt: "program_doubt pf u ws \<longleftrightarrow> known_doubt pf u program ws
      \<or> program_recurses program (literal_words ws) \<or> (\<exists>tm \<in> set ?ops. shell_arg_is_ambiguous (fst tm))"
    by (auto simp: program_doubt_def known_doubt_def ops Some list_ex_iff)
  obtain d b where j: "judge_operands ext fs p cwd u ?ops ?st = (d, b)"
    by (cases "judge_operands ext fs p cwd u ?ops ?st")
  show ?thesis
    using judge_operands_level [OF assms, of ext fs p cwd u ?ops ?st]
    unfolding program_step_Some [OF Some j] ops doubt j le_state_level [OF assms] fst_conv snd_conv
    by blast
qed

definition peel_doubt :: "shell_invocation \<Rightarrow> bool" where
  "peel_doubt i \<longleftrightarrow>
     (let q = unwrap_invocation_checked i
      in pl_exhausted q \<or> pl_has_split_string q \<or> pl_env_options_uncertain q
         \<or> pl_transparent_ambiguous q)"

abbreviation run_words :: "shell_invocation \<Rightarrow> invocation_word list" where
  "run_words i \<equiv> pl_words (unwrap_invocation_checked i)"

definition inv_unpinned :: "(nat \<times> execution_scope) list \<Rightarrow> bool \<Rightarrow> shell_invocation \<Rightarrow> bool" where
  "inv_unpinned pos u i \<longleftrightarrow>
     u \<or> cwd_unpinned_before pos (inv_start i) (inv_scope i)
       \<or> pl_has_chdir (unwrap_invocation_checked i)"

definition invocation_doubt :: "bool \<Rightarrow> bool \<Rightarrow> shell_invocation \<Rightarrow> bool" where
  "invocation_doubt parse_failed cwd_unpinned i \<longleftrightarrow>
     peel_doubt i \<or> inline_doubt parse_failed (shell_words (run_words i))
     \<or> program_doubt parse_failed cwd_unpinned (run_words i)"

lemma invocation_step_level:
  assumes "0 < k"
  shows "k \<le> state_level (invocation_step ext fs p cwd enter pf u pos st i) \<longleftrightarrow> k \<le> state_level st
    \<or> (\<exists>tm \<in> set (operands_of (run_words i)).
          k \<le> gate_level (evaluate_shell_path ext fs p (fst tm) cwd (snd tm) (inv_unpinned pos u i)))
    \<or> (k \<le> 1 \<and> invocation_doubt pf (inv_unpinned pos u i) i)
    \<or> (\<exists>inner. inline_of (shell_words (run_words i)) = Some inner \<and>
          (case enter of None \<Rightarrow> k \<le> 1 | Some e \<Rightarrow> k \<le> gate_level (e inner (inv_unpinned pos u i))))"
  unfolding invocation_step_def Let_def program_step_level [OF assms] inline_step_level [OF assms]
    inv_unpinned_def invocation_doubt_def peel_doubt_def
  using assms by (auto simp: le_state_level le_max_iff_disj)

section \<open>Whole scripts\<close>

text \<open>
  \<open>script_touches ext d cmd u tok mode u'\<close>: with \<open>d\<close> levels of nesting left, the script \<open>cmd\<close>
  names the operand \<open>tok\<close> for reading or writing, as the target of a redirect or as an operand
  of a program read through its wrappers, at the top level or inside a literal \<open>shell -c\<close>
  script. \<open>u\<close> and \<open>u'\<close> tell whether the working directory is unknown, at the start of the
  script and where the operand is used.
\<close>

inductive script_touches ::
  "'g externs \<Rightarrow> nat \<Rightarrow> string \<Rightarrow> bool \<Rightarrow> string \<Rightarrow> file_mode \<Rightarrow> bool \<Rightarrow> bool" for ext where
  touch_redirect: "parse_shell ext cmd = Some tree \<Longrightarrow> r \<in> set (shell_redirect_targets tree cmd) \<Longrightarrow>
    rd_path r = Some tok \<Longrightarrow>
    script_touches ext d cmd u tok (rd_mode r)
      (u \<or> cwd_unpinned_before (cwd_poison_positions tree cmd) (rd_start r) (rd_scope r))"
| touch_operand: "parse_shell ext cmd = Some tree \<Longrightarrow> i \<in> set (shell_command_invocations tree cmd) \<Longrightarrow>
    (tok, mode) \<in> set (operands_of (run_words i)) \<Longrightarrow>
    script_touches ext d cmd u tok mode (inv_unpinned (cwd_poison_positions tree cmd) u i)"
| touch_inline: "parse_shell ext cmd = Some tree \<Longrightarrow> i \<in> set (shell_command_invocations tree cmd) \<Longrightarrow>
    inline_of (shell_words (run_words i)) = Some inner \<Longrightarrow>
    script_touches ext d inner (inv_unpinned (cwd_poison_positions tree cmd) u i) tok mode u' \<Longrightarrow>
    script_touches ext (Suc d) cmd u tok mode u'"

text \<open>What the gate cannot pin in a script.\<close>

inductive script_doubt :: "'g externs \<Rightarrow> nat \<Rightarrow> string \<Rightarrow> bool \<Rightarrow> bool \<Rightarrow> bool" for ext where
  doubt_no_tree: "parse_shell ext cmd = None \<Longrightarrow> script_doubt ext d cmd u True"
| doubt_error: "parse_shell ext cmd = Some tree \<Longrightarrow> ts_has_error tree \<Longrightarrow> script_doubt ext d cmd u True"
| doubt_redirect: "parse_shell ext cmd = Some tree \<Longrightarrow> r \<in> set (shell_redirect_targets tree cmd) \<Longrightarrow>
    rd_ambiguous r \<Longrightarrow> script_doubt ext d cmd u e"
| doubt_invocation: "parse_shell ext cmd = Some tree \<Longrightarrow> i \<in> set (shell_command_invocations tree cmd) \<Longrightarrow>
    invocation_doubt (ts_has_error tree) (inv_unpinned (cwd_poison_positions tree cmd) u i) i \<Longrightarrow>
    script_doubt ext d cmd u e"
| doubt_depth: "parse_shell ext cmd = Some tree \<Longrightarrow> i \<in> set (shell_command_invocations tree cmd) \<Longrightarrow>
    inline_of (shell_words (run_words i)) \<noteq> None \<Longrightarrow> script_doubt ext 0 cmd u e"
| doubt_inline: "parse_shell ext cmd = Some tree \<Longrightarrow> i \<in> set (shell_command_invocations tree cmd) \<Longrightarrow>
    inline_of (shell_words (run_words i)) = Some inner \<Longrightarrow>
    script_doubt ext d inner (inv_unpinned (cwd_poison_positions tree cmd) u i) True \<Longrightarrow>
    script_doubt ext (Suc d) cmd u e"

inductive_simps script_touches_iff: "script_touches ext d cmd u tok mode u'"
inductive_simps script_doubt_iff: "script_doubt ext d cmd u e"

lemma shell_script_gate_level:
  assumes k: "0 < k" and tree: "parse_shell ext cmd = Some tree"
  shows "k \<le> gate_level (shell_script_gate ext fs p cwd enter cmd u e) \<longleftrightarrow>
    (\<exists>r \<in> set (shell_redirect_targets tree cmd).
        (\<exists>path. rd_path r = Some path \<and> k \<le> gate_level (evaluate_shell_path ext fs p path cwd (rd_mode r)
            (u \<or> cwd_unpinned_before (cwd_poison_positions tree cmd) (rd_start r) (rd_scope r))))
        \<or> (k \<le> 1 \<and> rd_ambiguous r))
    \<or> (\<exists>i \<in> set (shell_command_invocations tree cmd).
        let u' = inv_unpinned (cwd_poison_positions tree cmd) u i
        in (\<exists>tm \<in> set (operands_of (run_words i)).
              k \<le> gate_level (evaluate_shell_path ext fs p (fst tm) cwd (snd tm) u'))
           \<or> (k \<le> 1 \<and> invocation_doubt (ts_has_error tree) u' i)
           \<or> (\<exists>inner. inline_of (shell_words (run_words i)) = Some inner \<and>
                (case enter of None \<Rightarrow> k \<le> 1 | Some f \<Rightarrow> k \<le> gate_level (f inner u'))))
    \<or> (k \<le> 1 \<and> e \<and> ts_has_error tree)"
proof -
  have fin: "k \<le> gate_level (combine_gate_decisions (fst st) (ask_if (snd st))) \<longleftrightarrow> k \<le> state_level st"
    for st using k by (auto simp: gate.le_opt_level_combine le_state_level)
  show ?thesis
    unfolding shell_script_gate_def tree option.case Let_def fin
      state_level_foldl [where f = "invocation_step ext fs p cwd enter (ts_has_error tree) u
          (cwd_poison_positions tree cmd)", OF invocation_step_level [OF k]]
      state_level_foldl [where f = "redirect_step ext fs p cwd u (cwd_poison_positions tree cmd)",
        OF redirect_step_level [OF k]]
    using k by (simp add: le_max_iff_disj) blast
qed

lemma touches_tree:
  assumes "parse_shell ext cmd = Some tree"
  shows "(\<exists>tok mode u'. script_touches ext d cmd u tok mode u' \<and> P tok mode u') \<longleftrightarrow>
    (\<exists>r \<in> set (shell_redirect_targets tree cmd). \<exists>tok. rd_path r = Some tok \<and> P tok (rd_mode r)
        (u \<or> cwd_unpinned_before (cwd_poison_positions tree cmd) (rd_start r) (rd_scope r)))
    \<or> (\<exists>i \<in> set (shell_command_invocations tree cmd).
        (\<exists>tm \<in> set (operands_of (run_words i)).
           P (fst tm) (snd tm) (inv_unpinned (cwd_poison_positions tree cmd) u i))
        \<or> (\<exists>d' inner. d = Suc d' \<and> inline_of (shell_words (run_words i)) = Some inner
           \<and> (\<exists>tok mode u'. script_touches ext d' inner (inv_unpinned (cwd_poison_positions tree cmd) u i)
                  tok mode u' \<and> P tok mode u')))" (is "?l \<longleftrightarrow> ?r")
proof
  assume ?l
  then obtain tok mode u' where t: "script_touches ext d cmd u tok mode u'" "P tok mode u'" by blast
  from t(1) show ?r
  proof (cases rule: script_touches.cases)
    case (touch_operand tree' i)
    then show ?thesis using assms t(2) by (intro disjI2 bexI [of _ i] disjI1 bexI [of _ "(tok, mode)"]) auto
  next
    case (touch_redirect tree' r)
    then show ?thesis using assms t(2) by (intro disjI1 bexI [of _ r]) auto
  next
    case (touch_inline tree' i inner d')
    then show ?thesis using assms t(2) by (intro disjI2 bexI [of _ i] disjI2) auto
  qed
next
  assume ?r
  then show ?l
    using touch_redirect [OF assms, of _ _ d u] touch_operand [OF assms, of _ _ _ d u]
      touch_inline [OF assms, of _ _ _ u] by fastforce
qed

lemma doubt_tree:
  assumes "parse_shell ext cmd = Some tree"
  shows "script_doubt ext d cmd u e \<longleftrightarrow>
    (\<exists>r \<in> set (shell_redirect_targets tree cmd). rd_ambiguous r)
    \<or> (\<exists>i \<in> set (shell_command_invocations tree cmd).
        invocation_doubt (ts_has_error tree) (inv_unpinned (cwd_poison_positions tree cmd) u i) i
        \<or> (\<exists>inner. inline_of (shell_words (run_words i)) = Some inner \<and>
             (case d of 0 \<Rightarrow> True
              | Suc d' \<Rightarrow> script_doubt ext d' inner (inv_unpinned (cwd_poison_positions tree cmd) u i) True)))
    \<or> (e \<and> ts_has_error tree)" (is "?l \<longleftrightarrow> ?r")
proof
  show "?l \<Longrightarrow> ?r"
    by (cases rule: script_doubt.cases, assumption) (use assms in \<open>auto split: nat.split\<close>)
  show "?r \<Longrightarrow> ?l"
    using doubt_redirect [OF assms] doubt_invocation [OF assms] doubt_depth [OF assms]
      doubt_inline [OF assms] doubt_error [OF assms] by (cases d) auto
qed

lemma untree:
  assumes "parse_shell ext cmd = None"
  shows "\<not> script_touches ext d cmd u tok mode u'" "script_doubt ext d cmd u e \<longleftrightarrow> e"
  using assms by (auto elim: script_touches.cases script_doubt.cases intro: doubt_no_tree)

lemma inner_level:
  assumes k: "0 < k"
  shows "k \<le> gate_level (evaluate_shell_file_access_inner ext fs p cwd d cmd u e) \<longleftrightarrow>
    (\<exists>tok mode u'. script_touches ext d cmd u tok mode u'
       \<and> k \<le> gate_level (evaluate_shell_path ext fs p tok cwd mode u'))
    \<or> (k \<le> 1 \<and> script_doubt ext d cmd u e)"
proof (induction d arbitrary: cmd u e)
  case 0
  show ?case
  proof (cases "parse_shell ext cmd")
    case None
    then show ?thesis
      using k by (auto simp: untree shell_script_gate_def)
  next
    case (Some tree)
    show ?thesis
      unfolding evaluate_shell_file_access_inner.simps shell_script_gate_level [OF k Some]
        touches_tree [OF Some] doubt_tree [OF Some] Let_def option.case nat.case
      by blast
  qed
next
  case (Suc d)
  show ?case
  proof (cases "parse_shell ext cmd")
    case None
    then show ?thesis
      using k by (auto simp: untree shell_script_gate_def)
  next
    case (Some tree)
    show ?thesis
      unfolding evaluate_shell_file_access_inner.simps shell_script_gate_level [OF k Some]
        touches_tree [OF Some] doubt_tree [OF Some] Let_def option.case nat.case Suc.IH nat.inject
      by blast
  qed
qed

section \<open>Judging one operand\<close>

definition floating :: "string \<Rightarrow> bool \<Rightarrow> bool" where
  "floating tok u \<longleftrightarrow> u \<and> \<not> is_absolute_shell_path (normalize_shell_path tok)"

text \<open>
  The paths an operand is judged under: its normalised text and, unless it is relative to an
  unknown directory, its absolute form and the target it resolves to.
\<close>

definition path_spellings :: "filesystem \<Rightarrow> string \<Rightarrow> string \<Rightarrow> bool \<Rightarrow> string set" where
  "path_spellings fs tok cwd u =
     {normalize_shell_path tok} \<union>
     (if floating tok u then {}
      else {anchored_path tok cwd} \<union>
        {s. \<exists>raw. raw_absolute_path tok cwd u = Some raw \<and> resolve_symlink_target fs raw = Some s})"

definition path_doubt :: "filesystem \<Rightarrow> string \<Rightarrow> string \<Rightarrow> bool \<Rightarrow> bool" where
  "path_doubt fs tok cwd u \<longleftrightarrow>
     floating tok u
     \<or> (\<exists>raw. raw_absolute_path tok cwd u = Some raw \<and> resolve_symlink_target fs raw = None
          \<and> path_has_symlink fs raw)"

lemma resolved_decision_level:
  assumes "0 < k"
  shows "k \<le> gate_level (escalate_access ext p (shell_access mode (anchored_path tok cwd)))
      \<or> k \<le> gate_level (resolved_decision ext fs p tok cwd mode u) \<longleftrightarrow>
    k \<le> gate_level (escalate_access ext p (shell_access mode (anchored_path tok cwd)))
      \<or> (\<exists>raw s. raw_absolute_path tok cwd u = Some raw \<and> resolve_symlink_target fs raw = Some s
            \<and> k \<le> gate_level (escalate_access ext p (shell_access mode s)))
      \<or> (k \<le> 1 \<and> (\<exists>raw. raw_absolute_path tok cwd u = Some raw \<and> resolve_symlink_target fs raw = None
            \<and> path_has_symlink fs raw))"
  using assms by (auto simp: resolved_decision_def split: option.split)

lemma shell_path_level:
  assumes "0 < k"
  shows "k \<le> gate_level (evaluate_shell_path ext fs p tok cwd mode u) \<longleftrightarrow>
    (\<exists>s \<in> path_spellings fs tok cwd u. k \<le> gate_level (escalate_access ext p (shell_access mode s)))
    \<or> (k \<le> 1 \<and> path_doubt fs tok cwd u)"
proof -
  have "k \<le> gate_level (evaluate_shell_path ext fs p tok cwd mode u) \<longleftrightarrow>
    k \<le> gate_level (escalate_access ext p (shell_access mode (normalize_shell_path tok)))
    \<or> (if floating tok u then k \<le> 1
       else k \<le> gate_level (escalate_access ext p (shell_access mode (anchored_path tok cwd)))
         \<or> k \<le> gate_level (resolved_decision ext fs p tok cwd mode u))"
    using assms
    by (auto simp: evaluate_shell_path_def Let_def gate.le_opt_level_combine floating_def ask_if_def)
  then show ?thesis
    unfolding resolved_decision_level [OF assms] path_spellings_def path_doubt_def by auto
qed

lemma escalate_access_reject:
  "3 \<le> gate_level (escalate_access ext p a) \<longleftrightarrow> matched ext p a Act_Deny"
proof -
  have "3 \<le> gate_level (escalate_access ext p a) \<longleftrightarrow> (\<exists>r. evaluate ext p a = Some (Reject r))"
    by (auto simp: escalate_access_def split: option.split decision.split)
  then show ?thesis
    using evaluate_cases [of ext p a] by (auto split: if_splits)
qed

lemma escalate_access_rule:
  assumes "0 < k" "k \<le> 2"
  shows "k \<le> gate_level (escalate_access ext p a) \<longleftrightarrow> matched ext p a Act_Deny \<or> matched ext p a Act_Ask"
  using assms evaluate_cases [of ext p a] by (auto simp: escalate_access_def split: if_splits)

lemma file_rule_needs_restriction:
  assumes "matched ext (compiled_policy_new ext c) (shell_access mode s) act" "act \<noteq> Act_Allow"
  shows "has_file_restrictions (compiled_policy_new ext c)"
proof -
  from assms obtain r where r: "r \<in> set (rules c)" "action r = act"
    and t: "tool_filter_matches (shell_access mode s) (tool r)"
    by (auto simp: matched_compiled rule_matches_def)
  from t have "tool r \<in> {Filter_Read, Filter_Edit, Filter_Any}"
    by (cases "tool r"; cases mode) (simp_all add: shell_access_def)
  with r assms(2) show ?thesis
    by (cases act) (auto simp: compiled_policy_new_def list_ex_iff is_restriction_def)
qed

section \<open>Properties\<close>

text \<open>A rule of the given action binds on an operand that the script names, under one of its spellings.\<close>

definition touches_rule ::
  "'g externs \<Rightarrow> filesystem \<Rightarrow> permission_config \<Rightarrow> string \<Rightarrow> string \<Rightarrow> rule_action \<Rightarrow> bool" where
  "touches_rule ext fs c cwd cmd act \<longleftrightarrow>
     (\<exists>tok mode u. script_touches ext MAX_INLINE_SHELL_DEPTH cmd False tok mode u
        \<and> (\<exists>s \<in> path_spellings fs tok cwd u.
             matched ext (compiled_policy_new ext c) (shell_access mode s) act))"

lemma file_gate_level:
  assumes "0 < k" "has_file_restrictions p"
  shows "k \<le> gate_level (evaluate_shell_file_access_gate ext fs p cmd cwd) \<longleftrightarrow>
    (\<exists>tok mode u. script_touches ext MAX_INLINE_SHELL_DEPTH cmd False tok mode u
       \<and> ((\<exists>s \<in> path_spellings fs tok cwd u. k \<le> gate_level (escalate_access ext p (shell_access mode s)))
          \<or> (k \<le> 1 \<and> path_doubt fs tok cwd u)))
    \<or> (k \<le> 1 \<and> script_doubt ext MAX_INLINE_SHELL_DEPTH cmd False False)"
  using assms by (simp add: evaluate_shell_file_access_gate_def inner_level shell_path_level)

lemma file_gate_reject:
  "3 \<le> gate_level (evaluate_shell_file_access_gate ext fs (compiled_policy_new ext c) cmd cwd) \<longleftrightarrow>
     touches_rule ext fs c cwd cmd Act_Deny"
proof (cases "has_file_restrictions (compiled_policy_new ext c)")
  case True
  then show ?thesis
    by (simp add: file_gate_level touches_rule_def escalate_access_reject)
next
  case False
  then show ?thesis
    using file_rule_needs_restriction [of ext c _ _ Act_Deny]
    by (auto simp: touches_rule_def evaluate_shell_file_access_gate_def)
qed

lemma file_gate_rule:
  "2 \<le> gate_level (evaluate_shell_file_access_gate ext fs (compiled_policy_new ext c) cmd cwd) \<longleftrightarrow>
     touches_rule ext fs c cwd cmd Act_Deny \<or> touches_rule ext fs c cwd cmd Act_Ask"
proof (cases "has_file_restrictions (compiled_policy_new ext c)")
  case True
  then show ?thesis
    by (auto simp: file_gate_level touches_rule_def escalate_access_rule)
next
  case False
  then show ?thesis
    using file_rule_needs_restriction [of ext c _ _ Act_Deny]
      file_rule_needs_restriction [of ext c _ _ Act_Ask]
    by (auto simp: touches_rule_def evaluate_shell_file_access_gate_def)
qed

text \<open>
  File rules bind inside shell commands: the gate rejects a command line exactly when a
  \<open>Read\<close> or \<open>Edit\<close> deny rule matches a file that it names for reading or writing (as the target
  of a redirect or as an operand of a known program, through wrappers and nested \<open>shell -c\<close>
  scripts), under its normalised text, its absolute form or the target of its symbolic links;
  it asks because of a rule exactly when no deny rule but some ask rule matches so.
\<close>

theorem file_gate_rule_answers:
  "((\<exists>r. evaluate_shell_file_access_gate ext fs (compiled_policy_new ext c) cmd cwd = Some (Gate_Reject r)) \<longleftrightarrow>
      touches_rule ext fs c cwd cmd Act_Deny)
   \<and> (evaluate_shell_file_access_gate ext fs (compiled_policy_new ext c) cmd cwd = Some AskRuleMatch \<longleftrightarrow>
      \<not> touches_rule ext fs c cwd cmd Act_Deny \<and> touches_rule ext fs c cwd cmd Act_Ask)"
  using file_gate_reject [of ext fs c cmd cwd] file_gate_rule [of ext fs c cmd cwd]
  unfolding gate_level_cases by blast

text \<open>
  C20. When the file gate passes: with a file restriction configured it lets a command line pass
  exactly when no deny or ask rule matches a file that it names, under any of its spellings, and
  nothing in it is in doubt. In doubt are: a redirect with an ambiguous target; a command whose
  wrappers cannot be peeled reliably (too many of them, a packed \<open>env -S\<close> string, an \<open>env\<close> option
  or a transparent prefix that is not understood); a \<open>shell -c\<close> script that is not literal, whose
  options are not understood, or that stands in a tree with a syntax error; a program known to
  read or write files, when a word of it is not literal, the tree has a syntax error or the
  working directory is unknown; an ambiguous operand; a search that can recurse; a nested script
  that is nested too deep, has no tree or has a syntax error; a relative file in an unknown
  directory; and a file with a link that cannot be resolved. A command line that has no tree, or
  one with a syntax error that contains none of these, is left to the other gate.
\<close>

theorem file_gate_fails_closed:
  assumes "has_file_restrictions (compiled_policy_new ext c)"
  shows "evaluate_shell_file_access_gate ext fs (compiled_policy_new ext c) cmd cwd = None \<longleftrightarrow>
    \<not> script_doubt ext MAX_INLINE_SHELL_DEPTH cmd False False
    \<and> (\<forall>tok mode u. script_touches ext MAX_INLINE_SHELL_DEPTH cmd False tok mode u \<longrightarrow>
         \<not> path_doubt fs tok cwd u)
    \<and> \<not> touches_rule ext fs c cwd cmd Act_Deny \<and> \<not> touches_rule ext fs c cwd cmd Act_Ask"
proof -
  have "x = None \<longleftrightarrow> \<not> 1 \<le> gate_level x" for x
    using gate.level_pos by (cases x) (auto simp: Suc_le_eq)
  then show ?thesis
    using file_gate_level [OF _ assms, of 1 ext fs cmd cwd]
    by (auto simp: touches_rule_def escalate_access_rule)
qed

definition file_rule :: "rule_action \<Rightarrow> tool_filter \<Rightarrow> string \<Rightarrow> permission_rule" where
  "file_rule act flt pat =
     \<lparr>action = act, tool = flt, pattern = Some pat, pattern_mode_of = Mode_Glob\<rparr>"

lemma ls_rm_operands:
  "map (operands_of \<circ> run_words) (shell_command_invocations ls_rm_tree ls_rm_src) =
     [[], [(''x'', Mode_Write)]]"
  by code_simp

lemma ls_rm_touches: "\<exists>u. script_touches sample_ext d ls_rm_src False ''x'' Mode_Write u"
proof -
  have tree: "parse_shell sample_ext ls_rm_src = Some ls_rm_tree"
    by (simp add: sample_ext_def)
  obtain i where "i \<in> set (shell_command_invocations ls_rm_tree ls_rm_src)"
    "operands_of (run_words i) = [(''x'', Mode_Write)]"
    using ls_rm_operands by (fastforce simp: map_eq_Cons_conv)
  then show ?thesis using touch_operand [OF tree, of i "''x''" Mode_Write] by auto
qed

theorem file_gate_fails_closed_witness:
  "evaluate_shell_file_access_gate sample_ext flat_fs
     (compiled_policy_new sample_ext (permission_config_new [file_rule Act_Deny Filter_Edit ''x'']))
     ls_rm_src ''/w'' \<noteq> None"
proof -
  let ?c = "permission_config_new [file_rule Act_Deny Filter_Edit ''x'']"
  have r: "has_file_restrictions (compiled_policy_new sample_ext ?c)"
    by code_simp
  have "matched sample_ext (compiled_policy_new sample_ext ?c) (shell_access Mode_Write ''x'') Act_Deny"
    and "normalize_shell_path ''x'' = ''x''"
    by code_simp+
  then have "touches_rule sample_ext flat_fs ?c ''/w'' ls_rm_src Act_Deny"
    using ls_rm_touches unfolding touches_rule_def path_spellings_def by fastforce
  then show ?thesis using file_gate_fails_closed [OF r] by blast
qed

end
