(* ===== verification/Gate_Preflight.thy ===== *)
theory Gate_Preflight
  imports Shell_Access_Gate
begin

text \<open>
  The preflight of a permission request (\<open>gbuild-workspace/src/permission/gate_preflight.rs\<close>): the
  direct rules and both shell gates are evaluated once, and the answer keeps why a gate asks,
  so that in auto mode only doubts of the analysis, never matches of a rule, are left to the
  classifier.
\<close>

record gate_preflight =
  direct :: "decision option"
  bash_command :: "gate_decision option"
  shell_file :: "gate_decision option"
  defers_gate_ask :: bool

definition preflight_evaluate ::
  "'g externs \<Rightarrow> filesystem \<Rightarrow> 'g compiled_policy option \<Rightarrow> access_kind \<Rightarrow> string \<Rightarrow> bool
     \<Rightarrow> gate_preflight" where
  "preflight_evaluate ext fs policy access cwd auto_mode =
     (let dir = Option.bind policy (\<lambda>p. evaluate ext p access);
          (bash, file) =
            (case (policy, access) of
               (Some p, Access_Bash cmd) \<Rightarrow>
                 (evaluate_bash_command_gate ext p cmd, evaluate_shell_file_access_gate ext fs p cmd cwd)
             | _ \<Rightarrow> (None, None));
          rule_match_ask = (dir = Some Ask \<or> bash = Some AskRuleMatch \<or> file = Some AskRuleMatch);
          fail_closed_ask = (bash = Some AskFailClosed \<or> file = Some AskFailClosed)
      in \<lparr>direct = dir, bash_command = bash, shell_file = file,
          defers_gate_ask = (auto_mode \<and> fail_closed_ask \<and> \<not> rule_match_ask)\<rparr>)"

definition policy_decision :: "gate_preflight \<Rightarrow> decision option" where
  "policy_decision g =
     combine_decisions
       (combine_decisions (direct g) (map_option into_decision (bash_command g)))
       (map_option into_decision (shell_file g))"

definition policy_forced_prompt :: "gate_preflight \<Rightarrow> bool" where
  "policy_forced_prompt g \<longleftrightarrow> policy_decision g = Some Ask"

definition gate_asks :: "gate_decision option \<Rightarrow> bool" where
  "gate_asks d = (case d of None \<Rightarrow> False | Some g \<Rightarrow> is_ask g)"

definition shell_file_forced_prompt :: "gate_preflight \<Rightarrow> bool" where
  "shell_file_forced_prompt g = gate_asks (shell_file g)"

definition shell_forced_prompt :: "gate_preflight \<Rightarrow> bool" where
  "shell_forced_prompt g \<longleftrightarrow> gate_asks (bash_command g) \<or> shell_file_forced_prompt g"

definition admits_auto_classifier :: "gate_preflight \<Rightarrow> bool" where
  "admits_auto_classifier g \<longleftrightarrow> \<not> policy_forced_prompt g \<or> defers_gate_ask g"

definition POLICY_ASK :: string where "POLICY_ASK = ''policy_ask''"
definition BASH_COMMAND_GATE_ASK :: string where "BASH_COMMAND_GATE_ASK = ''bash_command_gate_ask''"
definition SHELL_FILE_GATE_ASK :: string where "SHELL_FILE_GATE_ASK = ''shell_file_gate_ask''"

definition prompt_trigger :: "gate_preflight \<Rightarrow> string option \<Rightarrow> string option" where
  "prompt_trigger g auto_prompt_reason =
     (if direct g = Some Ask then Some POLICY_ASK
      else if defers_gate_ask g then auto_prompt_reason
      else if gate_asks (bash_command g) then Some BASH_COMMAND_GATE_ASK
      else if shell_file_forced_prompt g then Some SHELL_FILE_GATE_ASK
      else auto_prompt_reason)"

section \<open>The combined decision\<close>

interpretation dec: escalation "\<lambda>d. Suc (decision_rank d)" combine_decisions
proof
  show "combine_decisions x None = x" for x by (cases x) simp_all
qed simp_all

abbreviation decision_level :: "decision option \<Rightarrow> nat" where
  "decision_level \<equiv> opt_level (\<lambda>d. Suc (decision_rank d))"

lemma policy_decision_level:
  "k \<le> decision_level (policy_decision g) \<longleftrightarrow>
     k \<le> decision_level (direct g) \<or> k \<le> decision_level (map_option into_decision (bash_command g))
     \<or> k \<le> decision_level (map_option into_decision (shell_file g))"
  by (simp add: policy_decision_def dec.le_opt_level_combine disj_assoc)

text \<open>What the rules and the gates can answer, by severity.\<close>

definition rule_decision :: "decision option \<Rightarrow> bool" where
  "rule_decision d \<longleftrightarrow> d \<in> {None, Some Allow, Some Ask} \<or> (\<exists>r. d = Some (Reject r))"

lemma rule_decision_level:
  assumes "rule_decision d"
  shows "4 \<le> decision_level d \<longleftrightarrow> (\<exists>r. d = Some (Reject r))"
    and "3 \<le> decision_level d \<longleftrightarrow> (\<exists>r. d = Some (Reject r)) \<or> d = Some Ask"
    and "2 \<le> decision_level d \<longleftrightarrow> d \<noteq> None"
  using assms by (auto simp: rule_decision_def)

lemma rule_decision_evaluate: "rule_decision (evaluate ext p a)"
  using evaluate_cases [of ext p a] by (auto simp: rule_decision_def split: if_splits)

lemma rule_decision_gate: "rule_decision (map_option into_decision x)"
  by (cases x; cases "the x") (auto simp: rule_decision_def)

lemma rule_decision_combine:
  "rule_decision x \<Longrightarrow> rule_decision y \<Longrightarrow> rule_decision (combine_decisions x y)"
  by (cases x; cases y) (auto simp: rule_decision_def)

lemma gate_decision_level:
  "4 \<le> decision_level (map_option into_decision x) \<longleftrightarrow> 3 \<le> gate_level x"
  "3 \<le> decision_level (map_option into_decision x) \<longleftrightarrow> x \<noteq> None"
  by (cases x; cases "the x"; simp)+

abbreviation bash_preflight ::
  "'g externs \<Rightarrow> filesystem \<Rightarrow> permission_config \<Rightarrow> string \<Rightarrow> string \<Rightarrow> bool \<Rightarrow> gate_preflight" where
  "bash_preflight ext fs c cmd cwd auto \<equiv>
     preflight_evaluate ext fs (Some (compiled_policy_new ext c)) (Access_Bash cmd) cwd auto"

lemma bash_preflight_fields [simp]:
  "direct (bash_preflight ext fs c cmd cwd auto) = evaluate ext (compiled_policy_new ext c) (Access_Bash cmd)"
  "bash_command (bash_preflight ext fs c cmd cwd auto) =
     evaluate_bash_command_gate ext (compiled_policy_new ext c) cmd"
  "shell_file (bash_preflight ext fs c cmd cwd auto) =
     evaluate_shell_file_access_gate ext fs (compiled_policy_new ext c) cmd cwd"
  by (simp_all add: preflight_evaluate_def Let_def)

lemma rule_decision_preflight: "rule_decision (policy_decision (bash_preflight ext fs c cmd cwd auto))"
  by (simp add: policy_decision_def rule_decision_combine rule_decision_evaluate rule_decision_gate)

text \<open>A rule of the given action binds somewhere in the command line.\<close>

definition binds_somewhere ::
  "'g externs \<Rightarrow> filesystem \<Rightarrow> permission_config \<Rightarrow> string \<Rightarrow> string \<Rightarrow> rule_action \<Rightarrow> bool" where
  "binds_somewhere ext fs c cmd cwd act \<longleftrightarrow>
     matched ext (compiled_policy_new ext c) (Access_Bash cmd) act
     \<or> reaches_rule ext c cmd act \<or> touches_rule ext fs c cwd cmd act"

lemma evaluate_reject_iff:
  "(\<exists>r. evaluate ext p a = Some (Reject r)) \<longleftrightarrow> matched ext p a Act_Deny"
  using evaluate_cases [of ext p a] by (auto split: if_splits)

lemma preflight_reject:
  "(\<exists>r. policy_decision (bash_preflight ext fs c cmd cwd auto) = Some (Reject r)) \<longleftrightarrow>
     binds_somewhere ext fs c cmd cwd Act_Deny"
  unfolding rule_decision_level(1) [OF rule_decision_preflight, symmetric] policy_decision_level
    bash_preflight_fields gate_decision_level gate_level_reject file_gate_reject
    rule_decision_level(1) [OF rule_decision_evaluate] evaluate_reject_iff binds_somewhere_def ..

lemma preflight_not_None:
  "policy_decision (bash_preflight ext fs c cmd cwd auto) = Some Allow \<Longrightarrow>
     evaluate ext (compiled_policy_new ext c) (Access_Bash cmd) = Some Allow
     \<and> evaluate_bash_command_gate ext (compiled_policy_new ext c) cmd = None
     \<and> evaluate_shell_file_access_gate ext fs (compiled_policy_new ext c) cmd cwd = None"
  using policy_decision_level [of 3 "bash_preflight ext fs c cmd cwd auto"]
    rule_decision_evaluate [of ext "compiled_policy_new ext c" "Access_Bash cmd"]
  by (auto simp: gate_decision_level rule_decision_def policy_decision_def)

lemma deferred_ask_no_rule:
  assumes "policy_forced_prompt (bash_preflight ext fs c cmd cwd auto)"
    and "admits_auto_classifier (bash_preflight ext fs c cmd cwd auto)"
  shows "auto \<and> \<not> binds_somewhere ext fs c cmd cwd Act_Deny \<and> \<not> binds_somewhere ext fs c cmd cwd Act_Ask"
proof -
  let ?p = "compiled_policy_new ext c"
  from assms(2) assms(1) have d: "defers_gate_ask (bash_preflight ext fs c cmd cwd auto)"
    by (simp add: admits_auto_classifier_def)
  then have auto and ne: "evaluate ext ?p (Access_Bash cmd) \<noteq> Some Ask"
    "evaluate_bash_command_gate ext ?p cmd \<noteq> Some AskRuleMatch"
    "evaluate_shell_file_access_gate ext fs ?p cmd cwd \<noteq> Some AskRuleMatch"
    by (simp_all add: preflight_evaluate_def Let_def)
  from assms(1) have nodeny: "\<not> binds_somewhere ext fs c cmd cwd Act_Deny"
    using preflight_reject [of ext fs c cmd cwd auto] by (auto simp: policy_forced_prompt_def)
  with ne show ?thesis
    using \<open>auto\<close> evaluate_cases [of ext ?p "Access_Bash cmd"]
      gate_level_ask [of ext c cmd] gate_level_reject [of ext c cmd]
      file_gate_rule [of ext fs c cmd cwd] file_gate_reject [of ext fs c cmd cwd]
    unfolding binds_somewhere_def gate_level_cases(2) by (auto split: if_splits)
qed

lemma preflight_ask_binds:
  assumes "binds_somewhere ext fs c cmd cwd Act_Ask"
  shows "policy_forced_prompt (bash_preflight ext fs c cmd cwd auto)
    \<or> (\<exists>r. policy_decision (bash_preflight ext fs c cmd cwd auto) = Some (Reject r))"
proof -
  let ?p = "compiled_policy_new ext c"
  have g: "2 \<le> gate_level x \<Longrightarrow> 3 \<le> decision_level (map_option into_decision x)" for x
    unfolding gate_decision_level(2) by (cases x) simp_all
  have e: "matched ext ?p (Access_Bash cmd) Act_Ask \<Longrightarrow> 3 \<le> decision_level (evaluate ext ?p (Access_Bash cmd))"
    using evaluate_cases [of ext ?p "Access_Bash cmd"] by (auto split: if_splits)
  have "3 \<le> decision_level (policy_decision (bash_preflight ext fs c cmd cwd auto))"
    using assms g e unfolding policy_decision_level bash_preflight_fields binds_somewhere_def
      gate_level_ask file_gate_rule by (meson gate_level_ask file_gate_rule)
  then show ?thesis
    unfolding rule_decision_level(2) [OF rule_decision_preflight] policy_forced_prompt_def by blast
qed

section \<open>Properties\<close>

text \<open>
  What a command line needs to run without a prompt: if the combined decision on a shell
  command is to allow it, then no deny rule and no ask rule binds anywhere in it (on its text,
  on a command it reaches through chains, wrappers and nested scripts, or on a file it names),
  and every command it runs is in normal form and matched by an allow rule.
\<close>

theorem preflight_allow_is_clean:
  assumes "policy_decision (bash_preflight ext fs c cmd cwd auto) = Some Allow"
  shows "\<not> binds_somewhere ext fs c cmd cwd Act_Deny \<and> \<not> binds_somewhere ext fs c cmd cwd Act_Ask
    \<and> (chain_runs ext cmd ws \<longrightarrow> bash_words_allowed ext (compiled_policy_new ext c) ws \<and> irreducible ws)"
proof -
  let ?p = "compiled_policy_new ext c"
  from preflight_not_None [OF assms] have a: "evaluate ext ?p (Access_Bash cmd) = Some Allow"
    and b: "\<not> 2 \<le> gate_level (evaluate_bash_command_gate ext ?p cmd)"
    and f: "\<not> 2 \<le> gate_level (evaluate_shell_file_access_gate ext fs ?p cmd cwd)"
    by simp_all
  from a evaluate_cases [of ext ?p "Access_Bash cmd"]
  have nm: "\<not> matched ext ?p (Access_Bash cmd) Act_Deny" "\<not> matched ext ?p (Access_Bash cmd) Act_Ask"
    and "allow_branch ext ?p (Access_Bash cmd)" by (auto split: if_splits)
  then have "bash_chain_fully_allowed ext ?p MAX_INLINE_SHELL_DEPTH cmd"
    by (simp add: allow_branch_def)
  then have "chain_runs ext cmd ws \<Longrightarrow> bash_words_allowed ext ?p ws \<and> irreducible ws"
    using chain_allowed_runs by blast
  then show ?thesis
    using nm b f unfolding gate_level_ask file_gate_rule binds_somewhere_def by blast
qed

theorem preflight_allow_is_clean_witness:
  "\<not> binds_somewhere sample_ext flat_fs
     (permission_config_new [bash_rule Act_Allow ''ls'', bash_rule Act_Allow ''rm'']) ls_rm_src ''/w'' Act_Ask"
proof -
  let ?c = "permission_config_new [bash_rule Act_Allow ''ls'', bash_rule Act_Allow ''rm'']"
  have "policy_decision (bash_preflight sample_ext flat_fs ?c ls_rm_src ''/w'' False) = Some Allow"
    by code_simp
  then show ?thesis using preflight_allow_is_clean by blast
qed

text \<open>
  The classifier never waives a rule: when the combined decision on a shell command is to
  ask and the automatic classifier may nevertheless arbitrate, then auto mode is on and no deny
  and no ask rule binds anywhere in the command line; the ask comes only from what the analysis
  could not read.
\<close>

theorem classifier_never_waives_rules:
  assumes "policy_forced_prompt (bash_preflight ext fs c cmd cwd auto)"
    and "admits_auto_classifier (bash_preflight ext fs c cmd cwd auto)"
  shows "auto \<and> \<not> binds_somewhere ext fs c cmd cwd Act_Deny \<and> \<not> binds_somewhere ext fs c cmd cwd Act_Ask"
  by (rule deferred_ask_no_rule [OF assms])

theorem classifier_never_waives_rules_witness:
  "\<not> binds_somewhere sample_ext flat_fs (permission_config_new [bash_rule Act_Deny ''rm'']) ''ls | sh'' ''/w'' Act_Deny"
proof -
  let ?g = "bash_preflight sample_ext flat_fs (permission_config_new [bash_rule Act_Deny ''rm'']) ''ls | sh'' ''/w'' True"
  have "policy_forced_prompt ?g" "admits_auto_classifier ?g"
    by code_simp+
  then show ?thesis using classifier_never_waives_rules by blast
qed

text \<open>
  A deny rule is final: the combined decision on a shell command is a rejection exactly when
  a deny rule binds somewhere in it, whatever the other rules and gates answer, with or without
  auto mode.
\<close>

theorem preflight_deny_is_final:
  "(\<exists>r. policy_decision (bash_preflight ext fs c cmd cwd auto) = Some (Reject r)) \<longleftrightarrow>
     binds_somewhere ext fs c cmd cwd Act_Deny"
  by (rule preflight_reject)

end
