(* ===== verification/Edit_Protection.thy ===== *)
theory Edit_Protection
  imports Shell_Paths
begin

text \<open>
  The protected edit targets of \<open>gbuild-workspace/src/permission/shell_access.rs\<close>: which paths an
  edit must be confirmed for even where edits are accepted in general, and why. The home
  directory of the program's configuration is the argument \<open>home\<close>.
\<close>

datatype protected_edit_reason =
  HookRoot | GitHooks | Ssh | StartupFile | Etc | GBuildConfig | ClaudeSettings | CursorHooks
  | Sensitive

fun reason_kind :: "protected_edit_reason \<Rightarrow> string" where
  "reason_kind HookRoot = ''hook_root''"
| "reason_kind GitHooks = ''git_hooks''"
| "reason_kind Ssh = ''ssh''"
| "reason_kind StartupFile = ''startup_file''"
| "reason_kind Etc = ''etc''"
| "reason_kind GBuildConfig = ''gbuild_config''"
| "reason_kind ClaudeSettings = ''claude_settings''"
| "reason_kind CursorHooks = ''cursor_hooks''"
| "reason_kind Sensitive = ''sensitive''"

definition STARTUP_FILES :: "string list" where
  "STARTUP_FILES =
     [''.bashrc'', ''.bash_profile'', ''.bash_login'', ''.bash_logout'', ''.profile'', ''.zshrc'',
      ''.zshenv'', ''.zprofile'', ''.zlogin'', ''.zlogout'', ''.kshrc'', ''.cshrc'', ''.tcshrc'',
      ''.login'', ''.logout'', ''.inputrc'', ''.xprofile'']"

definition path_is_under_user_gbuild_hook_root :: "string \<Rightarrow> string \<Rightarrow> bool" where
  "path_is_under_user_gbuild_hook_root path gbuild_home \<longleftrightarrow>
     path_starts_with path (path_join gbuild_home ''hooks'')
     \<or> components path = components (path_join gbuild_home ''hooks-paths'')"

text \<open>\<open>components.windows(2).any(|pair| pair == [a, b])\<close>.\<close>

definition has_pair :: "string \<Rightarrow> string \<Rightarrow> string list \<Rightarrow> bool" where
  "has_pair a b cs = list_ex (\<lambda>(x, y). x = a \<and> y = b) (zip cs (tl cs))"

definition protected_gbuild_hook_root ::
  "filesystem \<Rightarrow> string option \<Rightarrow> string \<Rightarrow> string list \<Rightarrow> bool" where
  "protected_gbuild_hook_root fs home path cs \<longleftrightarrow>
     has_pair ''.gbuild'' ''hooks'' cs
     \<or> suffix [''.gbuild'', ''hooks-paths''] cs
     \<or> (case home of
          None \<Rightarrow> False
        | Some gbuild_home \<Rightarrow>
            let lexical_home = normalize_lexically gbuild_home
            in path_is_under_user_gbuild_hook_root path lexical_home
               \<or> (case resolve_following_symlinks fs lexical_home 0 of
                    None \<Rightarrow> False
                  | Some resolved_home \<Rightarrow> path_is_under_user_gbuild_hook_root path resolved_home))"

definition protected_git_hooks_path :: "string list \<Rightarrow> bool" where
  "protected_git_hooks_path cs \<longleftrightarrow>
     has_pair ''.git'' ''hooks'' cs
     \<or> list_ex (\<lambda>git. cs ! git = ''.git'' \<and> nth_opt cs (git + 1) = Some ''modules''
          \<and> ''hooks'' \<in> set (drop 1 (drop (git + 2) cs))) [0..<length cs]"

definition normal_name :: "path_component \<Rightarrow> string option" where
  "normal_name c = (case c of Normal part \<Rightarrow> Some (map ascii_lower part) | _ \<Rightarrow> None)"

definition protected_edit_reason_of ::
  "filesystem \<Rightarrow> string option \<Rightarrow> string \<Rightarrow> protected_edit_reason option" where
  "protected_edit_reason_of fs home path =
     (let cs = List.map_filter normal_name (components path);
          file = (if cs = [] then [] else last cs)
      in if protected_gbuild_hook_root fs home path cs then Some HookRoot
         else if suffix [''.claude'', ''settings.json''] cs
                 \<or> suffix [''.claude'', ''settings.local.json''] cs then Some ClaudeSettings
         else if suffix [''.cursor'', ''hooks.json''] cs then Some CursorHooks
         else if protected_git_hooks_path cs then Some GitHooks
         else if ''.ssh'' \<in> set cs then Some Ssh
         else if file \<in> set STARTUP_FILES then Some StartupFile
         else if suffix [''.gbuild'', ''config.toml''] cs then Some GBuildConfig
         else if components path = components ''/etc'' \<or> path_starts_with path ''/etc''
           then Some Etc
         else None)"

definition resolved_path_is_within_root :: "filesystem \<Rightarrow> string \<Rightarrow> string \<Rightarrow> bool" where
  "resolved_path_is_within_root fs resolved_path base =
     (case resolve_following_symlinks fs base 0 of
        Some resolved_root \<Rightarrow> path_starts_with resolved_path resolved_root
      | None \<Rightarrow> True)"

definition edit_target_protection ::
  "filesystem \<Rightarrow> string option \<Rightarrow> string \<Rightarrow> protected_edit_reason option" where
  "edit_target_protection fs home path =
     (if \<not> is_absolute path then Some Sensitive
      else case protected_edit_reason_of fs home (normalize_lexically path) of
             Some reason \<Rightarrow> Some reason
           | None \<Rightarrow>
          (case resolve_following_symlinks fs path 0 of
             None \<Rightarrow> Some Sensitive
           | Some resolved \<Rightarrow>
          (case protected_edit_reason_of fs home resolved of
             Some reason \<Rightarrow> Some reason
           | None \<Rightarrow> if resolved_path_is_within_root fs resolved ''/etc'' then Some Sensitive
                     else None)))"

section \<open>What an unconfirmed edit cannot touch\<close>

text \<open>The names of a path that the protection must never let pass, already in lower case.\<close>

definition protected_names :: "string list \<Rightarrow> bool" where
  "protected_names cs \<longleftrightarrow>
     ''.ssh'' \<in> set cs
     \<or> (\<exists>xs ys. cs = xs @ [''.git'', ''hooks''] @ ys)
     \<or> (\<exists>xs m ys zs. cs = xs @ [''.git'', ''modules'', m] @ ys @ [''hooks''] @ zs)
     \<or> (\<exists>xs ys. cs = xs @ [''.gbuild'', ''hooks''] @ ys)
     \<or> suffix [''.gbuild'', ''hooks-paths''] cs \<or> suffix [''.gbuild'', ''config.toml''] cs
     \<or> suffix [''.claude'', ''settings.json''] cs \<or> suffix [''.claude'', ''settings.local.json''] cs
     \<or> suffix [''.cursor'', ''hooks.json''] cs
     \<or> (cs \<noteq> [] \<and> last cs \<in> set STARTUP_FILES)"

lemma has_pair_append: "has_pair a b (xs @ [a, b] @ ys)"
proof (induction xs)
  case (Cons x xs)
  then show ?case by (cases xs) (auto simp: has_pair_def)
qed (simp add: has_pair_def)

lemma git_modules_hooks:
  assumes "cs = xs @ [''.git'', ''modules'', m] @ ys @ [''hooks''] @ zs"
  shows "protected_git_hooks_path cs"
proof -
  have "length xs \<in> set [0..<length cs]" "cs ! length xs = ''.git''"
    "nth_opt cs (length xs + 1) = Some ''modules''"
    "''hooks'' \<in> set (drop 1 (drop (length xs + 2) cs))"
    by (simp_all add: assms nth_opt_def nth_append)
  then show ?thesis
    by (auto simp: protected_git_hooks_path_def list_ex_iff)
qed

lemma protected_names_checked:
  "protected_names cs \<Longrightarrow>
     ''.ssh'' \<in> set cs \<or> protected_git_hooks_path cs \<or> protected_gbuild_hook_root fs home p cs
     \<or> suffix [''.gbuild'', ''config.toml''] cs
     \<or> suffix [''.claude'', ''settings.json''] cs \<or> suffix [''.claude'', ''settings.local.json''] cs
     \<or> suffix [''.cursor'', ''hooks.json''] cs
     \<or> (if cs = [] then [] else last cs) \<in> set STARTUP_FILES"
  unfolding protected_names_def
proof (elim disjE exE)
  fix xs ys assume "cs = xs @ [''.git'', ''hooks''] @ ys"
  then have "protected_git_hooks_path cs"
    unfolding protected_git_hooks_path_def using has_pair_append by blast
  then show ?thesis by blast
next
  fix xs ys assume "cs = xs @ [''.gbuild'', ''hooks''] @ ys"
  then have "protected_gbuild_hook_root fs home p cs"
    unfolding protected_gbuild_hook_root_def using has_pair_append by blast
  then show ?thesis by blast
next
  assume "suffix [''.gbuild'', ''hooks-paths''] cs"
  then have "protected_gbuild_hook_root fs home p cs"
    unfolding protected_gbuild_hook_root_def by blast
  then show ?thesis by blast
qed (use git_modules_hooks in auto)

lemma protected_names_reason:
  assumes "protected_names (List.map_filter normal_name (components p))"
  shows "protected_edit_reason_of fs home p \<noteq> None"
  using protected_names_checked [OF assms, of fs home p]
  unfolding protected_edit_reason_of_def Let_def by (elim disjE) simp_all

lemma normal_names_place:
  "is_absolute p \<Longrightarrow> List.map_filter normal_name (components (normalize_lexically p)) =
    map (map ascii_lower) (place p)"
proof -
  have "List.map_filter normal_name (map Normal ns) = map (map ascii_lower) ns" for ns
    by (induction ns) (auto simp: normal_name_def)
  then show "is_absolute p \<Longrightarrow> ?thesis"
    by (simp add: normalize_lexically_place(2) normal_name_def)
qed

lemma unprotected_not_etc:
  assumes "protected_edit_reason_of fs home p = None"
  shows "\<not> path_starts_with p ''/etc''"
  using assms unfolding protected_edit_reason_of_def Let_def by (simp split: if_splits)

lemma components_etc: "components ''/etc'' = [RootDir, Normal ''etc'']"
  by (simp add: components_def is_absolute_def component_of_def)

text \<open>
  What an edit can touch without a confirmation: a target that is not protected is absolute,
  and neither the place its text leads to (after \<open>.\<close> and \<open>..\<close>) nor the file it resolves to through
  symbolic links lies, whatever the case of its letters, under \<open>.ssh\<close>, Git hooks (those of
  submodules included), gBuild hooks or \<open>/etc\<close>, or is a shell start-up file, gBuild's
  configuration or a hook configuration of another agent; a target that cannot be resolved is
  always protected.
\<close>

theorem edit_protection_sound:
  assumes "edit_target_protection fs home path = None"
  shows "is_absolute path
    \<and> \<not> protected_names (map (map ascii_lower) (place path))
    \<and> (place path = [] \<or> hd (place path) \<noteq> ''etc'')
    \<and> (\<exists>r e. resolve_following_symlinks fs path 0 = Some r
         \<and> resolve_following_symlinks fs ''/etc'' 0 = Some e
         \<and> \<not> protected_names (List.map_filter normal_name (components r))
         \<and> \<not> path_starts_with r ''/etc'' \<and> \<not> path_starts_with r e)"
proof -
  from assms obtain r where abs: "is_absolute path"
    and lex: "protected_edit_reason_of fs home (normalize_lexically path) = None"
    and res: "resolve_following_symlinks fs path 0 = Some r"
    and phys: "protected_edit_reason_of fs home r = None"
    and etc: "\<not> resolved_path_is_within_root fs r ''/etc''"
    by (auto simp: edit_target_protection_def split: if_splits option.splits)
  have "place path = [] \<or> hd (place path) \<noteq> ''etc''"
    using unprotected_not_etc [OF lex]
    by (cases "place path") (auto simp: path_starts_with_def components_etc normalize_lexically_place(2) [OF abs])
  moreover have "\<not> protected_names (map (map ascii_lower) (place path))"
    using protected_names_reason [of "normalize_lexically path" fs home] lex normal_names_place [OF abs]
    by auto
  moreover have "\<not> protected_names (List.map_filter normal_name (components r))"
    using protected_names_reason [of r fs home] phys by blast
  moreover obtain e where "resolve_following_symlinks fs ''/etc'' 0 = Some e" "\<not> path_starts_with r e"
    using etc by (auto simp: resolved_path_is_within_root_def split: option.splits)
  ultimately show ?thesis
    using abs res unprotected_not_etc [OF phys] by auto
qed

lemma flat_fs_protection:
  "edit_target_protection flat_fs (Some ''/home/u/.gbuild'') ''/w/x/../src/main.rs'' = None"
  "edit_target_protection flat_fs (Some ''/home/u/.gbuild'') ''/w/x/../.SSH/id'' = Some Ssh"
  by code_simp+

theorem edit_protection_sound_witness:
  "\<not> protected_names (map (map ascii_lower) (place ''/w/x/../src/main.rs''))
   \<and> place ''/w/x/../src/main.rs'' = [''w'', ''src'', ''main.rs'']"
  using edit_protection_sound [OF flat_fs_protection(1)] by (simp add: place_def place_step_def)

end
