(* ===== verification/Model_Paths.thy ===== *)
theory Model_Paths
  imports Shell_Paths
begin

text \<open>
  Paths that the model writes as tool arguments (\<open>gbuild-tools/src/types/resources.rs\<close>): the
  clean-up of quoted arguments and the resolution against the working directory, which maps
  paths of the directory that the conversation shows to the real one. Expanding a leading tilde
  (the shellexpand crate) is the argument \<open>tilde\<close>.
\<close>

section \<open>\<open>std::path\<close>: removing a prefix\<close>

fun skip_segments :: "nat \<Rightarrow> string list \<Rightarrow> string list" where
  "skip_segments n [] = []"
| "skip_segments n (s # segs) =
     (if component_of s = None then skip_segments n segs
      else case n of 0 \<Rightarrow> s # segs | Suc m \<Rightarrow> skip_segments m segs)"

text \<open>\<open>path.strip_prefix(base)\<close>: what the components of \<open>base\<close> leave, as a path.\<close>

definition path_strip_prefix :: "string \<Rightarrow> string \<Rightarrow> string option" where
  "path_strip_prefix p base =
     (if \<not> path_starts_with p base then None
      else if components base = [] then Some (as_path p)
      else Some (as_path (join ''/'' (skip_segments
        (length (List.map_filter component_of (split_char CHR ''/'' base)))
        (split_char CHR ''/'' p)))))"

section \<open>Arguments of the model\<close>

lemma length_trim_rev: "length (trim_rev s) \<le> length s"
proof (induction s rule: trim_rev.induct)
  case (1 s)
  then show ?case by (subst trim_rev.simps) (auto simp: Let_def)
qed

lemma length_trim_end: "length (trim_end s) \<le> length s"
  using length_trim_rev [of "rev s"] by (simp add: trim_end_def)

function strip_literal_escapes :: "string \<Rightarrow> string" where
  "strip_literal_escapes result =
     (case strip_suffix (bslash # ''n'') result of
        Some stripped \<Rightarrow> strip_literal_escapes (trim_end stripped)
      | None \<Rightarrow>
     (case strip_suffix (bslash # ''r'') result of
        Some stripped \<Rightarrow> strip_literal_escapes (trim_end stripped)
      | None \<Rightarrow>
     (case strip_suffix (bslash # ''t'') result of
        Some stripped \<Rightarrow> strip_literal_escapes (trim_end stripped)
      | None \<Rightarrow> result)))"
  by pat_completeness auto
termination
  by (relation "measure length")
    (auto simp: strip_suffix_Some le_imp_less_Suc length_trim_end le_SucI)

declare strip_literal_escapes.simps [simp del]

definition sanitize_model_path_arg :: "string \<Rightarrow> string" where
  "sanitize_model_path_arg input =
     (let trimmed = trim input;
          quote = (\<lambda>c. c = dquote \<or> c = squote);
          quote_wrapped = (length trimmed \<ge> 2 \<and> quote (hd trimmed) \<and> quote (last trimmed));
          unquoted = trim (trim_quotes trimmed)
      in if \<not> quote_wrapped then unquoted else strip_literal_escapes unquoted)"

definition resolve_model_path ::
  "(string \<Rightarrow> string) \<Rightarrow> string \<Rightarrow> string option \<Rightarrow> string \<Rightarrow> string" where
  "resolve_model_path tilde cwd display_cwd input =
     (let expanded = tilde (sanitize_model_path_arg input)
      in case (display_cwd, is_absolute expanded) of
           (Some display, True) \<Rightarrow>
             (case path_strip_prefix expanded display of
                Some suf \<Rightarrow> path_join cwd suf
              | None \<Rightarrow> expanded)
         | _ \<Rightarrow>
             (if \<not> is_absolute expanded \<and> expanded \<noteq> [] then
                let base = (case display_cwd of Some d \<Rightarrow> d | None \<Rightarrow> cwd)
                in case path_strip_prefix (''/'' @ expanded) base of
                     Some suf \<Rightarrow> path_join cwd suf
                   | None \<Rightarrow> path_join cwd expanded
              else path_join cwd expanded))"

end
