(* ===== verification/Text_Truncate.thy ===== *)
theory Text_Truncate
  imports Rust_Num
begin

text \<open>
  Bounded text for the model's context (\<open>gbuild-tools/src/util/truncate.rs\<close>): cutting by bytes at
  character boundaries, by characters, at line boundaries and in the middle, and soft-wrapping.
  Strings are their UTF-8 bytes, so \<open>s.len()\<close> is \<open>length s\<close> and characters are counted by
  \<open>chars\<close>. \<open>None\<close> stands for a panic.
\<close>

definition TRUNCATION_MARKER :: string where
  "TRUNCATION_MARKER = [char_of (226 :: nat), char_of (128 :: nat), char_of (166 :: nat)]"

text \<open>\<open>s.char_indices().nth(k)\<close>: the byte offset of the \<open>k\<close>-th character.\<close>

definition char_index :: "string \<Rightarrow> nat \<Rightarrow> nat option" where
  "char_index s k =
     (if k < length (chars s) then Some (length (concat (take k (chars s)))) else None)"

definition unwrap_or :: "'a option \<Rightarrow> 'a \<Rightarrow> 'a" where
  "unwrap_or x d = (case x of Some v \<Rightarrow> v | None \<Rightarrow> d)"

definition truncate_line :: "string \<Rightarrow> nat \<Rightarrow> string" where
  "truncate_line line max_chars =
     (if length line \<le> max_chars then line
      else let char_count = length (chars line)
           in if char_count \<le> max_chars then line
              else take (unwrap_or (char_index line max_chars) (length line)) line
                   @ '' [... truncated ('' @ show_nat char_count @ '' chars total)]'')"

fun wrap_chars :: "nat \<Rightarrow> string list \<Rightarrow> nat \<Rightarrow> string" where
  "wrap_chars wrap_width [] n = []"
| "wrap_chars wrap_width (ch # cs) n =
     (if wrap_width \<le> n then newline # ch @ wrap_chars wrap_width cs 1
      else ch @ wrap_chars wrap_width cs (Suc n))"

text \<open>The capacity estimate divides by the width, which panics at 0.\<close>

definition soft_wrap_line :: "string \<Rightarrow> nat \<Rightarrow> string option" where
  "soft_wrap_line line wrap_width =
     (if length line \<le> wrap_width then Some line
      else if length (chars line) \<le> wrap_width then Some line
      else if wrap_width = 0 then None
      else Some (wrap_chars wrap_width (chars line) 0))"

text \<open>The loop \<open>while !s.is_char_boundary(end) { end -= 1 }\<close>; 0 is a boundary.\<close>

fun boundary_before :: "string \<Rightarrow> nat \<Rightarrow> nat" where
  "boundary_before s 0 = 0"
| "boundary_before s (Suc e) = (if is_char_boundary s (Suc e) then Suc e else boundary_before s e)"

definition truncate_str :: "string \<Rightarrow> nat \<Rightarrow> string" where
  "truncate_str s max_bytes =
     (if length s \<le> max_bytes then s else take (boundary_before s max_bytes) s)"

definition truncate_with_preview ::
  "string \<Rightarrow> nat \<Rightarrow> nat \<Rightarrow> string option \<Rightarrow> string \<times> bool" where
  "truncate_with_preview output max_bytes preview_bytes footer_hint =
     (if length output \<le> max_bytes then (output, False)
      else
        let preview = truncate_str output (min preview_bytes (length output));
            footer = ''[Output truncated - '' @ show_nat (length output) @ '' bytes total''
              @ (case footer_hint of Some hint \<Rightarrow> ''. '' @ hint @ '']'' | None \<Rightarrow> '']'')
        in (preview @ [newline, newline] @ footer, True))"

definition truncate_str_with_marker :: "string \<Rightarrow> nat \<Rightarrow> string" where
  "truncate_str_with_marker s max_bytes =
     (if length s \<le> max_bytes then s
      else if length TRUNCATION_MARKER > max_bytes then truncate_str s max_bytes
      else take (boundary_before s (max_bytes - length TRUNCATION_MARKER)) s @ TRUNCATION_MARKER)"

definition floor_char_boundary :: "string \<Rightarrow> nat \<Rightarrow> nat" where
  "floor_char_boundary s index = (if length s \<le> index then length s else boundary_before s index)"

function boundary_after :: "string \<Rightarrow> nat \<Rightarrow> nat" where
  "boundary_after s i =
     (if i < length s \<and> \<not> is_char_boundary s i then boundary_after s (Suc i) else i)"
  by pat_completeness auto
termination
  by (relation "measure (\<lambda>(s, i). length s - i)") auto

declare boundary_after.simps [simp del]

definition ceil_char_boundary :: "string \<Rightarrow> nat \<Rightarrow> nat" where
  "ceil_char_boundary s index = (if length s \<le> index then length s else boundary_after s index)"

definition soft_wrap_lines :: "string \<Rightarrow> nat \<Rightarrow> string option" where
  "soft_wrap_lines text wrap_width =
     map_option
       (\<lambda>ls. join [newline] ls
          @ (if ends_with text [newline] \<and> text \<noteq> [] then [newline] else []))
       (those (map (\<lambda>line. soft_wrap_line line wrap_width) (str_lines text)))"

definition truncate_front_and_back :: "string \<Rightarrow> nat \<Rightarrow> string \<times> bool" where
  "truncate_front_and_back s max_chars =
     (if length s \<le> max_chars then (s, False)
      else
        let half = max_chars div 2;
            front_end = unwrap_or (char_index s half) (length s);
            total_chars = length (chars s);
            back_start = (if total_chars \<le> half then 0
                          else unwrap_or (char_index s (total_chars - half)) 0)
        in (take front_end s
              @ [newline, newline] @ ''... (output truncated) ...'' @ [newline, newline]
              @ drop back_start s, True))"

definition truncate_middle :: "string \<Rightarrow> nat \<Rightarrow> string" where
  "truncate_middle s max_chars =
     (let char_count = length (chars s)
      in if char_count \<le> max_chars then s
         else
           let remaining = max_chars - length ''...'';
               front_count = remaining div 2;
               back_count = remaining - front_count;
               front_end = unwrap_or (char_index s front_count) (length s);
               back_start = (if char_count \<le> back_count then 0
                             else unwrap_or (char_index s (char_count - back_count)) 0)
           in take front_end s @ ''...'' @ drop back_start s)"

text \<open>\<open>rfind('\n')\<close>.\<close>

definition rfind_char :: "char \<Rightarrow> string \<Rightarrow> nat option" where
  "rfind_char c s = map_option (\<lambda>i. length s - Suc i) (find_char c (rev s))"

definition truncate_lines_to_char_budget :: "string \<Rightarrow> nat \<Rightarrow> string \<times> bool" where
  "truncate_lines_to_char_budget content budget =
     (let trimmed = trim content
      in if length trimmed \<le> budget then (trimmed, False)
         else
           case rfind_char newline (take (boundary_before trimmed (min budget (length trimmed))) trimmed) of
             Some idx \<Rightarrow> (trim (take idx trimmed), True)
           | None \<Rightarrow>
               (''... [First line would be too large to fit within character budget] ...'', True))"

section \<open>Characters\<close>

lemma utf8_char_lead:
  assumes "utf8_char_ok w"
  obtains c t where "w = c # t" "lead_len c = length w"
proof (cases w)
  case (Cons c t)
  have "lead_len c = length w"
    using assms
    by (auto simp: Cons utf8_char_ok_def byte_in_def cont_byte_def lead_len_def Let_def
        split: list.splits)
  with Cons that show thesis by blast
qed (use assms in \<open>simp add: utf8_char_ok_def\<close>)

lemma chars_append: "utf8_char_ok w \<Longrightarrow> chars (w @ s) = w # chars s"
  by (erule utf8_char_lead) (simp add: chars.simps)

lemma chars_concat: "list_all utf8_char_ok cs \<Longrightarrow> chars (concat cs) = cs"
  by (induction cs) (simp_all add: chars_append chars.simps)

lemma utf8_valid_concat: "list_all utf8_char_ok cs \<Longrightarrow> utf8_valid (concat cs)"
  by (simp add: utf8_valid_def chars_concat)

lemma concat_take_drop: "s = concat (take k (chars s)) @ concat (drop k (chars s))"
  by (metis append_take_drop_id concat_append concat_chars)

lemma chars_le: "length (chars s) \<le> length s"
proof (induction s rule: chars.induct)
  case (2 c s)
  then show ?case
    using lead_len_pos [of c] by (simp add: chars.simps del: lead_len_pos)
qed (simp add: chars.simps)

lemma take_char_index:
  "k < length (chars s) \<Longrightarrow> char_index s k = Some i \<Longrightarrow>
     take i s = concat (take k (chars s)) \<and> drop i s = concat (drop k (chars s))"
  by (metis char_index_def concat_take_drop append_eq_conv_conj option.inject)

lemma take_unwrap_char_index:
  "take (unwrap_or (char_index s k) (length s)) s = concat (take k (chars s))"
  using take_char_index [of k s]
  by (cases "k < length (chars s)") (auto simp: char_index_def unwrap_or_def concat_chars)

lemma drop_unwrap_char_index:
  "k < length (chars s) \<Longrightarrow> drop (unwrap_or (char_index s k) 0) s = concat (drop k (chars s))"
  using take_char_index [of k s] by (auto simp: char_index_def unwrap_or_def)

section \<open>Cutting by bytes\<close>

lemma marker_length [simp]: "length TRUNCATION_MARKER = 3"
  by (simp add: TRUNCATION_MARKER_def)

lemma boundary_before_le: "boundary_before s e \<le> e"
  by (induction e) auto

lemma boundary_before_boundary: "is_char_boundary s (boundary_before s e)"
  by (induction e) (auto simp: is_char_boundary_def)

lemma boundary_before_greatest:
  "boundary_before s e < i \<Longrightarrow> i \<le> e \<Longrightarrow> \<not> is_char_boundary s i"
  by (induction e) (auto split: if_splits simp: le_Suc_eq)

text \<open>
  Cutting with a marker keeps the byte budget: a text that fits is returned unchanged, and
  otherwise the result is at most as long as the budget and consists of the longest part of the
  text that ends at a character boundary and leaves room for the marker, followed by the marker,
  which is left out only when the budget is smaller than the marker itself.
\<close>

theorem truncate_with_marker_fits:
  "length (truncate_str_with_marker s n) \<le> n
   \<and> (length s \<le> n \<longrightarrow> truncate_str_with_marker s n = s)
   \<and> (n < length s \<longrightarrow>
        (\<exists>b. is_char_boundary s b \<and> b \<le> n
           \<and> truncate_str_with_marker s n = take b s @ (if n < 3 then [] else TRUNCATION_MARKER)
           \<and> (\<forall>i. b < i \<longrightarrow> i \<le> (if n < 3 then n else n - 3) \<longrightarrow> \<not> is_char_boundary s i)))"
proof (cases "length s \<le> n")
  case False
  let ?m = "if n < 3 then n else n - 3"
  let ?b = "boundary_before s ?m"
  have r: "truncate_str_with_marker s n = take ?b s @ (if n < 3 then [] else TRUNCATION_MARKER)"
    using False by (simp add: truncate_str_with_marker_def truncate_str_def)
  have "?b \<le> ?m" by (rule boundary_before_le)
  then have "length (truncate_str_with_marker s n) \<le> n" "?b \<le> n"
    unfolding r by (auto split: if_splits)
  then show ?thesis
    using False r boundary_before_boundary [of s ?m] boundary_before_greatest [of s ?m] by auto
qed (simp add: truncate_str_with_marker_def)

theorem truncate_with_marker_fits_witness:
  "length (truncate_str_with_marker ''abcdefgh'' 6) \<le> 6
   \<and> truncate_str_with_marker ''abcdefgh'' 6 = ''abc'' @ TRUNCATION_MARKER"
proof -
  have "truncate_str_with_marker ''abcdefgh'' 6 = ''abc'' @ TRUNCATION_MARKER" by code_simp
  then show ?thesis using truncate_with_marker_fits [of "''abcdefgh''" 6] by simp
qed

section \<open>Cutting in the middle\<close>

lemma dots_length: "length ''...'' = 3"
  by simp

lemma truncate_middle_long:
  assumes "m < length (chars s)" "3 < m"
  defines "f \<equiv> (m - 3) div 2"
  shows "truncate_middle s m =
    concat (take f (chars s)) @ ''...'' @ concat (drop (length (chars s) - (m - 3 - f)) (chars s))"
proof -
  let ?n = "length (chars s)" and ?b = "m - 3 - f"
  have c: "\<not> ?n \<le> m" "\<not> ?n \<le> ?b" "?n - ?b < ?n" using assms by auto
  show ?thesis
    unfolding truncate_middle_def Let_def dots_length f_def [symmetric] take_unwrap_char_index
      drop_unwrap_char_index [OF c(3)]
    by (simp only: c if_False drop_unwrap_char_index)
qed

text \<open>
  Cutting a text in the middle to more than three characters gives exactly that many when it
  was longer: the result is well-formed, has \<open>m\<close> characters, begins with the first \<open>(m - 3) div 2\<close>
  characters of the text and ends with its last ones.
\<close>

theorem truncate_middle_budget:
  assumes "utf8_valid s" "m < length (chars s)" "3 < m"
  shows "utf8_valid (truncate_middle s m)
    \<and> length (chars (truncate_middle s m)) = m
    \<and> take ((m - 3) div 2) (chars (truncate_middle s m)) = take ((m - 3) div 2) (chars s)"
proof -
  define f where "f = (m - 3) div 2"
  let ?b = "m - 3 - f" and ?cs = "chars s"
  let ?r = "take f ?cs @ [''.'', ''.'', ''.''] @ drop (length ?cs - ?b) ?cs"
  have r: "truncate_middle s m = concat ?r"
    using truncate_middle_long [OF assms(2,3)] by (simp add: f_def)
  have "list_all utf8_char_ok ?r"
    using assms(1) by (auto simp: utf8_valid_def list_all_iff utf8_char_ok_def byte_in_def
        dest: in_set_takeD in_set_dropD)
  then have v: "utf8_valid (truncate_middle s m)" and c: "chars (truncate_middle s m) = ?r"
    unfolding r by (rule utf8_valid_concat, rule chars_concat)
  have "f + 3 + ?b = m" "f < length ?cs" "?b \<le> length ?cs" using assms(2,3) by (auto simp: f_def)
  with v show ?thesis unfolding c f_def [symmetric] by auto
qed

theorem truncate_middle_budget_witness:
  "length (chars (truncate_middle ''0123456789'' 8)) = 8 \<and> truncate_middle ''0123456789'' 8 = ''01...789''"
proof -
  have "utf8_valid ''0123456789''" "8 < length (chars ''0123456789'')" by code_simp+
  then have "length (chars (truncate_middle ''0123456789'' 8)) = 8"
    using truncate_middle_budget [of "''0123456789''" 8] by simp
  moreover have "truncate_middle ''0123456789'' 8 = ''01...789''" by code_simp
  ultimately show ?thesis ..
qed

text \<open>
  The fall-back for a budget that does not exceed the marker is missing: with at most three
  characters allowed, cutting a longer text in the middle returns the marker followed by the
  whole text, which is longer than the text itself.
\<close>

theorem truncate_middle_small_budget:
  assumes "m < length (chars s)" "m \<le> 3"
  shows "truncate_middle s m = ''...'' @ s"
proof -
  have "\<not> length (chars s) \<le> m" using assms(1) by simp
  moreover have "m - 3 = 0" using assms(2) by simp
  ultimately show ?thesis
    unfolding truncate_middle_def Let_def dots_length
    by (simp add: take_unwrap_char_index) (simp add: char_index_def unwrap_or_def)
qed

theorem truncate_middle_small_budget_witness:
  "truncate_middle ''abcdef'' 3 = ''...abcdef''"
proof -
  have "3 < length (chars ''abcdef'')" by code_simp
  then show ?thesis using truncate_middle_small_budget [of 3 "''abcdef''"] by simp
qed

section \<open>Soft wrapping\<close>

lemma filter_wrap_chars:
  "list_all (\<lambda>c. newline \<notin> set c) cs \<Longrightarrow>
     filter (\<lambda>x. x \<noteq> newline) (wrap_chars w cs n) = concat cs"
proof (induction cs arbitrary: n)
  case (Cons c cs)
  then have "filter (\<lambda>x. x \<noteq> newline) c = c" by (auto simp: filter_id_conv)
  with Cons show ?case by simp
qed simp

text \<open>The lines of a wrapped text, as character lists; the first one still has room for \<open>w - n\<close>.\<close>

fun wrapped :: "nat \<Rightarrow> string list \<Rightarrow> nat \<Rightarrow> string list list" where
  "wrapped w [] n = [[]]"
| "wrapped w (c # cs) n =
     (if w \<le> n then [] # (case wrapped w cs 1 of l # ls \<Rightarrow> (c # l) # ls | [] \<Rightarrow> [[c]])
      else (case wrapped w cs (Suc n) of l # ls \<Rightarrow> (c # l) # ls | [] \<Rightarrow> [[c]]))"

lemma wrapped_Cons: obtains l ls where "wrapped w cs n = l # ls"
proof -
  have "wrapped w cs n \<noteq> []" by (cases cs) (auto split: list.splits)
  with that show thesis by (cases "wrapped w cs n") auto
qed

lemma split_char_nonempty: "split_char c s \<noteq> []"
  by (induction s) (auto split: list.splits)

lemma split_wrap_chars:
  "list_all (\<lambda>c. newline \<notin> set c) cs \<Longrightarrow>
     split_char newline (wrap_chars w cs n) = map concat (wrapped w cs n)"
proof (induction cs arbitrary: n)
  case (Cons c cs)
  have pre: "split_char newline (c @ t) = (case split_char newline t of l # ls \<Rightarrow> (c @ l) # ls | [] \<Rightarrow> [c])" for t
    using Cons.prems split_char_nonempty [of newline t] by (induction c) (auto split: list.splits)
  obtain l ls where "wrapped w cs 1 = l # ls" by (rule wrapped_Cons)
  moreover obtain l' ls' where "wrapped w cs (Suc n) = l' # ls'" by (rule wrapped_Cons)
  ultimately show ?case using Cons by (simp add: pre)
qed simp

lemma wrapped_bound:
  assumes "0 < w" "n \<le> w"
  shows "(\<forall>l \<in> set (wrapped w cs n). length l \<le> w) \<and> length (hd (wrapped w cs n)) \<le> w - n"
  using assms
proof (induction cs arbitrary: n)
  case (Cons c cs)
  obtain l ls where 1: "wrapped w cs 1 = l # ls" by (rule wrapped_Cons)
  obtain l' ls' where 2: "wrapped w cs (Suc n) = l' # ls'" by (rule wrapped_Cons)
  show ?case
    using Cons.IH [of 1] Cons.IH [of "Suc n"] Cons.prems 1 2 by auto
qed simp

lemma wrapped_set: "concat (wrapped w cs n) = cs"
proof (induction cs arbitrary: n)
  case (Cons c cs)
  obtain l ls where 1: "wrapped w cs 1 = l # ls" by (rule wrapped_Cons)
  obtain l' ls' where 2: "wrapped w cs (Suc n) = l' # ls'" by (rule wrapped_Cons)
  from Cons.IH [of 1] Cons.IH [of "Suc n"] 1 2 show ?case by auto
qed simp

text \<open>
  Soft wrapping loses nothing and bounds every line: for a positive width and a single line
  of well-formed text it succeeds, deleting the inserted line feeds gives back the line, and no
  line of the result has more characters than the width.
\<close>

theorem soft_wrap_preserves:
  assumes "0 < w" "utf8_valid line" "newline \<notin> set line"
  shows "\<exists>r. soft_wrap_line line w = Some r
    \<and> filter (\<lambda>x. x \<noteq> newline) r = line
    \<and> (\<forall>l \<in> set (split_char newline r). length (chars l) \<le> w)"
proof (cases "length line \<le> w \<or> length (chars line) \<le> w")
  case True
  then show ?thesis
    using assms(3) chars_le [of line] by (auto simp: soft_wrap_line_def split_char_other filter_id_conv)
next
  case False
  let ?r = "wrap_chars w (chars line) 0"
  have nl: "list_all (\<lambda>c. newline \<notin> set c) (chars line)"
    using assms(3) concat_chars [of line] by (auto simp: list_all_iff) (metis UN_I set_concat)
  have "length (chars (concat l)) \<le> w" if "l \<in> set (wrapped w (chars line) 0)" for l
  proof -
    have "set l \<subseteq> set (chars line)"
      using that wrapped_set [of w "chars line" 0] by (metis UN_upper set_concat)
    then have "chars (concat l) = l"
      using assms(2) by (intro chars_concat) (auto simp: utf8_valid_def list_all_iff)
    then show ?thesis using wrapped_bound [of w 0 "chars line"] that assms(1) by auto
  qed
  then have "\<forall>l \<in> set (split_char newline ?r). length (chars l) \<le> w"
    by (auto simp: split_wrap_chars [OF nl])
  then show ?thesis
    using False assms(1) filter_wrap_chars [OF nl, of w 0] concat_chars [of line]
    by (auto simp: soft_wrap_line_def)
qed

theorem soft_wrap_preserves_witness:
  "\<exists>r. soft_wrap_line ''abcdefgh'' 3 = Some r \<and> filter (\<lambda>x. x \<noteq> newline) r = ''abcdefgh''"
proof -
  have "utf8_valid ''abcdefgh''" "newline \<notin> set ''abcdefgh''" by code_simp+
  then show ?thesis using soft_wrap_preserves [of 3 "''abcdefgh''"] by auto
qed

end
