(* ===== verification/Permission_Actor.thy ===== *)
theory Permission_Actor
  imports Session_Grants Gate_Preflight Edit_Protection Model_Paths Text_Truncate
begin

text \<open>
  The permission manager (\<open>gbuild-workspace/src/permission/manager.rs\<close>): an actor that takes
  commands from a queue, one at a time, and answers permission requests. Every request passes
  the stages of the code in their order: the policy, always-approve mode, the session's grants,
  auto mode with its classifier, the sandbox, the built-in pre-decisions and finally the user.
  What happens outside the actor while a request is served (the file system, the local Git
  configuration, whether the requester is still there, what the classifier and the user answer)
  is the record \<open>request_world\<close>; what the actor does to the outside is a list of effects.
\<close>

section \<open>Classifier outcomes\<close>

datatype classifier_source = Src_Llm | Src_Heuristic | Src_Timeout | Src_TransportError

fun source_as_str :: "classifier_source \<Rightarrow> string" where
  "source_as_str Src_Llm = ''llm''"
| "source_as_str Src_Heuristic = ''heuristic''"
| "source_as_str Src_Timeout = ''timeout''"
| "source_as_str Src_TransportError = ''transport_error''"

datatype classifier_failure = Failure_Timeout | Failure_TransportError string

fun failure_source :: "classifier_failure \<Rightarrow> classifier_source" where
  "failure_source Failure_Timeout = Src_Timeout"
| "failure_source (Failure_TransportError _) = Src_TransportError"

fun failure_display :: "classifier_failure \<Rightarrow> string" where
  "failure_display Failure_Timeout = ''permission auto classifier timed out''"
| "failure_display (Failure_TransportError reason) = reason"

datatype classifier_provenance = Prov_Llm | Prov_Heuristic | Prov_Failure classifier_failure

fun provenance_source :: "classifier_provenance \<Rightarrow> classifier_source" where
  "provenance_source Prov_Llm = Src_Llm"
| "provenance_source Prov_Heuristic = Src_Heuristic"
| "provenance_source (Prov_Failure f) = failure_source f"

record classifier_outcome =
  verdict :: classifier_verdict
  outcome_reason :: "string option"
  provenance :: classifier_provenance

definition outcome_heuristic :: "classifier_verdict \<Rightarrow> classifier_outcome" where
  "outcome_heuristic v = \<lparr>verdict = v, outcome_reason = None, provenance = Prov_Heuristic\<rparr>"

definition outcome_llm :: "classifier_verdict \<Rightarrow> string option \<Rightarrow> classifier_outcome" where
  "outcome_llm v reason = \<lparr>verdict = v, outcome_reason = reason, provenance = Prov_Llm\<rparr>"

definition outcome_failure :: "classifier_failure \<Rightarrow> classifier_outcome" where
  "outcome_failure f =
     \<lparr>verdict = Verdict_Unavailable, outcome_reason = Some (failure_display f), provenance = Prov_Failure f\<rparr>"

definition outcome_source :: "classifier_outcome \<Rightarrow> classifier_source" where
  "outcome_source out = provenance_source (provenance out)"

definition is_timeout :: "classifier_outcome \<Rightarrow> bool" where
  "is_timeout out \<longleftrightarrow> provenance out = Prov_Failure Failure_Timeout"

text \<open>A classifier: tool name, access, detail, transcript and project instructions.\<close>

type_synonym classifier =
  "string \<Rightarrow> access_kind \<Rightarrow> string option \<Rightarrow> classifier_turn list \<Rightarrow> string option \<Rightarrow> classifier_outcome"

section \<open>What is told about a request\<close>

fun tool_name_for_access :: "access_kind \<Rightarrow> string" where
  "tool_name_for_access (Access_Read _) = ''read_file''"
| "tool_name_for_access (Access_Grep _ _) = ''grep''"
| "tool_name_for_access (Access_Edit _) = ''search_replace''"
| "tool_name_for_access (Access_Bash _) = ''run_terminal_command''"
| "tool_name_for_access (Access_MCPTool name _) = ''mcp:'' @ name"
| "tool_name_for_access (Access_WebFetch _) = ''web_fetch''"
| "tool_name_for_access (Access_WebSearch _) = ''web_search''"

fun access_kind_str :: "access_kind \<Rightarrow> string" where
  "access_kind_str (Access_Read _) = ''read''"
| "access_kind_str (Access_Grep _ _) = ''grep''"
| "access_kind_str (Access_Edit _) = ''edit''"
| "access_kind_str (Access_Bash _) = ''bash''"
| "access_kind_str (Access_MCPTool _ _) = ''mcp''"
| "access_kind_str (Access_WebFetch _) = ''web_fetch''"
| "access_kind_str (Access_WebSearch _) = ''web_search''"

definition MCP_ACCESS_DETAIL_MAX_LEN :: nat where "MCP_ACCESS_DETAIL_MAX_LEN = 1024"

text \<open>\<open>to_json\<close> is the compact rendering of serde_json.\<close>

definition mcp_access_detail :: "(json \<Rightarrow> string) \<Rightarrow> string \<Rightarrow> json \<Rightarrow> string" where
  "mcp_access_detail to_json name input =
     (if input = JNull then name
      else truncate_line (name @ '' '' @ to_json input) MCP_ACCESS_DETAIL_MAX_LEN)"

fun access_detail :: "(json \<Rightarrow> string) \<Rightarrow> access_kind \<Rightarrow> string option" where
  "access_detail to_json (Access_Read _) = None"
| "access_detail to_json (Access_Grep path _) = path"
| "access_detail to_json (Access_Edit path) = Some path"
| "access_detail to_json (Access_Bash cmd) = Some cmd"
| "access_detail to_json (Access_MCPTool name input) = Some (mcp_access_detail to_json name input)"
| "access_detail to_json (Access_WebFetch u) = Some u"
| "access_detail to_json (Access_WebSearch query) = Some query"

definition CLASSIFIER_TURN_MAX_LEN :: nat where "CLASSIFIER_TURN_MAX_LEN = 400"

definition permission_decision_args ::
  "(json \<Rightarrow> string) \<Rightarrow> access_kind \<Rightarrow> string option \<Rightarrow> string" where
  "permission_decision_args to_json access detail =
     truncate_str_with_marker
       (case access of
          Access_Bash cmd \<Rightarrow> to_json (JObject [(''command'', JString cmd)])
        | _ \<Rightarrow> unwrap_or detail ''(none)'')
       CLASSIFIER_TURN_MAX_LEN"

section \<open>Constants\<close>

definition YOLO :: string where "YOLO = ''yolo''"
definition POLICY_ALLOW :: string where "POLICY_ALLOW = ''policy_allow''"
definition POLICY_DENY :: string where "POLICY_DENY = ''policy_deny''"
definition AUTO_FAST_PATH :: string where "AUTO_FAST_PATH = ''auto_fast_path''"
definition AUTO_CLASSIFIER_ALLOW :: string where "AUTO_CLASSIFIER_ALLOW = ''auto_classifier_allow''"
definition AUTO_CLASSIFIER_BLOCK :: string where "AUTO_CLASSIFIER_BLOCK = ''auto_classifier_block''"
definition AUTO_CLASSIFIER_DENY :: string where "AUTO_CLASSIFIER_DENY = ''auto_classifier_deny''"
definition AUTO_CLASSIFIER_TIMEOUT :: string where
  "AUTO_CLASSIFIER_TIMEOUT = ''auto_classifier_timeout''"
definition AUTO_CLASSIFIER_UNAVAILABLE :: string where
  "AUTO_CLASSIFIER_UNAVAILABLE = ''auto_classifier_unavailable''"
definition AUTO_DENIAL_LIMIT :: string where "AUTO_DENIAL_LIMIT = ''auto_denial_limit''"
definition SANDBOX_AUTO :: string where "SANDBOX_AUTO = ''sandbox_auto''"
definition PERSISTED_GRANT :: string where "PERSISTED_GRANT = ''persisted_grant''"
definition PROMPT_DENY :: string where "PROMPT_DENY = ''prompt_deny''"
definition NEEDS_USER :: string where "NEEDS_USER = ''needs_user''"
definition BASH_REQUEST_FLOOR :: string where "BASH_REQUEST_FLOOR = ''bash_request_floor''"
definition OPAQUE_SHELL :: string where "OPAQUE_SHELL = ''opaque_shell''"
definition REQUESTER_GONE :: string where "REQUESTER_GONE = ''requester_gone''"

definition AUTO_DENY_CONSECUTIVE_LIMIT :: "32 word" where "AUTO_DENY_CONSECUTIVE_LIMIT = 3"
definition AUTO_DENY_TOTAL_LIMIT :: "32 word" where "AUTO_DENY_TOTAL_LIMIT = 20"
definition MAX_RECORDED_PERMISSION_DECISIONS :: nat where "MAX_RECORDED_PERMISSION_DECISIONS = 12"

definition AUTO_DENY_GUIDANCE :: string where
  "AUTO_DENY_GUIDANCE =
     ''Take a safer approach that stays within what the user asked for; ''
     @ ''do not retry this exact action or attempt to work around the denial. ''
     @ ''If no safer alternative exists, ask the user how to proceed.''"

definition DEFAULT_ALLOWED_DOMAINS :: "string list" where
  "DEFAULT_ALLOWED_DOMAINS =
    [''x.ai'', ''console.x.ai'', ''docs.x.ai'', ''api.x.ai'', ''docs.python.org'',
     ''en.cppreference.com'', ''docs.oracle.com'', ''learn.microsoft.com'',
     ''developer.mozilla.org'', ''go.dev'', ''pkg.go.dev'', ''www.php.net'', ''docs.swift.org'',
     ''kotlinlang.org'', ''ruby-doc.org'', ''doc.rust-lang.org'', ''docs.rs'',
     ''www.typescriptlang.org'', ''react.dev'', ''angular.io'', ''vuejs.org'', ''nextjs.org'',
     ''expressjs.com'', ''nodejs.org'', ''bun.sh'', ''jquery.com'', ''getbootstrap.com'',
     ''tailwindcss.com'', ''d3js.org'', ''threejs.org'', ''redux.js.org'', ''webpack.js.org'',
     ''jestjs.io'', ''reactrouter.com'', ''docs.djangoproject.com'',
     ''flask.palletsprojects.com'', ''fastapi.tiangolo.com'', ''pandas.pydata.org'',
     ''numpy.org'', ''www.tensorflow.org'', ''pytorch.org'', ''scikit-learn.org'',
     ''matplotlib.org'', ''requests.readthedocs.io'', ''jupyter.org'', ''laravel.com'',
     ''symfony.com'', ''wordpress.org'', ''docs.spring.io'', ''hibernate.org'',
     ''tomcat.apache.org'', ''gradle.org'', ''maven.apache.org'', ''asp.net'',
     ''dotnet.microsoft.com'', ''nuget.org'', ''blazor.net'', ''reactnative.dev'',
     ''docs.flutter.dev'', ''developer.apple.com'', ''developer.android.com'', ''keras.io'',
     ''spark.apache.org'', ''huggingface.co'', ''www.kaggle.com'', ''redis.io'',
     ''www.postgresql.org'', ''dev.mysql.com'', ''www.sqlite.org'', ''graphql.org'',
     ''prisma.io'', ''docs.aws.amazon.com'', ''cloud.google.com'', ''kubernetes.io'',
     ''www.docker.com'', ''www.terraform.io'', ''www.ansible.com'', ''vercel.com/docs'',
     ''docs.netlify.com'', ''devcenter.heroku.com'', ''cypress.io'', ''selenium.dev'',
     ''docs.unity.com'', ''docs.unrealengine.com'', ''git-scm.com'', ''nginx.org'',
     ''httpd.apache.org'']"

section \<open>State, world and effects\<close>

datatype prompt_outcome =
    AllowOnce
  | AllowAlways
  | AllowEditsForSession
  | AllowAlwaysBashCommand string
  | AllowAlwaysDomain string
  | AllowAlwaysMcpTool string
  | AllowAlwaysMcpServer string
  | RejectOnce
  | RejectAlwaysBashCommand string
  | Outcome_Cancelled
  | Outcome_FollowupMessage string
  | Outcome_Error string

record edit_path_context =
  real_cwd :: string
  display_cwd :: "string option"

text \<open>What is fixed when the manager is spawned; the last four are external functions.\<close>

record 'g manager_config =
  mc_cwd :: string
  mc_policy :: "'g compiled_policy option"
  mc_prompt_policy :: prompt_policy
  mc_matcher :: domain_matcher
  mc_allowlist_is_default :: bool
  mc_remember_tool_approvals :: bool
  mc_yolo_pin :: "string option"
  mc_ext :: "'g externs"
  mc_parse_url :: "string \<Rightarrow> url option"
  mc_to_json :: "json \<Rightarrow> string"
  mc_tilde :: "string \<Rightarrow> string"

text \<open>The variables of the actor's task.\<close>

record actor_state =
  perm :: permission_state
  yolo_mode :: bool
  auto_mode :: bool
  auto_classifier :: "classifier option"
  auto_consecutive_denials :: "32 word"
  auto_total_denials :: "32 word"
  classifier_turns :: "classifier_turn list"
  recorded_permission_decisions :: "classifier_turn list"
  project_instructions :: "string option"
  pin_refusal_logged :: bool
  allow_edits_for_session :: bool

text \<open>
  What is observed while one request is served, in the order of the code: the four checks of the
  response channel around the stages, and the two waits that it may interrupt.
\<close>

record request_world =
  rw_fs :: filesystem
  rw_home :: "string option"
  rw_git :: git_view
  rw_scan_joined :: bool
  rw_sandbox_auto_allow :: bool
  rw_gone_at_dequeue :: bool
  rw_gone_after_scan :: bool
  rw_gone_in_classify :: bool
  rw_gone_before_prompt :: bool
  rw_gone_in_prompt :: bool
  rw_gone_at_end :: bool
  rw_answer :: prompt_outcome

datatype classifier_snapshot = Snap_FastPath | Snap_Completed classifier_source

fun snapshot_source :: "classifier_snapshot \<Rightarrow> string" where
  "snapshot_source Snap_FastPath = ''fast_path''"
| "snapshot_source (Snap_Completed source) = source_as_str source"

record permission_event =
  ev_tool_name :: string
  ev_access_kind :: string
  ev_access_detail :: "string option"
  ev_yolo_mode :: bool
  ev_auto_approved :: bool
  ev_user_prompted :: bool
  ev_decision :: string
  ev_prompt_outcome :: "string option"
  ev_reject_reason :: "string option"
  ev_permission_mode :: string
  ev_decision_reason :: string
  ev_classifier_source :: "string option"
  ev_auto_denials_consecutive :: "32 word option"
  ev_auto_denials_total :: "32 word option"

datatype effect =
    Emit permission_event
  | Respond decision
  | Persist permission_state
  | Prompt access_kind "protected_edit_reason option"

fun decision_str :: "decision \<Rightarrow> string \<times> string option" where
  "decision_str Allow = (''allow'', None)"
| "decision_str Ask = (''ask'', None)"
| "decision_str (Reject reason) = (''reject'', Some reason)"
| "decision_str (PolicyDeny reason) = (''reject'', Some reason)"
| "decision_str (FollowupMessage _) = (''followup'', None)"
| "decision_str Cancelled = (''cancelled'', None)"

text \<open>The string of the effective mode, always-approve first.\<close>

definition permission_mode :: "actor_state \<Rightarrow> string" where
  "permission_mode st =
     (if yolo_mode st then ''always-approve'' else if auto_mode st then ''auto'' else ''ask'')"

text \<open>The clock and the identifiers of the request are left out of the event.\<close>

definition event_of ::
  "'g manager_config \<Rightarrow> actor_state \<Rightarrow> classifier_snapshot option \<Rightarrow> access_kind \<Rightarrow> decision
     \<Rightarrow> bool \<Rightarrow> bool \<Rightarrow> string option \<Rightarrow> string \<Rightarrow> permission_event" where
  "event_of mc st snap access d auto_approved user_prompted outcome reason =
     \<lparr>ev_tool_name = tool_name_for_access access, ev_access_kind = access_kind_str access,
      ev_access_detail = access_detail (mc_to_json mc) access, ev_yolo_mode = yolo_mode st,
      ev_auto_approved = auto_approved, ev_user_prompted = user_prompted,
      ev_decision = fst (decision_str d), ev_prompt_outcome = outcome,
      ev_reject_reason = snd (decision_str d), ev_permission_mode = permission_mode st,
      ev_decision_reason = reason, ev_classifier_source = map_option snapshot_source snap,
      ev_auto_denials_consecutive = (if auto_mode st then Some (auto_consecutive_denials st) else None),
      ev_auto_denials_total = (if auto_mode st then Some (auto_total_denials st) else None)\<rparr>"

text \<open>An answer without a prompt, and the end of a request whose requester has gone.\<close>

definition answer ::
  "'g manager_config \<Rightarrow> actor_state \<Rightarrow> classifier_snapshot option \<Rightarrow> access_kind \<Rightarrow> decision
     \<Rightarrow> bool \<Rightarrow> string \<Rightarrow> effect list" where
  "answer mc st snap access d auto_approved reason =
     [Emit (event_of mc st snap access d auto_approved False None reason), Respond d]"

definition requester_gone ::
  "'g manager_config \<Rightarrow> actor_state \<Rightarrow> classifier_snapshot option \<Rightarrow> access_kind \<Rightarrow> effect list" where
  "requester_gone mc st snap access =
     [Emit (event_of mc st snap access Cancelled False False None REQUESTER_GONE)]"

section \<open>The stages of a request\<close>

text \<open>
  The evaluation of a Bash request with the scan of the local Git configuration; \<open>None\<close> when the
  requester has gone meanwhile.
\<close>

definition bash_stage ::
  "'g manager_config \<Rightarrow> request_world \<Rightarrow> actor_state \<Rightarrow> access_kind \<Rightarrow> bash_evaluation option option" where
  "bash_stage mc w st access =
     (case access of
        Access_Bash cmd \<Rightarrow>
          (let e = evaluate_bash (mc_ext mc) cmd (perm st) True
           in case ambient_segments e of
                None \<Rightarrow> Some (Some e)
              | Some raw \<Rightarrow>
                  let e = e\<lparr>ambient_segments := None\<rparr>;
                      plan = ambient_scan_plan_from_segments raw (mc_cwd mc);
                      ambient_risk = (case plan of
                          Plan_FailClosed \<Rightarrow> True
                        | CheckDirs _ \<Rightarrow>
                            if rw_scan_joined w then ambient_exec_risk_from_plan (rw_git w) plan else True)
                  in if rw_gone_after_scan w then None
                     else Some (Some (if ambient_risk then e\<lparr>be_exec_risk := True\<rparr> else e)))
      | _ \<Rightarrow> Some None)"

definition protected_edit_of ::
  "'g manager_config \<Rightarrow> request_world \<Rightarrow> access_kind \<Rightarrow> edit_path_context option
     \<Rightarrow> protected_edit_reason option" where
  "protected_edit_of mc w access ctx =
     (case (access, ctx) of
        (Access_Edit path, Some context) \<Rightarrow>
          edit_target_protection (rw_fs w) (rw_home w)
            (resolve_model_path (mc_tilde mc) (real_cwd context) (display_cwd context) path)
      | (Access_Edit path, None) \<Rightarrow>
          edit_target_protection (rw_fs w) (rw_home w)
            (resolve_model_path (mc_tilde mc) (mc_cwd mc) None path)
      | _ \<Rightarrow> None)"

text \<open>
  Auto mode either answers, finds the requester gone, or lets the request through; then the
  reason is set exactly when it forces a prompt.
\<close>

datatype auto_result =
    Auto_Answer actor_state "classifier_snapshot option" decision bool string
  | Auto_Gone
  | Auto_Through "string option" "classifier_snapshot option"

definition block_message :: "string option \<Rightarrow> string" where
  "block_message reason =
     (case reason of
        Some r \<Rightarrow>
          ''Auto mode blocked this action ('' @ trim_end_matches CHR ''.'' r @ ''). '' @ AUTO_DENY_GUIDANCE
      | None \<Rightarrow> ''Auto mode blocked this action. '' @ AUTO_DENY_GUIDANCE)"

definition classify_stage ::
  "'g manager_config \<Rightarrow> request_world \<Rightarrow> actor_state \<Rightarrow> gate_preflight \<Rightarrow> bash_evaluation option
     \<Rightarrow> access_kind \<Rightarrow> auto_result" where
  "classify_stage mc w st pf ev access =
     (case (case auto_classifier st of
              Some clf \<Rightarrow>
                if rw_gone_in_classify w then None
                else Some (clf (tool_name_for_access access) access (access_detail (mc_to_json mc) access)
                  (classifier_turns st @ recorded_permission_decisions st) (project_instructions st))
            | None \<Rightarrow> Some (outcome_heuristic Verdict_Unavailable)) of
        None \<Rightarrow> Auto_Gone
      | Some out \<Rightarrow>
          let snap = Some (Snap_Completed (outcome_source out))
          in case verdict out of
               Verdict_Allow \<Rightarrow>
                 Auto_Answer (st\<lparr>auto_consecutive_denials := 0\<rparr>) snap Allow True AUTO_CLASSIFIER_ALLOW
             | Verdict_Block \<Rightarrow>
                 if defers_gate_ask pf \<or> bash_request_floor_requires_prompt ev then
                   Auto_Through (Some AUTO_CLASSIFIER_BLOCK) snap
                 else if auto_consecutive_denials st < AUTO_DENY_CONSECUTIVE_LIMIT
                         \<and> auto_total_denials st < AUTO_DENY_TOTAL_LIMIT then
                   Auto_Answer
                     (st\<lparr>auto_consecutive_denials := auto_consecutive_denials st + 1,
                         auto_total_denials := auto_total_denials st + 1\<rparr>)
                     snap (PolicyDeny (block_message (outcome_reason out))) False AUTO_CLASSIFIER_DENY
                 else Auto_Through (Some AUTO_DENIAL_LIMIT) snap
             | Verdict_Unavailable \<Rightarrow>
                 Auto_Through
                   (Some (if is_timeout out then AUTO_CLASSIFIER_TIMEOUT else AUTO_CLASSIFIER_UNAVAILABLE))
                   snap)"

definition auto_stage ::
  "'g manager_config \<Rightarrow> request_world \<Rightarrow> actor_state \<Rightarrow> gate_preflight \<Rightarrow> bash_evaluation option
     \<Rightarrow> protected_edit_reason option \<Rightarrow> access_kind \<Rightarrow> auto_result" where
  "auto_stage mc w st pf ev prot access =
     (if auto_mode st \<and> admits_auto_classifier pf
         \<and> (\<not> bash_request_floor_requires_prompt ev \<or> bash_request_floor_defers_to_classifier ev)
      then
        let tool_name = tool_name_for_access access;
            needs_user = (prot \<noteq> None \<or> access_requires_user_interaction tool_name access)
        in case auto_mode_fast_path access tool_name needs_user of
             Fast_Allow \<Rightarrow> Auto_Answer st (Some Snap_FastPath) Allow True AUTO_FAST_PATH
           | Fast_PromptUser \<Rightarrow> Auto_Through (Some NEEDS_USER) None
           | Fast_Classify \<Rightarrow> classify_stage mc w st pf ev access
      else Auto_Through None None)"

text \<open>The built-in answers by kind of access; the last argument says that auto mode forces a prompt.\<close>

definition web_fetch_pre_decision ::
  "'g manager_config \<Rightarrow> permission_state \<Rightarrow> string \<Rightarrow> (decision \<times> string) option" where
  "web_fetch_pre_decision mc ps u =
     (case mc_parse_url mc u of
        None \<Rightarrow> None
      | Some parsed \<Rightarrow>
          if domain_check (mc_ext mc) (mc_matcher mc) parsed = None then Some (Allow, STATIC_ALLOWLIST)
          else (case host_str parsed of
                  None \<Rightarrow> None
                | Some host \<Rightarrow>
                    if normalize_domain (mc_ext mc) host \<in> set (allowed_web_fetch_domains ps)
                      then Some (Allow, PERSISTED_GRANT) else None))"

definition bash_pre_decision ::
  "'g manager_config \<Rightarrow> permission_state \<Rightarrow> gate_preflight \<Rightarrow> bash_evaluation option \<Rightarrow> bool \<Rightarrow> string
     \<Rightarrow> (decision \<times> string) option" where
  "bash_pre_decision mc ps pf ev auto_forced cmd =
     (case ev of
        None \<Rightarrow> None
      | Some e \<Rightarrow>
          if bash_request_floor_requires_prompt ev then None
          else if policy_forced_prompt pf then
            if mc_remember_tool_approvals mc \<and> \<not> auto_forced \<and> \<not> shell_file_forced_prompt pf
              then bash_grant_pre_decision cmd e ps (mc_yolo_pin mc) ASK_FLOOR_REMEMBER
              else None
          else bash_grant_pre_decision cmd e ps (mc_yolo_pin mc) (post_classify auto_forced))"

definition pre_decision ::
  "'g manager_config \<Rightarrow> actor_state \<Rightarrow> gate_preflight \<Rightarrow> bash_evaluation option
     \<Rightarrow> protected_edit_reason option \<Rightarrow> access_kind \<Rightarrow> bool \<Rightarrow> (decision \<times> string) option" where
  "pre_decision mc st pf ev prot access auto_forced =
     (case access of
        Access_Read _ \<Rightarrow> if policy_forced_prompt pf then None else Some (Allow, SAFE_COMMAND)
      | Access_Grep _ _ \<Rightarrow> if policy_forced_prompt pf then None else Some (Allow, SAFE_COMMAND)
      | Access_WebSearch _ \<Rightarrow> Some (Allow, SAFE_COMMAND)
      | Access_MCPTool name _ \<Rightarrow>
          map_option (\<lambda>d. (d, PERSISTED_GRANT))
            (mcp_pre_decision name (perm st) (policy_forced_prompt pf) (mc_remember_tool_approvals mc))
      | Access_Edit _ \<Rightarrow>
          if allow_edits_for_session st \<and> prot = None then Some (Allow, PERSISTED_GRANT)
          else if edit_policy_of (perm st) = Edit_Reject
            then Some (Reject ''edits prohibited'', SESSION_DENY) else None
      | Access_Bash cmd \<Rightarrow> bash_pre_decision mc (perm st) pf ev auto_forced cmd
      | Access_WebFetch u \<Rightarrow> web_fetch_pre_decision mc (perm st) u)"

fun auto_prompt_blocks_allow :: "access_kind \<Rightarrow> bool" where
  "auto_prompt_blocks_allow (Access_Bash _) = False"
| "auto_prompt_blocks_allow _ = True"

definition effective_pre_decision ::
  "'g manager_config \<Rightarrow> actor_state \<Rightarrow> gate_preflight \<Rightarrow> bash_evaluation option
     \<Rightarrow> protected_edit_reason option \<Rightarrow> access_kind \<Rightarrow> bool \<Rightarrow> (decision \<times> string) option" where
  "effective_pre_decision mc st pf ev prot access auto_forced =
     (case pre_decision mc st pf ev prot access auto_forced of
        Some (d, reason) \<Rightarrow>
          if auto_forced \<and> auto_prompt_blocks_allow access \<and> d = Allow then None else Some (d, reason)
      | None \<Rightarrow> None)"

section \<open>The prompt\<close>

definition prompted_decision_approved :: "decision \<Rightarrow> string \<Rightarrow> bool option" where
  "prompted_decision_approved d outcome_str =
     (case d of
        Allow \<Rightarrow> Some True
      | Reject _ \<Rightarrow> if outcome_str \<noteq> ''error'' then Some False else None
      | _ \<Rightarrow> None)"

text \<open>
  The user's answer to a Bash prompt: the new grants, whether they are written to disk, the
  decision and its name.
\<close>

fun bash_outcome ::
  "permission_state \<Rightarrow> string \<Rightarrow> prompt_outcome \<Rightarrow> permission_state \<times> bool \<times> decision \<times> string" where
  "bash_outcome ps cmd AllowOnce = (ps, False, Allow, ''allow_once'')"
| "bash_outcome ps cmd AllowAlways =
     (ps\<lparr>allowed_bash_commands := List.insert cmd (allowed_bash_commands ps)\<rparr>, True, Allow, ''allow_always'')"
| "bash_outcome ps cmd (AllowAlwaysBashCommand pre) =
     (ps\<lparr>allowed_bash_commands := List.insert pre (allowed_bash_commands ps)\<rparr>, True, Allow,
      ''allow_always_bash'')"
| "bash_outcome ps cmd (AllowAlwaysDomain _) = (ps, False, Allow, ''allow_once'')"
| "bash_outcome ps cmd (AllowAlwaysMcpTool _) = (ps, False, Allow, ''allow_once'')"
| "bash_outcome ps cmd (AllowAlwaysMcpServer _) = (ps, False, Allow, ''allow_once'')"
| "bash_outcome ps cmd AllowEditsForSession = (ps, False, Allow, ''allow_once'')"
| "bash_outcome ps cmd RejectOnce = (ps, False, Reject ''User rejected the execution'', ''reject_once'')"
| "bash_outcome ps cmd (RejectAlwaysBashCommand pre) =
     (ps\<lparr>disallowed_bash_commands := List.insert pre (disallowed_bash_commands ps)\<rparr>, True,
      Reject (''User rejected the execution and excluded '' @ pre @ '' from this session''),
      ''reject_always_bash'')"
| "bash_outcome ps cmd Outcome_Cancelled = (ps, False, Cancelled, ''cancelled'')"
| "bash_outcome ps cmd (Outcome_FollowupMessage msg) = (ps, False, FollowupMessage msg, ''followup'')"
| "bash_outcome ps cmd (Outcome_Error e) =
     (ps, False, Reject (''Failed to request permission from user: '' @ e), ''error'')"

definition allow_mcp_tool :: "string \<Rightarrow> permission_state \<Rightarrow> permission_state" where
  "allow_mcp_tool name ps = ps\<lparr>allowed_mcp_tools := List.insert name (allowed_mcp_tools ps)\<rparr>"

definition mcp_server_outcome ::
  "permission_state \<Rightarrow> string \<Rightarrow> string \<Rightarrow> permission_state" where
  "mcp_server_outcome ps access_name server_prefix =
     (case parse_mcp_qualified_name access_name of
        Some (_, canonical, _) \<Rightarrow>
          if canonical = server_prefix
            then ps\<lparr>allowed_mcp_servers := List.insert canonical (allowed_mcp_servers ps)\<rparr>
            else allow_mcp_tool access_name ps
      | None \<Rightarrow> allow_mcp_tool access_name ps)"

text \<open>The other kinds of access; the grant for edits of this session is decided by \<open>grants_edits\<close>.\<close>

fun other_outcome ::
  "permission_state \<Rightarrow> access_kind \<Rightarrow> prompt_outcome \<Rightarrow> permission_state \<times> bool \<times> decision \<times> string" where
  "other_outcome ps access AllowOnce = (ps, False, Allow, ''allow_once'')"
| "other_outcome ps access AllowEditsForSession = (ps, False, Allow, ''allow_edits_for_session'')"
| "other_outcome ps access AllowAlways =
     ((case access of Access_MCPTool name _ \<Rightarrow> allow_mcp_tool name ps | _ \<Rightarrow> ps), True, Allow, ''allow_always'')"
| "other_outcome ps access (AllowAlwaysBashCommand _) = (ps, False, Allow, ''allow_always_bash'')"
| "other_outcome ps access (AllowAlwaysDomain d) =
     (case access of
        Access_WebFetch _ \<Rightarrow>
          (ps\<lparr>allowed_web_fetch_domains := List.insert d (allowed_web_fetch_domains ps)\<rparr>, True, Allow,
           ''allow_always_domain'')
      | _ \<Rightarrow> (ps, False, Allow, ''allow_always_domain''))"
| "other_outcome ps access (AllowAlwaysMcpTool _) =
     (case access of
        Access_MCPTool access_name _ \<Rightarrow>
          (allow_mcp_tool access_name ps, True, Allow, ''allow_always_mcp_tool'')
      | _ \<Rightarrow> (ps, False, Allow, ''allow_always_mcp_tool''))"
| "other_outcome ps access (AllowAlwaysMcpServer server_prefix) =
     (case access of
        Access_MCPTool access_name _ \<Rightarrow>
          (mcp_server_outcome ps access_name server_prefix, True, Allow, ''allow_always_mcp_server'')
      | _ \<Rightarrow> (ps, False, Allow, ''allow_always_mcp_server''))"
| "other_outcome ps access (RejectAlwaysBashCommand _) =
     (ps, False, Reject ''User rejected the execution'', ''reject_always_bash'')"
| "other_outcome ps access RejectOnce =
     (ps, False, Reject ''User rejected the execution'', ''reject_once'')"
| "other_outcome ps access Outcome_Cancelled = (ps, False, Cancelled, ''cancelled'')"
| "other_outcome ps access (Outcome_Error e) =
     (ps, False, Reject (''Failed to request permission from user: '' @ e), ''error'')"
| "other_outcome ps access (Outcome_FollowupMessage msg) = (ps, False, FollowupMessage msg, ''followup'')"

definition grants_edits :: "access_kind \<Rightarrow> prompt_outcome \<Rightarrow> bool" where
  "grants_edits access out \<longleftrightarrow>
     (case access of Access_Bash _ \<Rightarrow> False | _ \<Rightarrow> out = AllowEditsForSession)"

definition apply_outcome ::
  "permission_state \<Rightarrow> access_kind \<Rightarrow> prompt_outcome \<Rightarrow> permission_state \<times> bool \<times> decision \<times> string" where
  "apply_outcome ps access out =
     (case access of Access_Bash cmd \<Rightarrow> bash_outcome ps cmd out | _ \<Rightarrow> other_outcome ps access out)"

definition record_decision ::
  "'g manager_config \<Rightarrow> access_kind \<Rightarrow> decision \<Rightarrow> string \<Rightarrow> classifier_turn list \<Rightarrow> classifier_turn list" where
  "record_decision mc access d outcome_str recorded =
     (case prompted_decision_approved d outcome_str of
        None \<Rightarrow> recorded
      | Some approved \<Rightarrow>
          let recorded = recorded @ [PermissionDecision (tool_name_for_access access)
                (permission_decision_args (mc_to_json mc) access (access_detail (mc_to_json mc) access))
                approved]
          in if length recorded > MAX_RECORDED_PERMISSION_DECISIONS
             then drop (length recorded - MAX_RECORDED_PERMISSION_DECISIONS) recorded else recorded)"

definition prompt_stage ::
  "'g manager_config \<Rightarrow> request_world \<Rightarrow> actor_state \<Rightarrow> classifier_snapshot option
     \<Rightarrow> protected_edit_reason option \<Rightarrow> access_kind \<Rightarrow> string \<Rightarrow> actor_state \<times> effect list" where
  "prompt_stage mc w st snap prot access trigger =
     (let out = (if rw_gone_in_prompt w then Outcome_Cancelled else rw_answer w);
          (ps, persist, d, outcome_str) = apply_outcome (perm st) access out;
          gone = (d = Cancelled \<and> rw_gone_at_end w);
          st = st\<lparr>perm := ps,
                  allow_edits_for_session := allow_edits_for_session st \<or> grants_edits access out,
                  recorded_permission_decisions :=
                    record_decision mc access d outcome_str (recorded_permission_decisions st),
                  auto_consecutive_denials :=
                    (if outcome_str \<noteq> ''error'' \<and> \<not> gone then 0 else auto_consecutive_denials st)\<rparr>
      in (st,
          Prompt access prot # (if persist then [Persist ps] else [])
          @ [Emit (event_of mc st snap access d False True (Some outcome_str)
                (if gone then REQUESTER_GONE else trigger)),
             Respond d]))"

section \<open>A request\<close>

text \<open>What the policy answers once deny rules are handled: asks and floored allows do not answer.\<close>

definition policy_answer ::
  "gate_preflight \<Rightarrow> bash_evaluation option \<Rightarrow> protected_edit_reason option \<Rightarrow> decision option" where
  "policy_answer pf ev prot =
     (case policy_decision pf of
        None \<Rightarrow> None
      | Some d \<Rightarrow>
          if d = Ask then None
          else if d = Allow \<and> (prot \<noteq> None \<or> bash_request_floor_requires_prompt ev) then None
          else Some d)"

text \<open>From the sandbox on: nothing before has answered; \<open>forced\<close> is the reason auto mode gave, if any.\<close>

definition late_stages ::
  "'g manager_config \<Rightarrow> request_world \<Rightarrow> actor_state \<Rightarrow> gate_preflight \<Rightarrow> bash_evaluation option
     \<Rightarrow> protected_edit_reason option \<Rightarrow> access_kind \<Rightarrow> string option \<Rightarrow> classifier_snapshot option
     \<Rightarrow> actor_state \<times> effect list" where
  "late_stages mc w st pf ev prot access forced snap =
     (if (case access of Access_Bash _ \<Rightarrow> True | _ \<Rightarrow> False)
         \<and> sandbox_may_auto_allow_bash ev (rw_sandbox_auto_allow w)
         \<and> \<not> policy_forced_prompt pf \<and> forced = None
      then (st, answer mc st snap access Allow True SANDBOX_AUTO)
      else case policy_answer pf ev prot of
        Some d \<Rightarrow> (st, answer mc st snap access d True POLICY_ALLOW)
      | None \<Rightarrow>
          (case effective_pre_decision mc st pf ev prot access (forced \<noteq> None) of
             Some (d, reason) \<Rightarrow> (st, answer mc st snap access d True reason)
           | None \<Rightarrow>
               if mc_prompt_policy mc = Prompt_Deny then
                 (st, answer mc st snap access
                    (PolicyDeny ''denied by prompt policy (tool not pre-approved)'') False PROMPT_DENY)
               else
                 let trigger = unwrap_or (prompt_trigger pf forced)
                       (if bash_opaque_shell_floor_requires_prompt ev then OPAQUE_SHELL
                        else if bash_request_floor_requires_prompt ev then BASH_REQUEST_FLOOR
                        else NEEDS_USER)
                 in if rw_gone_before_prompt w then (st, requester_gone mc st snap access)
                    else prompt_stage mc w st snap prot access trigger))"

text \<open>The session's grants, consulted unless something asks; the middle stages once the script is evaluated.\<close>

definition unforced :: "gate_preflight \<Rightarrow> protected_edit_reason option \<Rightarrow> bool" where
  "unforced pf prot \<longleftrightarrow> \<not> policy_forced_prompt pf \<and> \<not> shell_forced_prompt pf \<and> prot = None"

definition session_stage ::
  "'g manager_config \<Rightarrow> actor_state \<Rightarrow> gate_preflight \<Rightarrow> bash_evaluation option
     \<Rightarrow> protected_edit_reason option \<Rightarrow> access_kind \<Rightarrow> (decision \<times> string) option" where
  "session_stage mc st pf ev prot access =
     (if unforced pf prot
      then session_grant_pre_decision (mc_ext mc) (mc_parse_url mc) access ev (perm st)
             (allow_edits_for_session st) (mc_matcher mc)
             (\<not> (auto_mode st \<and> mc_allowlist_is_default mc)) (mc_yolo_pin mc)
      else None)"

definition middle_stages ::
  "'g manager_config \<Rightarrow> request_world \<Rightarrow> actor_state \<Rightarrow> gate_preflight \<Rightarrow> bash_evaluation option
     \<Rightarrow> protected_edit_reason option \<Rightarrow> access_kind \<Rightarrow> actor_state \<times> effect list" where
  "middle_stages mc w st pf ev prot access =
     (case session_stage mc st pf ev prot access of
        Some (d, reason) \<Rightarrow> (st, answer mc st None access d True reason)
      | None \<Rightarrow>
          if auto_mode st \<and> unforced pf prot \<and> \<not> bash_request_floor_requires_prompt ev
             \<and> policy_decision pf = Some Allow
          then (st, answer mc st None access Allow True POLICY_ALLOW)
          else
            (case auto_stage mc w st pf ev prot access of
               Auto_Answer st' snap d approved reason \<Rightarrow>
                 (st', answer mc st' snap access d approved reason)
             | Auto_Gone \<Rightarrow> (st, requester_gone mc st None access)
             | Auto_Through forced snap \<Rightarrow> late_stages mc w st pf ev prot access forced snap))"

definition request_preflight ::
  "'g manager_config \<Rightarrow> request_world \<Rightarrow> actor_state \<Rightarrow> access_kind \<Rightarrow> gate_preflight" where
  "request_preflight mc w st access =
     preflight_evaluate (mc_ext mc) (rw_fs w) (mc_policy mc) access (mc_cwd mc) (auto_mode st)"

definition handle_request ::
  "'g manager_config \<Rightarrow> request_world \<Rightarrow> actor_state \<Rightarrow> access_kind \<Rightarrow> edit_path_context option
     \<Rightarrow> actor_state \<times> effect list" where
  "handle_request mc w st access ctx =
     (if rw_gone_at_dequeue w then (st, requester_gone mc st None access)
      else
        let pf = request_preflight mc w st access
        in case policy_decision pf of
             Some (Reject reason) \<Rightarrow> (st, answer mc st None access (PolicyDeny reason) False POLICY_DENY)
           | _ \<Rightarrow>
               if yolo_mode st then (st, answer mc st None access Allow True YOLO)
               else
                 (case bash_stage mc w st access of
                    None \<Rightarrow> (st, requester_gone mc st None access)
                  | Some ev \<Rightarrow>
                      middle_stages mc w st pf ev (protected_edit_of mc w access ctx) access))"

section \<open>Commands and the life of the actor\<close>

datatype permission_command =
    Request access_kind "edit_path_context option" request_world
  | SetYoloMode bool
  | SetAutoMode bool
  | SetClassifier "classifier option"
  | SetClassifierTranscript "classifier_turn list"
  | SetProjectInstructions "string option"
  | ResetState
  | Shutdown

text \<open>One turn of the loop over the queue; \<open>None\<close> ends it. A request carries the world it meets.\<close>

fun actor_step ::
  "'g manager_config \<Rightarrow> permission_command \<Rightarrow> actor_state \<Rightarrow> (actor_state \<times> effect list) option" where
  "actor_step mc (Request access ctx w) st = Some (handle_request mc w st access ctx)"
| "actor_step mc (SetYoloMode enabled) st =
     Some (if enabled then
             let clamped = clamp_yolo enabled (mc_yolo_pin mc)
             in st\<lparr>pin_refusal_logged := pin_refusal_logged st \<or> \<not> clamped, yolo_mode := clamped,
                   auto_mode := (if clamped then False else auto_mode st)\<rparr>
           else st, [])"
| "actor_step mc (SetAutoMode enabled) st = Some (if enabled then st else st\<lparr>auto_mode := False\<rparr>, [])"
| "actor_step mc (SetClassifier c) st = Some (st\<lparr>auto_classifier := c\<rparr>, [])"
| "actor_step mc (SetClassifierTranscript turns) st = Some (st\<lparr>classifier_turns := turns\<rparr>, [])"
| "actor_step mc (SetProjectInstructions i) st = Some (st\<lparr>project_instructions := i\<rparr>, [])"
| "actor_step mc ResetState st =
     Some (st\<lparr>perm := permission_state_default, allow_edits_for_session := False\<rparr>,
       [Persist permission_state_default])"
| "actor_step mc Shutdown st = None"

fun actor_run ::
  "'g manager_config \<Rightarrow> permission_command list \<Rightarrow> actor_state \<Rightarrow> actor_state \<times> effect list" where
  "actor_run mc [] st = (st, [])"
| "actor_run mc (c # cs) st =
     (case actor_step mc c st of
        None \<Rightarrow> (st, [])
      | Some (st', effs) \<Rightarrow> let (st'', effs') = actor_run mc cs st' in (st'', effs @ effs'))"

text \<open>
  The start of the actor: the state read from disk (\<open>load_state_from_disk\<close>, already migrated)
  with the legacy edit policy downgraded.
\<close>

definition actor_config ::
  "'g externs \<Rightarrow> (string \<Rightarrow> url option) \<Rightarrow> (json \<Rightarrow> string) \<Rightarrow> (string \<Rightarrow> string) \<Rightarrow> string
     \<Rightarrow> permission_config option \<Rightarrow> string list \<Rightarrow> bool \<Rightarrow> string option \<Rightarrow> 'g manager_config" where
  "actor_config ext parse_url to_json tilde cwd pc domains remember yolo_pin =
     \<lparr>mc_cwd = cwd, mc_policy = map_option (compiled_policy_new ext) pc,
      mc_prompt_policy = (case pc of Some c \<Rightarrow> prompt_policy_of c | None \<Rightarrow> Prompt_Ask),
      mc_matcher = domain_matcher_new ext domains,
      mc_allowlist_is_default = (domains = DEFAULT_ALLOWED_DOMAINS),
      mc_remember_tool_approvals = remember, mc_yolo_pin = yolo_pin, mc_ext = ext,
      mc_parse_url = parse_url, mc_to_json = to_json, mc_tilde = tilde\<rparr>"

definition actor_init ::
  "permission_state \<Rightarrow> classifier \<Rightarrow> prompt_policy \<Rightarrow> bool \<Rightarrow> string option \<Rightarrow> actor_state" where
  "actor_init loaded default_classifier policy initial_yolo yolo_pin =
     (let yolo = clamp_yolo initial_yolo yolo_pin
      in \<lparr>perm = (if edit_policy_of loaded = Edit_Allow then loaded\<lparr>edit_policy_of := Edit_Ask\<rparr> else loaded),
          yolo_mode = yolo, auto_mode = (\<not> yolo \<and> policy = Prompt_Auto),
          auto_classifier = Some default_classifier, auto_consecutive_denials = 0,
          auto_total_denials = 0, classifier_turns = [], recorded_permission_decisions = [],
          project_instructions = None, pin_refusal_logged = False, allow_edits_for_session = False\<rparr>)"

text \<open>The downgraded state is saved before the first command.\<close>

definition startup_effects :: "permission_state \<Rightarrow> effect list" where
  "startup_effects loaded =
     (if edit_policy_of loaded = Edit_Allow then [Persist (loaded\<lparr>edit_policy_of := Edit_Ask\<rparr>)] else [])"

end
