(* ===== verification/Actor_Requests.thy ===== *)
theory Actor_Requests
  imports Permission_Actor
begin

text \<open>
  How a permission request can end: the ways in which the manager allows a request without
  asking the user, and what that means for deny rules, ask rules, protected files and commands
  that the user has rejected.
\<close>

section \<open>How a request ends\<close>

text \<open>Whether the user was asked, and whether the answer was to allow.\<close>

definition asks_user :: "effect list \<Rightarrow> bool" where
  "asks_user = list_ex (\<lambda>e. case e of Prompt _ _ \<Rightarrow> True | _ \<Rightarrow> False)"

definition allowed :: "effect list \<Rightarrow> bool" where
  "allowed = list_ex (\<lambda>e. case e of Respond d \<Rightarrow> d = Allow | _ \<Rightarrow> False)"

lemma asks_user_iff: "asks_user effs \<longleftrightarrow> (\<exists>a p. Prompt a p \<in> set effs)"
  by (induction effs) (auto simp: asks_user_def split: effect.split)

lemma allowed_iff: "allowed effs \<longleftrightarrow> Respond Allow \<in> set effs"
  by (induction effs) (auto simp: allowed_def split: effect.split)

lemma prompt_stage_asks [simp]: "asks_user (snd (prompt_stage mc w st snap prot access trigger))"
  by (auto simp: prompt_stage_def asks_user_def Let_def split: prod.split)

lemma answer_simps [simp]:
  "Respond d' \<in> set (answer mc st snap access d app reason) \<longleftrightarrow> d' = d"
  "allowed (answer mc st snap access d app reason) \<longleftrightarrow> d = Allow"
  "\<not> asks_user (answer mc st snap access d app reason)"
  by (auto simp: answer_def asks_user_def allowed_def)

lemma requester_gone_simps [simp]:
  "Respond d \<notin> set (requester_gone mc st snap access)"
  "\<not> allowed (requester_gone mc st snap access)"
  "\<not> asks_user (requester_gone mc st snap access)"
  by (auto simp: requester_gone_def asks_user_def allowed_def)

lemma policy_answer_Some:
  "policy_answer pf ev prot = Some d \<longleftrightarrow>
     policy_decision pf = Some d \<and> d \<noteq> Ask
     \<and> (d = Allow \<longrightarrow> prot = None \<and> \<not> bash_request_floor_requires_prompt ev)"
  by (auto simp: policy_answer_def split: option.split)

text \<open>The ways in which the late stages allow without asking.\<close>

lemma late_stages_allow:
  assumes "allowed (snd (late_stages mc w st pf ev prot access forced snap))"
    and "\<not> asks_user (snd (late_stages mc w st pf ev prot access forced snap))"
  obtains (sandbox) cmd where "access = Access_Bash cmd" "rw_sandbox_auto_allow w"
      "\<not> bash_request_floor_requires_prompt ev" "\<not> policy_forced_prompt pf" "forced = None"
  | (policy) "policy_decision pf = Some Allow" "prot = None" "\<not> bash_request_floor_requires_prompt ev"
  | (builtin) reason where "policy_answer pf ev prot = None"
      "effective_pre_decision mc st pf ev prot access (forced \<noteq> None) = Some (Allow, reason)"
  using assms unfolding late_stages_def
  by (auto simp: sandbox_may_auto_allow_bash_def policy_answer_Some Let_def
      split: if_splits option.splits prod.splits access_kind.splits)

lemma handle_request_undenied:
  assumes "\<not> rw_gone_at_dequeue w" "\<nexists>r. policy_decision (request_preflight mc w st access) = Some (Reject r)"
  shows "handle_request mc w st access ctx =
    (if yolo_mode st then (st, answer mc st None access Allow True YOLO)
     else case bash_stage mc w st access of
        None \<Rightarrow> (st, requester_gone mc st None access)
      | Some ev \<Rightarrow> middle_stages mc w st (request_preflight mc w st access) ev
          (protected_edit_of mc w access ctx) access)"
  using assms by (auto simp: handle_request_def Let_def split: option.split decision.split)

lemma handle_request_allow:
  assumes "allowed (snd (handle_request mc w st access ctx))"
    and "\<not> asks_user (snd (handle_request mc w st access ctx))"
  defines "pf \<equiv> request_preflight mc w st access" and "prot \<equiv> protected_edit_of mc w access ctx"
  obtains (yolo) "yolo_mode st" "\<nexists>r. policy_decision pf = Some (Reject r)"
  | (grant) ev reason where "bash_stage mc w st access = Some ev" 
      "session_stage mc st pf ev prot access = Some (Allow, reason)"
      "\<not> yolo_mode st" "\<nexists>r. policy_decision pf = Some (Reject r)"
  | (policy) ev where "bash_stage mc w st access = Some ev" "policy_decision pf = Some Allow" "prot = None"
      "\<not> bash_request_floor_requires_prompt ev" 
      "session_stage mc st pf ev prot access = None" "\<not> yolo_mode st" 
  | (auto) ev st' snap app reason where "bash_stage mc w st access = Some ev"
      "session_stage mc st pf ev prot access = None" 
      "auto_stage mc w st pf ev prot access = Auto_Answer st' snap Allow app reason"
      "\<not> yolo_mode st" "\<nexists>r. policy_decision pf = Some (Reject r)"
  | (sandbox) ev snap cmd where "bash_stage mc w st access = Some ev"
      "session_stage mc st pf ev prot access = None" 
      "auto_stage mc w st pf ev prot access = Auto_Through None snap"
      "access = Access_Bash cmd" "rw_sandbox_auto_allow w"
      "\<not> bash_request_floor_requires_prompt ev" "\<not> policy_forced_prompt pf"
      "\<not> yolo_mode st" "\<nexists>r. policy_decision pf = Some (Reject r)"
  | (builtin) ev forced snap reason where "bash_stage mc w st access = Some ev"
      "session_stage mc st pf ev prot access = None" 
      "auto_stage mc w st pf ev prot access = Auto_Through forced snap"
      "policy_answer pf ev prot = None"
      "effective_pre_decision mc st pf ev prot access (forced \<noteq> None) = Some (Allow, reason)"
      "\<not> yolo_mode st" "\<nexists>r. policy_decision pf = Some (Reject r)"
proof -
  have live: "\<not> rw_gone_at_dequeue w" using assms(1) by (auto simp: handle_request_def)
  have nr: "\<nexists>r. policy_decision pf = Some (Reject r)"
    using assms(1) live by (auto simp: handle_request_def pf_def)
  note h = handle_request_undenied [OF live nr [unfolded pf_def], of ctx, folded pf_def prot_def]
  show thesis
  proof (cases "yolo_mode st")
    case True
    with nr yolo show thesis by blast
  next
    case False
    with h assms(1) obtain ev where ev: "bash_stage mc w st access = Some ev"
      by (cases "bash_stage mc w st access") auto
    with h False assms(1,2)
    have m: "allowed (snd (middle_stages mc w st pf ev prot access))"
      "\<not> asks_user (snd (middle_stages mc w st pf ev prot access))" by simp_all
    show thesis
    proof (cases "session_stage mc st pf ev prot access")
      case (Some x)
      then obtain r where "x = (Allow, r)" using m(1) by (cases x) (auto simp: middle_stages_def)
      then show thesis using grant ev Some False nr by blast
    next
      case None
      show thesis
      proof (cases "auto_mode st \<and> unforced pf prot \<and> \<not> bash_request_floor_requires_prompt ev
             \<and> policy_decision pf = Some Allow")
        case True
        then show thesis using policy ev None False by (auto simp: unforced_def)
      next
        case na: False
        show thesis
        proof (cases "auto_stage mc w st pf ev prot access")
          case (Auto_Answer st' snap d app reason)
          with m None na have "d = Allow" by (auto simp: middle_stages_def)
          then show thesis using auto Auto_Answer ev None False nr by blast
        next
          case Auto_Gone
          with m None na show thesis by (auto simp: middle_stages_def)
        next
          case (Auto_Through forced snap)
          with m None na
          have l: "allowed (snd (late_stages mc w st pf ev prot access forced snap))"
            "\<not> asks_user (snd (late_stages mc w st pf ev prot access forced snap))"
            by (auto simp: middle_stages_def)
          from l show thesis
            by (rule late_stages_allow)
              (use Auto_Through sandbox policy builtin ev None False nr in blast)+
        qed
      qed
    qed
  qed
qed



lemma handle_request_deny:
  assumes "\<not> rw_gone_at_dequeue w"
    and "policy_decision (request_preflight mc w st access) = Some (Reject r)"
  shows "handle_request mc w st access ctx = (st, answer mc st None access (PolicyDeny r) False POLICY_DENY)"
  using assms by (simp add: handle_request_def)

text \<open>
  C1. A deny rule binds in every mode: when a deny rule binds anywhere in a shell command (on its
  text, on a command it reaches or on a file it names), the manager refuses the request with a
  policy denial, tells it in one event, and leaves its state as it was, whether always-approve
  or auto mode is on, whatever has been granted and whatever the user would answer. (The requester
  must still be there when the request is taken from the queue.)
\<close>

theorem deny_rule_binds_every_mode:
  assumes "mc_policy mc = Some (compiled_policy_new (mc_ext mc) c)"
    and "binds_somewhere (mc_ext mc) (rw_fs w) c cmd (mc_cwd mc) Act_Deny"
    and "\<not> rw_gone_at_dequeue w"
  shows "\<exists>e r. handle_request mc w st (Access_Bash cmd) ctx = (st, [Emit e, Respond (PolicyDeny r)])"
proof -
  have "request_preflight mc w st (Access_Bash cmd) =
      bash_preflight (mc_ext mc) (rw_fs w) c cmd (mc_cwd mc) (auto_mode st)"
    by (simp add: request_preflight_def assms(1))
  with preflight_reject assms(2) obtain r
    where "policy_decision (request_preflight mc w st (Access_Bash cmd)) = Some (Reject r)" by metis
  from handle_request_deny [OF assms(3) this] show ?thesis by (auto simp: answer_def)
qed

lemma bash_stage_evaluation:
  assumes "bash_stage mc w st (Access_Bash cmd) = Some ev"
  obtains e where "ev = Some e"
    "be_segments e = be_segments (evaluate_bash (mc_ext mc) cmd (perm st) True)"
    "all_segments_granted e = all_segments_granted (evaluate_bash (mc_ext mc) cmd (perm st) True)"
    "exact_grant e = exact_grant (evaluate_bash (mc_ext mc) cmd (perm st) True)"
    "has_floor_effect (evaluate_bash (mc_ext mc) cmd (perm st) True) \<longrightarrow> has_floor_effect e"
  using assms
  by (auto simp: bash_stage_def Let_def has_floor_effect_def split: option.splits if_splits)

lemma bash_grant_pre_decision_weaker:
  assumes "be_segments e' = be_segments e" "all_segments_granted e' = all_segments_granted e"
    and "exact_grant e' = exact_grant e" "has_floor_effect e \<longrightarrow> has_floor_effect e'"
    and "bash_grant_pre_decision cmd e' st pin opts = Some (Allow, why)"
  shows "bash_grant_pre_decision cmd e st pin opts = Some (Allow, why)"
  using assms
  by (auto simp: bash_grant_pre_decision_def request_floor_Some split: segment_evaluation.splits if_splits)

lemma remembered_segments:
  assumes "bash_grant_pre_decision cmd (evaluate_bash ext cmd st honor) st pin ASK_FLOOR_REMEMBER =
      Some (Allow, why)"
  shows "\<exists>segs. script_segments ext cmd = Some segs
    \<and> (\<forall>c \<in> set segs. is_setup_command (inner_words c)
         \<or> (granted_segment st (inner_words c) \<and> \<not> is_dangerous_command_words (inner_words c)
            \<and> \<not> disallowed_segment st (inner_words c)))"
  by (rule evaluate_bash_cases [of ext cmd st honor])
    (use assms in \<open>auto simp: bash_grant_pre_decision_def ASK_FLOOR_REMEMBER_def
       passed_segment_def split: if_splits\<close>)

text \<open>
  C2. Outside always-approve mode an ask rule binds: when an ask rule binds anywhere in a shell
  command and the command is allowed without asking, then approvals are remembered and every
  segment of the script (mere set-up apart) matches a prefix that the user has granted. Neither
  the classifier of auto mode nor the sandbox, safe lists or blanket permissions can waive it.
\<close>

theorem ask_rule_binds_outside_yolo:
  assumes "mc_policy mc = Some (compiled_policy_new (mc_ext mc) c)" "\<not> yolo_mode st"
    and "binds_somewhere (mc_ext mc) (rw_fs w) c cmd (mc_cwd mc) Act_Ask"
    and "allowed (snd (handle_request mc w st (Access_Bash cmd) ctx))"
    and "\<not> asks_user (snd (handle_request mc w st (Access_Bash cmd) ctx))"
  shows "mc_remember_tool_approvals mc
    \<and> (\<exists>segs. script_segments (mc_ext mc) cmd = Some segs
        \<and> (\<forall>c \<in> set segs. is_setup_command (inner_words c) \<or> granted_segment (perm st) (inner_words c)))"
proof -
  let ?pf = "request_preflight mc w st (Access_Bash cmd)"
  have pf: "?pf = bash_preflight (mc_ext mc) (rw_fs w) c cmd (mc_cwd mc) (auto_mode st)"
    by (simp add: request_preflight_def assms(1))
  have forced: "policy_forced_prompt ?pf \<or> (\<exists>r. policy_decision ?pf = Some (Reject r))"
    unfolding pf by (rule preflight_ask_binds [OF assms(3)])
  have admits: "policy_forced_prompt ?pf \<Longrightarrow> \<not> admits_auto_classifier ?pf"
    using deferred_ask_no_rule assms(3) unfolding pf by blast
  have ask: "policy_forced_prompt ?pf \<Longrightarrow> policy_decision ?pf = Some Ask"
    by (simp add: policy_forced_prompt_def)
  from assms(4,5) show ?thesis
  proof (rule handle_request_allow)
    fix ev forced' snap reason
    assume ev: "bash_stage mc w st (Access_Bash cmd) = Some ev"
      and "auto_stage mc w st ?pf ev (protected_edit_of mc w (Access_Bash cmd) ctx) (Access_Bash cmd) =
        Auto_Through forced' snap"
      and pre: "effective_pre_decision mc st ?pf ev (protected_edit_of mc w (Access_Bash cmd) ctx)
        (Access_Bash cmd) (forced' \<noteq> None) = Some (Allow, reason)"
      and "\<nexists>r. policy_decision ?pf = Some (Reject r)"
    then have f: "policy_forced_prompt ?pf" using forced by blast
    obtain e where e: "ev = Some e"
        "be_segments e = be_segments (evaluate_bash (mc_ext mc) cmd (perm st) True)"
        "all_segments_granted e = all_segments_granted (evaluate_bash (mc_ext mc) cmd (perm st) True)"
        "exact_grant e = exact_grant (evaluate_bash (mc_ext mc) cmd (perm st) True)"
        "has_floor_effect (evaluate_bash (mc_ext mc) cmd (perm st) True) \<longrightarrow> has_floor_effect e"
      by (rule bash_stage_evaluation [OF ev])
    from pre f e(1) have "mc_remember_tool_approvals mc"
      and g: "bash_grant_pre_decision cmd e (perm st) (mc_yolo_pin mc) ASK_FLOOR_REMEMBER = Some (Allow, reason)"
      by (auto simp: effective_pre_decision_def pre_decision_def bash_pre_decision_def
          split: option.splits if_splits)
    with remembered_segments [OF bash_grant_pre_decision_weaker [OF e(2-5) g]] show ?thesis by blast
  qed (use assms(2) forced admits ask in \<open>auto simp: session_stage_def unforced_def auto_stage_def\<close>)
qed

text \<open>A request leaves the state alone, clears or counts a denial, or stores the user's answer.\<close>

lemma classify_stage_state:
  assumes "classify_stage mc w st pf ev access = Auto_Answer st' snap d app reason"
  shows "(st' = st\<lparr>auto_consecutive_denials := 0\<rparr> \<and> reason = AUTO_CLASSIFIER_ALLOW)
    \<or> (reason = AUTO_CLASSIFIER_DENY
       \<and> auto_consecutive_denials st < AUTO_DENY_CONSECUTIVE_LIMIT \<and> auto_total_denials st < AUTO_DENY_TOTAL_LIMIT
       \<and> st' = st\<lparr>auto_consecutive_denials := auto_consecutive_denials st + 1,
                  auto_total_denials := auto_total_denials st + 1\<rparr>)"
  using assms
  by (auto simp: classify_stage_def Let_def split: option.splits if_splits classifier_verdict.splits)

lemma auto_stage_state:
  assumes "auto_stage mc w st pf ev prot access = Auto_Answer st' snap d app reason"
  shows "(st' = st \<and> reason = AUTO_FAST_PATH)
    \<or> (st' = st\<lparr>auto_consecutive_denials := 0\<rparr> \<and> reason = AUTO_CLASSIFIER_ALLOW)
    \<or> (reason = AUTO_CLASSIFIER_DENY
       \<and> auto_consecutive_denials st < AUTO_DENY_CONSECUTIVE_LIMIT \<and> auto_total_denials st < AUTO_DENY_TOTAL_LIMIT
       \<and> st' = st\<lparr>auto_consecutive_denials := auto_consecutive_denials st + 1,
                  auto_total_denials := auto_total_denials st + 1\<rparr>)"
  using assms classify_stage_state [of mc w st pf ev access]
  by (auto simp: auto_stage_def Let_def split: if_splits auto_fast_path.splits)

text \<open>How a request ends: answered, abandoned, or put to the user.\<close>

definition unasked_reason :: "string \<Rightarrow> bool" where
  "unasked_reason reason \<longleftrightarrow> reason \<noteq> AUTO_CLASSIFIER_DENY \<and> reason \<noteq> REQUESTER_GONE"

lemmas reason_defs = unasked_reason_def YOLO_def POLICY_ALLOW_def POLICY_DENY_def AUTO_FAST_PATH_def
  AUTO_CLASSIFIER_ALLOW_def AUTO_CLASSIFIER_DENY_def SANDBOX_AUTO_def PERSISTED_GRANT_def
  PROMPT_DENY_def REQUESTER_GONE_def SESSION_GRANT_def STATIC_ALLOWLIST_def SAFE_COMMAND_def
  SESSION_DENY_def

lemma bash_grant_reason:
  "bash_grant_pre_decision cmd e ps pin opts = Some (d, reason) \<Longrightarrow> unasked_reason reason"
  by (auto simp: bash_grant_pre_decision_def grant_allow_def reason_defs
      split: segment_evaluation.splits if_splits)

lemma session_stage_reason:
  "session_stage mc st pf ev prot access = Some (d, reason) \<Longrightarrow> unasked_reason reason"
  using bash_grant_reason
  by (auto simp: session_stage_def session_grant_pre_decision_def grant_allow_def
      split: access_kind.splits option.splits if_splits) (auto simp: reason_defs)

lemma pre_decision_reason:
  "effective_pre_decision mc st pf ev prot access forced = Some (d, reason) \<Longrightarrow> unasked_reason reason"
  using bash_grant_reason
  by (auto simp: effective_pre_decision_def pre_decision_def bash_pre_decision_def web_fetch_pre_decision_def
      split: access_kind.splits option.splits if_splits prod.splits) (auto simp: reason_defs)

lemma late_stages_cases:
  obtains (answered) d app reason where "unasked_reason reason"
      "late_stages mc w st pf ev prot access forced snap = (st, answer mc st snap access d app reason)"
  | (gone) "late_stages mc w st pf ev prot access forced snap = (st, requester_gone mc st snap access)"
      "rw_gone_before_prompt w"
  | (prompted) trigger where
      "late_stages mc w st pf ev prot access forced snap = prompt_stage mc w st snap prot access trigger"
proof (cases "(case access of Access_Bash _ \<Rightarrow> True | _ \<Rightarrow> False)
         \<and> sandbox_may_auto_allow_bash ev (rw_sandbox_auto_allow w)
         \<and> \<not> policy_forced_prompt pf \<and> forced = None")
  case True
  then show thesis
    by (intro answered [of SANDBOX_AUTO]) (auto simp: late_stages_def reason_defs)
next
  case False
  show thesis
  proof (cases "policy_answer pf ev prot")
    case (Some d)
    with False show thesis
      by (intro answered [of POLICY_ALLOW]) (auto simp: late_stages_def reason_defs)
  next
    case None
    note pa = None
    show thesis
    proof (cases "effective_pre_decision mc st pf ev prot access (forced \<noteq> None)")
      case (Some x)
      obtain d reason where "x = (d, reason)" by (cases x)
      with Some have x: "effective_pre_decision mc st pf ev prot access (forced \<noteq> None) = Some (d, reason)"
        by simp
      with pa False have "late_stages mc w st pf ev prot access forced snap =
          (st, answer mc st snap access d True reason)"
        by (auto simp: late_stages_def)
      with pre_decision_reason [OF x] show thesis by (rule answered)
    next
      case None
      let ?t = "unwrap_or (prompt_trigger pf forced)
        (if bash_opaque_shell_floor_requires_prompt ev then OPAQUE_SHELL
         else if bash_request_floor_requires_prompt ev then BASH_REQUEST_FLOOR else NEEDS_USER)"
      have "late_stages mc w st pf ev prot access forced snap =
          (if mc_prompt_policy mc = Prompt_Deny then
             (st, answer mc st snap access
                (PolicyDeny ''denied by prompt policy (tool not pre-approved)'') False PROMPT_DENY)
           else if rw_gone_before_prompt w then (st, requester_gone mc st snap access)
           else prompt_stage mc w st snap prot access ?t)"
        using pa False None by (auto simp: late_stages_def Let_def)
      then show thesis
        using answered [of PROMPT_DENY] gone prompted [of ?t] by (auto simp: reason_defs split: if_splits)
    qed
  qed
qed

lemma handle_request_cases:
  obtains (answered) st' snap d app reason
    where "handle_request mc w st access ctx = (st', answer mc st' snap access d app reason)"
      "st' = st \<or> st' = st\<lparr>auto_consecutive_denials := 0\<rparr>" "unasked_reason reason"
  | (denied) snap d app
    where "handle_request mc w st access ctx =
        (st\<lparr>auto_consecutive_denials := auto_consecutive_denials st + 1,
             auto_total_denials := auto_total_denials st + 1\<rparr>,
         answer mc (st\<lparr>auto_consecutive_denials := auto_consecutive_denials st + 1,
             auto_total_denials := auto_total_denials st + 1\<rparr>) snap access d app AUTO_CLASSIFIER_DENY)"
      "auto_consecutive_denials st < AUTO_DENY_CONSECUTIVE_LIMIT" "auto_total_denials st < AUTO_DENY_TOTAL_LIMIT"
  | (gone) snap where "handle_request mc w st access ctx = (st, requester_gone mc st snap access)"
      "rw_gone_at_dequeue w \<or> rw_gone_after_scan w \<or> rw_gone_in_classify w \<or> rw_gone_before_prompt w"
  | (prompted) snap prot trigger
    where "handle_request mc w st access ctx = prompt_stage mc w st snap prot access trigger"
      "prot = protected_edit_of mc w access ctx"
proof (cases "rw_gone_at_dequeue w")
  case True
  then show thesis using gone [of None] by (simp add: handle_request_def)
next
  case False
  let ?pf = "request_preflight mc w st access" and ?prot = "protected_edit_of mc w access ctx"
  consider (deny) r where "policy_decision ?pf = Some (Reject r)"
    | (yolo) "\<nexists>r. policy_decision ?pf = Some (Reject r)" "yolo_mode st"
    | (none) "\<nexists>r. policy_decision ?pf = Some (Reject r)" "\<not> yolo_mode st" "bash_stage mc w st access = None"
    | (some) ev where "\<nexists>r. policy_decision ?pf = Some (Reject r)" "\<not> yolo_mode st"
        "bash_stage mc w st access = Some ev"
    by blast
  then show thesis
  proof cases
    case deny
    with handle_request_deny [OF False deny]
    show thesis by (intro answered [of st None "PolicyDeny r" False POLICY_DENY]) (auto simp: reason_defs)
  next
    case yolo
    with handle_request_undenied [OF False yolo(1)]
    show thesis by (intro answered [of st None Allow True YOLO]) (auto simp: reason_defs)
  next
    case none
    then have "rw_gone_after_scan w"
      by (auto simp: bash_stage_def Let_def split: access_kind.splits option.splits if_splits)
    with none handle_request_undenied [OF False none(1)] show thesis by (intro gone [of None]) auto
  next
    case some
    with handle_request_undenied [OF False some(1)]
    have h: "handle_request mc w st access ctx = middle_stages mc w st ?pf ev ?prot access" by simp
    show thesis
    proof (cases "session_stage mc st ?pf ev ?prot access")
      case (Some x)
      obtain d reason where "x = (d, reason)" by (cases x)
      with Some h session_stage_reason [of mc st ?pf ev ?prot access d reason] show thesis
        by (intro answered [of st None d True reason]) (auto simp: middle_stages_def)
    next
      case None
      show thesis
      proof (cases "auto_mode st \<and> unforced ?pf ?prot \<and> \<not> bash_request_floor_requires_prompt ev
             \<and> policy_decision ?pf = Some Allow")
        case True
        with h None show thesis
          by (intro answered [of st None Allow True POLICY_ALLOW]) (auto simp: middle_stages_def reason_defs)
      next
        case na: False
        show thesis
        proof (cases "auto_stage mc w st ?pf ev ?prot access")
          case (Auto_Answer st' snap d app reason)
          with h None na have "handle_request mc w st access ctx = (st', answer mc st' snap access d app reason)"
            by (auto simp: middle_stages_def)
          with auto_stage_state [OF Auto_Answer] answered [of st' snap d app reason] denied [of snap d app]
          show thesis
            by (auto simp: unasked_reason_def) (auto simp: reason_defs)
        next
          case Auto_Gone
          then have "rw_gone_in_classify w"
            by (auto simp: auto_stage_def classify_stage_def Let_def
                split: if_splits auto_fast_path.splits option.splits classifier_verdict.splits)
          with h None na Auto_Gone show thesis by (intro gone [of None]) (auto simp: middle_stages_def)
        next
          case (Auto_Through forced snap)
          with h None na
          have l: "handle_request mc w st access ctx = late_stages mc w st ?pf ev ?prot access forced snap"
            by (auto simp: middle_stages_def)
          show thesis
            by (rule late_stages_cases [of mc w st ?pf ev ?prot access forced snap])
              (use l answered gone prompted in auto)
        qed
      qed
    qed
  qed
qed

text \<open>
  C8. A protected file is never edited unasked: outside always-approve mode an edit whose target is
  protected is allowed only after asking the user, in auto mode and with edits allowed for the
  session, too.
\<close>

theorem protected_edit_needs_confirmation:
  assumes "\<not> yolo_mode st" "protected_edit_of mc w (Access_Edit path) ctx \<noteq> None"
    and "allowed (snd (handle_request mc w st (Access_Edit path) ctx))"
  shows "asks_user (snd (handle_request mc w st (Access_Edit path) ctx))"
proof (rule ccontr)
  assume "\<not> asks_user (snd (handle_request mc w st (Access_Edit path) ctx))"
  with assms(3) show False
    by (rule handle_request_allow)
      (use assms(1,2) in \<open>auto simp: session_stage_def unforced_def auto_stage_def Let_def
         auto_mode_fast_path_def effective_pre_decision_def pre_decision_def split: if_splits\<close>)
qed

lemma shell_forced_policy:
  assumes "shell_forced_prompt pf" "rule_decision (policy_decision pf)"
  shows "policy_forced_prompt pf \<or> (\<exists>r. policy_decision pf = Some (Reject r))"
proof -
  have "3 \<le> decision_level (map_option into_decision (bash_command pf))
      \<or> 3 \<le> decision_level (map_option into_decision (shell_file pf))"
    using assms(1) unfolding gate_decision_level(2)
    by (auto simp: shell_forced_prompt_def shell_file_forced_prompt_def gate_asks_def split: option.splits)
  then have "3 \<le> decision_level (policy_decision pf)" unfolding policy_decision_level by blast
  then show ?thesis
    unfolding rule_decision_level(2) [OF assms(2)] policy_forced_prompt_def by blast
qed

lemma rule_decision_request: "rule_decision (policy_decision (request_preflight mc w st access))"
proof -
  have "rule_decision None" by (simp add: rule_decision_def)
  then show ?thesis
    unfolding policy_decision_def request_preflight_def preflight_evaluate_def Let_def
    by (cases "mc_policy mc"; cases access)
      (auto intro!: rule_decision_combine rule_decision_evaluate rule_decision_gate)
qed

lemma rejected_grant:
  assumes "be_segments (evaluate_bash (mc_ext mc) cmd (perm st) True) = Seg_Reject r"
    and "bash_stage mc w st (Access_Bash cmd) = Some ev"
  shows "\<exists>e. ev = Some e
    \<and> (\<forall>opts. bash_grant_pre_decision cmd e (perm st) (mc_yolo_pin mc) opts = Some (Reject r, SESSION_DENY))"
  using assms by (auto elim!: bash_stage_evaluation simp: bash_grant_pre_decision_def)

lemma rejected_session:
  assumes "be_segments (evaluate_bash (mc_ext mc) cmd (perm st) True) = Seg_Reject r"
    and "bash_stage mc w st (Access_Bash cmd) = Some ev"
    and "session_stage mc st (request_preflight mc w st (Access_Bash cmd)) ev None (Access_Bash cmd) = None"
    and "\<nexists>r. policy_decision (request_preflight mc w st (Access_Bash cmd)) = Some (Reject r)"
  shows "policy_forced_prompt (request_preflight mc w st (Access_Bash cmd))"
proof (rule ccontr)
  let ?pf = "request_preflight mc w st (Access_Bash cmd)"
  assume "\<not> policy_forced_prompt ?pf"
  then have "unforced ?pf None"
    using shell_forced_policy [OF _ rule_decision_request [of mc w st "Access_Bash cmd"]] assms(4)
    by (auto simp: unforced_def)
  with assms(3) rejected_grant [OF assms(1,2)] show False
    by (auto simp: session_stage_def session_grant_pre_decision_def)
qed

text \<open>
  C9. What the user rejected for the session: outside always-approve mode, a script with a segment
  that matches a rejected prefix is allowed without asking only in auto mode and only when the
  preflight left a doubt of the shell gates to the classifier.
\<close>

theorem session_deny_survives_modes:
  assumes "\<not> yolo_mode st" "script_segments (mc_ext mc) cmd = Some segs" "c \<in> set segs"
    and "disallowed_segment (perm st) (inner_words c)"
    and "allowed (snd (handle_request mc w st (Access_Bash cmd) ctx))"
    and "\<not> asks_user (snd (handle_request mc w st (Access_Bash cmd) ctx))"
  shows "auto_mode st \<and> defers_gate_ask (request_preflight mc w st (Access_Bash cmd))"
proof -
  let ?pf = "request_preflight mc w st (Access_Bash cmd)"
  have prot: "protected_edit_of mc w (Access_Bash cmd) ctx = None"
    by (simp add: protected_edit_of_def)
  obtain r where rej: "be_segments (evaluate_bash (mc_ext mc) cmd (perm st) True) = Seg_Reject r"
    using evaluate_bash_rejects [OF assms(2-4)] by blast
  note grant = rejected_grant [where w = w, OF rej] and session = rejected_session [where w = w, OF rej]
  from assms(5,6) show ?thesis
  proof (rule handle_request_allow)
    assume "yolo_mode st"
    with assms(1) show ?thesis by blast
  next
    fix e reason
    assume "bash_stage mc w st (Access_Bash cmd) = Some e"
      "session_stage mc st ?pf e (protected_edit_of mc w (Access_Bash cmd) ctx) (Access_Bash cmd) = Some (Allow, reason)"
    then show ?thesis
      using grant [where ev = e] by (auto simp: session_stage_def session_grant_pre_decision_def split: if_splits)
  next
    fix e
    assume "bash_stage mc w st (Access_Bash cmd) = Some e" "policy_decision ?pf = Some Allow"
      "session_stage mc st ?pf e (protected_edit_of mc w (Access_Bash cmd) ctx) (Access_Bash cmd) = None"
    then show ?thesis using session [where ev = e] by (simp add: prot policy_forced_prompt_def)
  next
    fix e st' snap app reason
    assume a: "auto_stage mc w st ?pf e (protected_edit_of mc w (Access_Bash cmd) ctx) (Access_Bash cmd) =
        Auto_Answer st' snap Allow app reason"
      and "bash_stage mc w st (Access_Bash cmd) = Some e" "\<nexists>r. policy_decision ?pf = Some (Reject r)"
        "session_stage mc st ?pf e (protected_edit_of mc w (Access_Bash cmd) ctx) (Access_Bash cmd) = None"
    then have "policy_forced_prompt ?pf" using session [where ev = e] by (simp add: prot)
    with a show ?thesis by (auto simp: auto_stage_def admits_auto_classifier_def split: if_splits)
  next
    fix e
    assume "bash_stage mc w st (Access_Bash cmd) = Some e" "\<not> policy_forced_prompt ?pf"
      "\<nexists>r. policy_decision ?pf = Some (Reject r)"
      "session_stage mc st ?pf e (protected_edit_of mc w (Access_Bash cmd) ctx) (Access_Bash cmd) = None"
    then show ?thesis using session [where ev = e] by (simp add: prot)
  next
    fix e forced snap reason
    assume "bash_stage mc w st (Access_Bash cmd) = Some e"
      "effective_pre_decision mc st ?pf e (protected_edit_of mc w (Access_Bash cmd) ctx)
        (Access_Bash cmd) (forced \<noteq> None) = Some (Allow, reason)"
    then show ?thesis
      using grant [where ev = e] by (auto simp: effective_pre_decision_def pre_decision_def bash_pre_decision_def
          split: option.splits if_splits prod.splits)
  qed
qed

section \<open>A small session\<close>

text \<open>
  Concrete sessions for the worked examples: no network and no home directory, a flat file
  system, a classifier that agrees to everything, a user with a fixed answer.
\<close>

definition sample_config :: "string externs \<Rightarrow> permission_rule list \<Rightarrow> bool \<Rightarrow> string option \<Rightarrow> string manager_config" where
  "sample_config ext rs remember pin =
     actor_config ext (\<lambda>_. None) (\<lambda>_. []) (\<lambda>s. s) ''/w'' (Some (permission_config_new rs)) [] remember pin"

definition sample_world :: "prompt_outcome \<Rightarrow> request_world" where
  "sample_world out =
     \<lparr>rw_fs = flat_fs, rw_home = None, rw_git = empty_git, rw_scan_joined = True,
      rw_sandbox_auto_allow = False, rw_gone_at_dequeue = False, rw_gone_after_scan = False,
      rw_gone_in_classify = False, rw_gone_before_prompt = False, rw_gone_in_prompt = False,
      rw_gone_at_end = False, rw_answer = out\<rparr>"

definition agreeing :: classifier where
  "agreeing tool_name access detail turns instructions = outcome_llm Verdict_Allow None"

definition sample_actor :: "permission_state \<Rightarrow> prompt_policy \<Rightarrow> bool \<Rightarrow> string option \<Rightarrow> actor_state" where
  "sample_actor ps policy yolo pin = actor_init ps agreeing policy yolo pin"

lemma sample_config_fields [simp]:
  "mc_policy (sample_config ext rs r pin) = Some (compiled_policy_new ext (permission_config_new rs))"
  "mc_ext (sample_config ext rs r pin) = ext" "mc_cwd (sample_config ext rs r pin) = ''/w''"
  "mc_yolo_pin (sample_config ext rs r pin) = pin" "mc_remember_tool_approvals (sample_config ext rs r pin) = r"
  by (simp_all add: sample_config_def actor_config_def)

lemma sample_world_fields [simp]:
  "rw_fs (sample_world out) = flat_fs" "\<not> rw_gone_at_dequeue (sample_world out)"
  by (simp_all add: sample_world_def)


theorem deny_rule_binds_every_mode_witness:
  "\<exists>e r. handle_request (sample_config sample_ext [bash_rule Act_Deny ''rm''] False None) (sample_world AllowOnce)
     (sample_actor permission_state_default Prompt_Ask True None) (Access_Bash ls_rm_src) None =
     (sample_actor permission_state_default Prompt_Ask True None, [Emit e, Respond (PolicyDeny r)])"
proof -
  let ?c = "permission_config_new [bash_rule Act_Deny ''rm'']"
  have "case policy_decision (bash_preflight sample_ext flat_fs ?c ls_rm_src ''/w'' False) of
      Some (Reject _) \<Rightarrow> True | _ \<Rightarrow> False" by code_simp
  then have "binds_somewhere sample_ext flat_fs ?c ls_rm_src ''/w'' Act_Deny"
    using preflight_reject [of sample_ext flat_fs ?c ls_rm_src "''/w''" False]
    by (auto split: option.splits decision.splits)
  then show ?thesis
    using deny_rule_binds_every_mode [of "sample_config sample_ext [bash_rule Act_Deny ''rm''] False None" ?c
        "sample_world AllowOnce" ls_rm_src] by simp
qed

theorem ask_rule_binds_outside_yolo_witness:
  "\<exists>segs. script_segments word_ext ''make'' = Some segs
     \<and> (\<forall>c \<in> set segs. is_setup_command (inner_words c) \<or> granted_segment sample_state (inner_words c))"
proof -
  let ?rs = "[bash_rule Act_Ask ''make'']"
  let ?mc = "sample_config word_ext ?rs True (Some [])"
  let ?st = "sample_actor sample_state Prompt_Ask True (Some [])"
  let ?h = "handle_request ?mc (sample_world AllowOnce) ?st (Access_Bash ''make'') None"
  have "evaluate word_ext (compiled_policy_new word_ext (permission_config_new ?rs)) (Access_Bash ''make'') = Some Ask"
    by code_simp
  then have "binds_somewhere word_ext flat_fs (permission_config_new ?rs) ''make'' ''/w'' Act_Ask"
    using evaluate_cases [of word_ext "compiled_policy_new word_ext (permission_config_new ?rs)" "Access_Bash ''make''"]
    by (auto simp: binds_somewhere_def split: if_splits)
  moreover have "\<not> yolo_mode ?st" "perm ?st = sample_state" by code_simp+
  moreover have "let effs = snd ?h in allowed effs \<and> \<not> asks_user effs" by code_simp
  ultimately show ?thesis
    using ask_rule_binds_outside_yolo [of ?mc "permission_config_new ?rs" ?st "sample_world AllowOnce" "''make''" None]
    by (auto simp: Let_def)
qed

theorem protected_edit_needs_confirmation_witness:
  "asks_user (snd (handle_request (sample_config sample_ext [] False (Some [])) (sample_world AllowOnce)
     (sample_actor permission_state_default Prompt_Auto True (Some [])) (Access_Edit ''/h/.ssh/config'') None))"
proof -
  let ?mc = "sample_config sample_ext [] False (Some [])"
  let ?st = "sample_actor permission_state_default Prompt_Auto True (Some [])"
  let ?h = "handle_request ?mc (sample_world AllowOnce) ?st (Access_Edit ''/h/.ssh/config'') None"
  have "\<not> yolo_mode ?st" by code_simp
  moreover have "protected_edit_of ?mc (sample_world AllowOnce) (Access_Edit ''/h/.ssh/config'') None \<noteq> None" by code_simp
  moreover have "allowed (snd ?h)" by code_simp
  ultimately show ?thesis by (rule protected_edit_needs_confirmation)
qed


text \<open>The script \<open>cd d && cat f\<close>, a grammar for it, and a user who has rejected \<open>cat\<close>.\<close>

definition doubtful_src :: string where "doubtful_src = ''cd d && cat f''"

definition doubtful_tree :: ts_node where
  "doubtful_tree =
     TsNode ''program'' True 0 13 False None
      [TsNode ''list'' True 0 13 False None
        [TsNode ''command'' True 0 4 False None
           [TsNode ''command_name'' True 0 2 False (Some ''name'') [TsNode ''word'' True 0 2 False None []],
            TsNode ''word'' True 3 4 False (Some ''argument'') []],
         TsNode ''&&'' False 5 7 False None [],
         TsNode ''command'' True 8 13 False None
           [TsNode ''command_name'' True 8 11 False (Some ''name'') [TsNode ''word'' True 8 11 False None []],
            TsNode ''word'' True 12 13 False (Some ''argument'') []]]]"

definition doubtful_ext :: "string externs" where
  "doubtful_ext = sample_ext\<lparr>parse_shell := \<lambda>s. if s = doubtful_src then Some doubtful_tree else None\<rparr>"

definition no_cat :: permission_state where
  "no_cat = permission_state_default\<lparr>disallowed_bash_commands := [''cat'']\<rparr>"

definition read_rule :: "rule_action \<Rightarrow> string \<Rightarrow> permission_rule" where
  "read_rule act pat = (bash_rule act pat)\<lparr>tool := Filter_Read\<rparr>"

definition doubtful_config :: "string manager_config" where
  "doubtful_config = sample_config doubtful_ext [read_rule Act_Deny ''/etc/shadow''] False (Some [])"

definition doubtful_actor :: actor_state where
  "doubtful_actor = sample_actor no_cat Prompt_Auto True (Some [])"

definition doubtful_request :: "actor_state \<times> effect list" where
  "doubtful_request =
     handle_request doubtful_config (sample_world RejectOnce) doubtful_actor (Access_Bash doubtful_src) None"

lemma doubtful_request_allowed:
  "allowed (snd doubtful_request)" "\<not> asks_user (snd doubtful_request)"
proof -
  have "let effs = snd doubtful_request in allowed effs \<and> \<not> asks_user effs" by code_simp
  then show "allowed (snd doubtful_request)" "\<not> asks_user (snd doubtful_request)"
    by (simp_all add: Let_def)
qed

lemma doubtful_segments:
  "case script_segments doubtful_ext doubtful_src of
     None \<Rightarrow> False
   | Some segs \<Rightarrow> list_ex (\<lambda>c. disallowed_segment no_cat (inner_words c)) segs"
  by code_simp

text \<open>
  In auto mode a doubt of the file gate hides what the user rejected: the session has rejected
  \<open>cat\<close>, but the file gate cannot tell which file \<open>cd d && cat f\<close> reads, so the classifier
  alone decides, and the script runs without a prompt.
\<close>

lemma deferred_ask_skips_session_deny:
  "(\<exists>segs. script_segments doubtful_ext doubtful_src = Some segs
      \<and> list_ex (\<lambda>c. disallowed_segment no_cat (inner_words c)) segs)
   \<and> allowed (snd doubtful_request) \<and> \<not> asks_user (snd doubtful_request)"
proof (intro conjI)
  show "\<exists>segs. script_segments doubtful_ext doubtful_src = Some segs
      \<and> list_ex (\<lambda>c. disallowed_segment no_cat (inner_words c)) segs"
    using doubtful_segments by (auto split: option.splits)
qed (simp_all add: doubtful_request_allowed)

theorem session_deny_survives_modes_witness:
  "defers_gate_ask (request_preflight doubtful_config
     (sample_world RejectOnce) doubtful_actor (Access_Bash doubtful_src))"
proof -
  have f: "\<not> yolo_mode doubtful_actor" "perm doubtful_actor = no_cat" by code_simp+
  then have "\<exists>segs c. script_segments doubtful_ext doubtful_src = Some segs \<and> c \<in> set segs
      \<and> disallowed_segment (perm doubtful_actor) (inner_words c)"
    using doubtful_segments by (auto simp: list_ex_iff split: option.splits)
  moreover have "mc_ext doubtful_config = doubtful_ext" by (simp add: doubtful_config_def)
  ultimately obtain segs c where "script_segments (mc_ext doubtful_config) doubtful_src = Some segs" "c \<in> set segs"
      "disallowed_segment (perm doubtful_actor) (inner_words c)"
    by auto
  from session_deny_survives_modes [OF f(1) this] doubtful_request_allowed show ?thesis
    by (simp add: doubtful_request_def)
qed

end
