(* ===== verification/Actor_Safety.thy ===== *)
theory Actor_Safety
  imports Actor_Requests
begin

text \<open>
  The life of the permission manager: what holds in every state that a sequence of commands
  reaches, the budget of silent denials, sessions without a pin and the extent of grants.
\<close>

section \<open>Invariants of the actor\<close>

inductive reachable :: "'g manager_config \<Rightarrow> actor_state \<Rightarrow> actor_state \<Rightarrow> bool" for mc st0 where
  start: "reachable mc st0 st0"
| step: "reachable mc st0 st \<Longrightarrow> actor_step mc c st = Some (st', effs) \<Longrightarrow> reachable mc st0 st'"


section \<open>Every request is answered once\<close>

definition request_ends :: "request_world \<Rightarrow> effect list \<Rightarrow> bool" where
  "request_ends w effs \<longleftrightarrow>
     (\<exists>pre e d. effs = pre @ [Emit e, Respond d] \<and> ev_decision e = fst (decision_str d)
        \<and> (\<forall>x \<in> set pre. (\<exists>a p. x = Prompt a p) \<or> (\<exists>ps. x = Persist ps))
        \<and> (ev_user_prompted e \<longleftrightarrow> asks_user effs))
     \<or> (\<exists>e. effs = [Emit e] \<and> ev_decision_reason e = REQUESTER_GONE
        \<and> (rw_gone_at_dequeue w \<or> rw_gone_after_scan w \<or> rw_gone_in_classify w \<or> rw_gone_before_prompt w))"

lemma answer_ends: "request_ends w (answer mc st snap access d app reason)"
  by (auto simp: request_ends_def answer_def event_of_def asks_user_def)

text \<open>The result of a prompt, written out.\<close>

lemma prompt_stage_result:
  obtains st' ps persist d out reason
  where "prompt_stage mc w st snap prot access trigger =
      (st', Prompt access prot # (if persist then [Persist ps] else [])
         @ [Emit (event_of mc st' snap access d False True (Some out) reason), Respond d])"
    and "apply_outcome (perm st) access (if rw_gone_in_prompt w then Outcome_Cancelled else rw_answer w) =
      (ps, persist, d, out)"
    and "reason = trigger \<or> reason = REQUESTER_GONE"
    and "perm st' = ps" "yolo_mode st' = yolo_mode st" "auto_mode st' = auto_mode st"
    and "auto_total_denials st' = auto_total_denials st"
    and "auto_consecutive_denials st' \<in> {0, auto_consecutive_denials st}"
    and "recorded_permission_decisions st' = record_decision mc access d out (recorded_permission_decisions st)"
proof -
  obtain ps persist d out where o: "apply_outcome (perm st) access
      (if rw_gone_in_prompt w then Outcome_Cancelled else rw_answer w) = (ps, persist, d, out)"
    by (metis prod_cases4)
  let ?out = "if rw_gone_in_prompt w then Outcome_Cancelled else rw_answer w"
  let ?gone = "d = Cancelled \<and> rw_gone_at_end w"
  let ?st = "st\<lparr>perm := ps,
      allow_edits_for_session := allow_edits_for_session st \<or> grants_edits access ?out,
      recorded_permission_decisions := record_decision mc access d out (recorded_permission_decisions st),
      auto_consecutive_denials := (if out \<noteq> ''error'' \<and> \<not> ?gone then 0 else auto_consecutive_denials st)\<rparr>"
  have "prompt_stage mc w st snap prot access trigger =
      (?st, Prompt access prot # (if persist then [Persist ps] else [])
         @ [Emit (event_of mc ?st snap access d False True (Some out)
              (if ?gone then REQUESTER_GONE else trigger)), Respond d])"
    unfolding prompt_stage_def Let_def o by simp
  then show thesis by (rule that [OF _ o]) simp_all
qed

lemma prompt_ends: "request_ends w (snd (prompt_stage mc w' st snap prot access trigger))"
proof (rule prompt_stage_result [of mc w' st snap prot access trigger])
  fix st' ps persist d out reason
  assume "prompt_stage mc w' st snap prot access trigger =
      (st', Prompt access prot # (if persist then [Persist ps] else [])
         @ [Emit (event_of mc st' snap access d False True (Some out) reason), Respond d])"
  then show ?thesis
    unfolding request_ends_def
    by (intro disjI1 exI [of _ "Prompt access prot # (if persist then [Persist ps] else [])"]
        exI [of _ "event_of mc st' snap access d False True (Some out) reason"] exI [of _ d])
      (auto simp: event_of_def asks_user_def split: if_splits)
qed

text \<open>
  C22. Every request is told and answered exactly once: the effects of a request end with one event
  and one response that agree on the decision, preceded only by the prompt and by saving the
  grants, and the event says that the user was asked exactly when there was a prompt; or the
  requester has gone and there is one event and no response.
\<close>

theorem request_answered_once: "request_ends w (snd (handle_request mc w st access ctx))"
  by (rule handle_request_cases [of mc w st access ctx])
    (auto simp: answer_ends prompt_ends, auto simp: request_ends_def requester_gone_def event_of_def)

section \<open>The invariant\<close>

definition actor_inv :: "'g manager_config \<Rightarrow> actor_state \<Rightarrow> bool" where
  "actor_inv mc st \<longleftrightarrow>
     (mc_yolo_pin mc \<noteq> None \<longrightarrow> \<not> yolo_mode st)
     \<and> \<not> (yolo_mode st \<and> auto_mode st)
     \<and> auto_consecutive_denials st \<le> AUTO_DENY_CONSECUTIVE_LIMIT
     \<and> auto_total_denials st \<le> AUTO_DENY_TOTAL_LIMIT
     \<and> length (recorded_permission_decisions st) \<le> MAX_RECORDED_PERMISSION_DECISIONS
     \<and> edit_policy_of (perm st) \<noteq> Edit_Allow"

lemma apply_outcome_edit_policy [simp]:
  "edit_policy_of (fst (apply_outcome ps access out)) = edit_policy_of ps"
proof (cases "\<exists>cmd. access = Access_Bash cmd")
  case True
  then show ?thesis by (cases out) (auto simp: apply_outcome_def)
next
  case False
  then have "apply_outcome ps access out = other_outcome ps access out"
    by (cases access) (auto simp: apply_outcome_def)
  then show ?thesis
    by (cases out; cases access)
      (auto simp: mcp_server_outcome_def allow_mcp_tool_def split: option.split)
qed

lemma record_decision_length:
  "length r \<le> MAX_RECORDED_PERMISSION_DECISIONS \<Longrightarrow>
     length (record_decision mc access d out r) \<le> MAX_RECORDED_PERMISSION_DECISIONS"
  by (auto simp: record_decision_def Let_def split: option.split)

lemma word_suc_le:
  fixes a b :: "'a::len word"
  shows "a < b \<Longrightarrow> a + 1 \<le> b"
  by (rule inc_le)

lemma prompt_stage_inv:
  assumes "actor_inv mc st"
  shows "actor_inv mc (fst (prompt_stage mc w st snap prot access trigger))"
proof (rule prompt_stage_result [of mc w st snap prot access trigger])
  fix st' ps persist d out reason
  assume "prompt_stage mc w st snap prot access trigger =
      (st', Prompt access prot # (if persist then [Persist ps] else [])
         @ [Emit (event_of mc st' snap access d False True (Some out) reason), Respond d])"
    and o: "apply_outcome (perm st) access (if rw_gone_in_prompt w then Outcome_Cancelled else rw_answer w) =
      (ps, persist, d, out)"
    and "perm st' = ps" "yolo_mode st' = yolo_mode st" "auto_mode st' = auto_mode st"
      "auto_total_denials st' = auto_total_denials st"
      "auto_consecutive_denials st' \<in> {0, auto_consecutive_denials st}"
      "recorded_permission_decisions st' = record_decision mc access d out (recorded_permission_decisions st)"
  moreover have "edit_policy_of ps = edit_policy_of (perm st)"
    using apply_outcome_edit_policy o by (metis fst_conv)
  ultimately show ?thesis using assms by (auto simp: actor_inv_def record_decision_length)
qed

lemma handle_request_inv: "actor_inv mc st \<Longrightarrow> actor_inv mc (fst (handle_request mc w st access ctx))"
  by (rule handle_request_cases [of mc w st access ctx])
    (auto simp: prompt_stage_inv, auto simp: actor_inv_def intro: word_suc_le)

lemma actor_step_inv: "actor_inv mc st \<Longrightarrow> actor_step mc c st = Some (st', effs) \<Longrightarrow> actor_inv mc st'"
proof (cases c)
  case (Request access ctx w)
  assume "actor_inv mc st" "actor_step mc c st = Some (st', effs)"
  with handle_request_inv [of mc st w access ctx] Request show ?thesis by simp
qed (auto simp: actor_inv_def clamp_yolo_def permission_state_default_def Let_def split: if_splits)

lemma actor_init_inv: "mc_yolo_pin mc = pin \<Longrightarrow> actor_inv mc (actor_init loaded clf policy yolo pin)"
  by (auto simp: actor_inv_def actor_init_def clamp_yolo_def Let_def MAX_RECORDED_PERMISSION_DECISIONS_def)

text \<open>After the start the state on disk is the state the actor runs with.\<close>

lemma startup_saved:
  "startup_effects loaded = [Persist (perm (actor_init loaded clf policy yolo pin))]
   \<or> startup_effects loaded = [] \<and> perm (actor_init loaded clf policy yolo pin) = loaded"
  by (simp add: startup_effects_def actor_init_def Let_def)

text \<open>
  C10. The invariant of the manager: in every state that any sequence of commands reaches, a pinned
  session is not in always-approve mode, always-approve and auto mode are not both on, at most 3
  consecutive and 20 silent denials in all are counted, at most 12 decisions are recorded, and
  the legacy policy of allowing all edits is not in force.
\<close>

theorem actor_invariant:
  assumes "reachable mc (actor_init loaded clf policy yolo (mc_yolo_pin mc)) st"
  shows "actor_inv mc st"
  using assms
  by (induction rule: reachable.induct) (auto intro: actor_init_inv actor_step_inv)

theorem actor_invariant_witness:
  "let mc = sample_config sample_ext [] False (Some []) in
   actor_inv mc (fst (actor_run mc [SetYoloMode True, ResetState]
     (actor_init permission_state_default agreeing Prompt_Auto True (Some []))))"
proof -
  let ?mc = "sample_config sample_ext [] False (Some [])"
  let ?s = "actor_init permission_state_default agreeing Prompt_Auto True (mc_yolo_pin ?mc)"
  have "reachable ?mc ?s ?s" by (rule reachable.start)
  then have "reachable ?mc ?s (fst (the (actor_step ?mc (SetYoloMode True) ?s)))"
    by (rule reachable.step [of _ _ _ "SetYoloMode True"]) simp
  then have "reachable ?mc ?s (fst (actor_run ?mc [SetYoloMode True, ResetState] ?s))"
    by (rule reachable.step [of _ _ _ ResetState]) (simp add: Let_def)
  from actor_invariant [OF this] show ?thesis unfolding Let_def sample_config_fields .
qed

section \<open>The denial budget\<close>

definition auto_denials :: "effect list \<Rightarrow> nat" where
  "auto_denials effs =
     length (filter (\<lambda>x. case x of Emit e \<Rightarrow> ev_decision_reason e = AUTO_CLASSIFIER_DENY \<and> \<not> ev_user_prompted e | _ \<Rightarrow> False) effs)"

lemma auto_denials_append [simp]: "auto_denials (xs @ ys) = auto_denials xs + auto_denials ys"
  by (simp add: auto_denials_def)

lemma unat_suc: "a < b \<Longrightarrow> unat (a + 1 :: 32 word) = Suc (unat a)" for b :: "32 word"
proof -
  assume "a < b"
  then have "unat a < unat b" by (simp add: word_less_nat_alt)
  moreover have "unat b < 2 ^ 32" using unsigned_less [of b] by simp
  ultimately show ?thesis by (simp add: unat_word_ariths)
qed

lemma handle_request_denials:
  assumes "handle_request mc w st access ctx = (st', effs)"
  shows "unat (auto_total_denials st') = unat (auto_total_denials st) + auto_denials effs"
proof (rule handle_request_cases [of mc w st access ctx])
  fix snap prot trigger
  assume h: "handle_request mc w st access ctx = prompt_stage mc w st snap prot access trigger"
  show ?thesis
    by (rule prompt_stage_result [of mc w st snap prot access trigger])
      (use h assms in \<open>auto simp: auto_denials_def event_of_def reason_defs\<close>)
qed (use assms in \<open>auto simp: auto_denials_def answer_def requester_gone_def event_of_def reason_defs
       AUTO_DENY_TOTAL_LIMIT_def dest: unat_suc\<close>)

lemma actor_step_denials:
  "actor_step mc c st = Some (st', effs) \<Longrightarrow>
     unat (auto_total_denials st') = unat (auto_total_denials st) + auto_denials effs"
  by (cases c) (auto simp: handle_request_denials auto_denials_def [of "[]"] auto_denials_def [of "[_]"]
      Let_def split: if_splits)

lemma actor_run_denials:
  "actor_run mc cs st = (st', effs) \<Longrightarrow>
     unat (auto_total_denials st') = unat (auto_total_denials st) + auto_denials effs"
proof (induction cs arbitrary: st st' effs)
  case (Cons c cs)
  then show ?case
    by (auto split: option.splits prod.splits dest!: actor_step_denials) (simp add: auto_denials_def)
qed (simp add: auto_denials_def)

lemma actor_run_inv: "actor_inv mc st \<Longrightarrow> actor_inv mc (fst (actor_run mc cs st))"
proof (induction cs arbitrary: st)
  case (Cons c cs)
  then show ?case
    by (auto split: option.splits prod.splits dest: actor_step_inv) (metis actor_step_inv fst_conv)
qed simp

text \<open>
  C23. The denial budget bounds what auto mode refuses silently: whatever commands a session
  receives and whatever the classifier answers, at most 20 requests are denied by the classifier
  without asking the user.
\<close>

theorem denial_budget:
  "auto_denials (snd (actor_run mc cs (actor_init loaded clf policy yolo (mc_yolo_pin mc)))) \<le> 20"
proof -
  let ?s = "actor_init loaded clf policy yolo (mc_yolo_pin mc)"
  obtain st' effs where r: "actor_run mc cs ?s = (st', effs)" by fastforce
  have "actor_inv mc st'"
    using actor_run_inv [OF actor_init_inv, of mc, OF refl] r by (metis fst_conv)
  then have "unat (auto_total_denials st') \<le> 20"
    by (auto simp: actor_inv_def AUTO_DENY_TOTAL_LIMIT_def word_le_nat_alt)
  moreover have "auto_total_denials ?s = 0" by (simp add: actor_init_def Let_def)
  ultimately show ?thesis using actor_run_denials [OF r] by (simp add: r)
qed

section \<open>Sessions without a pin\<close>

lemma yolo_stays:
  assumes "reachable mc st0 st" "yolo_mode st0" "mc_yolo_pin mc = None"
  shows "yolo_mode st"
  using assms(1)
proof (induction rule: reachable.induct)
  case (step st c st' effs)
  show ?case
  proof (cases c)
    case (Request access ctx w)
    with step have "st' = fst (handle_request mc w st access ctx)" by simp
    moreover have "yolo_mode (fst (prompt_stage mc w st snap prot access trigger)) = yolo_mode st" for snap prot trigger
      by (rule prompt_stage_result [of mc w st snap prot access trigger]) simp
    then have "yolo_mode (fst (handle_request mc w st access ctx)) = yolo_mode st"
      by (rule_tac handle_request_cases [of mc w st access ctx]) auto
    ultimately show ?thesis using step by simp
  qed (use step assms(3) in \<open>auto simp: clamp_yolo_def Let_def split: if_splits\<close>)
qed (rule assms(2))



section \<open>Grants\<close>

definition mcp_grants_within :: "access_kind \<Rightarrow> permission_state \<Rightarrow> permission_state \<Rightarrow> bool" where
  "mcp_grants_within access old new \<longleftrightarrow>
     set (allowed_mcp_tools new) \<subseteq> set (allowed_mcp_tools old) \<union> {name. \<exists>i. access = Access_MCPTool name i}
     \<and> set (allowed_mcp_servers new) \<subseteq> set (allowed_mcp_servers old)
         \<union> {server. \<exists>name i q t. access = Access_MCPTool name i \<and> parse_mcp_qualified_name name = Some (q, server, t)}"

lemma mcp_within_refl [simp]: "mcp_grants_within access ps ps"
  by (simp add: mcp_grants_within_def)

lemma mcp_server_outcome_within:
  "mcp_grants_within (Access_MCPTool name i) ps (mcp_server_outcome ps name server)"
  by (auto simp: mcp_grants_within_def mcp_server_outcome_def allow_mcp_tool_def split: option.split)

lemma allow_mcp_tool_within: "mcp_grants_within (Access_MCPTool name i) ps (allow_mcp_tool name ps)"
  by (auto simp: mcp_grants_within_def allow_mcp_tool_def)

lemma same_mcp_within:
  "allowed_mcp_tools ps' = allowed_mcp_tools ps \<Longrightarrow> allowed_mcp_servers ps' = allowed_mcp_servers ps \<Longrightarrow>
     mcp_grants_within access ps ps'"
  by (simp add: mcp_grants_within_def)

lemma bash_outcome_mcp: "mcp_grants_within access ps (fst (bash_outcome ps cmd out))"
  by (cases out) (simp_all add: same_mcp_within)

lemma other_outcome_mcp: "mcp_grants_within access ps (fst (other_outcome ps access out))"
  by (cases out)
    (simp_all add: same_mcp_within mcp_server_outcome_within allow_mcp_tool_within split: access_kind.split)

lemma apply_outcome_mcp: "mcp_grants_within access ps (fst (apply_outcome ps access out))"
  by (simp add: apply_outcome_def bash_outcome_mcp other_outcome_mcp split: access_kind.split)

lemma prompt_stage_perm:
  "perm (fst (prompt_stage mc w st snap prot access trigger)) =
     fst (apply_outcome (perm st) access (if rw_gone_in_prompt w then Outcome_Cancelled else rw_answer w))"
  by (rule prompt_stage_result [of mc w st snap prot access trigger]) simp

lemma handle_request_perm:
  "perm (fst (handle_request mc w st access ctx)) = perm st
   \<or> (asks_user (snd (handle_request mc w st access ctx))
      \<and> perm (fst (handle_request mc w st access ctx)) =
          fst (apply_outcome (perm st) access (if rw_gone_in_prompt w then Outcome_Cancelled else rw_answer w)))"
  by (rule handle_request_cases [of mc w st access ctx]) (auto simp: prompt_stage_perm)

text \<open>
  C30. Grants for MCP tools stay within what was asked: a request adds at most the requested tool to
  the allowed tools and at most the server of its qualified name to the allowed servers,
  whatever the client's answer names, and grants change only by asking the user.
\<close>

theorem mcp_grants_stay_within_request:
  "mcp_grants_within access (perm st) (perm (fst (handle_request mc w st access ctx)))
   \<and> (perm (fst (handle_request mc w st access ctx)) = perm st
      \<or> asks_user (snd (handle_request mc w st access ctx)))"
  using handle_request_perm [of mc w st access ctx] apply_outcome_mcp [of access "perm st"]
  by (metis mcp_within_refl)

end
