(* ===== verification/Permission_Handle.thy ===== *)
theory Permission_Handle
  imports Actor_Safety
begin

text \<open>
  The handle through which sessions and sub-agents reach the permission manager
  (\<open>PermissionHandle\<close> in \<open>gbuild-workspace/src/permission/manager.rs\<close>). Clones of it live on several
  threads: a method is a list of atomic actions, each a store to one shared flag or a send to the
  queue of the actor, and the steps of the system interleave the actions of any number of callers
  with the turns of the actor and with its own stores.
\<close>

datatype handle_action =
    Store_Yolo bool
  | Store_Auto bool
  | Store_Wired bool
  | Send permission_command

record manager_system =
  sys_yolo_state :: bool
  sys_auto_state :: bool
  sys_side_query_wired :: bool
  sys_queue :: "permission_command list"
  sys_calls :: "nat \<Rightarrow> handle_action list"
  sys_stores :: "handle_action list"
  sys_actor :: actor_state

definition set_yolo_mode :: "string option \<Rightarrow> bool \<Rightarrow> handle_action list" where
  "set_yolo_mode pin enabled =
     (if \<not> enabled then []
      else
        let clamped = clamp_yolo enabled pin
        in [Store_Yolo clamped] @ (if clamped then [Store_Auto False] else []) @ [Send (SetYoloMode enabled)])"

definition set_auto_mode :: "bool \<Rightarrow> handle_action list" where
  "set_auto_mode enabled = (if enabled then [] else [Store_Auto False, Send (SetAutoMode enabled)])"

definition set_classifier :: "classifier option \<Rightarrow> handle_action list" where
  "set_classifier c = [Store_Wired False, Send (SetClassifier c)]"

definition set_classifier_with_side_query :: "classifier \<Rightarrow> bool \<Rightarrow> handle_action list" where
  "set_classifier_with_side_query c has_side_query = [Store_Wired has_side_query, Send (SetClassifier (Some c))]"

definition set_llm_side_query_wired :: "bool \<Rightarrow> handle_action list" where
  "set_llm_side_query_wired wired = [Store_Wired wired]"

definition set_classifier_transcript :: "classifier_turn list \<Rightarrow> handle_action list" where
  "set_classifier_transcript turns = [Send (SetClassifierTranscript turns)]"

definition set_project_instructions :: "string option \<Rightarrow> handle_action list" where
  "set_project_instructions i = [Send (SetProjectInstructions i)]"

definition reset_state :: "handle_action list" where
  "reset_state = [Send ResetState]"

definition request_with_edit_path_context ::
  "access_kind \<Rightarrow> edit_path_context option \<Rightarrow> request_world \<Rightarrow> handle_action list" where
  "request_with_edit_path_context access ctx w = [Send (Request access ctx w)]"

definition is_yolo_mode :: "manager_system \<Rightarrow> bool" where
  "is_yolo_mode s = sys_yolo_state s"

definition is_auto_mode :: "manager_system \<Rightarrow> bool" where
  "is_auto_mode s = sys_auto_state s"

definition has_llm_side_query :: "manager_system \<Rightarrow> bool" where
  "has_llm_side_query s = sys_side_query_wired s"

text \<open>The stores of the actor while it serves a command.\<close>

fun actor_stores :: "string option \<Rightarrow> permission_command \<Rightarrow> handle_action list" where
  "actor_stores pin (SetYoloMode True) =
     (let clamped = clamp_yolo True pin
      in [Store_Yolo clamped] @ (if clamped then [Store_Auto False] else []))"
| "actor_stores pin (SetAutoMode False) = [Store_Auto False]"
| "actor_stores pin _ = []"

definition spawn_system :: "actor_state \<Rightarrow> manager_system" where
  "spawn_system st =
     \<lparr>sys_yolo_state = yolo_mode st, sys_auto_state = auto_mode st, sys_side_query_wired = False,
      sys_queue = [], sys_calls = (\<lambda>_. []), sys_stores = [], sys_actor = st\<rparr>"

fun run_action :: "handle_action \<Rightarrow> manager_system \<Rightarrow> manager_system" where
  "run_action (Store_Yolo v) s = s\<lparr>sys_yolo_state := v\<rparr>"
| "run_action (Store_Auto v) s = s\<lparr>sys_auto_state := v\<rparr>"
| "run_action (Store_Wired v) s = s\<lparr>sys_side_query_wired := v\<rparr>"
| "run_action (Send c) s = s\<lparr>sys_queue := sys_queue s @ [c]\<rparr>"

inductive handle_call :: "string option \<Rightarrow> handle_action list \<Rightarrow> bool" for pin where
  yolo: "handle_call pin (set_yolo_mode pin enabled)"
| auto: "handle_call pin (set_auto_mode enabled)"
| classifier: "handle_call pin (set_classifier c)"
| side_query: "handle_call pin (set_classifier_with_side_query c' wired)"
| wired: "handle_call pin (set_llm_side_query_wired wired)"
| transcript: "handle_call pin (set_classifier_transcript turns)"
| instructions: "handle_call pin (set_project_instructions i)"
| reset: "handle_call pin reset_state"
| request: "handle_call pin (request_with_edit_path_context access ctx w)"

text \<open>
  A caller that is not in a method starts one; a caller does its next action; the actor, when its
  stores are done, takes the next command; the actor does its next store.
\<close>

inductive manager_step :: "'g manager_config \<Rightarrow> manager_system \<Rightarrow> manager_system \<Rightarrow> bool" for mc where
  call: "sys_calls s i = [] \<Longrightarrow> handle_call (mc_yolo_pin mc) p \<Longrightarrow>
    manager_step mc s (s\<lparr>sys_calls := (sys_calls s)(i := p)\<rparr>)"
| act: "sys_calls s i = a # p \<Longrightarrow>
    manager_step mc s (run_action a (s\<lparr>sys_calls := (sys_calls s)(i := p)\<rparr>))"
| serve: "sys_stores s = [] \<Longrightarrow> sys_queue s = cmd # rest \<Longrightarrow> actor_step mc cmd (sys_actor s) = Some (st', effs) \<Longrightarrow>
    manager_step mc s
      (s\<lparr>sys_queue := rest, sys_actor := st', sys_stores := actor_stores (mc_yolo_pin mc) cmd\<rparr>)"
| store: "sys_stores s = a # p \<Longrightarrow> manager_step mc s (run_action a (s\<lparr>sys_stores := p\<rparr>))"

section \<open>The flags and the actor\<close>

lemmas handle_defs = set_yolo_mode_def set_auto_mode_def set_classifier_def
  set_classifier_with_side_query_def set_llm_side_query_wired_def set_classifier_transcript_def
  set_project_instructions_def reset_state_def request_with_edit_path_context_def

text \<open>
  What the actions left to a caller say of the flags: past its first store a switch to
  always-approve has raised that flag, and past its second store auto mode is no longer reported.
\<close>

definition other_command :: "permission_command \<Rightarrow> bool" where
  "other_command c \<longleftrightarrow> (\<forall>b. c \<noteq> SetYoloMode b \<and> c \<noteq> SetAutoMode b)"

definition sent_ok :: "string option \<Rightarrow> bool \<Rightarrow> bool \<Rightarrow> permission_command \<Rightarrow> bool" where
  "sent_ok pin y au c \<longleftrightarrow>
     other_command c \<or> (c = SetYoloMode True \<and> (pin = None \<longrightarrow> y \<and> \<not> au)) \<or> (c = SetAutoMode False \<and> \<not> au)"

definition call_ok :: "string option \<Rightarrow> bool \<Rightarrow> bool \<Rightarrow> handle_action list \<Rightarrow> bool" where
  "call_ok pin y au p \<longleftrightarrow>
     p = [] \<or> handle_call pin p \<or> (\<exists>c. p = [Send c] \<and> sent_ok pin y au c)
     \<or> (pin = None \<and> p = [Store_Auto False, Send (SetYoloMode True)] \<and> y)"

definition store_ok :: "string option \<Rightarrow> bool \<Rightarrow> bool \<Rightarrow> handle_action \<Rightarrow> bool" where
  "store_ok pin y au a \<longleftrightarrow>
     (a = Store_Yolo (pin = None) \<and> (pin = None \<longrightarrow> y)) \<or> (a = Store_Auto False \<and> \<not> au)"

definition switching_on :: "handle_action list \<Rightarrow> bool" where
  "switching_on p \<longleftrightarrow> p = [Store_Auto False, Send (SetYoloMode True)]"

definition some_call :: "(handle_action list \<Rightarrow> bool) \<Rightarrow> (nat \<Rightarrow> handle_action list) \<Rightarrow> bool" where
  "some_call P calls \<longleftrightarrow> (\<exists>i. P (calls i))"

definition will_send :: "permission_command \<Rightarrow> handle_action list \<Rightarrow> bool" where
  "will_send c p \<longleftrightarrow> Send c \<in> set p"

text \<open>What is left to callers and actor agrees with the flags, and the flags with the actor.\<close>

definition pending_inv :: "string option \<Rightarrow> manager_system \<Rightarrow> bool" where
  "pending_inv pin s \<longleftrightarrow>
     (\<forall>i. call_ok pin (sys_yolo_state s) (sys_auto_state s) (sys_calls s i))
     \<and> list_all (sent_ok pin (sys_yolo_state s) (sys_auto_state s)) (sys_queue s)
     \<and> list_all (store_ok pin (sys_yolo_state s) (sys_auto_state s)) (sys_stores s)"

definition modes_inv :: "string option \<Rightarrow> manager_system \<Rightarrow> bool" where
  "modes_inv pin s \<longleftrightarrow>
     (pin \<noteq> None \<longrightarrow> \<not> sys_yolo_state s)
     \<and> (sys_yolo_state s \<and> sys_auto_state s \<longrightarrow> some_call switching_on (sys_calls s))
     \<and> (yolo_mode (sys_actor s) \<longrightarrow> sys_yolo_state s)
     \<and> (sys_yolo_state s \<longrightarrow> yolo_mode (sys_actor s) \<or> SetYoloMode True \<in> set (sys_queue s)
          \<or> some_call (will_send (SetYoloMode True)) (sys_calls s))
     \<and> (sys_auto_state s \<longrightarrow> auto_mode (sys_actor s))"

definition flags_inv :: "'g manager_config \<Rightarrow> manager_system \<Rightarrow> bool" where
  "flags_inv mc s \<longleftrightarrow> pending_inv (mc_yolo_pin mc) s \<and> modes_inv (mc_yolo_pin mc) s"

lemma handle_request_modes:
  "yolo_mode (fst (handle_request mc w st access ctx)) = yolo_mode st
   \<and> auto_mode (fst (handle_request mc w st access ctx)) = auto_mode st"
proof -
  have "yolo_mode (fst (prompt_stage mc w st snap prot access trigger)) = yolo_mode st
      \<and> auto_mode (fst (prompt_stage mc w st snap prot access trigger)) = auto_mode st" for snap prot trigger
    by (rule prompt_stage_result [of mc w st snap prot access trigger]) simp
  then show ?thesis by (rule_tac handle_request_cases [of mc w st access ctx]) auto
qed

text \<open>The modes after a command, apart from the two commands that set them.\<close>

lemma actor_step_modes:
  assumes "actor_step mc cmd st = Some (st', effs)"
  shows "yolo_mode st' = (if cmd = SetYoloMode True then mc_yolo_pin mc = None else yolo_mode st)"
    and "auto_mode st' = (if cmd = SetAutoMode False \<or> (cmd = SetYoloMode True \<and> mc_yolo_pin mc = None)
           then False else auto_mode st)"
proof -
  have "yolo_mode st' = (if cmd = SetYoloMode True then mc_yolo_pin mc = None else yolo_mode st)
      \<and> auto_mode st' = (if cmd = SetAutoMode False \<or> (cmd = SetYoloMode True \<and> mc_yolo_pin mc = None)
           then False else auto_mode st)"
  proof (cases cmd)
    case (Request access ctx w)
    with assms have "st' = fst (handle_request mc w st access ctx)" by simp
    with Request handle_request_modes [of mc w st access ctx] show ?thesis by simp
  qed (use assms in \<open>auto simp: clamp_yolo_def Let_def split: if_splits\<close>)
  then show "yolo_mode st' = (if cmd = SetYoloMode True then mc_yolo_pin mc = None else yolo_mode st)"
    and "auto_mode st' = (if cmd = SetAutoMode False \<or> (cmd = SetYoloMode True \<and> mc_yolo_pin mc = None)
           then False else auto_mode st)"
    by blast+
qed

text \<open>The shapes of a call.\<close>

lemma handle_call_cases:
  assumes "handle_call pin p" "p \<noteq> []"
  obtains (on) "pin = None" "p = [Store_Yolo True, Store_Auto False, Send (SetYoloMode True)]"
  | (pinned) "pin \<noteq> None" "p = [Store_Yolo False, Send (SetYoloMode True)]"
  | (off) "p = [Store_Auto False, Send (SetAutoMode False)]"
  | (other) v c where "p = [Store_Wired v, Send c] \<or> p = [Send c] \<or> p = [Store_Wired v]" "other_command c"
  using assms
  by (cases rule: handle_call.cases)
    (auto simp: handle_defs clamp_yolo_def other_command_def Let_def split: if_splits)

text \<open>A raised always-approve flag and a lowered auto flag keep what was known.\<close>

lemma sent_ok_mono:
  "sent_ok pin y au c \<Longrightarrow> (pin = None \<Longrightarrow> y \<Longrightarrow> y') \<Longrightarrow> (au' \<Longrightarrow> au) \<Longrightarrow> sent_ok pin y' au' c"
  by (auto simp: sent_ok_def)

lemma call_ok_mono:
  "call_ok pin y au p \<Longrightarrow> (pin = None \<Longrightarrow> y \<Longrightarrow> y') \<Longrightarrow> (au' \<Longrightarrow> au) \<Longrightarrow> call_ok pin y' au' p"
  unfolding call_ok_def using sent_ok_mono by blast

lemma store_ok_mono:
  "store_ok pin y au a \<Longrightarrow> (pin = None \<Longrightarrow> y \<Longrightarrow> y') \<Longrightarrow> (au' \<Longrightarrow> au) \<Longrightarrow> store_ok pin y' au' a"
  by (auto simp: store_ok_def)

lemmas ok_monos = sent_ok_mono call_ok_mono store_ok_mono

lemma call_ok_Nil [simp]: "call_ok pin y au []"
  by (simp add: call_ok_def)

text \<open>The first action of a caller and what is left to it.\<close>

lemma call_ok_step:
  assumes "call_ok pin y au (a # p)"
  obtains (on) "pin = None" "a = Store_Yolo True" "switching_on p"
  | (pinned) "pin \<noteq> None" "a = Store_Yolo False" "p = [Send (SetYoloMode True)]"
  | (switch) "pin = None" "y" "a = Store_Auto False" "p = [Send (SetYoloMode True)]"
  | (off) "a = Store_Auto False" "p = [Send (SetAutoMode False)]"
  | (wired) v c where "a = Store_Wired v" "p = [] \<or> p = [Send c]" "other_command c"
  | (sent) c where "a = Send c" "p = []" "sent_ok pin y au c"
proof -
  consider (whole) "handle_call pin (a # p)" | (send) c where "a = Send c" "p = []" "sent_ok pin y au c"
    | (half) "pin = None" "a = Store_Auto False" "p = [Send (SetYoloMode True)]" y
    using assms by (auto simp: call_ok_def)
  then show thesis
  proof cases
    case whole
    then show thesis
      by (cases rule: handle_call_cases) (auto simp: switching_on_def sent_ok_def intro: on pinned off wired sent)
  qed (auto intro: switch sent)
qed

lemma some_call_fresh: "calls i = [] \<Longrightarrow> \<not> P [] \<Longrightarrow> some_call P calls \<Longrightarrow> some_call P (calls(i := p))"
  unfolding some_call_def by (metis fun_upd_other)

lemma some_call_at: "P p \<Longrightarrow> some_call P (calls(i := p))"
  unfolding some_call_def by (metis fun_upd_same)

lemma some_call_other: "some_call P calls \<Longrightarrow> \<not> P (calls i) \<Longrightarrow> some_call P (calls(i := p))"
  unfolding some_call_def by (metis fun_upd_other)

lemma not_at_Nil [simp]: "\<not> switching_on []" "\<not> will_send c []"
  by (simp_all add: switching_on_def will_send_def)

text \<open>Each kind of step keeps the invariant.\<close>

lemma call_inv:
  assumes "flags_inv mc s" "sys_calls s i = []" "handle_call (mc_yolo_pin mc) p"
  shows "flags_inv mc (s\<lparr>sys_calls := (sys_calls s)(i := p)\<rparr>)"
proof -
  have "call_ok (mc_yolo_pin mc) y au p" for y au using assms(3) by (simp add: call_ok_def)
  with assms(1) show ?thesis
    by (simp add: flags_inv_def pending_inv_def modes_inv_def) (meson assms(2) not_at_Nil some_call_fresh)
qed

lemma actor_stores_ok:
  assumes "sent_ok pin y au cmd"
  shows "list_all (store_ok pin y au) (actor_stores pin cmd)"
  using assms by (cases "(pin, cmd)" rule: actor_stores.cases)
    (auto simp: sent_ok_def store_ok_def clamp_yolo_def other_command_def Let_def)

lemma serve_inv:
  assumes "flags_inv mc s" "sys_queue s = cmd # rest" "actor_step mc cmd (sys_actor s) = Some (st', effs)"
  shows "flags_inv mc (s\<lparr>sys_queue := rest, sys_actor := st', sys_stores := actor_stores (mc_yolo_pin mc) cmd\<rparr>)"
proof -
  note inv = assms(1) [unfolded flags_inv_def pending_inv_def]
  have c: "sent_ok (mc_yolo_pin mc) (sys_yolo_state s) (sys_auto_state s) cmd" using inv assms(2) by simp
  have "modes_inv (mc_yolo_pin mc) (s\<lparr>sys_queue := rest, sys_actor := st', sys_stores := actor_stores (mc_yolo_pin mc) cmd\<rparr>)"
  proof (cases "cmd = SetYoloMode True")
    case True
    with c inv assms(2) show ?thesis
      by (cases "mc_yolo_pin mc = None")
        (auto simp: modes_inv_def sent_ok_def other_command_def actor_step_modes [OF assms(3)])
  next
    case False
    with c inv assms(2) show ?thesis
      by (simp add: modes_inv_def actor_step_modes [OF assms(3)]) (auto simp: sent_ok_def other_command_def)
  qed
  then show ?thesis
    using inv assms(2) actor_stores_ok [OF c] by (simp add: flags_inv_def pending_inv_def)
qed

lemma store_inv:
  assumes "flags_inv mc s" "sys_stores s = a # p"
  shows "flags_inv mc (run_action a (s\<lparr>sys_stores := p\<rparr>))"
proof -
  have ok: "store_ok (mc_yolo_pin mc) (sys_yolo_state s) (sys_auto_state s) a"
    using assms by (simp add: flags_inv_def pending_inv_def)
  have "\<not> sys_yolo_state s" if "mc_yolo_pin mc \<noteq> None" using assms(1) that by (simp add: flags_inv_def modes_inv_def)
  with ok have "run_action a (s\<lparr>sys_stores := p\<rparr>) = s\<lparr>sys_stores := p\<rparr>"
    by (cases "mc_yolo_pin mc") (auto simp: store_ok_def)
  then show ?thesis using assms by (simp add: flags_inv_def pending_inv_def modes_inv_def)
qed

lemma act_pending:
  assumes "pending_inv pin s" "sys_calls s i = a # p"
    and "s' = run_action a (s\<lparr>sys_calls := (sys_calls s)(i := p)\<rparr>)"
    and "pin = None \<Longrightarrow> sys_yolo_state s \<Longrightarrow> sys_yolo_state s'" "sys_auto_state s' \<Longrightarrow> sys_auto_state s"
    and "call_ok pin (sys_yolo_state s') (sys_auto_state s') p"
    and "\<And>c. a = Send c \<Longrightarrow> sent_ok pin (sys_yolo_state s') (sys_auto_state s') c"
  shows "pending_inv pin s'"
proof -
  have "sys_queue s' = sys_queue s @ (case a of Send c \<Rightarrow> [c] | _ \<Rightarrow> [])" "sys_stores s' = sys_stores s"
    "sys_calls s' = (sys_calls s)(i := p)"
    using assms(3) by (cases a; simp)+
  with assms(1,4-7) show ?thesis
    by (auto simp: pending_inv_def list_all_iff split: handle_action.split intro: ok_monos)
qed

lemma act_pending_inv:
  assumes "flags_inv mc s" "sys_calls s i = a # p"
  shows "pending_inv (mc_yolo_pin mc) (run_action a (s\<lparr>sys_calls := (sys_calls s)(i := p)\<rparr>))"
proof -
  have inv: "pending_inv (mc_yolo_pin mc) s" "mc_yolo_pin mc \<noteq> None \<Longrightarrow> \<not> sys_yolo_state s"
    using assms(1) by (simp_all add: flags_inv_def modes_inv_def)
  then have "call_ok (mc_yolo_pin mc) (sys_yolo_state s) (sys_auto_state s) (a # p)"
    using assms(2) unfolding pending_inv_def by metis
  then show ?thesis
    by (cases rule: call_ok_step; intro act_pending [OF inv(1) assms(2) refl])
      (auto simp: call_ok_def sent_ok_def switching_on_def)
qed

lemma act_modes_inv:
  assumes "flags_inv mc s" "sys_calls s i = a # p"
  shows "modes_inv (mc_yolo_pin mc) (run_action a (s\<lparr>sys_calls := (sys_calls s)(i := p)\<rparr>))"
proof -
  let ?on = "will_send (SetYoloMode True)" and ?calls = "(sys_calls s)(i := p)"
  have inv: "modes_inv (mc_yolo_pin mc) s" using assms(1) by (simp add: flags_inv_def)
  have "call_ok (mc_yolo_pin mc) (sys_yolo_state s) (sys_auto_state s) (a # p)"
    using assms unfolding flags_inv_def pending_inv_def by metis
  then show ?thesis
  proof (cases rule: call_ok_step)
    case on
    then have "some_call switching_on ?calls" "some_call ?on ?calls"
      by (auto intro!: some_call_at simp: switching_on_def will_send_def)
    with on inv show ?thesis by (simp add: modes_inv_def)
  next
    case pinned
    with inv show ?thesis by (simp add: modes_inv_def) blast
  next
    case switch
    then have "some_call ?on ?calls" by (auto intro!: some_call_at simp: will_send_def)
    with switch inv show ?thesis by (simp add: modes_inv_def)
  next
    case off
    then have "some_call ?on (sys_calls s) \<Longrightarrow> some_call ?on ?calls"
      using assms(2) by (intro some_call_other) (auto simp: will_send_def)
    with off inv show ?thesis by (simp add: modes_inv_def) blast
  next
    case (wired v c)
    then have "some_call ?on (sys_calls s) \<Longrightarrow> some_call ?on ?calls"
        "some_call switching_on (sys_calls s) \<Longrightarrow> some_call switching_on ?calls"
      using assms(2) by (auto intro!: some_call_other simp: switching_on_def will_send_def other_command_def)
    with wired inv show ?thesis by (simp add: modes_inv_def) blast
  next
    case (sent c)
    then have "some_call switching_on (sys_calls s) \<Longrightarrow> some_call switching_on ?calls"
      using assms(2) by (intro some_call_other) (auto simp: switching_on_def)
    moreover have "some_call ?on (sys_calls s) \<Longrightarrow> c = SetYoloMode True \<or> some_call ?on ?calls"
      using sent assms(2) some_call_other [of ?on "sys_calls s" i] by (auto simp: will_send_def)
    ultimately show ?thesis using sent inv by (simp add: modes_inv_def) blast
  qed
qed

lemma act_inv:
  "flags_inv mc s \<Longrightarrow> sys_calls s i = a # p \<Longrightarrow>
     flags_inv mc (run_action a (s\<lparr>sys_calls := (sys_calls s)(i := p)\<rparr>))"
  by (simp add: flags_inv_def [of mc "run_action _ _"] act_pending_inv act_modes_inv)

lemma manager_step_inv: "manager_step mc s s' \<Longrightarrow> flags_inv mc s \<Longrightarrow> flags_inv mc s'"
  by (induction rule: manager_step.induct) (auto intro: call_inv act_inv serve_inv store_inv)

lemma spawn_inv: "actor_inv mc st \<Longrightarrow> flags_inv mc (spawn_system st)"
  by (auto simp: flags_inv_def pending_inv_def modes_inv_def spawn_system_def actor_inv_def)

text \<open>
  C27. The flags never promise more than the manager keeps, however the stores and sends of any number
  of callers and of the actor interleave: a pinned session never reports always-approve mode;
  always-approve is reported whenever the actor is in it, and only if the actor is in it or the
  command that switches it on is queued or about to be sent by a caller; it is reported together
  with auto mode only while some caller is between its store of the one flag and its store of
  the other; and auto mode is reported only while the actor is in it.
\<close>

theorem handle_flags_agree:
  assumes "(manager_step mc)\<^sup>*\<^sup>* (spawn_system (actor_init loaded clf policy yolo (mc_yolo_pin mc))) s"
  shows "(mc_yolo_pin mc \<noteq> None \<longrightarrow> \<not> is_yolo_mode s)
    \<and> (is_yolo_mode s \<and> is_auto_mode s \<longrightarrow> (\<exists>i. sys_calls s i = [Store_Auto False, Send (SetYoloMode True)]))
    \<and> (yolo_mode (sys_actor s) \<longrightarrow> is_yolo_mode s)
    \<and> (is_yolo_mode s \<longrightarrow> yolo_mode (sys_actor s) \<or> SetYoloMode True \<in> set (sys_queue s)
         \<or> (\<exists>i. Send (SetYoloMode True) \<in> set (sys_calls s i)))
    \<and> (is_auto_mode s \<longrightarrow> auto_mode (sys_actor s))"
proof -
  have "flags_inv mc s"
    using assms
    by (induction rule: rtranclp_induct) (auto intro: spawn_inv actor_init_inv manager_step_inv)
  then show ?thesis
    by (simp add: flags_inv_def modes_inv_def is_yolo_mode_def is_auto_mode_def some_call_def
        switching_on_def will_send_def)
qed

theorem handle_flags_agree_witness:
  "let mc = sample_config sample_ext [] False None;
       st = actor_init permission_state_default agreeing Prompt_Auto False None in
   \<exists>s. (manager_step mc)\<^sup>*\<^sup>* (spawn_system st) s \<and> is_yolo_mode s \<and> is_auto_mode s
     \<and> (\<exists>i. sys_calls s i = [Store_Auto False, Send (SetYoloMode True)])"
proof -
  let ?mc = "sample_config sample_ext [] False None"
  let ?st = "actor_init permission_state_default agreeing Prompt_Auto False (mc_yolo_pin ?mc)"
  let ?s0 = "spawn_system ?st"
  let ?s1 = "?s0\<lparr>sys_calls := (sys_calls ?s0)(0 := set_yolo_mode (mc_yolo_pin ?mc) True)\<rparr>"
  let ?s2 = "run_action (Store_Yolo True) (?s1\<lparr>sys_calls := (sys_calls ?s1)(0 := [Store_Auto False, Send (SetYoloMode True)])\<rparr>)"
  have "manager_step ?mc ?s0 ?s1" by (rule manager_step.call) (simp_all add: spawn_system_def handle_call.yolo)
  moreover have "manager_step ?mc ?s1 ?s2"
    by (rule manager_step.act) (simp add: set_yolo_mode_def clamp_yolo_def sample_config_fields)
  ultimately have r: "(manager_step ?mc)\<^sup>*\<^sup>* ?s0 ?s2" by (meson rtranclp.rtrancl_refl rtranclp.rtrancl_into_rtrancl)
  moreover have "is_yolo_mode ?s2" "is_auto_mode ?s2"
    by (simp_all add: is_yolo_mode_def is_auto_mode_def spawn_system_def actor_init_def clamp_yolo_def Let_def sample_config_fields)
  moreover note handle_flags_agree [OF r]
  ultimately show ?thesis by (simp only: Let_def sample_config_fields) blast
qed

end
