(* ===== verification/Breaker_Window.thy ===== *)
theory Breaker_Window
  imports Prelude Rust_Num "HOL-Library.Monad_Syntax"
begin

text \<open>
  The bounded sliding window of the circuit breaker (\<open>xai-circuit-breaker/src/window.rs\<close>): its
  operations as the code has them, with the incremental failure counter, the specification
  over the plain list of samples, and the contract the breaker relies on.
\<close>

section \<open>The window\<close>

definition MAX_WINDOW_ENTRIES :: nat where
  "MAX_WINDOW_ENTRIES = 10000"

record sliding_window =
  entries :: "(instant \<times> bool) list"
  failures :: nat

definition window_new :: sliding_window where
  "window_new = \<lparr>entries = [], failures = 0\<rparr>"

text \<open>
  The counter is a \<open>usize\<close>: \<open>failures -= 1\<close> at zero would panic or wrap, which is
  \<open>None\<close> here; that it never happens is the invariant below.
\<close>

definition failures_dec :: "sliding_window \<Rightarrow> sliding_window option" where
  "failures_dec w = (if failures w = 0 then None else Some (w\<lparr>failures := failures w - 1\<rparr>))"

definition pop_front :: "sliding_window \<Rightarrow> sliding_window" where
  "pop_front w = w\<lparr>entries := drop 1 (entries w)\<rparr>"

definition window_push :: "bool \<Rightarrow> instant \<Rightarrow> sliding_window \<Rightarrow> sliding_window option" where
  "window_push is_failure t w =
     do {
       w1 \<leftarrow> (if length (entries w) \<ge> MAX_WINDOW_ENTRIES
              then (case entries w of
                      [] \<Rightarrow> Some w
                    | (_, was_failure) # _ \<Rightarrow>
                        if was_failure then failures_dec (pop_front w) else Some (pop_front w))
              else Some w);
       Some (w1\<lparr>entries := entries w1 @ [(t, is_failure)],
                failures := (if is_failure then failures w1 + 1 else failures w1)\<rparr>)
     }"

function evict_loop :: "instant \<Rightarrow> sliding_window \<Rightarrow> sliding_window option" where
  "evict_loop cutoff w =
     (case entries w of
        [] \<Rightarrow> Some w
      | (ts, was_failure) # _ \<Rightarrow>
          if ts < cutoff then
            (case (if was_failure then failures_dec (pop_front w) else Some (pop_front w)) of
               None \<Rightarrow> None
             | Some w' \<Rightarrow> evict_loop cutoff w')
          else Some w)"
  by pat_completeness auto
termination
  by (relation "measure (\<lambda>(c, w). length (entries w))")
    (auto simp: failures_dec_def pop_front_def split: if_splits)

declare evict_loop.simps [simp del]

definition window_evict :: "duration \<Rightarrow> instant \<Rightarrow> sliding_window \<Rightarrow> sliding_window option" where
  "window_evict window now w =
     (case checked_sub now window of
        None \<Rightarrow> Some w
      | Some cutoff \<Rightarrow> evict_loop cutoff w)"

definition window_error_rate :: "sliding_window \<Rightarrow> f64" where
  "window_error_rate w =
     (if entries w = [] then Finite 0 else f64_div_nat (failures w) (length (entries w)))"

definition window_sample_count :: "sliding_window \<Rightarrow> nat" where
  "window_sample_count w = length (entries w)"

definition window_clear :: "sliding_window \<Rightarrow> sliding_window" where
  "window_clear w = w\<lparr>entries := [], failures := 0\<rparr>"

section \<open>Specification over the list of samples\<close>

definition failure_count :: "(instant \<times> bool) list \<Rightarrow> nat" where
  "failure_count xs = length (filter snd xs)"

definition window_ok :: "sliding_window \<Rightarrow> bool" where
  "window_ok w \<longleftrightarrow>
     failures w = failure_count (entries w) \<and> length (entries w) \<le> MAX_WINDOW_ENTRIES"

definition spec_push :: "bool \<Rightarrow> instant \<Rightarrow> (instant \<times> bool) list \<Rightarrow> (instant \<times> bool) list" where
  "spec_push f t xs = drop (length xs + 1 - MAX_WINDOW_ENTRIES) (xs @ [(t, f)])"

definition spec_evict :: "duration \<Rightarrow> instant \<Rightarrow> (instant \<times> bool) list \<Rightarrow> (instant \<times> bool) list" where
  "spec_evict window now xs =
     (case checked_sub now window of
        None \<Rightarrow> xs
      | Some cutoff \<Rightarrow> dropWhile (\<lambda>(ts, _). ts < cutoff) xs)"

text \<open>The window a list of samples stands for.\<close>

definition window_of :: "(instant \<times> bool) list \<Rightarrow> sliding_window" where
  "window_of xs = \<lparr>entries = xs, failures = failure_count xs\<rparr>"

lemma window_of_sel [window_simps]:
  "entries (window_of xs) = xs" "failures (window_of xs) = failure_count xs"
  by (simp_all add: window_of_def)

lemma failure_count_simps [simp]:
  "failure_count [] = 0"
  "failure_count ((t, f) # xs) = (if f then Suc (failure_count xs) else failure_count xs)"
  "failure_count (xs @ ys) = failure_count xs + failure_count ys"
  by (simp_all add: failure_count_def)

lemma failure_count_le: "failure_count xs \<le> length xs"
  by (simp add: failure_count_def)

lemma window_ok_iff: "window_ok w \<longleftrightarrow> w = window_of (entries w) \<and> length (entries w) \<le> MAX_WINDOW_ENTRIES"
  by (cases w) (auto simp: window_ok_def window_of_def)

lemma pop_window_of [window_simps]:
  "failures_dec (pop_front (window_of ((t, True) # xs))) = Some (window_of xs)"
  "pop_front (window_of ((t, False) # xs)) = window_of xs"
  by (simp_all add: failures_dec_def pop_front_def window_of_def)

lemma push_window_of:
  assumes "length xs \<le> MAX_WINDOW_ENTRIES"
  shows "window_push f t (window_of xs) = Some (window_of (spec_push f t xs))"
proof (cases "length xs < MAX_WINDOW_ENTRIES")
  case True
  then show ?thesis
    by (simp add: window_push_def spec_push_def window_of_def MAX_WINDOW_ENTRIES_def)
next
  case False
  with assms obtain t0 f0 ys where xs: "xs = (t0, f0) # ys" and len: "length xs = MAX_WINDOW_ENTRIES"
    by (cases xs) (auto simp: MAX_WINDOW_ENTRIES_def)
  then have "spec_push f t xs = ys @ [(t, f)]" by (simp add: spec_push_def)
  moreover have "window_push f t (window_of xs) = Some (window_of (ys @ [(t, f)]))"
    using len unfolding xs window_push_def
    by (cases f0) (simp_all add: window_simps)
  ultimately show ?thesis by simp
qed

lemma evict_loop_window_of:
  "evict_loop cutoff (window_of xs) = Some (window_of (dropWhile (\<lambda>(ts, _). ts < cutoff) xs))"
proof (induction xs)
  case Nil
  show ?case by (simp add: evict_loop.simps [of _ "window_of []"] window_simps)
next
  case (Cons e xs)
  obtain t f where e: "e = (t, f)" by (cases e)
  show ?case
    using Cons.IH by (cases f) (simp_all add: e evict_loop.simps [of _ "window_of ((t, _) # xs)"] window_simps)
qed

lemma evict_window_of: "window_evict d now (window_of xs) = Some (window_of (spec_evict d now xs))"
  by (simp add: window_evict_def spec_evict_def evict_loop_window_of split: option.split)

lemma clear_window_of: "window_clear w = window_of []"
  by (cases w) (simp add: window_clear_def window_of_def)

lemma spec_push_length: "length xs \<le> MAX_WINDOW_ENTRIES \<Longrightarrow> length (spec_push f t xs) \<le> MAX_WINDOW_ENTRIES"
  by (simp add: spec_push_def)

lemma spec_evict_length: "length (spec_evict d now xs) \<le> length xs"
  by (auto simp: spec_evict_def length_dropWhile_le split: option.split)

section \<open>The contract of the window\<close>

text \<open>
  What a user of a window may rely on: its samples follow the list specification and no
  operation gets stuck on a window in order.
\<close>

locale sample_window =
  fixes new :: 'w
    and ok :: "'w \<Rightarrow> bool"
    and samples :: "'w \<Rightarrow> (instant \<times> bool) list"
    and push :: "bool \<Rightarrow> instant \<Rightarrow> 'w \<Rightarrow> 'w option"
    and evict :: "duration \<Rightarrow> instant \<Rightarrow> 'w \<Rightarrow> 'w option"
    and clear :: "'w \<Rightarrow> 'w"
  assumes new_ok: "ok new" "samples new = []"
    and clear_ok: "ok (clear w)" "samples (clear w) = []"
    and push_ok: "ok w \<Longrightarrow> \<exists>w'. push f t w = Some w' \<and> ok w' \<and> samples w' = spec_push f t (samples w)"
    and evict_ok: "ok w \<Longrightarrow> \<exists>w'. evict d t w = Some w' \<and> ok w' \<and> samples w' = spec_evict d t (samples w)"
begin

lemma push_evict:
  assumes "ok w"
  obtains w' where "Option.bind (push f t w) (evict d t) = Some w'" "ok w'"
    "samples w' = spec_evict d t (spec_push f t (samples w))"
  using push_ok [OF assms, of f t] evict_ok by (metis bind.bind_lunit)

end

interpretation win: sample_window window_new window_ok entries window_push window_evict window_clear
proof
  show "window_ok window_new" "entries window_new = []"
    by (simp_all add: window_new_def window_ok_def)
  show "window_ok (window_clear w)" "entries (window_clear w) = []" for w
    by (simp_all add: window_clear_def window_ok_def)
  show "\<exists>w'. window_push f t w = Some w' \<and> window_ok w' \<and> entries w' = spec_push f t (entries w)"
    if "window_ok w" for w f t
    using that push_window_of [of "entries w" f t] spec_push_length [of "entries w" f t]
    by (auto simp: window_ok_iff window_simps)
  show "\<exists>w'. window_evict d t w = Some w' \<and> window_ok w' \<and> entries w' = spec_evict d t (entries w)"
    if "window_ok w" for w d t
    using that evict_window_of [of d t "entries w"] spec_evict_length [of d t "entries w"]
    by (auto simp: window_ok_iff window_simps)
qed

section \<open>Runs of a window\<close>

text \<open>The samples of a window fed with outcomes at the given times, evicting after each.\<close>

fun window_run :: "duration \<Rightarrow> (instant \<times> bool) list \<Rightarrow> sliding_window \<Rightarrow> sliding_window option" where
  "window_run d [] w = Some w"
| "window_run d ((t, f) # xs) w =
     Option.bind (Option.bind (window_push f t w) (window_evict d t)) (window_run d xs)"

text \<open>The samples that should be live: among the last \<open>MAX_WINDOW_ENTRIES\<close>, those within the window.\<close>

definition live_samples :: "duration \<Rightarrow> (instant \<times> bool) list \<Rightarrow> (instant \<times> bool) list" where
  "live_samples d xs =
     (if xs = [] then []
      else filter (\<lambda>(ts, _). fst (last xs) - int d \<le> ts) (drop (length xs - MAX_WINDOW_ENTRIES) xs))"

lemma dropWhile_sorted_filter:
  "sorted (map fst xs) \<Longrightarrow> dropWhile (\<lambda>(ts, _). ts < (c :: int)) xs = filter (\<lambda>(ts, _). c \<le> ts) xs"
proof (induction xs)
  case (Cons x xs)
  then show ?case
    by (cases x) (auto simp: not_less filter_id_conv intro!: filter_True [symmetric])
qed simp

lemma sorted_drop_filter:
  assumes "sorted (map fst xs)" "fst (last xs) \<le> t" "xs \<noteq> []"
    and "length (live_samples d xs) < MAX_WINDOW_ENTRIES"
  shows "filter (\<lambda>(ts, _). t - int d \<le> ts) (drop (length xs + 1 - MAX_WINDOW_ENTRIES) xs) =
    filter (\<lambda>(ts, _). t - int d \<le> ts) (drop (length xs - MAX_WINDOW_ENTRIES) xs)"
proof (cases "length xs < MAX_WINDOW_ENTRIES")
  case False
  define k where "k = length xs - MAX_WINDOW_ENTRIES"
  have k: "k < length xs" "length xs + 1 - MAX_WINDOW_ENTRIES = Suc k"
    using False by (simp_all add: k_def Suc_diff_le MAX_WINDOW_ENTRIES_def)
  then have split: "drop k xs = (xs ! k) # drop (Suc k) xs" by (simp add: Cons_nth_drop_Suc)
  have "fst (xs ! k) < fst (last xs) - int d"
  proof (rule ccontr)
    assume "\<not> fst (xs ! k) < fst (last xs) - int d"
    moreover have "fst (xs ! k) \<le> fst x" if x: "x \<in> set (drop k xs)" for x
    proof -
      from x obtain i where "i < length (drop k xs)" "x = drop k xs ! i" by (auto simp: in_set_conv_nth)
      with sorted_nth_mono [OF assms(1), of k "k + i"] k(1) show ?thesis by simp
    qed
    ultimately have "live_samples d xs = drop k xs"
      using assms(3) by (fastforce simp: live_samples_def k_def [symmetric] filter_id_conv)
    with assms(4) False show False by (simp add: k_def)
  qed
  with assms(2) split show ?thesis
    unfolding k(2) k_def [symmetric] by (cases "xs ! k") simp
qed simp

lemma filter_full:
  assumes "length ys \<le> length (filter P ys)"
  shows "filter P ys = ys"
  using assms length_filter_less [of _ ys P] by (fastforce simp: filter_id_conv)

lemma live_samples_snoc:
  assumes "sorted (map fst (xs @ [(t, f)]))" and "checked_sub t d = Some c"
  shows "spec_evict d t (spec_push f t (live_samples d xs)) = live_samples d (xs @ [(t, f)])"
proof (cases "xs = []")
  case True
  then show ?thesis using assms(2)
    by (simp add: spec_evict_def spec_push_def live_samples_def checked_sub_def MAX_WINDOW_ENTRIES_def
        split: if_splits)
next
  case False
  let ?L = "live_samples d xs" and ?N = MAX_WINDOW_ENTRIES
  have c: "c = t - int d" using assms(2) by (simp add: checked_sub_def split: if_splits)
  have s: "sorted (map fst xs)" and t: "fst (last xs) \<le> t"
    using assms(1) False by (auto simp: sorted_append)
  have "sorted (map fst ?L)"
    using s False by (auto simp: live_samples_def drop_map [symmetric] intro!: sorted_filter sorted_wrt_drop)
  moreover have "x \<le> t" if "x \<in> fst ` set ?L" for x
    using that assms(1) by (auto simp: live_samples_def sorted_append split: if_splits dest!: in_set_dropD)
  ultimately have "sorted (map fst (?L @ [(t, f)]))" by (auto simp: sorted_append)
  then have sub: "sorted (map fst (spec_push f t ?L))"
    unfolding spec_push_def by (metis drop_map sorted_wrt_drop)
  have lhs: "spec_evict d t (spec_push f t ?L) = filter (\<lambda>(ts, _). t - int d \<le> ts) (spec_push f t ?L)"
    using assms(2) by (simp add: spec_evict_def dropWhile_sorted_filter [OF sub] c)
  have N: "0 < ?N" by (simp add: MAX_WINDOW_ENTRIES_def)
  have rhs: "live_samples d (xs @ [(t, f)]) =
      filter (\<lambda>(ts, _). t - int d \<le> ts) (drop (length xs + 1 - ?N) xs @ [(t, f)])"
    using N by (simp add: live_samples_def)
  have le: "length ?L \<le> length (drop (length xs - ?N) xs)"
    using False unfolding live_samples_def by (simp only: if_False length_filter_le)
  then have len: "length ?L \<le> ?N" by simp
  show ?thesis
  proof (cases "length ?L < ?N")
    case True
    have "filter (\<lambda>(ts, _). t - int d \<le> ts) ?L =
        filter (\<lambda>(ts, _). t - int d \<le> ts) (drop (length xs - ?N) xs)"
      using t False by (auto simp: live_samples_def intro!: filter_cong)
    with sorted_drop_filter [OF s t False True] True show ?thesis
      unfolding lhs rhs by (simp add: spec_push_def)
  next
    case False': False
    with len have L: "length ?L = ?N" by simp
    with le have xs: "?N \<le> length xs" by simp
    have full: "?L = drop (length xs - ?N) xs"
      using False L xs by (simp add: live_samples_def filter_full)
    from L xs N show ?thesis
      unfolding lhs rhs by (simp add: spec_push_def full Suc_diff_le)
  qed
qed

lemma window_run_snoc:
  "window_run d (xs @ [(t, f)]) w =
     Option.bind (window_run d xs w) (\<lambda>w'. Option.bind (window_push f t w') (window_evict d t))"
proof (induction xs arbitrary: w)
  case (Cons x xs)
  obtain t' f' where x: "x = (t', f')" by (cases x)
  show ?case
    using Cons.IH by (cases "Option.bind (window_push f' t' w) (window_evict d t')") (simp_all add: x)
next
  case Nil
  show ?case by (cases "Option.bind (window_push f t w) (window_evict d t)") simp_all
qed

lemma window_run_live:
  assumes "sorted (map fst xs)" and "list_all (\<lambda>(t, _). checked_sub t d \<noteq> None) xs"
  shows "\<exists>w. window_run d xs window_new = Some w \<and> window_ok w \<and> entries w = live_samples d xs"
  using assms
proof (induction xs rule: rev_induct)
  case Nil
  show ?case using win.new_ok by (simp add: live_samples_def)
next
  case (snoc x xs)
  obtain t f where x: "x = (t, f)" by (cases x)
  from snoc.prems x have s: "sorted (map fst (xs @ [(t, f)]))" by simp
  from snoc obtain w where w: "window_run d xs window_new = Some w" "window_ok w" "entries w = live_samples d xs"
    by (auto simp: sorted_append)
  from snoc.prems x obtain c where c: "checked_sub t d = Some c" by auto
  obtain w' where "Option.bind (window_push f t w) (window_evict d t) = Some w'" "window_ok w'"
    "entries w' = spec_evict d t (spec_push f t (entries w))"
    using w(2) by (rule win.push_evict)
  with w live_samples_snoc [OF s c] show ?case by (simp add: x window_run_snoc)
qed

lemma rate_half:
  assumes "window_ok w"
  shows "(\<exists>v. window_error_rate w = Finite v \<and> 0 \<le> v \<and> v \<le> 1)
    \<and> (f64_ge (window_error_rate w) (Finite (1 / 2)) \<longleftrightarrow>
         entries w \<noteq> [] \<and> length (entries w) \<le> 2 * length (filter snd (entries w)))"
proof (cases "entries w = []")
  case True
  then show ?thesis by (simp add: window_error_rate_def)
next
  case False
  let ?n = "length (entries w)"
  have f: "failures w = failure_count (entries w)" and n: "?n \<le> 2 ^ 51"
    using assms by (simp_all add: window_ok_def MAX_WINDOW_ENTRIES_def)
  have "failures w \<le> ?n" "0 < ?n" using f False failure_count_le by simp_all
  with f64_div_unit [of "failures w" ?n] f64_div_half [of "failures w" ?n] n f False show ?thesis
    by (simp add: window_error_rate_def failure_count_def)
qed

section \<open>Properties\<close>

text \<open>
  C35. The sliding window is exact: fed with outcomes at non-decreasing times, each at least the
  window duration after the origin of the clock, it never
  underflows its counter, holds exactly those of the last 10000 samples that are no older than
  the window duration, and its incremental failure counter is the number of failures among
  them.
\<close>

theorem window_run_correct:
  assumes "sorted (map fst xs)" and "list_all (\<lambda>(t, _). checked_sub t d \<noteq> None) xs"
  shows "\<exists>w. window_run d xs window_new = Some w
    \<and> entries w = live_samples d xs
    \<and> failures w = length (filter snd (live_samples d xs))
    \<and> window_sample_count w \<le> MAX_WINDOW_ENTRIES"
  using window_run_live [OF assms]
  by (auto simp: window_ok_def failure_count_def window_sample_count_def)

theorem window_run_correct_witness:
  "\<exists>w. window_run 10 [(0, True), (5, False), (12, True)] window_new = Some w
    \<and> entries w = [(5, False), (12, True)] \<and> failures w = 1"
proof -
  have "live_samples 10 [(0, True), (5, False), (12, True)] = [(5, False), (12, True)]" by code_simp
  moreover have "list_all (\<lambda>(t, _). checked_sub t 10 \<noteq> None) [(0, True), (5, False), (12, True)]" by code_simp
  ultimately show ?thesis
    using window_run_correct [of "[(0, True), (5, False), (12, True)]" 10] by auto
qed

text \<open>
  The failure rate: on a window in order it is a number between 0 and 1, and comparing
  it with one half (the threshold of every preset) is exact in spite of floating point: it
  reaches the threshold exactly when the failures are at least half of a non-empty window.
\<close>

theorem error_rate_half:
  assumes "window_ok w"
  shows "(\<exists>v. window_error_rate w = Finite v \<and> 0 \<le> v \<and> v \<le> 1)
    \<and> (f64_ge (window_error_rate w) (Finite (1 / 2)) \<longleftrightarrow>
         entries w \<noteq> [] \<and> length (entries w) \<le> 2 * length (filter snd (entries w)))"
  using assms by (rule rate_half)

theorem error_rate_half_witness:
  "f64_ge (window_error_rate (window_of [(0, True), (1, False), (2, False), (3, True)])) (Finite (1 / 2))"
proof -
  have "window_ok (window_of [(0, True), (1, False), (2, False), (3, True)])" by code_simp
  from error_rate_half [OF this] show ?thesis by (simp add: window_simps)
qed

end
