(* ===== verification/Breaker_Config.thy ===== *)
theory Breaker_Config
  imports Prelude Rust_Num
begin

text \<open>
  Configuration of the circuit breaker (\<open>config.rs\<close>): presets, the environment look-up with
  its fall-backs, the failure-code list; and the HTTP retry policy (\<open>retry_policy.rs\<close>).
\<close>

section \<open>Configuration\<close>

record breaker_config =
  window_duration :: duration
  min_samples :: nat
  error_rate_threshold :: f64
  open_duration :: duration
  half_open_max_probes :: "64 word"
  failure_codes :: "16 word list"
  enabled :: bool

text \<open>
  \<open>failure_codes\<close> is a \<open>HashSet\<close>; only membership and emptiness are observed, so the list of
  its elements in any order stands for it.
\<close>

definition default_failure_codes :: "16 word list" where
  "default_failure_codes = [429, 500, 502, 503, 504]"

definition config_server :: breaker_config where
  "config_server =
     \<lparr>window_duration = from_secs 60, min_samples = 10, error_rate_threshold = Finite (1 / 2),
      open_duration = from_secs 10, half_open_max_probes = 1,
      failure_codes = default_failure_codes, enabled = True\<rparr>"

definition config_client :: breaker_config where
  "config_client =
     \<lparr>window_duration = from_secs 60, min_samples = 5, error_rate_threshold = Finite (1 / 2),
      open_duration = from_secs 60, half_open_max_probes = 1,
      failure_codes = [401], enabled = True\<rparr>"

definition parse_failure_codes :: "string \<Rightarrow> 16 word list" where
  "parse_failure_codes s =
     List.map_filter (\<lambda>c. map_option of_nat (parse_uint 16 (trim c))) (split_char CHR '','' s)"

definition lookup_or ::
  "(string \<Rightarrow> 'a option) \<Rightarrow> (string \<Rightarrow> string option) \<Rightarrow> string \<Rightarrow> 'a \<Rightarrow> 'a" where
  "lookup_or parse get key dflt =
     (case get key of
        Some v \<Rightarrow> (case parse v of Some parsed \<Rightarrow> parsed | None \<Rightarrow> dflt)
      | None \<Rightarrow> dflt)"

definition from_lookup_with_prefix :: "string \<Rightarrow> (string \<Rightarrow> string option) \<Rightarrow> breaker_config" where
  "from_lookup_with_prefix pfx get =
     (let key = (\<lambda>k. pfx @ k);
          codes = (case get (key ''FAILURE_CODES'') of
                     Some raw \<Rightarrow>
                       (let codes = parse_failure_codes raw
                        in if codes = [] then default_failure_codes else codes)
                   | None \<Rightarrow> default_failure_codes)
      in \<lparr>window_duration = from_secs (lookup_or (parse_uint 64) get (key ''WINDOW_SECS'') 60),
          min_samples = lookup_or (parse_uint 64) get (key ''MIN_SAMPLES'') 10,
          error_rate_threshold =
            lookup_or parse_f64 get (key ''ERROR_RATE_THRESHOLD'') (Finite (1 / 2)),
          open_duration = from_secs (lookup_or (parse_uint 64) get (key ''OPEN_DURATION_SECS'') 10),
          half_open_max_probes =
            max (of_nat (lookup_or (parse_uint 64) get (key ''HALF_OPEN_MAX_PROBES'') 1)) 1,
          failure_codes = codes,
          enabled = lookup_or parse_bool get (key ''ENABLED'') True\<rparr>)"

definition from_env_with_prefix :: "(string \<Rightarrow> string option) \<Rightarrow> string \<Rightarrow> breaker_config" where
  "from_env_with_prefix env pfx = from_lookup_with_prefix pfx env"

definition from_env :: "(string \<Rightarrow> string option) \<Rightarrow> breaker_config" where
  "from_env env = from_env_with_prefix env ''CB_''"

definition is_failure_status :: "breaker_config \<Rightarrow> 16 word \<Rightarrow> bool" where
  "is_failure_status c status \<longleftrightarrow> status \<in> set (failure_codes c)"

section \<open>Retry policy\<close>

datatype disposition = Retryable | AuthRefresh | Terminal

record retry_policy =
  retryable :: "16 word list"
  auth_refresh :: "16 word list"
  terminal :: "16 word list"
  default_disposition :: disposition

definition classify :: "retry_policy \<Rightarrow> 16 word \<Rightarrow> disposition option" where
  "classify p status =
     (if 200 \<le> status \<and> status < 300 then None
      else if status \<in> set (auth_refresh p) then Some AuthRefresh
      else if status \<in> set (terminal p) then Some Terminal
      else if status \<in> set (retryable p) \<or> (500 \<le> status \<and> status < 600) then Some Retryable
      else Some (default_disposition p))"

definition should_retry :: "retry_policy \<Rightarrow> 16 word \<Rightarrow> bool" where
  "should_retry p status \<longleftrightarrow> classify p status = Some Retryable"

definition retry_server :: retry_policy where
  "retry_server =
     \<lparr>retryable = [429], auth_refresh = [], terminal = [], default_disposition = Terminal\<rparr>"

definition retry_client_storage :: retry_policy where
  "retry_client_storage =
     \<lparr>retryable = [], auth_refresh = [401], terminal = [400, 403, 404],
      default_disposition = Retryable\<rparr>"

section \<open>Properties\<close>

lemma map_filter_inverse: "(\<And>x. f (g x) = Some x) \<Longrightarrow> List.map_filter f (map g xs) = xs"
  by (induction xs) (simp_all add: List.map_filter_def)

lemma trim_digits:
  assumes "list_all is_digit s"
  shows "trim s = s"
proof (cases "s = []")
  case True
  then show ?thesis by (simp add: trim_def trim_end_def trim_start.simps [of "[]"] trim_rev.simps [of "[]"])
next
  case False
  have plain: "\<not> ascii_ws c \<and> (of_char c :: nat) < 128" if "c \<in> set s" for c
    using assms that by (auto simp: list_all_iff is_digit_def ascii_ws_def Let_def)
  from False obtain a t where "s = a # t" by (cases s) auto
  with plain have "ws_len s = 0" by (simp add: ws_len_plain)
  moreover from False obtain b u where "rev s = b # u" by (cases "rev s") auto
  with plain have "ws_len_rev (rev s) = 0"
    by (metis list.set_intros(1) set_rev ws_len_rev_plain)
  ultimately show ?thesis
    by (simp add: trim_def trim_end_def trim_start.simps [of s] trim_rev.simps [of "rev s"])
qed

text \<open>
  The failure-code list reads back what it would print: the comma-separated decimal
  notation of any non-empty list of status codes parses to that list.
\<close>

theorem failure_codes_roundtrip:
  assumes "codes \<noteq> []"
  shows "parse_failure_codes (join [CHR '',''] (map (\<lambda>c. show_nat (unat c)) codes)) = codes"
proof -
  have "list_all (\<lambda>s. CHR '','' \<notin> set s) (map (\<lambda>c. show_nat (unat (c :: 16 word))) codes)"
    using show_nat_digits [of "CHR '',''"] by (auto simp: list_all_iff is_digit_def)
  moreover have "parse_uint 16 (trim (show_nat (unat c))) = Some (unat c)" for c :: "16 word"
  proof -
    have "unat c < 2 ^ 16" using unsigned_less [of c] by simp
    then show ?thesis
      using parse_show_nat [of "unat c" 16] show_nat_facts [of "unat c"] by (simp add: trim_digits)
  qed
  ultimately show ?thesis
    using assms by (simp add: parse_failure_codes_def split_char_join map_filter_inverse)
qed

theorem failure_codes_roundtrip_witness:
  "parse_failure_codes (join [CHR '',''] (map (\<lambda>c. show_nat (unat c)) [429, 503 :: 16 word])) = [429, 503]"
  by (rule failure_codes_roundtrip) simp

text \<open>
  Loading the configuration never fails and never disables probing: whatever the
  environment holds, at least one half-open probe slot and at least one failure code are
  configured, and with no variable set the result is the server preset.
\<close>

theorem from_env_sound:
  "1 \<le> half_open_max_probes (from_env env)
   \<and> failure_codes (from_env env) \<noteq> []
   \<and> from_env (\<lambda>_. None) = config_server"
  by (auto simp: from_env_def from_env_with_prefix_def from_lookup_with_prefix_def Let_def
      default_failure_codes_def config_server_def lookup_or_def split: option.split)

text \<open>
  The retry presets: a status is no error exactly in the 2xx range; the server preset
  retries exactly 429 and the 5xx range; the client storage preset refreshes credentials
  exactly on 401, drops exactly 400, 403 and 404, and retries every other error.
\<close>

theorem retry_presets:
  "(classify p status = None \<longleftrightarrow> status \<in> {200..<300})
   \<and> (should_retry retry_server status \<longleftrightarrow> status = 429 \<or> status \<in> {500..<600})
   \<and> (classify retry_client_storage status = Some AuthRefresh \<longleftrightarrow> status = 401)
   \<and> (classify retry_client_storage status = Some Terminal \<longleftrightarrow> status \<in> {400, 403, 404})
   \<and> (should_retry retry_client_storage status \<longleftrightarrow>
        status \<notin> {200..<300} \<union> {400, 401, 403, 404})"
proof -
  have "\<not> (500 \<le> status \<and> status < 300)" by (auto simp: word_le_nat_alt word_less_nat_alt)
  then show ?thesis
    by (auto simp: classify_def should_retry_def retry_server_def retry_client_storage_def)
qed

end
