(* ===== verification/Circuit_Breaker.thy ===== *)
theory Circuit_Breaker
  imports Breaker_Window Breaker_Config
begin

text \<open>
  The circuit breaker's state machine (\<open>breaker.rs\<close>, with \<open>state.rs\<close>, \<open>observer.rs\<close> and
  \<open>registry.rs\<close>), one operation at a time: \<open>check\<close>, \<open>record\<close>, \<open>error_rate\<close>, the forced
  half-open transition and the per-key registry. The clock is a sequence of readings,
  consumed one by one in the order the code reads it; observer callbacks are logged.
  The interleaving of operations is in \<open>Breaker_Threads\<close>.
\<close>

section \<open>State\<close>

datatype breaker_state = Closed | Open | HalfOpen

fun to_u8 :: "breaker_state \<Rightarrow> 8 word" where
  "to_u8 Closed = 0"
| "to_u8 Open = 1"
| "to_u8 HalfOpen = 2"

definition from_u8 :: "8 word \<Rightarrow> breaker_state" where
  "from_u8 v = (if v = 0 then Closed else if v = 1 then Open else if v = 2 then HalfOpen else Closed)"

datatype outcome = Success | Failure

datatype event =
    State_Change breaker_state breaker_state string
  | Probe_Admission bool
  | On_Outcome outcome breaker_state

type_synonym clock = "nat \<Rightarrow> instant"

text \<open>
  \<open>reads\<close> counts the clock readings so far; \<open>observer\<close> is the installed observer, if any, and
  \<open>log\<close> what it was told.
\<close>

record breaker =
  cfg :: breaker_config
  state_u8 :: "8 word"
  baseline :: instant
  opened_at_millis :: "64 word"
  half_open_probes :: "64 word"
  probe_claimed_at_millis :: "64 word"
  is_open_fast :: bool
  window :: sliding_window
  observer :: "nat option"
  log :: "event list"
  reads :: nat

definition breaker_with_clock :: "clock \<Rightarrow> breaker_config \<Rightarrow> breaker" where
  "breaker_with_clock clk config =
     \<lparr>cfg = config\<lparr>half_open_max_probes := max (half_open_max_probes config) 1\<rparr>,
      state_u8 = to_u8 Closed, baseline = clk 0, opened_at_millis = 0, half_open_probes = 0,
      probe_claimed_at_millis = 0, is_open_fast = False, window = window_new,
      observer = None, log = [], reads = 1\<rparr>"

definition with_observer :: "nat \<Rightarrow> breaker \<Rightarrow> breaker" where
  "with_observer ob b =
     (case observer b of None \<Rightarrow> b\<lparr>observer := Some ob\<rparr> | Some _ \<Rightarrow> b)"

definition notify :: "event \<Rightarrow> breaker \<Rightarrow> breaker" where
  "notify e b = (case observer b of None \<Rightarrow> b | Some _ \<Rightarrow> b\<lparr>log := log b @ [e]\<rparr>)"

definition breaker_state_of :: "breaker \<Rightarrow> breaker_state" where
  "breaker_state_of b = from_u8 (state_u8 b)"

definition is_open :: "breaker \<Rightarrow> bool" where
  "is_open b = is_open_fast b"

definition clock_now :: "clock \<Rightarrow> breaker \<Rightarrow> instant \<times> breaker" where
  "clock_now clk b = (clk (reads b), b\<lparr>reads := Suc (reads b)\<rparr>)"

definition millis_since :: "instant \<Rightarrow> breaker \<Rightarrow> 64 word" where
  "millis_since t b = as_millis_u64 (saturating_duration_since t (baseline b))"

definition elapsed_millis :: "clock \<Rightarrow> breaker \<Rightarrow> 64 word \<times> breaker" where
  "elapsed_millis clk b = (let (t, b') = clock_now clk b in (millis_since t b', b'))"

definition cas_state :: "breaker_state \<Rightarrow> breaker_state \<Rightarrow> breaker \<Rightarrow> bool \<times> breaker" where
  "cas_state old new b =
     (if state_u8 b = to_u8 old then (True, b\<lparr>state_u8 := to_u8 new\<rparr>) else (False, b))"

section \<open>Operations\<close>

definition trip :: "clock \<Rightarrow> breaker_state \<Rightarrow> string \<Rightarrow> breaker \<Rightarrow> breaker" where
  "trip clk prev reason b =
     (let b = b\<lparr>state_u8 := to_u8 Open\<rparr>;
          (now, b) = elapsed_millis clk b;
          b = b\<lparr>opened_at_millis := now\<rparr>;
          b = b\<lparr>half_open_probes := 0\<rparr>;
          b = b\<lparr>is_open_fast := True\<rparr>
      in if prev \<noteq> Open then notify (State_Change prev Open reason) b else b)"

definition close_breaker :: "breaker_state \<Rightarrow> string \<Rightarrow> breaker \<Rightarrow> breaker" where
  "close_breaker prev reason b =
     (let b = b\<lparr>state_u8 := to_u8 Closed\<rparr>;
          b = b\<lparr>window := window_clear (window b)\<rparr>;
          b = b\<lparr>half_open_probes := 0\<rparr>;
          b = b\<lparr>is_open_fast := False\<rparr>
      in if prev \<noteq> Closed then notify (State_Change prev Closed reason) b else b)"

definition HALF_OPEN_PROBE_BACKOFF :: duration where
  "HALF_OPEN_PROBE_BACKOFF = from_millis 50"

text \<open>The answer of \<open>check\<close>: \<open>Inl\<close> is \<open>Err(BreakerOpen { retry_after })\<close>.\<close>

type_synonym admission = "duration + unit"

definition try_half_open_probe :: "clock \<Rightarrow> breaker \<Rightarrow> admission \<times> breaker" where
  "try_half_open_probe clk b =
     (let (now, b) = elapsed_millis clk b;
          prev = half_open_probes b;
          b = b\<lparr>half_open_probes := prev + 1\<rparr>
      in if prev < half_open_max_probes (cfg b)
         then (Inr (), notify (Probe_Admission True) (b\<lparr>probe_claimed_at_millis := now\<rparr>))
         else
           let b = b\<lparr>half_open_probes := half_open_probes b - 1\<rparr>;
               lease_millis = as_millis_u64 (open_duration (cfg b));
               claimed = probe_claimed_at_millis b
           in if saturating_sub_u64 now claimed \<ge> lease_millis
                 \<and> probe_claimed_at_millis b = claimed
              then (Inr (), notify (Probe_Admission True) (b\<lparr>probe_claimed_at_millis := now\<rparr>))
              else (Inl (min HALF_OPEN_PROBE_BACKOFF (open_duration (cfg b))),
                    notify (Probe_Admission False) b))"

definition check_open :: "clock \<Rightarrow> breaker \<Rightarrow> admission \<times> breaker" where
  "check_open clk b =
     (let opened = opened_at_millis b;
          (now, b) = elapsed_millis clk b;
          elapsed = from_millis (unat (saturating_sub_u64 now opened))
      in if elapsed \<ge> open_duration (cfg b) then
           let (won, b) = cas_state Open HalfOpen b
           in if won then
                let b = b\<lparr>is_open_fast := False\<rparr>;
                    b = notify (State_Change Open HalfOpen ''open_elapsed'') b
                in try_half_open_probe clk b
              else (case breaker_state_of b of
                      Closed \<Rightarrow> (Inr (), b)
                    | HalfOpen \<Rightarrow> try_half_open_probe clk b
                    | Open \<Rightarrow>
                        let opened = opened_at_millis b;
                            (now, b) = elapsed_millis clk b;
                            elapsed = from_millis (unat (saturating_sub_u64 now opened))
                        in (Inl (open_duration (cfg b) - elapsed), b))
         else (Inl (open_duration (cfg b) - elapsed), b))"

definition check :: "clock \<Rightarrow> breaker \<Rightarrow> admission \<times> breaker" where
  "check clk b =
     (if \<not> enabled (cfg b) then (Inr (), b)
      else case breaker_state_of b of
             Closed \<Rightarrow> (Inr (), b)
           | Open \<Rightarrow> check_open clk b
           | HalfOpen \<Rightarrow> try_half_open_probe clk b)"

text \<open>\<open>None\<close> would be the underflow of the window's failure counter.\<close>

definition push_and_evict :: "bool \<Rightarrow> instant \<Rightarrow> breaker \<Rightarrow> breaker option" where
  "push_and_evict is_failure now b =
     map_option (\<lambda>w. b\<lparr>window := w\<rparr>)
       (Option.bind (window_push is_failure now (window b))
          (window_evict (window_duration (cfg b)) now))"

definition should_trip :: "breaker \<Rightarrow> bool" where
  "should_trip b \<longleftrightarrow>
     window_sample_count (window b) \<ge> min_samples (cfg b)
     \<and> f64_ge (window_error_rate (window b)) (error_rate_threshold (cfg b))"

definition breaker_record :: "clock \<Rightarrow> outcome \<Rightarrow> breaker \<Rightarrow> breaker option" where
  "breaker_record clk outcome b =
     (if \<not> enabled (cfg b) then Some b
      else
        let is_failure = (outcome = Failure);
            (now, b) = clock_now clk b;
            prev_state = breaker_state_of b
        in map_option (\<lambda>b. notify (On_Outcome outcome (breaker_state_of b)) b)
             (case prev_state of
                Closed \<Rightarrow>
                  map_option (\<lambda>b. if should_trip b then trip clk prev_state ''trip'' b else b)
                    (push_and_evict is_failure now b)
              | HalfOpen \<Rightarrow>
                  Some (if is_failure then trip clk prev_state ''probe_failure'' b
                        else close_breaker prev_state ''probe_success'' b)
              | Open \<Rightarrow> push_and_evict is_failure now b))"

definition breaker_error_rate :: "clock \<Rightarrow> breaker \<Rightarrow> (f64 \<times> breaker) option" where
  "breaker_error_rate clk b =
     (let (now, b) = clock_now clk b
      in map_option (\<lambda>w. (window_error_rate w, b\<lparr>window := w\<rparr>))
           (window_evict (window_duration (cfg b)) now (window b)))"

definition breaker_is_failure_status :: "breaker \<Rightarrow> 16 word \<Rightarrow> bool" where
  "breaker_is_failure_status b status = is_failure_status (cfg b) status"

definition force_half_open :: "breaker \<Rightarrow> breaker" where
  "force_half_open b =
     (let prev = breaker_state_of b;
          b = b\<lparr>state_u8 := to_u8 HalfOpen\<rparr>;
          b = b\<lparr>is_open_fast := False\<rparr>;
          b = b\<lparr>half_open_probes := 0\<rparr>
      in if prev \<noteq> HalfOpen then notify (State_Change prev HalfOpen ''force_half_open'') b else b)"

section \<open>The registry\<close>

text \<open>Breakers live at addresses; an \<open>Arc\<close> is an address.\<close>

record registry =
  reg_config :: breaker_config
  breakers :: "string \<rightharpoonup> nat"
  heap :: "breaker list"

definition registry_new :: "breaker_config \<Rightarrow> registry" where
  "registry_new c = \<lparr>reg_config = c, breakers = Map.empty, heap = []\<rparr>"

definition registry_get :: "clock \<Rightarrow> string \<Rightarrow> registry \<Rightarrow> nat option \<times> registry" where
  "registry_get clk key r =
     (if \<not> enabled (reg_config r) then (None, r)
      else case breakers r key of
             Some cb \<Rightarrow> (Some cb, r)
           | None \<Rightarrow>
               let cb = length (heap r)
               in (Some cb, r\<lparr>heap := heap r @ [breaker_with_clock clk (reg_config r)],
                              breakers := (breakers r)(key \<mapsto> cb)\<rparr>))"

end
