(* ===== verification/Breaker_Safety.thy ===== *)
theory Breaker_Safety
  imports Circuit_Breaker
begin

text \<open>
  Safety and progress of the circuit breaker when operations do not overlap: the state
  invariant, the observer's log, tripping, shedding, recovery, the probe budget and the lease
  on a lost probe, and the registry.
\<close>

section \<open>Equations\<close>

lemma notify_sel [breaker_simps]:
  "cfg (notify e b) = cfg b" "state_u8 (notify e b) = state_u8 b" "baseline (notify e b) = baseline b"
  "opened_at_millis (notify e b) = opened_at_millis b" "half_open_probes (notify e b) = half_open_probes b"
  "probe_claimed_at_millis (notify e b) = probe_claimed_at_millis b"
  "is_open_fast (notify e b) = is_open_fast b" "window (notify e b) = window b"
  "observer (notify e b) = observer b" "reads (notify e b) = reads b"
  "log (notify e b) = (if observer b = None then log b else log b @ [e])"
  "breaker_state_of (notify e b) = breaker_state_of b"
  by (simp_all add: notify_def breaker_state_of_def split: option.split)

lemma from_to_u8 [simp]: "from_u8 (to_u8 s) = s"
  by (cases s) (simp_all add: from_u8_def)

lemma to_u8_inject [simp]: "to_u8 s = to_u8 t \<longleftrightarrow> s = t"
  by (metis from_to_u8)

declare to_u8.simps [simp del]

lemma state_update [breaker_simps]:
  "breaker_state_of (b\<lparr>state_u8 := v\<rparr>) = from_u8 v"
  "breaker_state_of (b\<lparr>half_open_probes := p\<rparr>) = breaker_state_of b"
  "breaker_state_of (b\<lparr>probe_claimed_at_millis := m\<rparr>) = breaker_state_of b"
  "breaker_state_of (b\<lparr>opened_at_millis := m\<rparr>) = breaker_state_of b"
  "breaker_state_of (b\<lparr>is_open_fast := f\<rparr>) = breaker_state_of b"
  "breaker_state_of (b\<lparr>window := w\<rparr>) = breaker_state_of b"
  "breaker_state_of (b\<lparr>reads := n\<rparr>) = breaker_state_of b"
  by (simp_all add: breaker_state_of_def)

text \<open>The reading the next clock access of \<open>b\<close> returns, in milliseconds since the baseline.\<close>

definition next_millis :: "clock \<Rightarrow> breaker \<Rightarrow> 64 word" where
  "next_millis clk b = millis_since (clk (reads b)) b"

lemma elapsed_millis_eq [breaker_simps]:
  "elapsed_millis clk b = (next_millis clk b, b\<lparr>reads := Suc (reads b)\<rparr>)"
  by (simp add: elapsed_millis_def clock_now_def next_millis_def millis_since_def)

lemma next_millis_cong [breaker_simps]:
  "next_millis clk (b\<lparr>state_u8 := v\<rparr>) = next_millis clk b"
  "next_millis clk (b\<lparr>is_open_fast := f\<rparr>) = next_millis clk b"
  "next_millis clk (notify e b) = next_millis clk b"
  by (simp_all add: next_millis_def millis_since_def breaker_simps)

section \<open>The invariant\<close>

definition breaker_ok :: "breaker \<Rightarrow> bool" where
  "breaker_ok b \<longleftrightarrow>
     state_u8 b = to_u8 (breaker_state_of b)
     \<and> (is_open_fast b \<longleftrightarrow> breaker_state_of b = Open)
     \<and> window_ok (window b)
     \<and> 1 \<le> half_open_max_probes (cfg b)
     \<and> half_open_probes b \<le> half_open_max_probes (cfg b)
     \<and> (breaker_state_of b = HalfOpen \<or> half_open_probes b = 0)"

text \<open>
  Replaying the observer's log: every reported transition starts in the state the previous
  reports left, every admission report falls into \<open>HalfOpen\<close>, every outcome carries the
  current state. \<open>None\<close> is a log that contradicts itself.
\<close>

fun replay :: "breaker_state \<Rightarrow> event list \<Rightarrow> breaker_state option" where
  "replay s [] = Some s"
| "replay s (State_Change old new _ # es) = (if old = s \<and> new \<noteq> s then replay new es else None)"
| "replay s (Probe_Admission _ # es) = (if s = HalfOpen then replay s es else None)"
| "replay s (On_Outcome _ t # es) = (if t = s then replay s es else None)"

lemma replay_append: "replay s (xs @ ys) = Option.bind (replay s xs) (\<lambda>t. replay t ys)"
  by (induction s xs rule: replay.induct) simp_all

text \<open>The log of an installed observer, from the state in which it was installed.\<close>

definition log_ok :: "nat option \<times> breaker_state \<Rightarrow> breaker \<Rightarrow> bool" where
  "log_ok s b \<longleftrightarrow>
     observer b = fst s \<and> (fst s = None \<or> replay (snd s) (log b) = Some (breaker_state_of b))"

text \<open>Both together, as the contract every operation keeps.\<close>

definition breaker_inv :: "nat option \<times> breaker_state \<Rightarrow> breaker \<Rightarrow> bool" where
  "breaker_inv s b \<longleftrightarrow> breaker_ok b \<and> log_ok s b"

lemma word_add_sub [simp]: "(x :: 64 word) + 1 - 1 = x"
  by simp

lemma word_lt_inc_le: "(x :: 64 word) < m \<Longrightarrow> x + 1 \<le> m"
  by (rule inc_le)

lemma probe_inv:
  assumes "breaker_inv s b" "breaker_state_of b = HalfOpen"
  shows "breaker_inv s (snd (try_half_open_probe clk b))"
  using assms word_lt_inc_le [of "half_open_probes b" "half_open_max_probes (cfg b)"]
  by (auto simp: breaker_inv_def breaker_ok_def log_ok_def try_half_open_probe_def Let_def
      breaker_simps replay_append)

lemma check_open_inv:
  assumes "breaker_inv s b" "breaker_state_of b = Open"
  shows "breaker_inv s (snd (check_open clk b))"
proof -
  have won: "cas_state Open HalfOpen b' = (True, b'\<lparr>state_u8 := to_u8 HalfOpen\<rparr>)"
    if "state_u8 b' = state_u8 b" for b'
    using assms that by (simp add: cas_state_def breaker_inv_def breaker_ok_def)
  let ?b = "notify (State_Change Open HalfOpen ''open_elapsed'')
    (b\<lparr>reads := Suc (reads b), state_u8 := to_u8 HalfOpen, is_open_fast := False\<rparr>)"
  have "breaker_inv s ?b" "breaker_state_of ?b = HalfOpen"
    using assms by (auto simp: breaker_inv_def breaker_ok_def log_ok_def breaker_simps replay_append)
  then have "breaker_inv s (snd (try_half_open_probe clk ?b))" by (rule probe_inv)
  then show ?thesis
    using assms by (simp add: check_open_def Let_def breaker_simps won)
      (simp add: breaker_inv_def breaker_ok_def log_ok_def breaker_simps)
qed

lemma check_inv:
  assumes "breaker_inv s b"
  shows "breaker_inv s (snd (check clk b))"
  using assms probe_inv check_open_inv by (simp add: check_def split: breaker_state.split)

lemma trip_inv:
  assumes "breaker_inv s b" "prev = breaker_state_of b" "prev \<noteq> Open"
  shows "breaker_inv s (trip clk prev reason b) \<and> breaker_state_of (trip clk prev reason b) = Open"
  using assms by (auto simp: trip_def Let_def breaker_inv_def breaker_ok_def log_ok_def breaker_simps
      replay_append)

lemma close_inv:
  assumes "breaker_inv s b" "prev = breaker_state_of b" "prev \<noteq> Closed"
  shows "breaker_inv s (close_breaker prev reason b)
    \<and> breaker_state_of (close_breaker prev reason b) = Closed"
  using assms win.clear_ok
  by (auto simp: close_breaker_def Let_def breaker_inv_def breaker_ok_def log_ok_def breaker_simps
      replay_append)

lemma push_and_evict_inv:
  assumes "breaker_inv s b"
  obtains w where "push_and_evict f t b = Some (b\<lparr>window := w\<rparr>)" "breaker_inv s (b\<lparr>window := w\<rparr>)"
    "window_ok w" "entries w = spec_evict (window_duration (cfg b)) t (spec_push f t (entries (window b)))"
proof -
  from assms have "window_ok (window b)" by (simp add: breaker_inv_def breaker_ok_def)
  then obtain w where "Option.bind (window_push f t (window b))
      (window_evict (window_duration (cfg b)) t) = Some w" "window_ok w"
    "entries w = spec_evict (window_duration (cfg b)) t (spec_push f t (entries (window b)))"
    by (rule win.push_evict)
  moreover from this assms have "breaker_inv s (b\<lparr>window := w\<rparr>)"
    by (simp add: breaker_inv_def breaker_ok_def log_ok_def breaker_simps)
  ultimately show thesis using that by (simp add: push_and_evict_def)
qed

lemma reads_inv [breaker_simps]: "breaker_inv s (b\<lparr>reads := n\<rparr>) = breaker_inv s b"
  by (simp add: breaker_inv_def breaker_ok_def log_ok_def breaker_simps)

lemma outcome_inv: "breaker_inv s b \<Longrightarrow> breaker_inv s (notify (On_Outcome oc (breaker_state_of b)) b)"
  by (auto simp: breaker_inv_def breaker_ok_def log_ok_def breaker_simps replay_append)

lemma record_inv:
  assumes "breaker_inv s b"
  shows "\<exists>b'. breaker_record clk oc b = Some b' \<and> breaker_inv s b'"
proof (cases "enabled (cfg b)")
  case True
  let ?b = "b\<lparr>reads := Suc (reads b)\<rparr>" and ?t = "clk (reads b)"
  have inv: "breaker_inv s ?b" using assms by (simp add: breaker_simps)
  obtain w where w: "push_and_evict (oc = Failure) ?t ?b = Some (?b\<lparr>window := w\<rparr>)"
    "breaker_inv s (?b\<lparr>window := w\<rparr>)"
    using inv by (rule push_and_evict_inv)
  show ?thesis
  proof (cases "breaker_state_of b")
    case Closed
    have "breaker_inv s (if should_trip (?b\<lparr>window := w\<rparr>)
        then trip clk Closed ''trip'' (?b\<lparr>window := w\<rparr>) else ?b\<lparr>window := w\<rparr>)"
      using w(2) trip_inv [OF w(2), of Closed] Closed by (simp add: breaker_simps)
    then show ?thesis
      using w(1) Closed outcome_inv
      by (simp add: breaker_record_def True clock_now_def breaker_simps)
  next
    case Open
    then show ?thesis
      using w(1) outcome_inv [OF w(2), of oc]
      by (simp add: breaker_record_def True clock_now_def breaker_simps)
  next
    case HalfOpen
    then have "breaker_inv s (if oc = Failure then trip clk HalfOpen ''probe_failure'' ?b
        else close_breaker HalfOpen ''probe_success'' ?b)"
      using trip_inv [OF inv, of HalfOpen] close_inv [OF inv, of HalfOpen] by (simp add: breaker_simps)
    from outcome_inv [OF this, of oc] HalfOpen show ?thesis
      by (cases oc) (simp_all add: breaker_record_def True clock_now_def breaker_simps Let_def)
  qed
qed (simp add: breaker_record_def assms)

lemma error_rate_inv:
  assumes "breaker_inv s b"
  shows "\<exists>v b'. breaker_error_rate clk b = Some (v, b') \<and> breaker_inv s b'"
proof -
  from assms have "window_ok (window b)" by (simp add: breaker_inv_def breaker_ok_def)
  from win.evict_ok [OF this] assms show ?thesis
    by (fastforce simp: breaker_error_rate_def clock_now_def breaker_inv_def breaker_ok_def log_ok_def
        breaker_simps)
qed

lemma force_half_open_inv: "breaker_inv s b \<Longrightarrow> breaker_inv s (force_half_open b)"
  by (auto simp: force_half_open_def Let_def breaker_inv_def breaker_ok_def log_ok_def breaker_simps
      replay_append)

section \<open>Runs of operations\<close>

datatype breaker_op = Op_Check | Op_Record outcome | Op_Error_Rate | Op_Force_Half_Open

fun breaker_step :: "clock \<Rightarrow> breaker_op \<Rightarrow> breaker \<Rightarrow> breaker option" where
  "breaker_step clk Op_Check b = Some (snd (check clk b))"
| "breaker_step clk (Op_Record oc) b = breaker_record clk oc b"
| "breaker_step clk Op_Error_Rate b = map_option snd (breaker_error_rate clk b)"
| "breaker_step clk Op_Force_Half_Open b = Some (force_half_open b)"

fun breaker_run :: "clock \<Rightarrow> breaker_op list \<Rightarrow> breaker \<Rightarrow> breaker option" where
  "breaker_run clk [] b = Some b"
| "breaker_run clk (op # ops) b = Option.bind (breaker_step clk op b) (breaker_run clk ops)"

lemma step_inv: "breaker_inv s b \<Longrightarrow> \<exists>b'. breaker_step clk op b = Some b' \<and> breaker_inv s b'"
  using check_inv record_inv [of s b clk] error_rate_inv [of s b clk] force_half_open_inv
  by (cases op) fastforce+

lemma run_inv: "breaker_inv s b \<Longrightarrow> \<exists>b'. breaker_run clk ops b = Some b' \<and> breaker_inv s b'"
proof (induction ops arbitrary: b)
  case (Cons op ops)
  with step_inv [OF Cons.prems, of clk op] show ?case by auto
qed simp

lemma new_inv: "breaker_inv (None, Closed) (breaker_with_clock clk c)"
  using win.new_ok
  by (simp add: breaker_with_clock_def breaker_inv_def breaker_ok_def log_ok_def breaker_state_of_def)

lemma observed_inv: "breaker_inv (Some ob, Closed) (with_observer ob (breaker_with_clock clk c))"
  using new_inv [of clk c]
  by (simp add: with_observer_def breaker_with_clock_def breaker_inv_def breaker_ok_def log_ok_def
      breaker_state_of_def)

section \<open>A worked example\<close>

text \<open>A clock that advances one second per reading, and a breaker that trips at once for two seconds.\<close>

definition tick :: clock where
  "tick n = int n * 1000000000"

definition sample_cfg :: breaker_config where
  "sample_cfg = config_server\<lparr>min_samples := 1, open_duration := from_secs 2\<rparr>"

definition sample_run :: "breaker_op list \<Rightarrow> breaker" where
  "sample_run ops = the (breaker_run tick ops (breaker_with_clock tick sample_cfg))"

lemma sample_run_inv: "breaker_inv (None, Closed) (sample_run ops)"
  using run_inv [OF new_inv [of tick sample_cfg], of tick ops] by (auto simp: sample_run_def)

lemma div_1_1: "f64_div_nat (Suc 0) (Suc 0) = Finite 1"
  by (simp add: f64_div_nat_def round_pos_def Let_def rat_log2_def rat_exp2_def round_half_even_def
      bitlen_def)

lemmas sample_simps =
  sample_run_def breaker_with_clock_def sample_cfg_def config_server_def breaker_record_def clock_now_def
  breaker_state_of_def from_u8_def to_u8.simps push_and_evict_def window_push_def window_new_def
  window_evict_def checked_sub_def tick_def evict_loop.simps MAX_WINDOW_ENTRIES_def should_trip_def
  window_sample_count_def window_error_rate_def f64_div_nat_def [of 0] div_1_1 notify_def from_secs_def
  trip_def Let_def elapsed_millis_def millis_since_def as_millis_u64_def saturating_duration_since_def
  from_millis_def check_def check_open_def try_half_open_probe_def cas_state_def saturating_sub_u64_def
  force_half_open_def next_millis_def

section \<open>Properties\<close>

text \<open>
  C4. A circuit breaker stays consistent: every sequence of operations on a new breaker runs
  without an underflow of the window's counter and ends in a state where the stored state
  is one of the three, the lock-free mirror agrees with it, no more probe slots are in use
  than configured and none outside \<open>HalfOpen\<close>, and the window's counter and bound hold.
\<close>

theorem breaker_run_safe:
  "\<exists>b. breaker_run clk ops (breaker_with_clock clk c) = Some b \<and> breaker_ok b"
  using run_inv [OF new_inv, of clk ops] unfolding breaker_inv_def by blast

text \<open>
  The observer is told a consistent story: replaying the callbacks of any run, each
  reported transition starts in the state the previous ones led to and changes it, each probe
  admission is reported in \<open>HalfOpen\<close>, each outcome is reported with the then current state,
  and the replay ends in the breaker's state.
\<close>

theorem observer_log_consistent:
  "\<exists>b. breaker_run clk ops (with_observer ob (breaker_with_clock clk c)) = Some b
     \<and> replay Closed (log b) = Some (breaker_state_of b)"
  using run_inv [OF observed_inv, of clk ops ob] unfolding breaker_inv_def log_ok_def by auto

text \<open>
  Tripping from \<open>Closed\<close>: recording an outcome opens the breaker exactly when, over the
  samples that are then live (the new one included), there are at least \<open>min_samples\<close> and,
  with the presets' threshold of one half, at least half of them are failures.
\<close>

theorem closed_trips_iff:
  assumes "breaker_inv s b" "enabled (cfg b)" "breaker_state_of b = Closed"
    and "error_rate_threshold (cfg b) = Finite (1 / 2)" "1 \<le> min_samples (cfg b)"
    and "live = spec_evict (window_duration (cfg b)) (clk (reads b))
      (spec_push (oc = Failure) (clk (reads b)) (entries (window b)))"
  shows "\<exists>b'. breaker_record clk oc b = Some b' \<and>
    (breaker_state_of b' = (if min_samples (cfg b) \<le> length live
       \<and> length live \<le> 2 * length (filter snd live) then Open else Closed))"
proof -
  let ?b = "b\<lparr>reads := Suc (reads b)\<rparr>"
  have inv: "breaker_inv s ?b" using assms(1) by (simp add: breaker_simps)
  obtain w where w: "push_and_evict (oc = Failure) (clk (reads b)) ?b = Some (?b\<lparr>window := w\<rparr>)"
    "breaker_inv s (?b\<lparr>window := w\<rparr>)" "window_ok w" "entries w = live"
    using inv assms(6) by (auto elim: push_and_evict_inv [of s ?b "oc = Failure" "clk (reads b)"])
  have "should_trip (?b\<lparr>window := w\<rparr>) \<longleftrightarrow>
      min_samples (cfg b) \<le> length live \<and> length live \<le> 2 * length (filter snd live)"
    using rate_half [OF w(3)] assms(4,5) w(4)
    by (auto simp: should_trip_def window_sample_count_def)
  then show ?thesis
    using w(1) assms(2,3) trip_inv [OF w(2), of Closed clk "''trip''"]
    by (simp add: breaker_record_def clock_now_def breaker_simps)
qed

theorem closed_trips_iff_witness:
  "\<exists>b'. breaker_record tick Failure (sample_run [Op_Record Success]) = Some b' \<and> breaker_state_of b' = Open"
proof -
  let ?b = "sample_run [Op_Record Success]"
  have live: "spec_evict (window_duration (cfg ?b)) (tick (reads ?b))
      (spec_push (Failure = Failure) (tick (reads ?b)) (entries (window ?b))) =
      [(1000000000, False), (2000000000, True)]"
    by (simp add: sample_simps spec_evict_def spec_push_def)
  have pre: "enabled (cfg ?b)" "breaker_state_of ?b = Closed"
    "error_rate_threshold (cfg ?b) = Finite (1 / 2)" "min_samples (cfg ?b) = 1"
    by (simp_all add: sample_simps)
  show ?thesis
    using closed_trips_iff [where b = ?b and clk = tick and oc = Failure,
        OF sample_run_inv pre(1,2,3) _ live [symmetric]] pre(4) by simp
qed

text \<open>
  Shedding and recovery: an enabled open breaker refuses every request until its
  \<open>open_duration\<close> has passed, answering exactly the time that is left (positive and at most
  the cool-down) and staying open; the first request after that is admitted as a probe and
  moves the breaker to \<open>HalfOpen\<close>.
\<close>

theorem open_sheds_then_probes:
  assumes "breaker_inv s b" "enabled (cfg b)" "breaker_state_of b = Open"
    and "elapsed = from_millis (unat (next_millis clk b) - unat (opened_at_millis b))"
  shows "if elapsed < open_duration (cfg b)
    then fst (check clk b) = Inl (open_duration (cfg b) - elapsed)
      \<and> breaker_state_of (snd (check clk b)) = Open
    else fst (check clk b) = Inr () \<and> breaker_state_of (snd (check clk b)) = HalfOpen
      \<and> half_open_probes (snd (check clk b)) = 1"
proof -
  have "half_open_probes b = 0" "1 \<le> half_open_max_probes (cfg b)" "state_u8 b = to_u8 Open"
    using assms(1,3) by (auto simp: breaker_inv_def breaker_ok_def)
  moreover from this have "0 < half_open_max_probes (cfg b)" by (simp add: word_less_nat_alt word_le_nat_alt)
  ultimately show ?thesis
    using assms(2-4)
    by (simp add: check_def check_open_def try_half_open_probe_def cas_state_def Let_def breaker_simps
        unat_saturating_sub not_less not_le)
qed

theorem open_sheds_then_probes_witness:
  "fst (check tick (sample_run [Op_Record Failure])) = Inl (from_secs 1)"
proof -
  let ?b = "sample_run [Op_Record Failure]"
  have pre: "enabled (cfg ?b)" "breaker_state_of ?b = Open"
    "from_secs 1 = from_millis (unat (next_millis tick ?b) - unat (opened_at_millis ?b))"
    "open_duration (cfg ?b) = from_secs 2"
    by (simp_all add: sample_simps)
  show ?thesis
    using open_sheds_then_probes [OF sample_run_inv pre(1,2,3)] pre(4) by (simp add: from_secs_def)
qed

text \<open>
  A probe decides: in \<open>HalfOpen\<close> a recorded success closes the breaker with an empty
  window, a recorded failure re-opens it and starts a new cool-down from the clock reading
  taken there; either way all probe slots are free again.
\<close>

theorem probe_outcome_decides:
  assumes "breaker_inv s b" "enabled (cfg b)" "breaker_state_of b = HalfOpen"
  shows "(\<exists>b'. breaker_record clk Success b = Some b' \<and> breaker_state_of b' = Closed
      \<and> entries (window b') = [] \<and> half_open_probes b' = 0)
    \<and> (\<exists>b'. breaker_record clk Failure b = Some b' \<and> breaker_state_of b' = Open
      \<and> opened_at_millis b' = millis_since (clk (Suc (reads b))) b \<and> half_open_probes b' = 0)"
  using assms(2,3)
  by (simp add: breaker_record_def clock_now_def close_breaker_def trip_def Let_def breaker_simps
      window_clear_def next_millis_def millis_since_def)

theorem probe_outcome_decides_witness:
  "\<exists>b'. breaker_record tick Success (sample_run [Op_Record Failure, Op_Check, Op_Check]) = Some b'
     \<and> breaker_state_of b' = Closed"
proof -
  let ?b = "sample_run [Op_Record Failure, Op_Check, Op_Check]"
  have pre: "enabled (cfg ?b)" "breaker_state_of ?b = HalfOpen" by (simp_all add: sample_simps)
  show ?thesis using probe_outcome_decides [OF sample_run_inv pre, of tick] by blast
qed

text \<open>
  A lost probe cannot lock the breaker out: in \<open>HalfOpen\<close>, once the lease on the latest
  claim (one \<open>open_duration\<close>) has run out, the next request is admitted even when every probe
  slot is taken, and it renews the lease.
\<close>

theorem lost_probe_reclaimed:
  assumes "enabled (cfg b)" "breaker_state_of b = HalfOpen"
    and "unat (as_millis_u64 (open_duration (cfg b))) \<le>
      unat (next_millis clk b) - unat (probe_claimed_at_millis b)"
  shows "fst (check clk b) = Inr ()
    \<and> probe_claimed_at_millis (snd (check clk b)) = next_millis clk b"
  using assms by (simp add: check_def try_half_open_probe_def Let_def breaker_simps word_le_nat_alt
      unat_saturating_sub)

theorem lost_probe_reclaimed_witness:
  "fst (check tick (sample_run [Op_Record Failure, Op_Check, Op_Check, Op_Check])) = Inr ()"
proof -
  let ?b = "sample_run [Op_Record Failure, Op_Check, Op_Check, Op_Check]"
  have pre: "enabled (cfg ?b)" "breaker_state_of ?b = HalfOpen"
    "unat (as_millis_u64 (open_duration (cfg ?b))) \<le>
      unat (next_millis tick ?b) - unat (probe_claimed_at_millis ?b)"
    by (simp_all add: sample_simps)
  show ?thesis using lost_probe_reclaimed [OF pre] by blast
qed

fun check_many :: "clock \<Rightarrow> nat \<Rightarrow> breaker \<Rightarrow> admission list \<times> breaker" where
  "check_many clk 0 b = ([], b)"
| "check_many clk (Suc n) b =
     (let (r, b') = check clk b; (rs, b'') = check_many clk n b' in (r # rs, b''))"

lemma half_open_check:
  assumes "enabled (cfg b)" "breaker_state_of b = HalfOpen"
    and "unat (next_millis clk b) - unat (probe_claimed_at_millis b)
      < unat (as_millis_u64 (open_duration (cfg b)))"
  shows "half_open_probes b < half_open_max_probes (cfg b) \<Longrightarrow> fst (check clk b) = Inr ()
      \<and> half_open_probes (snd (check clk b)) = half_open_probes b + 1
      \<and> probe_claimed_at_millis (snd (check clk b)) = next_millis clk b"
    and "\<not> half_open_probes b < half_open_max_probes (cfg b) \<Longrightarrow> fst (check clk b) \<noteq> Inr ()
      \<and> half_open_probes (snd (check clk b)) = half_open_probes b
      \<and> probe_claimed_at_millis (snd (check clk b)) = probe_claimed_at_millis b"
    and "cfg (snd (check clk b)) = cfg b \<and> breaker_state_of (snd (check clk b)) = HalfOpen
      \<and> reads (snd (check clk b)) = Suc (reads b) \<and> baseline (snd (check clk b)) = baseline b"
  using assms by (auto simp: check_def try_half_open_probe_def Let_def breaker_simps word_le_nat_alt
      unat_saturating_sub)

lemma unat_inc: "(x :: 64 word) < m \<Longrightarrow> unat (x + 1) = Suc (unat x)"
proof -
  assume "x < m"
  moreover have "unat m < 2 ^ 64" using unsigned_less [of m] by simp
  ultimately show ?thesis by (simp add: unat_word_ariths word_less_nat_alt)
qed

lemma check_many_admits:
  assumes "enabled (cfg b)" "breaker_state_of b = HalfOpen"
    and "lease = unat (as_millis_u64 (open_duration (cfg b)))"
    and "unat (probe_claimed_at_millis b) \<in> {lo..<lo + lease}"
    and "\<And>i. i < n \<Longrightarrow> unat (millis_since (clk (reads b + i)) b) \<in> {lo..<lo + lease}"
  shows "length (filter (\<lambda>r. r = Inr ()) (fst (check_many clk n b))) =
    min n (unat (half_open_max_probes (cfg b)) - unat (half_open_probes b))"
  using assms
proof (induction n arbitrary: b)
  case (Suc n)
  define b' where "b' = snd (check clk b)"
  have now: "unat (next_millis clk b) \<in> {lo..<lo + lease}"
    using Suc.prems(5) [of 0] by (simp add: next_millis_def)
  with Suc.prems(3,4) have "unat (next_millis clk b) - unat (probe_claimed_at_millis b)
      < unat (as_millis_u64 (open_duration (cfg b)))" by auto
  note step = half_open_check [OF Suc.prems(1,2) this, folded b'_def]
  have same: "cfg b' = cfg b" "breaker_state_of b' = HalfOpen" "reads b' = Suc (reads b)"
    "baseline b' = baseline b" using step(3) by simp_all
  have claim: "unat (probe_claimed_at_millis b') \<in> {lo..<lo + lease}"
    using step(1,2) now Suc.prems(4) by (cases "half_open_probes b < half_open_max_probes (cfg b)") simp_all
  have "length (filter (\<lambda>r. r = Inr ()) (fst (check_many clk n b'))) =
      min n (unat (half_open_max_probes (cfg b')) - unat (half_open_probes b'))"
  proof (rule Suc.IH)
    show "unat (millis_since (clk (reads b' + i)) b') \<in> {lo..<lo + lease}" if "i < n" for i
      using Suc.prems(5) [of "Suc i"] that by (simp add: same millis_since_def)
  qed (use same claim Suc.prems in simp_all)
  moreover have "fst (check_many clk (Suc n) b) = fst (check clk b) # fst (check_many clk n b')"
    by (simp add: b'_def split: prod.split)
  ultimately show ?case
    using step(1,2) same unat_inc [of "half_open_probes b" "half_open_max_probes (cfg b)"]
    by (cases "half_open_probes b < half_open_max_probes (cfg b)") (auto simp: word_less_nat_alt not_less)
qed simp

text \<open>
  The probe budget: in \<open>HalfOpen\<close>, as long as nothing is recorded and the clock stays
  within one lease, exactly the free probe slots are handed out, however many requests ask.
\<close>

theorem probe_budget:
  assumes "enabled (cfg b)" "breaker_state_of b = HalfOpen"
    and "lease = unat (as_millis_u64 (open_duration (cfg b)))"
    and "unat (probe_claimed_at_millis b) \<in> {lo..<lo + lease}"
    and "\<And>i. i < n \<Longrightarrow> unat (millis_since (clk (reads b + i)) b) \<in> {lo..<lo + lease}"
  shows "length (filter (\<lambda>r. r = Inr ()) (fst (check_many clk n b))) =
    min n (unat (half_open_max_probes (cfg b)) - unat (half_open_probes b))"
  using assms by (rule check_many_admits)

section \<open>The registry\<close>

definition registry_ok :: "registry \<Rightarrow> bool" where
  "registry_ok r \<longleftrightarrow> inj_on (breakers r) (dom (breakers r)) \<and>
     (\<forall>k cb. breakers r k = Some cb \<longrightarrow> cb < length (heap r))"

theorem probe_budget_witness:
  "length (filter (\<lambda>r. r = Inr ()) (fst (check_many tick 1 (sample_run [Op_Force_Half_Open])))) = 1"
proof -
  let ?b = "sample_run [Op_Force_Half_Open]"
  have pre: "enabled (cfg ?b)" "breaker_state_of ?b = HalfOpen"
    "2000 = unat (as_millis_u64 (open_duration (cfg ?b)))"
    "unat (probe_claimed_at_millis ?b) = 0"
    "unat (millis_since (tick (reads ?b)) ?b) = 1000"
    "half_open_max_probes (cfg ?b) = 1" "half_open_probes ?b = 0"
    by (simp_all add: sample_simps)
  show ?thesis
    using probe_budget [OF pre(1,2,3), of 0 1 tick] pre(4-7) by simp
qed

fun get_all :: "clock \<Rightarrow> string list \<Rightarrow> registry \<Rightarrow> nat option list \<times> registry" where
  "get_all clk [] r = ([], r)"
| "get_all clk (k # ks) r =
     (let (cb, r') = registry_get clk k r; (cbs, r'') = get_all clk ks r' in (cb # cbs, r''))"

lemma registry_get_facts:
  assumes "enabled (reg_config r)" "registry_ok r"
  shows "registry_ok (snd (registry_get clk k r))
    \<and> breakers (snd (registry_get clk k r)) k = fst (registry_get clk k r)
    \<and> fst (registry_get clk k r) \<noteq> None
    \<and> breakers r \<subseteq>\<^sub>m breakers (snd (registry_get clk k r))
    \<and> reg_config (snd (registry_get clk k r)) = reg_config r"
  using assms
  by (auto simp: registry_get_def registry_ok_def Let_def inj_on_def map_le_def dom_def split: option.split)
    (metis less_irrefl less_SucI)+

lemma get_all_facts:
  assumes "enabled (reg_config r)" "registry_ok r"
  shows "registry_ok (snd (get_all clk ks r)) \<and> breakers r \<subseteq>\<^sub>m breakers (snd (get_all clk ks r))
    \<and> fst (get_all clk ks r) = map (breakers (snd (get_all clk ks r))) ks
    \<and> set ks \<subseteq> dom (breakers (snd (get_all clk ks r)))"
  using assms
proof (induction ks arbitrary: r)
  case (Cons k ks)
  define r' where "r' = snd (registry_get clk k r)"
  note f = registry_get_facts [OF Cons.prems, of clk k, folded r'_def]
  have ih: "registry_ok (snd (get_all clk ks r'))" "breakers r' \<subseteq>\<^sub>m breakers (snd (get_all clk ks r'))"
    "fst (get_all clk ks r') = map (breakers (snd (get_all clk ks r'))) ks"
    "set ks \<subseteq> dom (breakers (snd (get_all clk ks r')))"
    using Cons.IH [of r'] f Cons.prems by simp_all
  have eq: "get_all clk (k # ks) r = (fst (registry_get clk k r) # fst (get_all clk ks r'), snd (get_all clk ks r'))"
    by (simp add: r'_def split: prod.split)
  have "breakers (snd (get_all clk ks r')) k = fst (registry_get clk k r)"
    using ih(2) f by (metis domIff map_le_def)
  with ih f show ?case unfolding eq by (auto intro: map_le_trans)
qed simp

text \<open>
  The registry keeps one breaker per key: over any sequence of look-ups on a new enabled
  registry, two look-ups answer the same breaker exactly when they ask for the same key.
\<close>

theorem registry_one_per_key:
  assumes "enabled c" "i < length ks" "j < length ks"
  shows "fst (get_all clk ks (registry_new c)) ! i = fst (get_all clk ks (registry_new c)) ! j
    \<longleftrightarrow> ks ! i = ks ! j"
proof -
  let ?r = "snd (get_all clk ks (registry_new c))"
  have "registry_ok (registry_new c)" by (simp add: registry_ok_def registry_new_def)
  with assms(1) get_all_facts [of "registry_new c" clk ks]
  have f: "registry_ok ?r" "fst (get_all clk ks (registry_new c)) = map (breakers ?r) ks"
    "set ks \<subseteq> dom (breakers ?r)"
    by (simp_all add: registry_new_def)
  have "ks ! i \<in> dom (breakers ?r)" "ks ! j \<in> dom (breakers ?r)"
    using assms(2,3) f(3) nth_mem by blast+
  with f(1) have "breakers ?r (ks ! i) = breakers ?r (ks ! j) \<longleftrightarrow> ks ! i = ks ! j"
    unfolding registry_ok_def by (metis inj_onD)
  then show ?thesis using assms by (simp add: f(2))
qed

theorem registry_one_per_key_witness:
  "fst (get_all tick [''a'', ''b'', ''a''] (registry_new config_client)) ! 0 =
   fst (get_all tick [''a'', ''b'', ''a''] (registry_new config_client)) ! 2"
proof -
  have "enabled config_client" by (simp add: config_client_def)
  then show ?thesis
    using registry_one_per_key [of config_client 0 "[''a'', ''b'', ''a'']" 2 tick] by simp
qed

end
