(* ===== verification/Breaker_Threads.thy ===== *)
theory Breaker_Threads
  imports Breaker_Safety
begin

text \<open>
  The circuit breaker shared by several threads (\<open>breaker.rs\<close>): every atomic load, store,
  compare-exchange and fetch-and-add of \<open>check\<close>, \<open>record\<close> and \<open>error_rate\<close> is a step of its own, the
  sections under the window's mutex are one step, and a clock reading is a step. A thread's
  program counter holds the locals that are still live. Memory accesses are interleaved in
  one total order.
\<close>

section \<open>Program counters and steps\<close>

datatype pc =
    Idle | Admitted | Refused duration | Recorded | Rated f64
  | At_check
  | At_open_load | At_open_clock "64 word" | At_open_cas | At_open_mirror | At_open_notify
  | At_lost_state | At_lost_load | At_lost_clock "64 word"
  | At_probe_clock | At_probe_add "64 word" | At_probe_claim "64 word" | At_probe_admit
  | At_probe_sub "64 word" | At_lease_load "64 word" | At_lease_cas "64 word" "64 word"
  | At_probe_refuse
  | At_record outcome | At_record_state outcome instant | At_record_window outcome instant breaker_state
  | At_trip outcome breaker_state string | At_trip_clock outcome breaker_state string
  | At_trip_opened outcome breaker_state string "64 word" | At_trip_probes outcome breaker_state string
  | At_trip_mirror outcome breaker_state string | At_trip_notify outcome breaker_state string
  | At_close outcome breaker_state string | At_close_window outcome breaker_state string
  | At_close_probes outcome breaker_state string | At_close_mirror outcome breaker_state string
  | At_close_notify outcome breaker_state string
  | At_outcome outcome
  | At_rate | At_rate_window instant

fun finished :: "pc \<Rightarrow> bool" where
  "finished Idle = True"
| "finished Admitted = True"
| "finished (Refused d) = True"
| "finished Recorded = True"
| "finished (Rated rate) = True"
| "finished _ = False"

text \<open>Where \<open>check\<close> goes after loading the state.\<close>

fun dispatch :: "breaker_state \<Rightarrow> pc" where
  "dispatch Closed = Admitted"
| "dispatch Open = At_open_load"
| "dispatch HalfOpen = At_probe_clock"

fun dispatch_lost :: "breaker_state \<Rightarrow> pc" where
  "dispatch_lost Closed = Admitted"
| "dispatch_lost Open = At_lost_load"
| "dispatch_lost HalfOpen = At_probe_clock"

fun check_step :: "clock \<Rightarrow> pc \<Rightarrow> breaker \<Rightarrow> pc \<times> breaker" where
  "check_step clk At_check b =
     (if \<not> enabled (cfg b) then (Admitted, b) else (dispatch (breaker_state_of b), b))"
| "check_step clk At_open_load b = (At_open_clock (opened_at_millis b), b)"
| "check_step clk (At_open_clock opened) b =
     (let (now, b) = elapsed_millis clk b;
          elapsed = from_millis (unat (saturating_sub_u64 now opened))
      in if elapsed \<ge> open_duration (cfg b) then (At_open_cas, b)
         else (Refused (open_duration (cfg b) - elapsed), b))"
| "check_step clk At_open_cas b =
     (let (won, b) = cas_state Open HalfOpen b in (if won then At_open_mirror else At_lost_state, b))"
| "check_step clk At_open_mirror b = (At_open_notify, b\<lparr>is_open_fast := False\<rparr>)"
| "check_step clk At_open_notify b =
     (At_probe_clock, notify (State_Change Open HalfOpen ''open_elapsed'') b)"
| "check_step clk At_lost_state b = (dispatch_lost (breaker_state_of b), b)"
| "check_step clk At_lost_load b = (At_lost_clock (opened_at_millis b), b)"
| "check_step clk (At_lost_clock opened) b =
     (let (now, b) = elapsed_millis clk b;
          elapsed = from_millis (unat (saturating_sub_u64 now opened))
      in (Refused (open_duration (cfg b) - elapsed), b))"
| "check_step clk At_probe_clock b = (let (now, b) = elapsed_millis clk b in (At_probe_add now, b))"
| "check_step clk (At_probe_add now) b =
     (let prev = half_open_probes b; b = b\<lparr>half_open_probes := prev + 1\<rparr>
      in (if prev < half_open_max_probes (cfg b) then At_probe_claim now else At_probe_sub now, b))"
| "check_step clk (At_probe_claim now) b = (At_probe_admit, b\<lparr>probe_claimed_at_millis := now\<rparr>)"
| "check_step clk At_probe_admit b = (Admitted, notify (Probe_Admission True) b)"
| "check_step clk (At_probe_sub now) b =
     (At_lease_load now, b\<lparr>half_open_probes := half_open_probes b - 1\<rparr>)"
| "check_step clk (At_lease_load now) b =
     (let claimed = probe_claimed_at_millis b
      in (if saturating_sub_u64 now claimed \<ge> as_millis_u64 (open_duration (cfg b))
          then At_lease_cas now claimed else At_probe_refuse, b))"
| "check_step clk (At_lease_cas now claimed) b =
     (if probe_claimed_at_millis b = claimed
      then (At_probe_admit, b\<lparr>probe_claimed_at_millis := now\<rparr>) else (At_probe_refuse, b))"
| "check_step clk At_probe_refuse b =
     (Refused (min HALF_OPEN_PROBE_BACKOFF (open_duration (cfg b))), notify (Probe_Admission False) b)"
| "check_step clk p b = (p, b)"

text \<open>\<open>None\<close> is the underflow of the window's counter.\<close>

definition rate_window :: "instant \<Rightarrow> breaker \<Rightarrow> (pc \<times> breaker) option" where
  "rate_window now b =
     map_option (\<lambda>w. (Rated (window_error_rate w), b\<lparr>window := w\<rparr>))
       (window_evict (window_duration (cfg b)) now (window b))"

fun thread_step :: "clock \<Rightarrow> pc \<Rightarrow> breaker \<Rightarrow> (pc \<times> breaker) option" where
  "thread_step clk (At_record oc) b =
     (if \<not> enabled (cfg b) then Some (Recorded, b)
      else let (now, b) = clock_now clk b in Some (At_record_state oc now, b))"
| "thread_step clk (At_record_state oc now) b =
     Some (case breaker_state_of b of
             HalfOpen \<Rightarrow> (if oc = Failure then At_trip oc HalfOpen ''probe_failure''
                          else At_close oc HalfOpen ''probe_success'')
           | s \<Rightarrow> At_record_window oc now s, b)"
| "thread_step clk (At_record_window oc now prev) b =
     map_option (\<lambda>b. (if prev = Closed \<and> should_trip b then At_trip oc prev ''trip'' else At_outcome oc, b))
       (push_and_evict (oc = Failure) now b)"
| "thread_step clk (At_trip oc prev reason) b =
     Some (At_trip_clock oc prev reason, b\<lparr>state_u8 := to_u8 Open\<rparr>)"
| "thread_step clk (At_trip_clock oc prev reason) b =
     (let (now, b) = elapsed_millis clk b in Some (At_trip_opened oc prev reason now, b))"
| "thread_step clk (At_trip_opened oc prev reason now) b =
     Some (At_trip_probes oc prev reason, b\<lparr>opened_at_millis := now\<rparr>)"
| "thread_step clk (At_trip_probes oc prev reason) b =
     Some (At_trip_mirror oc prev reason, b\<lparr>half_open_probes := 0\<rparr>)"
| "thread_step clk (At_trip_mirror oc prev reason) b =
     Some (At_trip_notify oc prev reason, b\<lparr>is_open_fast := True\<rparr>)"
| "thread_step clk (At_trip_notify oc prev reason) b =
     Some (At_outcome oc, if prev \<noteq> Open then notify (State_Change prev Open reason) b else b)"
| "thread_step clk (At_close oc prev reason) b =
     Some (At_close_window oc prev reason, b\<lparr>state_u8 := to_u8 Closed\<rparr>)"
| "thread_step clk (At_close_window oc prev reason) b =
     Some (At_close_probes oc prev reason, b\<lparr>window := window_clear (window b)\<rparr>)"
| "thread_step clk (At_close_probes oc prev reason) b =
     Some (At_close_mirror oc prev reason, b\<lparr>half_open_probes := 0\<rparr>)"
| "thread_step clk (At_close_mirror oc prev reason) b =
     Some (At_close_notify oc prev reason, b\<lparr>is_open_fast := False\<rparr>)"
| "thread_step clk (At_close_notify oc prev reason) b =
     Some (At_outcome oc, if prev \<noteq> Closed then notify (State_Change prev Closed reason) b else b)"
| "thread_step clk (At_outcome oc) b =
     Some (Recorded, notify (On_Outcome oc (breaker_state_of b)) b)"
| "thread_step clk At_rate b = (let (now, b) = clock_now clk b in Some (At_rate_window now, b))"
| "thread_step clk (At_rate_window now) b = rate_window now b"
| "thread_step clk p b = Some (check_step clk p b)"

section \<open>One thread alone\<close>

text \<open>Run a thread until it has finished, for at most \<open>n\<close> steps.\<close>

fun run_alone :: "clock \<Rightarrow> nat \<Rightarrow> pc \<Rightarrow> breaker \<Rightarrow> (pc \<times> breaker) option" where
  "run_alone clk 0 p b = Some (p, b)"
| "run_alone clk (Suc n) p b =
     (if finished p then Some (p, b)
      else case thread_step clk p b of None \<Rightarrow> None | Some (p', b') \<Rightarrow> run_alone clk n p' b')"

fun admission_pc :: "admission \<Rightarrow> pc" where
  "admission_pc (Inr _) = Admitted"
| "admission_pc (Inl d) = Refused d"

lemma run_alone_finished: "finished p \<Longrightarrow> run_alone clk n p b = Some (p, b)"
  by (cases n) simp_all

lemma probe_alone:
  "run_alone clk (Suc (Suc (Suc (Suc (Suc (Suc n)))))) At_probe_clock b =
     Some (admission_pc (fst (try_half_open_probe clk b)), snd (try_half_open_probe clk b))"
  by (simp add: try_half_open_probe_def Let_def run_alone_finished breaker_simps)

lemma open_cas: "breaker_state_of b = Open \<Longrightarrow> state_u8 b = to_u8 Open"
  by (auto simp: breaker_state_of_def from_u8_def to_u8.simps split: if_splits)

lemmas alone_open =
  run_alone.simps(2) [of _ _ At_check] run_alone.simps(2) [of _ _ At_open_load]
  run_alone.simps(2) [of _ _ "At_open_clock opened" for opened] run_alone.simps(2) [of _ _ At_open_cas]
  run_alone.simps(2) [of _ _ At_open_mirror] run_alone.simps(2) [of _ _ At_open_notify]

lemma check_alone:
  "run_alone clk 12 At_check b = Some (admission_pc (fst (check clk b)), snd (check clk b))"
  using open_cas [of b]
  by (cases "breaker_state_of b")
    (simp_all add: eval_nat_numeral check_def check_open_def cas_state_def Let_def run_alone_finished
      alone_open probe_alone breaker_simps del: run_alone.simps(2))

lemma record_alone:
  "run_alone clk 10 (At_record oc) b = map_option (Pair Recorded) (breaker_record clk oc b)"
proof (cases "push_and_evict (oc = Failure) (clk (reads b)) (b\<lparr>reads := Suc (reads b)\<rparr>)")
  case None
  then show ?thesis
    by (cases "breaker_state_of b")
      (auto simp: eval_nat_numeral breaker_record_def clock_now_def Let_def run_alone_finished
        trip_def close_breaker_def breaker_simps)
next
  case (Some b')
  then show ?thesis
    by (cases "breaker_state_of b")
      (auto simp: eval_nat_numeral breaker_record_def clock_now_def Let_def run_alone_finished
        trip_def close_breaker_def breaker_simps)
qed

section \<open>Interleavings\<close>

type_synonym system = "(nat \<Rightarrow> pc) \<times> breaker"

text \<open>
  A finished thread may start a \<open>check\<close>, a \<open>record\<close> or an \<open>error_rate\<close> (a caller that was admitted and is
  cancelled simply never records); any other thread may take its next step.
\<close>

inductive sys_step :: "clock \<Rightarrow> system \<Rightarrow> system \<Rightarrow> bool" for clk where
  start_check: "finished (ts i) \<Longrightarrow> sys_step clk (ts, b) (ts(i := At_check), b)"
| start_record: "finished (ts i) \<Longrightarrow> sys_step clk (ts, b) (ts(i := At_record oc), b)"
| start_rate: "finished (ts i) \<Longrightarrow> sys_step clk (ts, b) (ts(i := At_rate), b)"
| advance: "\<not> finished (ts i) \<Longrightarrow> thread_step clk (ts i) b = Some (p, b') \<Longrightarrow>
    sys_step clk (ts, b) (ts(i := p), b')"

inductive_cases sys_stepE: "sys_step clk (ts, b) c"

inductive sys_reachable :: "clock \<Rightarrow> breaker_config \<Rightarrow> system \<Rightarrow> bool" for clk c where
  sys_init: "sys_reachable clk c (\<lambda>_. Idle, breaker_with_clock clk c)"
| sys_next: "sys_reachable clk c s \<Longrightarrow> sys_step clk s s' \<Longrightarrow> sys_reachable clk c s'"

text \<open>What holds of the shared memory however threads interleave.\<close>

definition shared_ok :: "breaker \<Rightarrow> bool" where
  "shared_ok b \<longleftrightarrow> state_u8 b \<in> {0, 1, 2} \<and> window_ok (window b)"

lemma push_and_evict_shared:
  assumes "shared_ok b"
  shows "\<exists>w. push_and_evict f t b = Some (b\<lparr>window := w\<rparr>) \<and> shared_ok (b\<lparr>window := w\<rparr>)"
proof -
  from assms have "window_ok (window b)" by (simp add: shared_ok_def)
  then obtain w where "Option.bind (window_push f t (window b))
      (window_evict (window_duration (cfg b)) t) = Some w" "window_ok w"
    by (rule win.push_evict)
  with assms show ?thesis by (auto simp: push_and_evict_def shared_ok_def)
qed

lemma rate_window_shared:
  assumes "shared_ok b"
  shows "\<exists>r. rate_window now b = Some r \<and> shared_ok (snd r)"
  using win.evict_ok [of "window b" "window_duration (cfg b)" now] assms
  by (auto simp: rate_window_def shared_ok_def)

lemma shared_update [breaker_simps]:
  "shared_ok (b\<lparr>half_open_probes := n\<rparr>) = shared_ok b"
  "shared_ok (b\<lparr>probe_claimed_at_millis := m\<rparr>) = shared_ok b"
  "shared_ok (b\<lparr>opened_at_millis := m\<rparr>) = shared_ok b"
  "shared_ok (b\<lparr>is_open_fast := f\<rparr>) = shared_ok b"
  "shared_ok (b\<lparr>reads := k\<rparr>) = shared_ok b"
  "shared_ok (notify e b) = shared_ok b"
  "shared_ok b \<Longrightarrow> shared_ok (b\<lparr>state_u8 := to_u8 s\<rparr>)"
  "shared_ok b \<Longrightarrow> shared_ok (b\<lparr>window := window_clear w\<rparr>)"
  using win.clear_ok
  by (cases s; simp add: shared_ok_def breaker_simps to_u8.simps)+

lemma check_step_shared: "shared_ok b \<Longrightarrow> shared_ok (snd (check_step clk p b))"
  by (cases p) (simp_all add: Let_def breaker_simps cas_state_def)

lemma thread_step_shared:
  assumes "shared_ok b"
  shows "\<exists>r. thread_step clk p b = Some r \<and> shared_ok (snd r)"
proof (cases "\<exists>oc now prev. p = At_record_window oc now prev")
  case True
  then obtain oc now prev where "p = At_record_window oc now prev" by blast
  then show ?thesis using push_and_evict_shared [OF assms, of "oc = Failure" now] by auto
next
  case False
  then show ?thesis
    using assms check_step_shared [OF assms, of clk p] rate_window_shared [OF assms]
    by (cases p) (simp_all add: Let_def breaker_simps clock_now_def del: check_step.simps)
qed

lemma reachable_shared: "sys_reachable clk c (ts, b) \<Longrightarrow> shared_ok b"
proof (induction "(ts, b)" arbitrary: ts b rule: sys_reachable.induct)
  case sys_init
  show ?case using win.new_ok by (simp add: shared_ok_def breaker_with_clock_def to_u8.simps)
next
  case (sys_next s ts' b')
  obtain ts b where s: "s = (ts, b)" by (cases s)
  with sys_next have "shared_ok b" "sys_step clk (ts, b) (ts', b')" by simp_all
  from this(2) show ?case
  proof (cases rule: sys_step.cases)
    case (advance i p)
    with thread_step_shared [OF \<open>shared_ok b\<close>, of clk "ts i"] show ?thesis by auto
  qed (use \<open>shared_ok b\<close> in simp_all)
qed

section \<open>Schedules\<close>

text \<open>A schedule names the thread that moves; it answers \<open>None\<close> where the move is not possible.\<close>

datatype move = Begin_Check nat | Begin_Record nat outcome | Begin_Rate nat | Go nat

fun run_move :: "clock \<Rightarrow> move \<Rightarrow> system \<Rightarrow> system option" where
  "run_move clk (Begin_Check i) (ts, b) =
     (if finished (ts i) then Some (ts(i := At_check), b) else None)"
| "run_move clk (Begin_Record i oc) (ts, b) =
     (if finished (ts i) then Some (ts(i := At_record oc), b) else None)"
| "run_move clk (Begin_Rate i) (ts, b) =
     (if finished (ts i) then Some (ts(i := At_rate), b) else None)"
| "run_move clk (Go i) (ts, b) =
     (if finished (ts i) then None
      else map_option (\<lambda>(p, b'). (ts(i := p), b')) (thread_step clk (ts i) b))"

fun run_schedule :: "clock \<Rightarrow> move list \<Rightarrow> system \<Rightarrow> system option" where
  "run_schedule clk [] s = Some s"
| "run_schedule clk (m # ms) s = Option.bind (run_move clk m s) (run_schedule clk ms)"

lemma run_move_sound: "run_move clk m s = Some s' \<Longrightarrow> sys_step clk s s'"
  by (induction clk m s rule: run_move.induct)
    (auto split: if_splits intro: start_check start_record start_rate advance)

lemma run_schedule_sound:
  "sys_reachable clk c s \<Longrightarrow> run_schedule clk ms s = Some s' \<Longrightarrow> sys_reachable clk c s'"
proof (induction ms arbitrary: s)
  case (Cons m ms)
  then obtain s1 where "run_move clk m s = Some s1" "run_schedule clk ms s1 = Some s'"
    by (auto simp: bind_eq_Some_conv)
  with Cons show ?case using sys_next run_move_sound by blast
qed simp

lemma replicate_num: "replicate (numeral k) x = x # replicate (pred_numeral k) x"
  by (simp add: numeral_eq_Suc)

text \<open>
  Thread 0 trips the breaker; after the cool-down thread 1 wins the transition to \<open>HalfOpen\<close>
  and is delayed before it clears the mirror; thread 0 probes, fails and trips again; then
  thread 1 goes on.
\<close>

definition mirror_race :: "move list" where
  "mirror_race =
     Begin_Record 0 Failure # replicate 10 (Go 0) @ Begin_Check 0 # replicate 3 (Go 0) @
     Begin_Check 1 # replicate 4 (Go 1) @
     Begin_Check 0 # replicate 5 (Go 0) @ Begin_Record 0 Failure # replicate 9 (Go 0) @
     replicate 6 (Go 1)"

text \<open>
  After the cool-down thread 0 claims the only probe slot; thread 1 finds it taken and is
  delayed between its increment and its decrement; thread 0's probe fails and trips.
\<close>

definition probe_race :: "move list" where
  "probe_race =
     Begin_Record 0 Failure # replicate 10 (Go 0) @ Begin_Check 0 # replicate 3 (Go 0) @
     Begin_Check 0 # replicate 10 (Go 0) @
     Begin_Check 1 # replicate 3 (Go 1) @
     Begin_Record 0 Failure # replicate 9 (Go 0) @ replicate 3 (Go 1)"

section \<open>Properties\<close>

text \<open>
  The steps are those of the sequential model: a thread that runs alone from the start of \<open>check\<close>,
  \<open>record\<close> or \<open>error_rate\<close> finishes with exactly its answer and its memory.
\<close>

lemma alone_refines_sequential:
  "run_alone clk 12 At_check b = Some (admission_pc (fst (check clk b)), snd (check clk b))"
  "run_alone clk 10 (At_record oc) b = map_option (Pair Recorded) (breaker_record clk oc b)"
  "run_alone clk 2 At_rate b = map_option (\<lambda>(v, b'). (Rated v, b')) (breaker_error_rate clk b)"
proof -
  show "run_alone clk 2 At_rate b = map_option (\<lambda>(v, b'). (Rated v, b')) (breaker_error_rate clk b)"
    by (simp add: eval_nat_numeral breaker_error_rate_def rate_window_def clock_now_def breaker_simps split: option.split)
qed (rule check_alone record_alone)+

text \<open>
  C37. However threads interleave \<open>check\<close>, \<open>record\<close> and \<open>error_rate\<close>, the stored state byte is one of the three states (so the
  fall-back arm of \<open>from_u8\<close> and its debug assertion are never reached), the window keeps its
  counter and its bound, and no step of any thread underflows the counter.
\<close>

theorem interleaving_safe:
  assumes "sys_reachable clk c (ts, b)"
  shows "state_u8 b = to_u8 (breaker_state_of b) \<and> window_ok (window b)
    \<and> thread_step clk (ts i) b \<noteq> None"
  using reachable_shared [OF assms] thread_step_shared [of b clk "ts i"]
  by (auto simp: shared_ok_def breaker_state_of_def from_u8_def to_u8.simps)

text \<open>Thread 1 is in the middle of a \<open>check\<close> and thread 2 of an \<open>error_rate\<close> while thread 0 trips the breaker.\<close>

theorem interleaving_safe_witness:
  "\<exists>ts b. run_schedule tick (Begin_Check 1 # Begin_Rate 2 # Go 2 # Begin_Record 0 Failure # replicate 5 (Go 0))
       (\<lambda>_. Idle, breaker_with_clock tick sample_cfg) = Some (ts, b)
     \<and> ts 1 = At_check \<and> state_u8 b = to_u8 Open \<and> window_ok (window b)
     \<and> thread_step tick (ts 1) b \<noteq> None \<and> thread_step tick (ts 2) b \<noteq> None"
proof -
  let ?ms = "Begin_Check 1 # Begin_Rate 2 # Go 2 # Begin_Record 0 Failure # replicate 5 (Go 0)"
  obtain ts b where r: "run_schedule tick ?ms (\<lambda>_. Idle, breaker_with_clock tick sample_cfg) = Some (ts, b)"
    and f: "ts 1 = At_check" "state_u8 b = to_u8 Open"
    by (simp add: replicate_num sample_simps)
  from interleaving_safe [OF run_schedule_sound [OF sys_init r]] r f show ?thesis by blast
qed

text \<open>
  The lock-free mirror can stay wrong: there is an interleaving of two threads after which
  every operation has finished, the breaker is \<open>Open\<close>, and \<open>is_open()\<close> answers false (the
  delayed store of one thread's transition to \<open>HalfOpen\<close> overwrites the mirror of a later trip).
\<close>

theorem mirror_can_stay_stale:
  "\<exists>ts b. sys_reachable tick sample_cfg (ts, b) \<and> (\<forall>i. finished (ts i))
     \<and> breaker_state_of b = Open \<and> \<not> is_open b"
proof -
  obtain ts b where r: "run_schedule tick mirror_race (\<lambda>_. Idle, breaker_with_clock tick sample_cfg) = Some (ts, b)"
    and f: "ts = (\<lambda>_. Idle)(0 := Recorded, 1 := Admitted)" "state_u8 b = 1" "\<not> is_open_fast b"
    by (simp add: mirror_race_def replicate_num sample_simps)
  from run_schedule_sound [OF sys_init r] f show ?thesis
    by (intro exI [of _ ts] exI [of _ b]) (simp add: is_open_def breaker_state_of_def from_u8_def)
qed

text \<open>
  The probe counter can wrap below zero: there is an interleaving of two threads after
  which every operation has finished, the breaker is \<open>Open\<close> and \<open>half_open_probes\<close> holds
  \<open>2^64 - 1\<close> instead of the 0 that the next transition to \<open>HalfOpen\<close> takes for granted (a trip
  resets the counter between one thread's increment and its decrement).
\<close>

theorem probe_counter_can_wrap:
  "\<exists>ts b. sys_reachable tick sample_cfg (ts, b) \<and> (\<forall>i. finished (ts i))
     \<and> breaker_state_of b = Open \<and> unat (half_open_probes b) = 2 ^ 64 - 1"
proof -
  obtain ts b where r: "run_schedule tick probe_race (\<lambda>_. Idle, breaker_with_clock tick sample_cfg) = Some (ts, b)"
    and f: "ts = (\<lambda>_. Idle)(0 := Recorded, 1 := Refused 50000000)" "state_u8 b = 1" "half_open_probes b = - 1"
    by (simp add: probe_race_def replicate_num sample_simps HALF_OPEN_PROBE_BACKOFF_def)
  from f(3) have "unat (half_open_probes b) = 2 ^ 64 - 1" by (simp add: unsigned_minus_1_eq_mask mask_eq_exp_minus_1)
  with run_schedule_sound [OF sys_init r] f show ?thesis
    by (intro exI [of _ ts] exI [of _ b]) (simp add: breaker_state_of_def from_u8_def)
qed

end
