(* ===== verification/Patch_Parser.thy ===== *)
theory Patch_Parser
  imports Prelude Rust_Str
begin

text \<open>
  The parser of the codex apply-patch format
  (\<open>gbuild-tools/src/implementations/codex/apply_patch/parser.rs\<close>, error types from
  \<open>errors.rs\<close>): patch boundaries with their heredoc leniency, hunks, update chunks, and every
  error with its line number. Paths are the strings the code makes them from.
\<close>

section \<open>Types and markers\<close>

datatype parse_error = InvalidPatchError string | InvalidHunkError string nat

record update_file_chunk =
  change_context :: "string option"
  old_lines :: "string list"
  new_lines :: "string list"
  is_end_of_file :: bool

datatype hunk =
    AddFile string string
  | DeleteFile string
  | UpdateFile string "string option" "update_file_chunk list"

record parsed_patch =
  hunks :: "hunk list"
  patch :: string

datatype parse_mode = Strict | Lenient

definition BEGIN_PATCH_MARKER :: string where "BEGIN_PATCH_MARKER = ''*** Begin Patch''"
definition END_PATCH_MARKER :: string where "END_PATCH_MARKER = ''*** End Patch''"
definition ADD_FILE_MARKER :: string where "ADD_FILE_MARKER = ''*** Add File: ''"
definition DELETE_FILE_MARKER :: string where "DELETE_FILE_MARKER = ''*** Delete File: ''"
definition UPDATE_FILE_MARKER :: string where "UPDATE_FILE_MARKER = ''*** Update File: ''"
definition MOVE_TO_MARKER :: string where "MOVE_TO_MARKER = ''*** Move to: ''"
definition EOF_MARKER :: string where "EOF_MARKER = ''*** End of File''"
definition CHANGE_CONTEXT_MARKER :: string where "CHANGE_CONTEXT_MARKER = ''@@ ''"
definition EMPTY_CHANGE_CONTEXT_MARKER :: string where "EMPTY_CHANGE_CONTEXT_MARKER = ''@@''"

definition PARSE_IN_STRICT_MODE :: bool where "PARSE_IN_STRICT_MODE = False"

section \<open>Update chunks\<close>

definition no_lines_message :: string where
  "no_lines_message = ''Update hunk does not contain any lines''"

definition unexpected_line_message :: "string \<Rightarrow> string" where
  "unexpected_line_message l =
     ''Unexpected line found in update hunk: '' @ [squote] @ l @ [squote] @
     ''. Every line should start with '' @ [squote] @ '' '' @ [squote] @ '' (context line), '' @
     [squote] @ ''+'' @ [squote] @ '' (added line), or '' @
     [squote] @ ''-'' @ [squote] @ '' (removed line)''"

text \<open>The line loop: old lines, new lines, the end-of-file flag and the number of lines taken.\<close>

fun chunk_body ::
  "nat \<Rightarrow> string list \<Rightarrow> nat \<Rightarrow> string list \<Rightarrow> string list
     \<Rightarrow> parse_error + string list \<times> string list \<times> bool \<times> nat" where
  "chunk_body line_number [] parsed old new = Inr (old, new, False, parsed)"
| "chunk_body line_number (l # ls) parsed old new =
     (if l = EOF_MARKER then
        (if parsed = 0 then Inl (InvalidHunkError no_lines_message (line_number + 1))
         else Inr (old, new, True, parsed + 1))
      else case l of
             [] \<Rightarrow> chunk_body line_number ls (parsed + 1) (old @ [[]]) (new @ [[]])
           | c # t \<Rightarrow>
               if c = CHR '' '' then chunk_body line_number ls (parsed + 1) (old @ [t]) (new @ [t])
               else if c = CHR ''+'' then chunk_body line_number ls (parsed + 1) old (new @ [t])
               else if c = CHR ''-'' then chunk_body line_number ls (parsed + 1) (old @ [t]) new
               else if parsed = 0 then
                 Inl (InvalidHunkError (unexpected_line_message l) (line_number + 1))
               else Inr (old, new, False, parsed))"

text \<open>The optional context marker: the context and the index of the first line after it.\<close>

definition chunk_header :: "string \<Rightarrow> nat \<Rightarrow> bool \<Rightarrow> parse_error + string option \<times> nat" where
  "chunk_header l line_number allow_missing_context =
     (if l = EMPTY_CHANGE_CONTEXT_MARKER then Inr (None, 1)
      else case strip_prefix CHANGE_CONTEXT_MARKER l of
             Some context \<Rightarrow> Inr (Some context, 1)
           | None \<Rightarrow>
               if \<not> allow_missing_context then
                 Inl (InvalidHunkError
                   (''Expected update hunk to start with a @@ context marker, got: '' @
                    [squote] @ l @ [squote]) line_number)
               else Inr (None, 0))"

definition parse_update_file_chunk ::
  "string list \<Rightarrow> nat \<Rightarrow> bool \<Rightarrow> parse_error + update_file_chunk \<times> nat" where
  "parse_update_file_chunk lines line_number allow_missing_context =
     (case lines of
        [] \<Rightarrow> Inl (InvalidHunkError no_lines_message line_number)
      | l # _ \<Rightarrow>
          (case chunk_header l line_number allow_missing_context of
             Inl e \<Rightarrow> Inl e
           | Inr (context, start_index) \<Rightarrow>
               if start_index \<ge> length lines then
                 Inl (InvalidHunkError no_lines_message (line_number + 1))
               else
                 (case chunk_body line_number (drop start_index lines) 0 [] [] of
                    Inl e \<Rightarrow> Inl e
                  | Inr (old, new, eof, parsed) \<Rightarrow>
                      Inr (\<lparr>change_context = context, old_lines = old, new_lines = new,
                            is_end_of_file = eof\<rparr>, parsed + start_index))))"

lemma chunk_body_parsed:
  "chunk_body n ls parsed old new = Inr (old', new', eof, m) \<Longrightarrow>
     parsed \<le> m \<and> m \<le> parsed + length ls \<and> (ls \<noteq> [] \<longrightarrow> 0 < m)"
proof (induction n ls parsed old new rule: chunk_body.induct)
  case (2 n l ls parsed old new)
  then show ?case by (cases l) (fastforce split: if_splits)+
qed simp

lemma parse_chunk_consumes:
  assumes "parse_update_file_chunk lines n a = Inr (chunk, m)"
  shows "0 < m \<and> m \<le> length lines"
proof -
  from assms obtain i old new eof parsed where i: "i < length lines"
    "chunk_body n (drop i lines) 0 [] [] = Inr (old, new, eof, parsed)" "m = parsed + i"
    unfolding parse_update_file_chunk_def
    by (fastforce split: list.splits if_splits sum.splits prod.splits simp: not_le simp del: chunk_body.simps)
  with chunk_body_parsed [OF i(2)] show ?thesis by auto
qed

section \<open>Hunks\<close>

fun add_body :: "string list \<Rightarrow> string \<Rightarrow> nat \<Rightarrow> string \<times> nat" where
  "add_body [] contents parsed = (contents, parsed)"
| "add_body (l # ls) contents parsed =
     (case strip_prefix ''+'' l of
        Some line_to_add \<Rightarrow> add_body ls (contents @ line_to_add @ [newline]) (parsed + 1)
      | None \<Rightarrow> (contents, parsed))"

function update_body ::
  "nat \<Rightarrow> string list \<Rightarrow> nat \<Rightarrow> update_file_chunk list
     \<Rightarrow> parse_error + update_file_chunk list \<times> nat" where
  "update_body line_number remaining parsed chunks =
     (case remaining of
        [] \<Rightarrow> Inr (chunks, parsed)
      | l # rest \<Rightarrow>
          if trim l = [] then update_body line_number rest (parsed + 1) chunks
          else if starts_with l ''***'' then Inr (chunks, parsed)
          else (case parse_update_file_chunk remaining (line_number + parsed) (chunks = []) of
                  Inl e \<Rightarrow> Inl e
                | Inr (chunk, n) \<Rightarrow>
                    update_body line_number (drop n remaining) (parsed + n) (chunks @ [chunk])))"
  by pat_completeness auto
termination
  by (relation "measure (\<lambda>(n, r, p, c). length r)") (auto dest: parse_chunk_consumes)

declare update_body.simps [simp del]

definition hunk_header_message :: "string \<Rightarrow> string" where
  "hunk_header_message first_line =
     [squote] @ first_line @ [squote] @ '' is not a valid hunk header. Valid hunk headers: '' @
     [squote] @ ''*** Add File: {path}'' @ [squote] @ '', '' @
     [squote] @ ''*** Delete File: {path}'' @ [squote] @ '', '' @
     [squote] @ ''*** Update File: {path}'' @ [squote]"

text \<open>The slice is \<open>first # rest\<close>: the only caller passes a non-empty one.\<close>

definition parse_one_hunk ::
  "string \<Rightarrow> string list \<Rightarrow> nat \<Rightarrow> parse_error + hunk \<times> nat" where
  "parse_one_hunk first rest line_number =
     (let first_line = trim first in
      case strip_prefix ADD_FILE_MARKER first_line of
        Some path \<Rightarrow> (let (contents, parsed) = add_body rest [] 1 in Inr (AddFile path contents, parsed))
      | None \<Rightarrow>
      case strip_prefix DELETE_FILE_MARKER first_line of
        Some path \<Rightarrow> Inr (DeleteFile path, 1)
      | None \<Rightarrow>
      case strip_prefix UPDATE_FILE_MARKER first_line of
        Some path \<Rightarrow>
          (let move_path = (case rest of [] \<Rightarrow> None | x # _ \<Rightarrow> strip_prefix MOVE_TO_MARKER x);
               remaining = (if move_path = None then rest else drop 1 rest);
               parsed = (if move_path = None then 1 else 2)
           in case update_body line_number remaining parsed [] of
                Inl e \<Rightarrow> Inl e
              | Inr (chunks, parsed) \<Rightarrow>
                  if chunks = [] then
                    Inl (InvalidHunkError
                      (''Update file hunk for path '' @ [squote] @ path @ [squote] @ '' is empty'')
                      line_number)
                  else Inr (UpdateFile path move_path chunks, parsed))
      | None \<Rightarrow> Inl (InvalidHunkError (hunk_header_message first_line) line_number))"

lemma add_body_parsed: "add_body ls c p = (c', p') \<Longrightarrow> p \<le> p' \<and> p' \<le> p + length ls"
  by (induction ls c p rule: add_body.induct) (force split: option.splits)+

lemma update_body_parsed:
  "update_body n ls p cs = Inr (cs', p') \<Longrightarrow> p \<le> p' \<and> p' \<le> p + length ls"
proof (induction n ls p cs rule: update_body.induct)
  case (1 n ls p cs)
  show ?case
  proof (cases ls)
    case Nil
    with "1.prems" show ?thesis by (simp add: update_body.simps [of n "[]"])
  next
    case (Cons l rest)
    note eq = update_body.simps [of n "l # rest" p cs]
    show ?thesis
    proof (cases "trim l = [] \<or> starts_with l ''***''")
      case True
      with "1.prems" "1.IH"(1) [OF Cons] Cons show ?thesis by (auto simp: eq split: if_splits)
    next
      case False
      with "1.prems" Cons obtain c m where c: "parse_update_file_chunk ls (n + p) (cs = []) = Inr (c, m)"
        and u: "update_body n (drop m ls) (p + m) (cs @ [c]) = Inr (cs', p')"
        by (auto simp: eq split: sum.splits)
      with "1.IH"(2) [OF Cons, of "(c, m)" c m] False parse_chunk_consumes [OF c] show ?thesis by auto
    qed
  qed
qed

lemma parse_one_hunk_consumes:
  assumes "parse_one_hunk first rest n = Inr (h, m)"
  shows "0 < m \<and> m \<le> Suc (length rest)"
proof -
  have u: "update_body n r p [] = Inr (cs, m) \<Longrightarrow> 0 < p \<Longrightarrow> p + length r \<le> Suc (length rest) \<Longrightarrow> ?thesis"
    for r p cs using update_body_parsed [of n r p "[]" cs m] by auto
  show ?thesis
    using assms u [of rest 1] u [of "drop 1 rest" 2] add_body_parsed [of rest "[]" 1]
    by (cases rest)
      (fastforce simp: parse_one_hunk_def Let_def split: option.splits sum.splits prod.splits if_splits)+
qed

section \<open>Patches\<close>

definition first_line_error :: parse_error where
  "first_line_error = InvalidPatchError
     (''The first line of the patch must be '' @ [squote] @ ''*** Begin Patch'' @ [squote])"

definition last_line_error :: parse_error where
  "last_line_error = InvalidPatchError
     (''The last line of the patch must be '' @ [squote] @ ''*** End Patch'' @ [squote])"

definition check_start_and_end_lines_strict ::
  "string option \<Rightarrow> string option \<Rightarrow> parse_error + unit" where
  "check_start_and_end_lines_strict first_line last_line =
     (case (map_option trim first_line, map_option trim last_line) of
        (Some a, Some z) \<Rightarrow>
          if a = BEGIN_PATCH_MARKER \<and> z = END_PATCH_MARKER then Inr ()
          else if a \<noteq> BEGIN_PATCH_MARKER then Inl first_line_error
          else Inl last_line_error
      | (Some a, None) \<Rightarrow>
          if a \<noteq> BEGIN_PATCH_MARKER then Inl first_line_error else Inl last_line_error
      | (None, _) \<Rightarrow> Inl last_line_error)"

definition check_patch_boundaries_strict :: "string list \<Rightarrow> parse_error + unit" where
  "check_patch_boundaries_strict lines =
     (case lines of
        [] \<Rightarrow> check_start_and_end_lines_strict None None
      | first # _ \<Rightarrow> check_start_and_end_lines_strict (Some first) (Some (last lines)))"

definition check_patch_boundaries_lenient ::
  "string list \<Rightarrow> parse_error \<Rightarrow> parse_error + string list" where
  "check_patch_boundaries_lenient original_lines original_parse_error =
     (case original_lines of
        first # _ # _ \<Rightarrow>
          if first \<in> set [''<<EOF'', ''<<'' @ [squote] @ ''EOF'' @ [squote],
                           ''<<'' @ [dquote] @ ''EOF'' @ [dquote]]
             \<and> ends_with (last original_lines) ''EOF'' \<and> length original_lines \<ge> 4
          then let inner_lines = butlast (drop 1 original_lines)
               in case check_patch_boundaries_strict inner_lines of
                    Inr _ \<Rightarrow> Inr inner_lines
                  | Inl e \<Rightarrow> Inl e
          else Inl original_parse_error
      | _ \<Rightarrow> Inl original_parse_error)"

function parse_hunks :: "string list \<Rightarrow> nat \<Rightarrow> hunk list \<Rightarrow> parse_error + hunk list" where
  "parse_hunks remaining line_number hs =
     (case remaining of
        [] \<Rightarrow> Inr hs
      | first # rest \<Rightarrow>
          (case parse_one_hunk first rest line_number of
             Inl e \<Rightarrow> Inl e
           | Inr (h, n) \<Rightarrow> parse_hunks (drop n remaining) (line_number + n) (hs @ [h])))"
  by pat_completeness auto
termination
  by (relation "measure (\<lambda>(r, n, hs). length r)") (auto dest: parse_one_hunk_consumes)

declare parse_hunks.simps [simp del]

definition parse_patch_text :: "string \<Rightarrow> parse_mode \<Rightarrow> parse_error + parsed_patch" where
  "parse_patch_text src mode =
     (let lines = str_lines (trim src);
          checked = (case check_patch_boundaries_strict lines of
                       Inr _ \<Rightarrow> Inr lines
                     | Inl e \<Rightarrow> (case mode of
                                   Strict \<Rightarrow> Inl e
                                 | Lenient \<Rightarrow> check_patch_boundaries_lenient lines e))
      in case checked of
           Inl e \<Rightarrow> Inl e
         | Inr lines \<Rightarrow>
             (case parse_hunks (butlast (drop 1 lines)) 2 [] of
                Inl e \<Rightarrow> Inl e
              | Inr hs \<Rightarrow> Inr \<lparr>hunks = hs, patch = join [newline] lines\<rparr>))"

definition parse_patch :: "string \<Rightarrow> parse_error + parsed_patch" where
  "parse_patch src = parse_patch_text src (if PARSE_IN_STRICT_MODE then Strict else Lenient)"

section \<open>Printing\<close>

text \<open>
  The notation of a hunk. A chunk is written with its context marker, the removed lines,
  the added lines and the end-of-file marker, as an editor of the format would.
\<close>

definition print_chunk :: "update_file_chunk \<Rightarrow> string list" where
  "print_chunk c =
     [case change_context c of None \<Rightarrow> EMPTY_CHANGE_CONTEXT_MARKER | Some x \<Rightarrow> CHANGE_CONTEXT_MARKER @ x]
     @ map ((#) CHR ''-'') (old_lines c) @ map ((#) CHR ''+'') (new_lines c)
     @ (if is_end_of_file c then [EOF_MARKER] else [])"

fun print_hunk :: "hunk \<Rightarrow> string list" where
  "print_hunk (AddFile path contents) =
     (ADD_FILE_MARKER @ path) # map ((#) CHR ''+'') (butlast (split_char newline contents))"
| "print_hunk (DeleteFile path) = [DELETE_FILE_MARKER @ path]"
| "print_hunk (UpdateFile path mv chunks) =
     (UPDATE_FILE_MARKER @ path)
     # (case mv of None \<Rightarrow> [] | Some m \<Rightarrow> [MOVE_TO_MARKER @ m]) @ concat (map print_chunk chunks)"

definition print_patch :: "hunk list \<Rightarrow> string" where
  "print_patch hs =
     join [newline] (BEGIN_PATCH_MARKER # concat (map print_hunk hs) @ [END_PATCH_MARKER])"

text \<open>What can be written: paths without white space at their ends, complete lines, non-empty chunks.\<close>

definition path_ok :: "string \<Rightarrow> bool" where
  "path_ok p \<longleftrightarrow> newline \<notin> set p \<and> p \<noteq> [] \<and> (of_char (last p) :: nat) < 128 \<and> \<not> ascii_ws (last p)"

definition line_ok :: "string \<Rightarrow> bool" where
  "line_ok l \<longleftrightarrow> newline \<notin> set l \<and> \<not> ends_with l [creturn]"

definition chunk_ok :: "update_file_chunk \<Rightarrow> bool" where
  "chunk_ok c \<longleftrightarrow> (old_lines c \<noteq> [] \<or> new_lines c \<noteq> [])
     \<and> list_all line_ok (old_lines c) \<and> list_all line_ok (new_lines c)
     \<and> (case change_context c of None \<Rightarrow> True | Some x \<Rightarrow> line_ok x)"

fun hunk_ok :: "hunk \<Rightarrow> bool" where
  "hunk_ok (AddFile path contents) =
     (path_ok path \<and> last (split_char newline contents) = []
      \<and> list_all line_ok (split_char newline contents))"
| "hunk_ok (DeleteFile path) = path_ok path"
| "hunk_ok (UpdateFile path mv chunks) =
     (path_ok path \<and> (case mv of None \<Rightarrow> True | Some m \<Rightarrow> line_ok m)
      \<and> chunks \<noteq> [] \<and> list_all chunk_ok chunks)"

section \<open>Reading back what is printed\<close>

lemmas marker_defs =
  BEGIN_PATCH_MARKER_def END_PATCH_MARKER_def ADD_FILE_MARKER_def DELETE_FILE_MARKER_def
  UPDATE_FILE_MARKER_def MOVE_TO_MARKER_def EOF_MARKER_def CHANGE_CONTEXT_MARKER_def
  EMPTY_CHANGE_CONTEXT_MARKER_def

text \<open>A line at which the body of a chunk ends.\<close>

definition stop_line :: "string \<Rightarrow> bool" where
  "stop_line l \<longleftrightarrow> l \<noteq> EOF_MARKER \<and> l \<noteq> [] \<and> hd l \<notin> {CHR '' '', CHR ''+'', CHR ''-''}"

lemma chunk_body_minus:
  "chunk_body n (map ((#) CHR ''-'') xs @ r) p old new = chunk_body n r (p + length xs) (old @ xs) new"
  by (induction xs arbitrary: p old) (simp_all add: EOF_MARKER_def)

lemma chunk_body_plus:
  "chunk_body n (map ((#) CHR ''+'') xs @ r) p old new = chunk_body n r (p + length xs) old (new @ xs)"
  by (induction xs arbitrary: p new) (simp_all add: EOF_MARKER_def)

lemma chunk_body_stop:
  assumes "0 < p" "r = [] \<or> stop_line (hd r)"
  shows "chunk_body n r p old new = Inr (old, new, False, p)"
proof (cases r)
  case (Cons l ls)
  with assms show ?thesis by (cases l) (auto simp: stop_line_def)
qed simp

lemma chunk_header_print:
  "chunk_header (hd (print_chunk c)) n a = Inr (change_context c, 1)"
  by (auto simp: chunk_header_def print_chunk_def marker_defs strip_prefix_def split: option.split)

lemma parse_print_chunk:
  assumes "chunk_ok c" "r = [] \<or> stop_line (hd r)"
  shows "parse_update_file_chunk (print_chunk c @ r) n a = Inr (c, length (print_chunk c))"
proof -
  define b where "b = map ((#) CHR ''-'') (old_lines c) @ map ((#) CHR ''+'') (new_lines c)
    @ (if is_end_of_file c then [EOF_MARKER] else []) @ r"
  have pos: "0 < length (old_lines c) + length (new_lines c)" using assms(1) by (auto simp: chunk_ok_def)
  have body: "chunk_body n b 0 [] [] =
      Inr (old_lines c, new_lines c, is_end_of_file c, length (print_chunk c) - 1)"
    using pos chunk_body_stop [OF pos assms(2)]
    by (auto simp: b_def chunk_body_minus chunk_body_plus print_chunk_def)
  have eq: "print_chunk c @ r = hd (print_chunk c) # b" and ne: "b \<noteq> []"
    and len: "length (print_chunk c) = Suc (length (print_chunk c) - 1)"
    using pos by (auto simp: print_chunk_def b_def)
  from ne len show ?thesis
    unfolding eq parse_update_file_chunk_def by (simp add: chunk_header_print body)
qed

text \<open>A line that starts the next hunk.\<close>

definition header_line :: "string \<Rightarrow> bool" where
  "header_line l \<longleftrightarrow> starts_with l ''*** '' \<and> l \<noteq> EOF_MARKER"

lemma header_stop: "header_line l \<Longrightarrow> stop_line l"
  by (auto simp: header_line_def stop_line_def starts_with_def EOF_MARKER_def elim!: prefixE)

lemma trim_lead:
  assumes "\<not> ascii_ws a" "(of_char a :: nat) < 128"
  shows "trim (a # s) \<noteq> []"
proof -
  have "trim_start (a # s) = a # s" using ws_len_plain [OF assms] by (simp add: trim_start.simps [of "a # s"])
  moreover have "trim_rev t \<noteq> []" if "t \<noteq> []" "last t = a" for t
    using that
  proof (induction t rule: trim_rev.induct)
    case (1 t)
    show ?case
    proof (cases "ws_len_rev t = 0")
      case False
      have "ws_len_rev t < length t"
        using "1.prems" assms False by (induction t rule: ws_len_rev.induct)
          (auto simp: ws2_def ws3_def Let_def split: if_splits)
      with 1 False show ?thesis by (simp add: trim_rev.simps [of t])
    qed (use 1 in \<open>simp add: trim_rev.simps [of t]\<close>)
  qed
  ultimately show ?thesis by (simp add: trim_def trim_end_def)
qed

lemma trim_path:
  assumes "path_ok p"
  shows "trim (CHR ''*'' # s @ p) = CHR ''*'' # s @ p"
proof -
  from assms have "s @ p = (s @ butlast p) @ [last p]" by (simp add: path_ok_def)
  then show ?thesis
    using assms trim_plain [of "CHR ''*''" "last p" "s @ butlast p"]
    by (simp add: path_ok_def ascii_ws_def Let_def)
qed

lemma print_chunk_first:
  obtains t ts where "print_chunk c = (CHR ''@'' # t) # ts"
  by (cases "change_context c") (auto simp: print_chunk_def marker_defs)

lemma update_print_chunks:
  assumes "list_all chunk_ok cs" "r = [] \<or> header_line (hd r)"
  shows "update_body n (concat (map print_chunk cs) @ r) p acc =
    Inr (acc @ cs, p + length (concat (map print_chunk cs)))"
  using assms(1)
proof (induction cs arbitrary: p acc)
  case Nil
  show ?case
  proof (cases r)
    case (Cons l ls)
    with assms(2) obtain t where l: "l = CHR ''*'' # t" "starts_with l ''***''"
      by (auto simp: header_line_def starts_with_def elim!: prefixE)
    have "trim l \<noteq> []" unfolding l(1) by (rule trim_lead) (simp_all add: ascii_ws_def Let_def)
    with l(2) Cons show ?thesis by (simp add: update_body.simps [of n "l # ls"])
  qed (simp add: update_body.simps [of n "[]"])
next
  case (Cons c cs)
  let ?r = "concat (map print_chunk cs) @ r"
  obtain t ts where t: "print_chunk c = (CHR ''@'' # t) # ts" by (rule print_chunk_first)
  have "?r = [] \<or> stop_line (hd ?r)"
  proof (cases cs)
    case Nil
    with assms(2) header_stop show ?thesis by auto
  next
    case (Cons d ds)
    obtain u us where "print_chunk d = (CHR ''@'' # u) # us" by (rule print_chunk_first)
    with Cons show ?thesis by (simp add: stop_line_def EOF_MARKER_def)
  qed
  with Cons.prems have pc: "parse_update_file_chunk (print_chunk c @ ?r) (n + p) (acc = []) =
      Inr (c, length (print_chunk c))"
    by (intro parse_print_chunk) simp_all
  have nb: "trim (CHR ''@'' # t) \<noteq> []" by (rule trim_lead) (simp_all add: ascii_ws_def Let_def)
  have "update_body n (print_chunk c @ ?r) p acc =
      update_body n ?r (p + length (print_chunk c)) (acc @ [c])"
    using pc nb t by (simp add: update_body.simps [of n "_ # _"] starts_with_def)
  with Cons show ?case by simp
qed

lemma add_print_lines:
  assumes "r = [] \<or> header_line (hd r)"
  shows "add_body (map ((#) CHR ''+'') ls @ r) c p =
    (c @ concat (map (\<lambda>l. l @ [newline]) ls), p + length ls)"
proof (induction ls arbitrary: c p)
  case Nil
  show ?case
    using assms by (cases r) (auto simp: header_line_def starts_with_def strip_prefix_def elim!: prefixE)
next
  case (Cons l ls)
  then show ?case by (simp add: strip_prefix_def)
qed

lemma split_char_concat:
  "last (split_char c s) = [] \<Longrightarrow> concat (map (\<lambda>l. l @ [c]) (butlast (split_char c s))) = s"
proof (induction c s rule: split_char.induct)
  case (2 c x xs)
  have ne: "split_char c xs \<noteq> []" by (induction xs) (auto split: list.splits)
  then obtain y ys where y: "split_char c xs = y # ys" by (cases "split_char c xs") auto
  with 2 show ?case by (cases "x = c"; cases ys) auto
qed simp

lemma strip_marker [simp]: "strip_prefix m (m @ p) = Some p"
  by (simp add: strip_prefix_def)

lemma parse_print_hunk:
  assumes "hunk_ok h" "r = [] \<or> header_line (hd r)"
  obtains first rest where "print_hunk h = first # rest" "header_line first"
    "parse_one_hunk first (rest @ r) n = Inr (h, length (print_hunk h))"
proof (cases h)
  case (AddFile path contents)
  then have t: "trim (ADD_FILE_MARKER @ path) = ADD_FILE_MARKER @ path"
    using assms(1) trim_path [of path "''** Add File: ''"] by (simp add: ADD_FILE_MARKER_def)
  have "parse_one_hunk (ADD_FILE_MARKER @ path)
      (map ((#) CHR ''+'') (butlast (split_char newline contents)) @ r) n = Inr (h, length (print_hunk h))"
    using AddFile assms(1) t split_char_concat [of newline contents]
    by (simp add: parse_one_hunk_def add_print_lines [OF assms(2)])
  with AddFile that show thesis
    by (simp add: header_line_def ADD_FILE_MARKER_def EOF_MARKER_def starts_with_def)
next
  case (DeleteFile path)
  then have t: "trim (DELETE_FILE_MARKER @ path) = DELETE_FILE_MARKER @ path"
    using assms(1) trim_path [of path "''** Delete File: ''"] by (simp add: DELETE_FILE_MARKER_def)
  have a: "strip_prefix ADD_FILE_MARKER (DELETE_FILE_MARKER @ path) = None"
    by (simp add: strip_prefix_def marker_defs)
  with DeleteFile t that [of "DELETE_FILE_MARKER @ path" "[]"] show thesis
    by (simp add: parse_one_hunk_def header_line_def starts_with_def)
      (simp add: DELETE_FILE_MARKER_def EOF_MARKER_def)
next
  case (UpdateFile path mv cs)
  let ?rest = "(case mv of None \<Rightarrow> [] | Some m \<Rightarrow> [MOVE_TO_MARKER @ m]) @ concat (map print_chunk cs)"
  have t: "trim (UPDATE_FILE_MARKER @ path) = UPDATE_FILE_MARKER @ path"
    using UpdateFile assms(1) trim_path [of path "''** Update File: ''"] by (simp add: UPDATE_FILE_MARKER_def)
  have no: "strip_prefix ADD_FILE_MARKER (UPDATE_FILE_MARKER @ path) = None"
    "strip_prefix DELETE_FILE_MARKER (UPDATE_FILE_MARKER @ path) = None"
    by (simp_all add: strip_prefix_def marker_defs)
  have cs: "list_all chunk_ok cs" "cs \<noteq> []" using UpdateFile assms(1) by simp_all
  obtain c ds u us where c: "cs = c # ds" "print_chunk c = (CHR ''@'' # u) # us"
    using cs(2) print_chunk_first by (metis neq_Nil_conv)
  have mv: "(case ?rest @ r of [] \<Rightarrow> None | x # _ \<Rightarrow> strip_prefix MOVE_TO_MARKER x) = mv"
    using c by (cases mv) (simp_all add: strip_prefix_def MOVE_TO_MARKER_def)
  have "parse_one_hunk (UPDATE_FILE_MARKER @ path) (?rest @ r) n = Inr (h, length (print_hunk h))"
    using UpdateFile cs mv update_print_chunks [OF cs(1) assms(2), of n _ "[]"]
    unfolding parse_one_hunk_def Let_def t no by (cases mv) simp_all
  with UpdateFile that [of "UPDATE_FILE_MARKER @ path" ?rest] show thesis
    by (simp add: header_line_def UPDATE_FILE_MARKER_def EOF_MARKER_def starts_with_def)
qed

lemma parse_print_hunks:
  assumes "list_all hunk_ok hs"
  shows "parse_hunks (concat (map print_hunk hs)) n acc = Inr (acc @ hs)"
  using assms
proof (induction hs arbitrary: n acc)
  case Nil
  show ?case by (simp add: parse_hunks.simps [of "[]"])
next
  case (Cons h hs)
  let ?r = "concat (map print_hunk hs)"
  have r: "?r = [] \<or> header_line (hd ?r)"
  proof (cases hs)
    case (Cons k ks)
    with Cons.prems have "hunk_ok k" by simp
    then obtain f fs where "print_hunk k = f # fs" "header_line f"
      using parse_print_hunk [of k "[]"] by blast
    with Cons show ?thesis by simp
  qed simp
  from Cons.prems have "hunk_ok h" by simp
  then obtain f fs where "print_hunk h = f # fs" "parse_one_hunk f (fs @ ?r) n = Inr (h, length (print_hunk h))"
    using parse_print_hunk [OF _ r, of h n] by metis
  with Cons show ?case by (simp add: parse_hunks.simps [of "f # fs @ ?r"])
qed

lemma line_ok_cons: "line_ok l \<Longrightarrow> c \<noteq> newline \<Longrightarrow> c \<noteq> creturn \<Longrightarrow> line_ok (c # l)"
  by (auto simp: line_ok_def ends_with_def suffix_Cons)

lemma line_ok_path: "path_ok p \<Longrightarrow> newline \<notin> set m \<Longrightarrow> line_ok (m @ p)"
  by (cases p rule: rev_cases) (auto simp: line_ok_def path_ok_def ends_with_def suffix_def ascii_ws_def Let_def)

lemma line_ok_append: "line_ok l \<Longrightarrow> newline \<notin> set m \<Longrightarrow> m \<noteq> [] \<Longrightarrow> last m \<noteq> creturn \<Longrightarrow> line_ok (m @ l)"
  by (cases l rule: rev_cases) (auto simp: line_ok_def ends_with_def suffix_def)

lemma print_chunk_ok: "chunk_ok c \<Longrightarrow> list_all line_ok (print_chunk c)"
  using line_ok_append [of _ CHANGE_CONTEXT_MARKER]
  by (auto simp: chunk_ok_def print_chunk_def list_all_iff line_ok_cons split: option.splits)
    (simp_all add: marker_defs line_ok_def ends_with_def suffix_def)

lemma print_hunk_ok: "hunk_ok h \<Longrightarrow> list_all line_ok (print_hunk h)"
proof (cases h)
  case (AddFile path contents)
  assume "hunk_ok h"
  with AddFile show ?thesis
    by (auto simp: list_all_iff line_ok_cons line_ok_path ADD_FILE_MARKER_def dest: in_set_butlastD
        intro!: line_ok_path [of _ "''*** Add File: ''", simplified])
next
  case (DeleteFile path)
  assume "hunk_ok h"
  with DeleteFile show ?thesis using line_ok_path [of path DELETE_FILE_MARKER] by (simp add: DELETE_FILE_MARKER_def)
next
  case (UpdateFile path mv cs)
  assume "hunk_ok h"
  with UpdateFile show ?thesis
    using line_ok_path [of path UPDATE_FILE_MARKER] line_ok_append [of _ MOVE_TO_MARKER] print_chunk_ok
    by (auto simp: list_all_iff split: option.splits) (auto simp: marker_defs)
qed

lemma str_lines_join:
  assumes "ls \<noteq> []" "list_all line_ok ls" "last ls \<noteq> []"
  shows "str_lines (join [newline] ls) = ls"
proof -
  have "split_char newline (join [newline] ls) = ls"
    using assms by (intro split_char_join) (auto simp: list_all_iff line_ok_def)
  moreover have "strip_cr l = l" if "l \<in> set (butlast ls)" for l
    using that assms(2) by (auto simp: list_all_iff line_ok_def strip_cr_def ends_with_def strip_suffix_def
        dest!: in_set_butlastD)
  ultimately show ?thesis
    using assms by (simp add: str_lines_def map_idI)
qed

lemma print_patch_trim: "trim (print_patch hs) = print_patch hs"
proof -
  let ?ls = "concat (map print_hunk hs)"
  have "print_patch hs = join [newline] (BEGIN_PATCH_MARKER # ?ls) @ [newline] @ END_PATCH_MARKER"
    by (simp add: print_patch_def join_snoc flip: append_Cons)
  moreover obtain s where "join [newline] (BEGIN_PATCH_MARKER # ?ls) = CHR ''*'' # s"
    by (cases ?ls) (auto simp: BEGIN_PATCH_MARKER_def)
  ultimately have "print_patch hs = CHR ''*'' # (s @ [newline] @ ''*** End Patc'') @ [CHR ''h'']"
    by (simp add: END_PATCH_MARKER_def)
  then show ?thesis
    using trim_plain [of "CHR ''*''" "CHR ''h''" "s @ [newline] @ ''*** End Patc''"]
    by (simp add: ascii_ws_def Let_def)
qed

section \<open>Properties\<close>

text \<open>
  C5. Parsing reads back what is printed: the notation of any list of well-formed hunks
  (added files with complete lines, deletions, updates with moves, contexts, removed and added
  lines and end-of-file markers) parses to exactly these hunks, and the patch text is kept.
\<close>

theorem patch_roundtrip:
  assumes "list_all hunk_ok hs"
  shows "parse_patch (print_patch hs) = Inr \<lparr>hunks = hs, patch = print_patch hs\<rparr>"
proof -
  let ?ls = "BEGIN_PATCH_MARKER # concat (map print_hunk hs) @ [END_PATCH_MARKER]"
  have m: "trim BEGIN_PATCH_MARKER = BEGIN_PATCH_MARKER" "trim END_PATCH_MARKER = END_PATCH_MARKER"
    "line_ok BEGIN_PATCH_MARKER" "line_ok END_PATCH_MARKER" "END_PATCH_MARKER \<noteq> []"
    by code_simp+
  have "list_all line_ok (concat (map print_hunk hs))"
    using assms print_hunk_ok by (fastforce simp: list_all_iff)
  with m have ls: "str_lines (trim (print_patch hs)) = ?ls"
    using str_lines_join [of ?ls] by (simp add: print_patch_trim) (simp add: print_patch_def)
  have "check_patch_boundaries_strict ?ls = Inr ()"
    using m by (simp add: check_patch_boundaries_strict_def check_start_and_end_lines_strict_def)
  moreover have "butlast (drop 1 ?ls) = concat (map print_hunk hs)" by simp
  ultimately show ?thesis
    using parse_print_hunks [OF assms, of 2 "[]"]
    unfolding parse_patch_def parse_patch_text_def ls Let_def by (simp add: print_patch_def)
qed

theorem patch_roundtrip_witness:
  "parse_patch (print_patch [DeleteFile ''a.rs'',
      UpdateFile ''b.rs'' None [\<lparr>change_context = None, old_lines = [''x''], new_lines = [''y'', ''z''],
        is_end_of_file = True\<rparr>]]) =
   Inr \<lparr>hunks = [DeleteFile ''a.rs'',
      UpdateFile ''b.rs'' None [\<lparr>change_context = None, old_lines = [''x''], new_lines = [''y'', ''z''],
        is_end_of_file = True\<rparr>]],
     patch = print_patch [DeleteFile ''a.rs'',
      UpdateFile ''b.rs'' None [\<lparr>change_context = None, old_lines = [''x''], new_lines = [''y'', ''z''],
        is_end_of_file = True\<rparr>]]\<rparr>"
  by (rule patch_roundtrip) code_simp

end
