(* ===== verification/Patch_Apply.thy ===== *)
theory Patch_Apply
  imports Patch_Parser
begin

text \<open>
  Applying the chunks of an update (\<open>codex/apply_patch/seek_sequence.rs\<close> and \<open>apply.rs\<close>): the
  four-pass fuzzy search for a block of lines, the computation of replacements and their
  application, and the derivation of the new file contents.
\<close>

section \<open>Finding a block of lines\<close>

text \<open>\<open>normalise\<close>: typographic dashes, quotes and spaces become ASCII (the bytes are UTF-8).\<close>

definition normalise_char :: "string \<Rightarrow> string" where
  "normalise_char c =
     (if c \<in> set [[CHR 0xE2, CHR 0x80, CHR 0x90], [CHR 0xE2, CHR 0x80, CHR 0x91],
                  [CHR 0xE2, CHR 0x80, CHR 0x92], [CHR 0xE2, CHR 0x80, CHR 0x93],
                  [CHR 0xE2, CHR 0x80, CHR 0x94], [CHR 0xE2, CHR 0x80, CHR 0x95],
                  [CHR 0xE2, CHR 0x88, CHR 0x92]] then ''-''
      else if c \<in> set [[CHR 0xE2, CHR 0x80, CHR 0x98], [CHR 0xE2, CHR 0x80, CHR 0x99],
                       [CHR 0xE2, CHR 0x80, CHR 0x9A], [CHR 0xE2, CHR 0x80, CHR 0x9B]] then [squote]
      else if c \<in> set [[CHR 0xE2, CHR 0x80, CHR 0x9C], [CHR 0xE2, CHR 0x80, CHR 0x9D],
                       [CHR 0xE2, CHR 0x80, CHR 0x9E], [CHR 0xE2, CHR 0x80, CHR 0x9F]] then [dquote]
      else if c \<in> set [[CHR 0xC2, CHR 0xA0],
                       [CHR 0xE2, CHR 0x80, CHR 0x82], [CHR 0xE2, CHR 0x80, CHR 0x83],
                       [CHR 0xE2, CHR 0x80, CHR 0x84], [CHR 0xE2, CHR 0x80, CHR 0x85],
                       [CHR 0xE2, CHR 0x80, CHR 0x86], [CHR 0xE2, CHR 0x80, CHR 0x87],
                       [CHR 0xE2, CHR 0x80, CHR 0x88], [CHR 0xE2, CHR 0x80, CHR 0x89],
                       [CHR 0xE2, CHR 0x80, CHR 0x8A], [CHR 0xE2, CHR 0x80, CHR 0xAF],
                       [CHR 0xE2, CHR 0x81, CHR 0x9F], [CHR 0xE3, CHR 0x80, CHR 0x80]] then '' ''
      else c)"

definition normalise :: "string \<Rightarrow> string" where
  "normalise s = concat (map normalise_char (chars (trim s)))"

text \<open>
  One pass: the first index from \<open>search_start\<close> on at which every pattern line agrees with the
  file line under the projection \<open>f\<close>.
\<close>

definition block_at :: "(string \<Rightarrow> string) \<Rightarrow> string list \<Rightarrow> string list \<Rightarrow> nat \<Rightarrow> bool" where
  "block_at f lines pat i =
     list_all (\<lambda>p_idx. f (lines ! (i + p_idx)) = f (pat ! p_idx)) [0..<length pat]"

definition seek_pass ::
  "(string \<Rightarrow> string) \<Rightarrow> string list \<Rightarrow> string list \<Rightarrow> nat \<Rightarrow> nat option" where
  "seek_pass f lines pat search_start =
     find (block_at f lines pat) [search_start..<Suc (length lines - length pat)]"

definition seek_sequence :: "string list \<Rightarrow> string list \<Rightarrow> nat \<Rightarrow> bool \<Rightarrow> nat option" where
  "seek_sequence lines pat start eof =
     (if pat = [] then Some start
      else if length pat > length lines then None
      else
        let search_start = (if eof \<and> length lines \<ge> length pat then length lines - length pat else start)
        in case seek_pass (\<lambda>s. s) lines pat search_start of
             Some i \<Rightarrow> Some i
           | None \<Rightarrow>
           case seek_pass trim_end lines pat search_start of
             Some i \<Rightarrow> Some i
           | None \<Rightarrow>
           case seek_pass trim lines pat search_start of
             Some i \<Rightarrow> Some i
           | None \<Rightarrow> seek_pass normalise lines pat search_start)"

section \<open>Replacements\<close>

datatype apply_patch_error =
    Parse parse_error
  | ComputeReplacements string
  | Io string string "string option"

type_synonym replacement = "nat \<times> nat \<times> string list"

definition last_empty :: "string list \<Rightarrow> bool" where
  "last_empty ls \<longleftrightarrow> ls \<noteq> [] \<and> last ls = []"

text \<open>The position after the optional context line.\<close>

definition seek_context ::
  "string list \<Rightarrow> string \<Rightarrow> update_file_chunk \<Rightarrow> nat \<Rightarrow> apply_patch_error + nat" where
  "seek_context original_lines path chunk line_index =
     (case change_context chunk of
        None \<Rightarrow> Inr line_index
      | Some ctx_line \<Rightarrow>
          (case seek_sequence original_lines [ctx_line] line_index False of
             Some idx \<Rightarrow> Inr (idx + 1)
           | None \<Rightarrow> Inl (ComputeReplacements
               (''Failed to find context '' @ [squote] @ ctx_line @ [squote] @ '' in '' @ path))))"

text \<open>The block to replace: its position, the pattern that matched and the new lines.\<close>

definition seek_block ::
  "string list \<Rightarrow> update_file_chunk \<Rightarrow> nat \<Rightarrow> nat option \<times> string list \<times> string list" where
  "seek_block original_lines chunk line_index =
     (let pat = old_lines chunk;
          found = seek_sequence original_lines pat line_index (is_end_of_file chunk);
          new_slice = new_lines chunk
      in if found = None \<and> last_empty pat
         then let pat = butlast pat;
                  new_slice = (if last_empty new_slice then butlast new_slice else new_slice)
              in (seek_sequence original_lines pat line_index (is_end_of_file chunk), pat, new_slice)
         else (found, pat, new_slice))"

fun compute_loop ::
  "string list \<Rightarrow> string \<Rightarrow> update_file_chunk list \<Rightarrow> nat \<Rightarrow> replacement list
     \<Rightarrow> apply_patch_error + replacement list" where
  "compute_loop original_lines path [] line_index replacements = Inr replacements"
| "compute_loop original_lines path (chunk # chunks) line_index replacements =
     (case seek_context original_lines path chunk line_index of
        Inl e \<Rightarrow> Inl e
      | Inr line_index \<Rightarrow>
          if old_lines chunk = [] then
            let insertion_idx = (if last_empty original_lines then length original_lines - 1
                                 else length original_lines)
            in compute_loop original_lines path chunks line_index
                 (replacements @ [(insertion_idx, 0, new_lines chunk)])
          else
            (case seek_block original_lines chunk line_index of
               (Some start_idx, pat, new_slice) \<Rightarrow>
                 compute_loop original_lines path chunks (start_idx + length pat)
                   (replacements @ [(start_idx, length pat, new_slice)])
             | (None, _, _) \<Rightarrow>
                 Inl (ComputeReplacements
                   (''Failed to find expected lines in '' @ path @ '':'' @ [newline] @
                    join [newline] (old_lines chunk)))))"

definition compute_replacements ::
  "string list \<Rightarrow> string \<Rightarrow> update_file_chunk list \<Rightarrow> apply_patch_error + replacement list" where
  "compute_replacements original_lines path chunks =
     (case compute_loop original_lines path chunks 0 [] of
        Inl e \<Rightarrow> Inl e
      | Inr replacements \<Rightarrow> Inr (sort_key fst replacements))"

section \<open>Applying replacements\<close>

text \<open>\<open>Vec::insert\<close> panics beyond the end of the vector, which is \<open>None\<close> here.\<close>

definition vec_insert :: "nat \<Rightarrow> 'a \<Rightarrow> 'a list \<Rightarrow> 'a list option" where
  "vec_insert i x xs = (if i \<le> length xs then Some (take i xs @ x # drop i xs) else None)"

definition vec_remove :: "nat \<Rightarrow> 'a list \<Rightarrow> 'a list" where
  "vec_remove i xs = take i xs @ drop (Suc i) xs"

fun remove_lines :: "nat \<Rightarrow> nat \<Rightarrow> string list \<Rightarrow> string list" where
  "remove_lines start_idx 0 lines = lines"
| "remove_lines start_idx (Suc n) lines =
     remove_lines start_idx n (if start_idx < length lines then vec_remove start_idx lines else lines)"

fun insert_lines :: "nat \<Rightarrow> string list \<Rightarrow> string list \<Rightarrow> string list option" where
  "insert_lines idx [] lines = Some lines"
| "insert_lines idx (x # xs) lines =
     (case vec_insert idx x lines of
        None \<Rightarrow> None
      | Some lines' \<Rightarrow> insert_lines (Suc idx) xs lines')"

fun apply_loop :: "replacement list \<Rightarrow> string list \<Rightarrow> string list option" where
  "apply_loop [] lines = Some lines"
| "apply_loop ((start_idx, old_len, new_segment) # rs) lines =
     (case insert_lines start_idx new_segment (remove_lines start_idx old_len lines) of
        None \<Rightarrow> None
      | Some lines' \<Rightarrow> apply_loop rs lines')"

definition apply_replacements :: "string list \<Rightarrow> replacement list \<Rightarrow> string list option" where
  "apply_replacements lines replacements = apply_loop (rev replacements) lines"

definition derive_new_contents ::
  "string \<Rightarrow> string \<Rightarrow> update_file_chunk list \<Rightarrow> (apply_patch_error + string) option" where
  "derive_new_contents original_content path chunks =
     (let original_lines = split_char newline original_content;
          original_lines = (if last_empty original_lines then butlast original_lines else original_lines)
      in case compute_replacements original_lines path chunks of
           Inl e \<Rightarrow> Some (Inl e)
         | Inr replacements \<Rightarrow>
             map_option (\<lambda>new_lines.
                 Inr (join [newline] (if last_empty new_lines then new_lines else new_lines @ [[]])))
               (apply_replacements original_lines replacements))"

section \<open>What the search finds\<close>

lemma block_at_iff:
  "block_at f lines pat i \<longleftrightarrow> (\<forall>k < length pat. f (lines ! (i + k)) = f (pat ! k))"
  by (auto simp: block_at_def list_all_iff)

lemma block_at_exact:
  assumes "i + length pat \<le> length lines"
  shows "block_at (\<lambda>s. s) lines pat i \<longleftrightarrow> take (length pat) (drop i lines) = pat"
  using assms by (auto simp: block_at_iff list_eq_iff_nth_eq)

lemma find_upt_Some:
  "find P [a..<b] = Some i \<longleftrightarrow> a \<le> i \<and> i < b \<and> P i \<and> (\<forall>j. a \<le> j \<and> j < i \<longrightarrow> \<not> P j)"
proof (induction "b - a" arbitrary: a)
  case (Suc k)
  then have u: "[a..<b] = a # [Suc a..<b]" by (simp add: upt_conv_Cons)
  have IH: "find P [Suc a..<b] = Some i \<longleftrightarrow>
      Suc a \<le> i \<and> i < b \<and> P i \<and> (\<forall>j. Suc a \<le> j \<and> j < i \<longrightarrow> \<not> P j)"
    using Suc by simp
  show ?case
  proof (cases "P a")
    case True
    then show ?thesis using Suc.hyps(2) unfolding u by (auto simp: not_less [symmetric] le_less)
  next
    case False
    have "(\<forall>j. a \<le> j \<and> j < i \<longrightarrow> \<not> P j) \<longleftrightarrow> (\<forall>j. Suc a \<le> j \<and> j < i \<longrightarrow> \<not> P j)"
      using False by (metis Suc_leD Suc_leI le_neq_implies_less)
    moreover have "a \<le> i \<and> P i \<longleftrightarrow> Suc a \<le> i \<and> P i" using False by (metis Suc_leD Suc_leI le_neq_implies_less)
    ultimately show ?thesis unfolding u using IH False by auto
  qed
qed auto

lemma find_upt_None: "find P [a..<b] = None \<longleftrightarrow> (\<forall>i. a \<le> i \<and> i < b \<longrightarrow> \<not> P i)"
  by (auto simp: find_None_iff)

lemma find_in_set: "find P xs = Some x \<Longrightarrow> x \<in> set xs"
  by (auto simp: find_Some_iff)

text \<open>The projections of the four passes, from exact to most lenient.\<close>

definition passes_of_seek :: "(string \<Rightarrow> string) list" where
  "passes_of_seek = [\<lambda>s. s, trim_end, trim, normalise]"

lemma seek_sequence_passes:
  assumes "pat \<noteq> []" "length pat \<le> length lines"
  shows "seek_sequence lines pat start eof =
    (let from = (if eof then length lines - length pat else start) in
     Option.bind (find (\<lambda>f. seek_pass f lines pat from \<noteq> None) passes_of_seek)
       (\<lambda>f. seek_pass f lines pat from))"
  using assms by (auto simp: seek_sequence_def passes_of_seek_def Let_def split: option.split)

text \<open>A block found by \<open>f\<close> at \<open>i\<close>: in range, matching, and the first such from \<open>start\<close> on.\<close>

definition first_block ::
  "(string \<Rightarrow> string) \<Rightarrow> string list \<Rightarrow> string list \<Rightarrow> nat \<Rightarrow> nat \<Rightarrow> bool" where
  "first_block f lines pat start i \<longleftrightarrow>
     start \<le> i \<and> i + length pat \<le> length lines \<and> block_at f lines pat i
     \<and> (\<forall>j. start \<le> j \<and> j < i \<longrightarrow> \<not> block_at f lines pat j)"

lemma seek_pass_Some:
  assumes "length pat \<le> length lines"
  shows "seek_pass f lines pat start = Some i \<longleftrightarrow> first_block f lines pat start i"
  using assms unfolding seek_pass_def find_upt_Some first_block_def by auto

lemma seek_pass_None:
  assumes "length pat \<le> length lines"
  shows "seek_pass f lines pat start = None \<longleftrightarrow>
    (\<forall>i. start \<le> i \<and> i + length pat \<le> length lines \<longrightarrow> \<not> block_at f lines pat i)"
  using assms unfolding seek_pass_def find_upt_None by auto

lemma seek_Some:
  assumes "seek_sequence lines pat start eof = Some i" "pat \<noteq> []"
  shows "i + length pat \<le> length lines \<and> (\<exists>f \<in> set passes_of_seek. block_at f lines pat i)
    \<and> (eof \<or> start \<le> i)"
proof -
  from assms have len: "length pat \<le> length lines" by (auto simp: seek_sequence_def split: if_splits)
  from assms seek_sequence_passes [OF assms(2) len, of start eof] obtain f
    where "f \<in> set passes_of_seek" "seek_pass f lines pat (if eof then length lines - length pat else start) = Some i"
    by (auto simp: Let_def bind_eq_Some_conv dest: find_in_set)
  with seek_pass_Some [OF len] show ?thesis by (auto simp: first_block_def)
qed

section \<open>Disjoint replacements\<close>

text \<open>
  The specification of applying replacements: the untouched lines between them, in order,
  with the new lines in their places.
\<close>

fun splice_at :: "string list \<Rightarrow> nat \<Rightarrow> replacement list \<Rightarrow> string list" where
  "splice_at lines pos [] = drop pos lines"
| "splice_at lines pos ((s, n, new) # rs) = take (s - pos) (drop pos lines) @ new @ splice_at lines (s + n) rs"

fun in_order :: "nat \<Rightarrow> nat \<Rightarrow> replacement list \<Rightarrow> bool" where
  "in_order len pos [] = (pos \<le> len)"
| "in_order len pos ((s, n, new) # rs) = (pos \<le> s \<and> in_order len (s + n) rs)"

lemma in_order_le: "in_order len pos rs \<Longrightarrow> pos \<le> len"
  by (induction len pos rs rule: in_order.induct) auto

lemma insert_lines_eq:
  "idx \<le> length lines \<Longrightarrow> insert_lines idx xs lines = Some (take idx lines @ xs @ drop idx lines)"
proof (induction xs arbitrary: idx lines)
  case (Cons x xs)
  let ?l = "take idx lines @ x # drop idx lines"
  have "take (Suc idx) ?l = take idx lines @ [x]" "drop (Suc idx) ?l = drop idx lines" "Suc idx \<le> length ?l"
    using Cons.prems by simp_all
  with Cons.IH [of "Suc idx" ?l] Cons.prems show ?case by (simp add: vec_insert_def)
qed simp

lemma remove_lines_eq: "s \<le> length lines \<Longrightarrow> remove_lines s n lines = take s lines @ drop (s + n) lines"
proof (induction n arbitrary: lines)
  case (Suc n)
  show ?case
  proof (cases "s < length lines")
    case True
    have "length (vec_remove s lines) \<ge> s" using True by (simp add: vec_remove_def)
    with Suc.IH [of "vec_remove s lines"] True show ?thesis by (simp add: vec_remove_def add.commute)
  next
    case False
    with Suc show ?thesis by simp
  qed
qed simp

lemma apply_loop_append:
  "apply_loop (xs @ ys) lines = Option.bind (apply_loop xs lines) (apply_loop ys)"
  by (induction xs lines rule: apply_loop.induct) (auto split: option.split)

lemma apply_in_order:
  "in_order (length lines) pos rs \<Longrightarrow>
     apply_loop (rev rs) lines = Some (take pos lines @ splice_at lines pos rs)"
proof (induction "length lines" pos rs rule: in_order.induct)
  case (2 pos s n new rs)
  then have le: "pos \<le> s" "s + n \<le> length lines" using in_order_le by auto
  let ?x = "splice_at lines (s + n) rs"
  have "apply_loop (rev rs) lines = Some (take (s + n) lines @ ?x)" using 2 by simp
  moreover have "remove_lines s n (take (s + n) lines @ ?x) = take s lines @ ?x"
    using le by (simp add: remove_lines_eq)
  moreover have "insert_lines s new (take s lines @ ?x) = Some (take s lines @ new @ ?x)"
    using le by (simp add: insert_lines_eq)
  moreover have "take s lines = take pos lines @ take (s - pos) (drop pos lines)"
    using le by (metis add_diff_inverse_nat not_less take_add)
  ultimately show ?case by (simp add: apply_loop_append)
qed simp

lemma apply_total:
  assumes "sorted (map fst rs)" "\<forall>r \<in> set rs. p \<le> fst r \<and> fst r \<le> length lines" "p \<le> length lines"
  shows "\<exists>out. apply_loop (rev rs) lines = Some out \<and> p \<le> length out"
  using assms
proof (induction rs arbitrary: p)
  case (Cons r rs)
  obtain s n new where r: "r = (s, n, new)" by (cases r)
  from Cons.prems r have "\<forall>q \<in> set rs. s \<le> fst q \<and> fst q \<le> length lines" "sorted (map fst rs)" "s \<le> length lines"
    by auto
  with Cons.IH [of s] obtain out where out: "apply_loop (rev rs) lines = Some out" "s \<le> length out" by blast
  with Cons.prems r show ?case by (simp add: apply_loop_append remove_lines_eq insert_lines_eq)
qed simp

section \<open>What the replacements are\<close>

lemma seek_context_le:
  assumes "seek_context lines path c i = Inr j" "i \<le> length lines"
  shows "i \<le> j \<and> j \<le> length lines"
  using assms seek_Some [of lines "[the (change_context c)]" i False]
  by (fastforce simp: seek_context_def split: option.splits)

text \<open>
  A replacement made for a chunk: it covers the chunk's old lines (or all but their empty
  last line), which agree with the file there under one of the four passes.
\<close>

definition rep_of_chunk :: "string list \<Rightarrow> update_file_chunk \<Rightarrow> replacement \<Rightarrow> bool" where
  "rep_of_chunk lines c r \<longleftrightarrow>
     (case r of (s, n, new) \<Rightarrow>
        (\<exists>pat. (pat = old_lines c \<and> new = new_lines c
            \<or> last_empty (old_lines c) \<and> pat = butlast (old_lines c)
               \<and> new = (if last_empty (new_lines c) then butlast (new_lines c) else new_lines c))
          \<and> n = length pat \<and> (\<exists>f \<in> set passes_of_seek. block_at f lines pat s)))"

lemma block_at_Nil [simp]: "block_at f lines [] s"
  by (simp add: block_at_def)

lemma passes_ne: "(\<lambda>s. s) \<in> set passes_of_seek"
  by (simp add: passes_of_seek_def)

lemma seek_found:
  assumes "seek_sequence lines pat i eof = Some s" "i \<le> length lines"
  shows "s + length pat \<le> length lines \<and> (\<exists>f \<in> set passes_of_seek. block_at f lines pat s) \<and> (eof \<or> i \<le> s)"
proof (cases "pat = []")
  case True
  with assms passes_ne show ?thesis by (auto simp: seek_sequence_def)
qed (use seek_Some [OF assms(1)] in blast)

lemma seek_block_found:
  assumes "seek_block lines c i = (Some s, pat, new)" "i \<le> length lines"
  shows "s + length pat \<le> length lines \<and> rep_of_chunk lines c (s, length pat, new)
    \<and> (is_end_of_file c \<or> i \<le> s)"
proof (cases "seek_sequence lines (old_lines c) i (is_end_of_file c) = None \<and> last_empty (old_lines c)")
  case True
  with assms have f: "seek_sequence lines pat i (is_end_of_file c) = Some s" and p: "pat = butlast (old_lines c)"
    "new = (if last_empty (new_lines c) then butlast (new_lines c) else new_lines c)"
    by (auto simp: seek_block_def Let_def)
  from seek_found [OF f assms(2)] p True show ?thesis unfolding rep_of_chunk_def by blast
next
  case False
  with assms have "seek_sequence lines pat i (is_end_of_file c) = Some s" "pat = old_lines c" "new = new_lines c"
    by (auto simp: seek_block_def Let_def split: if_splits)
  with seek_found [OF _ assms(2)] show ?thesis by (auto simp: rep_of_chunk_def)
qed

lemma compute_loop_range:
  assumes "compute_loop lines path cs i acc = Inr rs" "i \<le> length lines"
    and "\<forall>r \<in> set acc. fst r \<le> length lines"
  shows "\<forall>r \<in> set rs. fst r \<le> length lines"
  using assms
proof (induction lines path cs i acc rule: compute_loop.induct)
  case (2 lines path c cs i acc)
  from "2.prems" obtain j where j: "seek_context lines path c i = Inr j" by (auto split: sum.splits)
  with seek_context_le "2.prems" have jl: "j \<le> length lines" by blast
  show ?case
  proof (cases "old_lines c = []")
    case True
    with "2.prems" j have "compute_loop lines path cs j
        (acc @ [(if last_empty lines then length lines - 1 else length lines, 0, new_lines c)]) = Inr rs"
      by simp
    with "2.IH"(1) [OF j True refl _ jl] "2.prems"(3) show ?thesis by simp
  next
    case False
    obtain o1 pat new where b: "seek_block lines c j = (o1, pat, new)" by (cases "seek_block lines c j")
    with False "2.prems" j obtain s where s: "o1 = Some s" by (cases o1) auto
    with b jl seek_block_found have sl: "s + length pat \<le> length lines" by blast
    with False "2.prems" j b s "2.IH"(2) [OF j False b [symmetric] s refl] show ?thesis by simp
  qed
qed simp

lemma compute_loop_in_order:
  assumes "compute_loop lines path cs i acc = Inr rs" "i \<le> length lines"
    and "list_all (\<lambda>c. old_lines c \<noteq> [] \<and> \<not> is_end_of_file c) cs"
  shows "\<exists>new. rs = acc @ new \<and> in_order (length lines) i new \<and> list_all2 (rep_of_chunk lines) cs new"
  using assms
proof (induction cs arbitrary: i acc)
  case (Cons c cs)
  from Cons.prems obtain j where j: "seek_context lines path c i = Inr j" by (auto split: sum.splits)
  with seek_context_le Cons.prems have jl: "i \<le> j" "j \<le> length lines" by blast+
  obtain o1 pat nw where b: "seek_block lines c j = (o1, pat, nw)" by (cases "seek_block lines c j")
  with Cons.prems j obtain s where s: "o1 = Some s" by (cases o1) auto
  from b s jl seek_block_found [of lines c j s pat nw] Cons.prems(3)
  have f: "s + length pat \<le> length lines" "rep_of_chunk lines c (s, length pat, nw)" "j \<le> s" by auto
  from Cons.prems j b s have "compute_loop lines path cs (s + length pat) (acc @ [(s, length pat, nw)]) = Inr rs"
    by simp
  with Cons.IH [OF this f(1)] Cons.prems(3) obtain new where
    "rs = acc @ (s, length pat, nw) # new" "in_order (length lines) (s + length pat) new"
    "list_all2 (rep_of_chunk lines) cs new" by auto
  with f jl show ?case by (intro exI [of _ "(s, length pat, nw) # new"]) simp
qed simp

lemma in_order_sorted: "in_order len pos rs \<Longrightarrow> sorted (map fst rs) \<and> (\<forall>r \<in> set rs. pos \<le> fst r)"
proof (induction len pos rs rule: in_order.induct)
  case (2 len pos s n new rs)
  then show ?case by (auto intro: le_trans [OF le_add1])
qed simp

section \<open>Properties\<close>

text \<open>
  The fuzzy search: for a non-empty block, an answer is the first position from \<open>start\<close> on
  that matches under one of the four passes, inside the file, and is an exact match whenever
  there is one; no answer means that no position matches under any pass.
\<close>

theorem seek_sequence_spec:
  assumes "pat \<noteq> []"
  shows "case seek_sequence lines pat start False of
      Some i \<Rightarrow> (\<exists>f \<in> set passes_of_seek. first_block f lines pat start i)
        \<and> ((\<exists>j \<ge> start. j + length pat \<le> length lines \<and> take (length pat) (drop j lines) = pat)
           \<longrightarrow> take (length pat) (drop i lines) = pat)
    | None \<Rightarrow> (\<forall>f \<in> set passes_of_seek. \<forall>i \<ge> start. i + length pat \<le> length lines \<longrightarrow>
        \<not> block_at f lines pat i)"
proof (cases "length pat \<le> length lines")
  case False
  then show ?thesis using assms by (simp add: seek_sequence_def)
next
  case len: True
  let ?p = "\<lambda>f. seek_pass f lines pat start"
  note eq = seek_sequence_passes [OF assms len, of start False]
  show ?thesis
  proof (cases "?p (\<lambda>s. s)")
    case (Some i)
    then have "seek_sequence lines pat start False = Some i" unfolding eq by (simp add: passes_of_seek_def)
    with Some seek_pass_Some [OF len, of "\<lambda>s. s" start i] passes_ne block_at_exact [of i pat lines] show ?thesis
      by (auto simp: first_block_def)
  next
    case None
    then have no: "\<not> (\<exists>j \<ge> start. j + length pat \<le> length lines \<and> take (length pat) (drop j lines) = pat)"
      unfolding seek_pass_None [OF len] using block_at_exact by blast
    show ?thesis
    proof (cases "seek_sequence lines pat start False")
      case (Some i)
      then obtain f where "f \<in> set passes_of_seek" "?p f = Some i"
        unfolding eq by (auto simp: Let_def bind_eq_Some_conv dest: find_in_set)
      with Some no seek_pass_Some [OF len] show ?thesis by auto
    next
      case no_seek: None
      have "?p f = None" if "f \<in> set passes_of_seek" for f
      proof (cases "find (\<lambda>f. ?p f \<noteq> None) passes_of_seek")
        case None
        with that show ?thesis by (auto simp: find_None_iff)
      next
        case (Some g)
        then have "?p g \<noteq> None" by (auto simp: find_Some_iff)
        with Some no_seek show ?thesis unfolding eq by simp
      qed
      with no_seek seek_pass_None [OF len] show ?thesis by auto
    qed
  qed
qed

theorem seek_sequence_spec_witness:
  "\<exists>f \<in> set passes_of_seek. first_block f [''a'', ''b '', ''c''] [''b'', ''c''] 0 1"
proof -
  have s: "seek_sequence [''a'', ''b '', ''c''] [''b'', ''c''] 0 False = Some 1" by code_simp
  show ?thesis
    using seek_sequence_spec [where pat = "[''b'', ''c'']" and lines = "[''a'', ''b '', ''c'']" and start = 0] unfolding s by simp
qed

text \<open>
  The end-of-file search has no fall-back: with the flag set, a non-empty block is only ever
  found at the very end of the file, and a block that occurs elsewhere from \<open>start\<close> on is not
  found at all.
\<close>

theorem seek_eof_no_fallback:
  "(case seek_sequence lines (p # ps) start True of
      Some i \<Rightarrow> i + length (p # ps) = length lines | None \<Rightarrow> True)
   \<and> seek_sequence [''a'', ''b''] [''a''] 0 False = Some 0
   \<and> seek_sequence [''a'', ''b''] [''a''] 0 True = None"
proof (intro conjI)
  show "case seek_sequence lines (p # ps) start True of
      Some i \<Rightarrow> i + length (p # ps) = length lines | None \<Rightarrow> True"
  proof (cases "seek_sequence lines (p # ps) start True")
    case (Some i)
    then have len: "length (p # ps) \<le> length lines" by (auto simp: seek_sequence_def split: if_splits)
    from Some seek_sequence_passes [OF _ len, of start True] obtain f
      where "seek_pass f lines (p # ps) (length lines - length (p # ps)) = Some i"
      by (auto simp: Let_def bind_eq_Some_conv)
    with seek_pass_Some [OF len] len Some show ?thesis by (auto simp: first_block_def)
  qed simp
qed code_simp+

text \<open>
  C40. Applying an update never panics: for every file and every list of chunks, the derivation
  ends with new contents or with an error value; no insertion falls beyond the end of the
  vector.
\<close>

theorem derive_never_panics: "derive_new_contents content path chunks \<noteq> None"
proof -
  define ls where "ls = (let l = split_char newline content in if last_empty l then butlast l else l)"
  show ?thesis
  proof (cases "compute_loop ls path chunks 0 []")
    case (Inl e)
    then show ?thesis by (simp add: derive_new_contents_def compute_replacements_def ls_def Let_def)
  next
    case (Inr rs)
    have "\<forall>r \<in> set rs. fst r \<le> length ls" using compute_loop_range [OF Inr] by simp
    then obtain out where "apply_loop (rev (sort_key fst rs)) ls = Some out"
      using apply_total [of "sort_key fst rs" 0 ls] by auto
    with Inr show ?thesis
      by (simp add: derive_new_contents_def compute_replacements_def apply_replacements_def ls_def Let_def)
  qed
qed

text \<open>
  C39. Chunks with old lines and without the end-of-file flag are applied in order and do
  not disturb each other: the replacements found for them follow one another without overlap,
  each covers lines that agree with its chunk's old lines, and the new lines of the file are the
  old ones with exactly these blocks replaced.
\<close>

theorem derive_in_order:
  assumes "list_all (\<lambda>c. old_lines c \<noteq> [] \<and> \<not> is_end_of_file c) chunks"
    and "compute_replacements lines path chunks = Inr rs"
  shows "in_order (length lines) 0 rs \<and> list_all2 (rep_of_chunk lines) chunks rs
    \<and> apply_replacements lines rs = Some (splice_at lines 0 rs)"
proof -
  from assms(2) obtain us where u: "compute_loop lines path chunks 0 [] = Inr us" "rs = sort_key fst us"
    by (auto simp: compute_replacements_def split: sum.splits)
  with compute_loop_in_order [OF u(1) _ assms(1)]
  have io: "in_order (length lines) 0 us" "list_all2 (rep_of_chunk lines) chunks us" by auto
  then have "rs = us" using u(2) in_order_sorted by (simp add: sort_key_id_if_sorted)
  with io apply_in_order [OF io(1)] show ?thesis by (simp add: apply_replacements_def)
qed

theorem derive_in_order_witness:
  "apply_replacements [''a'', ''b'', ''c''] [(1, 1, [''x'', ''y''])] =
     Some (splice_at [''a'', ''b'', ''c''] 0 [(1, 1, [''x'', ''y''])])"
proof -
  let ?c = "\<lparr>change_context = None, old_lines = [''b''], new_lines = [''x'', ''y''], is_end_of_file = False\<rparr>"
  have "compute_replacements [''a'', ''b'', ''c''] ''f'' [?c] = Inr [(1, 1, [''x'', ''y''])]" by code_simp
  then show ?thesis using derive_in_order [of "[?c]"] by simp
qed

text \<open>
  An addition can get lost: on a file that ends in a blank line, a chunk that replaces this
  blank line followed by a chunk that only adds lines produces a file without the added line
  (both replacements start at the same index, and the removal of the first one, applied last,
  takes out the line that the second one inserted).
\<close>

theorem addition_can_be_lost:
  "derive_new_contents (''a'' @ [newline, newline]) ''f''
     [\<lparr>change_context = None, old_lines = [''''], new_lines = [''b''], is_end_of_file = False\<rparr>,
      \<lparr>change_context = None, old_lines = [], new_lines = [''c''], is_end_of_file = False\<rparr>] =
   Some (Inr (''a'' @ [newline] @ ''b'' @ [newline]))"
  by code_simp

end
