(* ===== verification/Line_Anchors.thy ===== *)
theory Line_Anchors
  imports Rust_Num
begin

text \<open>
  Line anchors of the hashline tools (\<open>gbuild-tools/src/util/hash.rs\<close> and
  \<open>implementations/gbuild_hashline/\<close> \<open>scheme.rs\<close>, \<open>anchor.rs\<close>, \<open>config.rs\<close>): the hash of a line, the
  three schemes that make and check anchors, the search for a line that has moved, and the
  choice of a scheme from the parameters. A scheme is a record of the operations of the trait
  \<open>AnchorScheme\<close>; the locale \<open>lawful_scheme\<close> states what the tools rely on.
\<close>

unbundle bit_operations_syntax

section \<open>Hashes\<close>

definition FNV_OFFSET :: "32 word" where
  "FNV_OFFSET = 2166136261"

definition FNV_PRIME :: "32 word" where
  "FNV_PRIME = 16777619"

definition mix :: "32 word \<Rightarrow> 32 word \<Rightarrow> 32 word" where
  "mix h x = (h XOR x) * FNV_PRIME"

definition byte_word :: "char \<Rightarrow> 32 word" where
  "byte_word c = of_nat (of_char c)"

definition fnv1a_32 :: "string \<Rightarrow> 32 word" where
  "fnv1a_32 data = foldl (\<lambda>h byte. mix h (byte_word byte)) FNV_OFFSET data"

text \<open>\<open>u8::is_ascii_whitespace\<close>, which leaves out the vertical tab.\<close>

definition is_ascii_whitespace :: "char \<Rightarrow> bool" where
  "is_ascii_whitespace c \<longleftrightarrow> (of_char c :: nat) \<in> {9, 10, 12, 13, 32}"

fun line_hash_loop :: "string \<Rightarrow> 32 word \<Rightarrow> bool \<Rightarrow> 32 word" where
  "line_hash_loop [] h prev_ws = h"
| "line_hash_loop (byte # bytes) h prev_ws =
     (if is_ascii_whitespace byte then
        if \<not> prev_ws then line_hash_loop bytes (mix h (byte_word CHR '' '')) True
        else line_hash_loop bytes h prev_ws
      else line_hash_loop bytes (mix h (byte_word byte)) False)"

definition line_hash :: "string \<Rightarrow> 32 word" where
  "line_hash line = line_hash_loop (trim line) FNV_OFFSET False"

text \<open>The assertion on the length holds for every scheme that can be built (\<open>build_scheme\<close>).\<close>

definition encode_hash :: "32 word \<Rightarrow> nat \<Rightarrow> string" where
  "encode_hash hash n =
     map (\<lambda>i. char_of (unat (drop_bit (i * 8) hash mod 26) + 97 :: nat)) [0..<n]"

definition DEFAULT_HASH_LEN :: nat where
  "DEFAULT_HASH_LEN = 3"

section \<open>Anchors\<close>

record anchor =
  an_line :: nat
  an_local :: string
  an_context :: "string option"

record parsed_anchor =
  pa_line :: nat
  pa_local :: string
  pa_context :: "string option"

definition anchor_render :: "anchor \<Rightarrow> string" where
  "anchor_render a =
     (case an_context a of
        Some ctx \<Rightarrow> show_nat (an_line a) @ '':'' @ an_local a @ '':'' @ ctx
      | None \<Rightarrow> show_nat (an_line a) @ '':'' @ an_local a)"

definition is_ascii_lowercase :: "char \<Rightarrow> bool" where
  "is_ascii_lowercase c \<longleftrightarrow> 97 \<le> (of_char c :: nat) \<and> (of_char c :: nat) \<le> 122"

text \<open>\<open>s.split_once(c)\<close> for an ASCII character, and \<open>s.splitn(3, c)\<close> by two of them.\<close>

definition split_once_char :: "char \<Rightarrow> string \<Rightarrow> (string \<times> string) option" where
  "split_once_char c s = map_option (\<lambda>i. (take i s, drop (Suc i) s)) (find_char c s)"

definition parse_parts :: "string \<Rightarrow> string \<Rightarrow> string option \<Rightarrow> parsed_anchor option" where
  "parse_parts line_str local ctx =
     (if line_str = [] \<or> local = [] then None
      else case parse_uint 64 line_str of
             None \<Rightarrow> None
           | Some line \<Rightarrow>
               if line = 0 \<or> \<not> list_all is_ascii_lowercase local
                  \<or> (case ctx of Some c \<Rightarrow> c = [] \<or> \<not> list_all is_ascii_lowercase c | None \<Rightarrow> False)
                 then None
                 else Some \<lparr>pa_line = line, pa_local = local, pa_context = ctx\<rparr>)"

definition parsed_anchor_parse :: "string \<Rightarrow> parsed_anchor option" where
  "parsed_anchor_parse s =
     (case split_once_char CHR '':'' s of
        None \<Rightarrow> None
      | Some (line_str, rest) \<Rightarrow>
          (case split_once_char CHR '':'' rest of
             None \<Rightarrow> parse_parts line_str rest None
           | Some (local, ctx) \<Rightarrow> parse_parts line_str local (Some ctx)))"

definition parsed_anchor_render :: "parsed_anchor \<Rightarrow> string" where
  "parsed_anchor_render a =
     (case pa_context a of
        Some ctx \<Rightarrow> show_nat (pa_line a) @ '':'' @ pa_local a @ '':'' @ ctx
      | None \<Rightarrow> show_nat (pa_line a) @ '':'' @ pa_local a)"

datatype validation_result = Valid | Stale | OutOfRange

datatype shift_result = Shift_Found nat | Shift_Ambiguous "nat list" | Shift_NotFound

definition DEFAULT_SEARCH_RADIUS :: nat where
  "DEFAULT_SEARCH_RADIUS = 15"

text \<open>
  The operations of the trait. The generic search uses the hash length and the validation of the
  scheme that calls it.
\<close>

record line_scheme =
  scheme_name :: string
  scheme_hash_len :: nat
  generate_anchors :: "string list \<Rightarrow> anchor list"
  scheme_validate :: "parsed_anchor \<Rightarrow> string list \<Rightarrow> validation_result"
  validation_window_lines :: "nat \<Rightarrow> nat \<Rightarrow> nat"
  find_shifted :: "parsed_anchor \<Rightarrow> string list \<Rightarrow> nat \<Rightarrow> shift_result"

definition shift_candidate ::
  "nat \<Rightarrow> (parsed_anchor \<Rightarrow> string list \<Rightarrow> validation_result) \<Rightarrow> parsed_anchor \<Rightarrow> string list \<Rightarrow> nat \<Rightarrow> bool" where
  "shift_candidate hash_len validate a lines idx \<longleftrightarrow>
     idx \<noteq> pa_line a - 1
     \<and> (let local = encode_hash (line_hash (lines ! idx)) hash_len
        in local = pa_local a
           \<and> (pa_context a \<noteq> None \<longrightarrow>
                validate \<lparr>pa_line = idx + 1, pa_local = local, pa_context = pa_context a\<rparr> lines = Valid))"

definition find_shifted_generic ::
  "nat \<Rightarrow> (parsed_anchor \<Rightarrow> string list \<Rightarrow> validation_result)
     \<Rightarrow> parsed_anchor \<Rightarrow> string list \<Rightarrow> nat \<Rightarrow> shift_result" where
  "find_shifted_generic hash_len validate a lines search_radius =
     (let orig_idx = pa_line a - 1;
          start = orig_idx - search_radius;
          end = min (orig_idx + search_radius + 1) (length lines);
          candidates = map Suc (filter (shift_candidate hash_len validate a lines) [start..<end])
      in case candidates of
           [] \<Rightarrow> Shift_NotFound
         | [new_line] \<Rightarrow> Shift_Found new_line
         | _ \<Rightarrow> Shift_Ambiguous candidates)"

section \<open>The three schemes\<close>

definition line_in_range :: "nat \<Rightarrow> string list \<Rightarrow> bool" where
  "line_in_range line lines \<longleftrightarrow> line \<noteq> 0 \<and> line - 1 < length lines"

definition content_only_validate :: "nat \<Rightarrow> parsed_anchor \<Rightarrow> string list \<Rightarrow> validation_result" where
  "content_only_validate n a lines =
     (if \<not> line_in_range (pa_line a) lines then OutOfRange
      else if pa_local a = encode_hash (line_hash (lines ! (pa_line a - 1))) n then Valid else Stale)"

definition content_only_generate :: "nat \<Rightarrow> string list \<Rightarrow> anchor list" where
  "content_only_generate n lines =
     map (\<lambda>(i, line). \<lparr>an_line = i + 1, an_local = encode_hash (line_hash line) n, an_context = None\<rparr>)
       (enumerate 0 lines)"

definition content_only :: "nat \<Rightarrow> line_scheme" where
  "content_only n =
     \<lparr>scheme_name = ''content_only_v1'', scheme_hash_len = n,
      generate_anchors = content_only_generate n,
      scheme_validate = content_only_validate n,
      validation_window_lines = \<lambda>_ _. 1,
      find_shifted = find_shifted_generic n (content_only_validate n)\<rparr>"

text \<open>A scheme with a context: the local hash first, then the fingerprint of the place.\<close>

definition context_validate ::
  "nat \<Rightarrow> (string list \<Rightarrow> nat \<Rightarrow> string) \<Rightarrow> parsed_anchor \<Rightarrow> string list \<Rightarrow> validation_result" where
  "context_validate n fingerprint a lines =
     (if \<not> line_in_range (pa_line a) lines then OutOfRange
      else if pa_local a \<noteq> encode_hash (line_hash (lines ! (pa_line a - 1))) n then Stale
      else case pa_context a of
             None \<Rightarrow> Stale
           | Some ctx \<Rightarrow> if ctx \<noteq> fingerprint lines (pa_line a - 1) then Stale else Valid)"

definition mix_lines :: "32 word \<Rightarrow> string list \<Rightarrow> 32 word" where
  "mix_lines h lines = foldl (\<lambda>h line. mix h (line_hash line)) h lines"

definition DEFAULT_CHUNK_SIZE :: nat where
  "DEFAULT_CHUNK_SIZE = 16"

definition chunk_fingerprint :: "nat \<Rightarrow> nat \<Rightarrow> string list \<Rightarrow> nat \<Rightarrow> string" where
  "chunk_fingerprint n csize lines idx =
     (let chunk_start = (idx div csize) * csize;
          chunk_end = min (chunk_start + csize) (length lines)
      in encode_hash (mix_lines (fnv1a_32 ''chunk'') (take (chunk_end - chunk_start) (drop chunk_start lines))) n)"

definition div_ceil :: "nat \<Rightarrow> nat \<Rightarrow> nat" where
  "div_ceil a b = a div b + (if a mod b = 0 then 0 else 1)"

definition chunk_generate :: "nat \<Rightarrow> nat \<Rightarrow> string list \<Rightarrow> anchor list" where
  "chunk_generate n csize lines =
     (let chunk_fps = map (\<lambda>chunk_idx.
            let start = chunk_idx * csize; end = min (start + csize) (length lines)
            in encode_hash (mix_lines (fnv1a_32 ''chunk'') (take (end - start) (drop start lines))) n)
            [0..<div_ceil (length lines) csize]
      in map (\<lambda>(i, line). \<lparr>an_line = i + 1, an_local = encode_hash (line_hash line) n,
                an_context = Some (chunk_fps ! (i div csize))\<rparr>)
           (enumerate 0 lines))"

definition chunk_scheme :: "nat \<Rightarrow> nat \<Rightarrow> line_scheme" where
  "chunk_scheme n csize =
     \<lparr>scheme_name = ''chunk_v1'', scheme_hash_len = n,
      generate_anchors = chunk_generate n csize,
      scheme_validate = context_validate n (chunk_fingerprint n csize),
      validation_window_lines = \<lambda>_ total. min csize total,
      find_shifted = find_shifted_generic n (context_validate n (chunk_fingerprint n csize))\<rparr>"

definition DEFAULT_CHECKPOINT_INTERVAL :: nat where
  "DEFAULT_CHECKPOINT_INTERVAL = 32"

definition checkpoint_fingerprint :: "nat \<Rightarrow> nat \<Rightarrow> string list \<Rightarrow> nat \<Rightarrow> string" where
  "checkpoint_fingerprint n interval lines idx =
     (let checkpoint_start = (idx div interval) * interval
      in encode_hash (mix_lines (fnv1a_32 ''ckpt'')
           (take (Suc idx - checkpoint_start) (drop checkpoint_start lines))) n)"

fun checkpoint_loop :: "nat \<Rightarrow> nat \<Rightarrow> nat \<Rightarrow> 32 word \<Rightarrow> string list \<Rightarrow> anchor list" where
  "checkpoint_loop n interval i chain [] = []"
| "checkpoint_loop n interval i chain (line # lines) =
     (let chain = (if i mod interval = 0 then fnv1a_32 ''ckpt'' else chain);
          chain = mix chain (line_hash line)
      in \<lparr>an_line = i + 1, an_local = encode_hash (line_hash line) n,
          an_context = Some (encode_hash chain n)\<rparr>
         # checkpoint_loop n interval (i + 1) chain lines)"

definition checkpoint_scheme :: "nat \<Rightarrow> nat \<Rightarrow> line_scheme" where
  "checkpoint_scheme n interval =
     \<lparr>scheme_name = ''checkpoint_v1'', scheme_hash_len = n,
      generate_anchors = checkpoint_loop n interval 0 (fnv1a_32 ''ckpt''),
      scheme_validate = context_validate n (checkpoint_fingerprint n interval),
      validation_window_lines = \<lambda>idx _. idx - (idx div interval) * interval + 1,
      find_shifted = find_shifted_generic n (context_validate n (checkpoint_fingerprint n interval))\<rparr>"

text \<open>The constructors assert their parameters; \<open>None\<close> is the panic.\<close>

definition content_only_with_hash_len :: "nat \<Rightarrow> line_scheme option" where
  "content_only_with_hash_len n = (if 0 < n \<and> n \<le> 4 then Some (content_only n) else None)"

definition chunk_with_params :: "nat \<Rightarrow> nat \<Rightarrow> line_scheme option" where
  "chunk_with_params n csize = (if 0 < n \<and> n \<le> 4 \<and> 0 < csize then Some (chunk_scheme n csize) else None)"

definition checkpoint_with_params :: "nat \<Rightarrow> nat \<Rightarrow> line_scheme option" where
  "checkpoint_with_params n interval =
     (if 0 < n \<and> n \<le> 4 \<and> 0 < interval then Some (checkpoint_scheme n interval) else None)"

section \<open>Parameters\<close>

record scheme_params =
  sp_scheme :: string
  sp_hash_len :: nat
  sp_chunk_size :: nat

definition scheme_params_default :: scheme_params where
  "scheme_params_default = \<lparr>sp_scheme = ''chunk'', sp_hash_len = 3, sp_chunk_size = 8\<rparr>"

definition scheme_params_validate :: "scheme_params \<Rightarrow> string + unit" where
  "scheme_params_validate p =
     (if sp_scheme p \<notin> set [''chunk'', ''content_only''] then
        Inl (''unknown scheme '' @ [dquote] @ sp_scheme p @ [dquote] @ '': expected ''
             @ [dquote] @ ''chunk'' @ [dquote] @ '' or '' @ [dquote] @ ''content_only'' @ [dquote])
      else if sp_hash_len p = 0 \<or> sp_hash_len p > 4 then
        Inl (''hash_len must be 1..=4, got '' @ show_nat (sp_hash_len p))
      else if sp_scheme p = ''chunk'' \<and> sp_chunk_size p = 0 then Inl ''chunk_size must be > 0''
      else Inr ())"

text \<open>The outer option is the panic of a constructor.\<close>

definition build_scheme :: "scheme_params \<Rightarrow> (string + line_scheme) option" where
  "build_scheme p =
     (case scheme_params_validate p of
        Inl e \<Rightarrow> Some (Inl e)
      | Inr _ \<Rightarrow>
          map_option Inr
            (if sp_scheme p = ''content_only'' then content_only_with_hash_len (sp_hash_len p)
             else chunk_with_params (sp_hash_len p) (sp_chunk_size p)))"

section \<open>Lines of a file\<close>

definition split_lines :: "string \<Rightarrow> string list" where
  "split_lines content =
     (if content = [] then [[]]
      else str_lines content @ (if ends_with content [newline] then [[]] else []))"

section \<open>What a scheme promises\<close>

definition parsed_of :: "anchor \<Rightarrow> parsed_anchor" where
  "parsed_of a = \<lparr>pa_line = an_line a, pa_local = an_local a, pa_context = an_context a\<rparr>"

definition letters :: "string \<Rightarrow> bool" where
  "letters s \<longleftrightarrow> s \<noteq> [] \<and> list_all is_ascii_lowercase s"

text \<open>
  One anchor per line, in order, made of lower-case letters; an anchor validates exactly when
  its line is there and carries the parts that would be generated for it now.
\<close>

locale lawful_scheme =
  fixes s :: line_scheme
  assumes anchors_length: "length (generate_anchors s lines) = length lines"
    and anchor_line: "i < length lines \<Longrightarrow> an_line (generate_anchors s lines ! i) = i + 1"
    and anchor_local: "i < length lines \<Longrightarrow>
      an_local (generate_anchors s lines ! i) = encode_hash (line_hash (lines ! i)) (scheme_hash_len s)"
    and hash_len_pos: "0 < scheme_hash_len s"
    and context_letters: "i < length lines \<Longrightarrow>
      an_context (generate_anchors s lines ! i) = Some ctx \<Longrightarrow> letters ctx"
    and valid_iff: "scheme_validate s a lines = Valid \<longleftrightarrow>
      line_in_range (pa_line a) lines
      \<and> (let g = generate_anchors s lines ! (pa_line a - 1)
         in pa_local a = an_local g \<and> (an_context g \<noteq> None \<longrightarrow> pa_context a = an_context g))"
    and out_of_range_iff: "scheme_validate s a lines = OutOfRange \<longleftrightarrow> \<not> line_in_range (pa_line a) lines"
    and shift_search: "find_shifted s = find_shifted_generic (scheme_hash_len s) (scheme_validate s)"
begin

lemma fresh_valid:
  assumes "i < length lines"
  shows "scheme_validate s (parsed_of (generate_anchors s lines ! i)) lines = Valid"
  using assms anchor_line [OF assms] by (simp add: valid_iff parsed_of_def line_in_range_def)

lemma stale_in_range: "scheme_validate s a lines = Stale \<Longrightarrow> line_in_range (pa_line a) lines"
  using out_of_range_iff [of a lines] by auto

lemma valid_hash:
  assumes "scheme_validate s a lines = Valid"
  shows "pa_line a - 1 < length lines" "0 < pa_line a"
    and "pa_local a = encode_hash (line_hash (lines ! (pa_line a - 1))) (scheme_hash_len s)"
  using assms anchor_local [of "pa_line a - 1" lines] unfolding valid_iff
  by (auto simp: Let_def line_in_range_def)

end

lemma encode_hash_length [simp]: "length (encode_hash h n) = n"
  by (simp add: encode_hash_def)

lemma encode_hash_letters:
  assumes "0 < n" shows "letters (encode_hash h n)"
proof -
  have "is_ascii_lowercase (char_of (m + 97 :: nat))" if "m < 26" for m
  proof -
    have "(of_char (char_of (m + 97 :: nat)) :: nat) = m + 97" using that by (simp add: of_char_of)
    with that show ?thesis by (simp add: is_ascii_lowercase_def)
  qed
  moreover have "unat (drop_bit k h mod 26) < 26" for k
    by (simp add: unat_mod)
  ultimately show ?thesis using assms by (simp add: letters_def encode_hash_def list_all_iff)
qed

text \<open>The precomputed and the incremental fingerprints are those that validation recomputes.\<close>

lemma content_only_nth:
  "i < length lines \<Longrightarrow> content_only_generate n lines ! i =
     \<lparr>an_line = i + 1, an_local = encode_hash (line_hash (lines ! i)) n, an_context = None\<rparr>"
  by (simp add: content_only_generate_def nth_enumerate_eq)

lemma chunk_nth:
  assumes "0 < csize" "i < length lines"
  shows "chunk_generate n csize lines ! i =
     \<lparr>an_line = i + 1, an_local = encode_hash (line_hash (lines ! i)) n,
      an_context = Some (chunk_fingerprint n csize lines i)\<rparr>"
proof -
  have "i div csize < div_ceil (length lines) csize"
  proof (cases "csize dvd length lines")
    case True
    then obtain k where "length lines = csize * k" by (rule dvdE)
    with assms show ?thesis by (simp add: div_ceil_def less_mult_imp_div_less mult.commute)
  next
    case False
    with assms(2) div_le_mono [of i "length lines" csize] show ?thesis
      by (simp add: div_ceil_def mod_eq_0_iff_dvd)
  qed
  with assms(2) show ?thesis
    by (simp add: chunk_generate_def nth_enumerate_eq chunk_fingerprint_def Let_def)
qed

text \<open>The state of the chain before line \<open>i\<close>: everything since the last checkpoint.\<close>

lemma checkpoint_loop_nth:
  assumes "0 < interval"
    and "i mod interval \<noteq> 0 \<Longrightarrow>
      chain = mix_lines (fnv1a_32 ''ckpt'') (drop (i div interval * interval) pre)"
    and "length pre = i" "j < length lines"
  shows "checkpoint_loop n interval i chain lines ! j =
     \<lparr>an_line = i + j + 1, an_local = encode_hash (line_hash (lines ! j)) n,
      an_context = Some (checkpoint_fingerprint n interval (pre @ lines) (i + j))\<rparr>"
  using assms(2-)
proof (induction lines arbitrary: i j chain pre)
  case (Cons line lines)
  define chain' where
    "chain' = mix (if i mod interval = 0 then fnv1a_32 ''ckpt'' else chain) (line_hash line)"
  have le: "i div interval * interval \<le> i" by simp
  have chain': "chain' = mix_lines (fnv1a_32 ''ckpt'') (drop (i div interval * interval) (pre @ [line]))"
    using Cons.prems(1,2) le by (cases "i mod interval = 0")
      (auto simp: chain'_def mix_lines_def mod_eq_0_iff_dvd)
  show ?case
  proof (cases j)
    case 0
    with Cons.prems(2) le chain' show ?thesis
      by (simp add: checkpoint_fingerprint_def Let_def chain'_def Suc_diff_le)
  next
    case (Suc k)
    have "chain' = mix_lines (fnv1a_32 ''ckpt'') (drop (Suc i div interval * interval) (pre @ [line]))"
      if "Suc i mod interval \<noteq> 0"
    proof -
      from that have "Suc i div interval = i div interval" by (simp add: div_Suc)
      with chain' show ?thesis by simp
    qed
    from Cons.IH [of "Suc i" chain' "pre @ [line]" k, OF this] Cons.prems Suc show ?thesis
      by (simp add: chain'_def Let_def)
  qed
qed simp

lemma checkpoint_loop_length [simp]: "length (checkpoint_loop n interval i chain lines) = length lines"
  by (induction lines arbitrary: i chain) (simp_all add: Let_def)

lemma checkpoint_nth:
  assumes "0 < interval" "i < length lines"
  shows "checkpoint_loop n interval 0 (fnv1a_32 ''ckpt'') lines ! i =
     \<lparr>an_line = i + 1, an_local = encode_hash (line_hash (lines ! i)) n,
      an_context = Some (checkpoint_fingerprint n interval lines i)\<rparr>"
  using checkpoint_loop_nth [of interval 0 _ "[]" i lines n] assms by simp

lemma fingerprint_letters:
  "0 < n \<Longrightarrow> letters (chunk_fingerprint n csize lines i)"
  "0 < n \<Longrightarrow> letters (checkpoint_fingerprint n interval lines i)"
  by (simp_all add: chunk_fingerprint_def checkpoint_fingerprint_def Let_def encode_hash_letters)

lemma context_validate_cases:
  "context_validate n fp a lines = Valid \<longleftrightarrow> line_in_range (pa_line a) lines
     \<and> pa_local a = encode_hash (line_hash (lines ! (pa_line a - 1))) n
     \<and> pa_context a = Some (fp lines (pa_line a - 1))"
  "context_validate n fp a lines = OutOfRange \<longleftrightarrow> \<not> line_in_range (pa_line a) lines"
  by (auto simp: context_validate_def split: option.splits)

interpretation content: lawful_scheme "content_only (Suc n)" for n
  by unfold_locales (auto simp: content_only_def content_only_nth content_only_validate_def
      content_only_generate_def [THEN arg_cong, of length] line_in_range_def)

interpretation chunk: lawful_scheme "chunk_scheme (Suc n) (Suc k)" for n k
  by unfold_locales (auto simp: chunk_scheme_def chunk_nth context_validate_cases line_in_range_def
      Let_def fingerprint_letters chunk_generate_def [THEN arg_cong, of length])

interpretation checkpoint: lawful_scheme "checkpoint_scheme (Suc n) (Suc k)" for n k
  by unfold_locales (auto simp: checkpoint_nth context_validate_cases line_in_range_def
      Let_def fingerprint_letters checkpoint_scheme_def)

text \<open>Every scheme that the constructors, and so the parameters, yield is one of these.\<close>

definition constructed :: "line_scheme \<Rightarrow> bool" where
  "constructed s \<longleftrightarrow>
     (\<exists>n. content_only_with_hash_len n = Some s) \<or> (\<exists>n k. chunk_with_params n k = Some s)
     \<or> (\<exists>n k. checkpoint_with_params n k = Some s)"

lemma constructed_lawful:
  assumes "constructed s" shows "lawful_scheme s"
  using assms content.lawful_scheme_axioms chunk.lawful_scheme_axioms checkpoint.lawful_scheme_axioms
  by (auto simp: constructed_def content_only_with_hash_len_def chunk_with_params_def
      checkpoint_with_params_def split: if_splits dest!: Suc_pred [symmetric]) (metis Suc_pred)+

lemma constructedI:
  "0 < n \<Longrightarrow> n \<le> 4 \<Longrightarrow> constructed (content_only n)"
  "0 < n \<Longrightarrow> n \<le> 4 \<Longrightarrow> 0 < k \<Longrightarrow> constructed (chunk_scheme n k)"
  "0 < n \<Longrightarrow> n \<le> 4 \<Longrightarrow> 0 < k \<Longrightarrow> constructed (checkpoint_scheme n k)"
  unfolding constructed_def content_only_with_hash_len_def chunk_with_params_def checkpoint_with_params_def
  by metis+

lemma build_scheme_constructed:
  assumes "build_scheme p = Some (Inr s)" shows "constructed s"
  using assms by (auto simp: build_scheme_def constructed_def split: sum.splits if_splits)

section \<open>Reading an anchor back\<close>

lemma find_char_append:
  "c \<notin> set xs \<Longrightarrow> find_char c (xs @ c # ys) = Some (length xs)"
  by (induction xs) auto

lemma split_once_char_append:
  "c \<notin> set xs \<Longrightarrow> split_once_char c (xs @ c # ys) = Some (xs, ys)"
  by (simp add: split_once_char_def find_char_append)

lemma split_once_char_None: "c \<notin> set xs \<Longrightarrow> split_once_char c xs = None"
  by (induction xs) (auto simp: split_once_char_def)

lemma colon_not_in:
  "letters s \<Longrightarrow> CHR '':'' \<notin> set s" "CHR '':'' \<notin> set (show_nat n)"
  using show_nat_digits [of "CHR '':''" n]
  by (auto simp: letters_def list_all_iff is_ascii_lowercase_def is_digit_def)

lemma parse_render:
  assumes "0 < an_line a" "an_line a < 2 ^ 64" "letters (an_local a)"
    and "\<And>ctx. an_context a = Some ctx \<Longrightarrow> letters ctx"
  shows "parsed_anchor_parse (anchor_render a) = Some (parsed_of a)"
  using assms parse_show_nat [OF assms(2)] show_nat_facts [of "an_line a"]
  by (cases "an_context a")
    (auto simp: anchor_render_def parsed_anchor_parse_def split_once_char_append split_once_char_None
      colon_not_in parse_parts_def parsed_of_def letters_def)

end
