(* ===== verification/Edit_Output.thy ===== *)
theory Edit_Output
  imports Rust_Num
begin

text \<open>
  What the editing tools share: the text of a file (\<open>String::from_utf8_lossy\<close>), the faults of the
  file system, and the answer \<open>SearchReplaceOutput\<close> (\<open>gbuild-tools/src/types/output.rs\<close>).
\<close>

section \<open>Text of a file\<close>

text \<open>
  \<open>String::from_utf8_lossy\<close>: a well-formed character is kept, and each maximal beginning of one
  becomes U+FFFD. \<open>lossy_len\<close> counts the bytes that are accepted; bytes past the end read as zero.
\<close>

definition utf8_width :: "char \<Rightarrow> nat" where
  "utf8_width a =
     (if byte_in 0 127 a then 1 else if byte_in 194 223 a then 2
      else if byte_in 224 239 a then 3 else if byte_in 240 244 a then 4 else 0)"

definition utf8_second_ok :: "char \<Rightarrow> char \<Rightarrow> bool" where
  "utf8_second_ok a b \<longleftrightarrow>
     (if byte_in 224 224 a then byte_in 160 191 b
      else if byte_in 237 237 a then byte_in 128 159 b
      else if byte_in 240 240 a then byte_in 144 191 b
      else if byte_in 244 244 a then byte_in 128 143 b
      else cont_byte b)"

definition byte_at :: "string \<Rightarrow> nat \<Rightarrow> char" where
  "byte_at s i = (if i < length s then s ! i else CHR 0x00)"

definition lossy_len :: "string \<Rightarrow> nat" where
  "lossy_len s =
     (let w = utf8_width (byte_at s 0)
      in if w \<le> 1 \<or> \<not> utf8_second_ok (byte_at s 0) (byte_at s 1) then 1
         else if w = 2 \<or> \<not> cont_byte (byte_at s 2) then 2
         else if w = 3 \<or> \<not> cont_byte (byte_at s 3) then 3 else 4)"

definition replacement_char :: string where
  "replacement_char = [CHR 0xEF, CHR 0xBF, CHR 0xBD]"

function (sequential) from_utf8_lossy :: "string \<Rightarrow> string" where
  "from_utf8_lossy [] = []"
| "from_utf8_lossy (c # s) =
     (let n = lossy_len (c # s)
      in (if n = utf8_width c then take n (c # s) else replacement_char)
         @ from_utf8_lossy (drop n (c # s)))"
  by pat_completeness auto
termination
  by (relation "measure length") (auto simp: lossy_len_def Let_def)

text \<open>The arrow that separates a line number from the line.\<close>

definition arrow :: string where
  "arrow = [CHR 0xE2, CHR 0x86, CHR 0x92]"

section \<open>Faults of the file system\<close>

text \<open>\<open>io_error_kind\<close> of an error, as far as the tools tell the kinds apart, and its text.\<close>

datatype io_kind =
    Io_NotFound | Io_AlreadyExists | Io_InvalidFilename | Io_IsADirectory | Io_PermissionDenied | Io_Other

record io_fault =
  io_kind_of :: io_kind
  io_text :: string

section \<open>The answer of an edit\<close>

record search_replace_detail =
  sd_old_string :: string
  sd_old_line :: nat
  sd_new_string :: string
  sd_new_line :: nat
  sd_context_before :: string
  sd_context_after :: string
  sd_line_prefix :: string

text \<open>The field \<open>patch\<close> of the result is always empty in these tools and is left out.\<close>

record search_replace_applied =
  sr_old_string :: string
  sr_new_string :: string
  sr_output_for_prompt :: string
  sr_output_for_prompt_concise :: "string option"
  sr_absolute_path :: string
  sr_details :: "search_replace_detail list"
  sr_unicode_normalized :: bool

datatype search_replace_output =
    SR_FileAlreadyExists string
  | SR_EditsApplied search_replace_applied
  | SR_MultipleMatchesFound string
  | SR_NoMatchesFound string string
  | SR_InvalidInput string
  | SR_FileNotFound string
  | SR_FilenameTooLong string

section \<open>Reading text\<close>

lemma utf8_char_ok_cases:
  assumes "utf8_char_ok w"
  obtains a where "w = [a]" "byte_in 0 127 a"
  | a b where "w = [a, b]" "byte_in 194 223 a" "cont_byte b"
  | a b c where "w = [a, b, c]" "byte_in 224 239 a" "utf8_second_ok a b" "cont_byte c"
  | a b c d where "w = [a, b, c, d]" "byte_in 240 244 a" "utf8_second_ok a b" "cont_byte c" "cont_byte d"
  using assms
  by (auto simp: utf8_char_ok_def utf8_second_ok_def byte_in_def Let_def split: list.splits)

lemma lossy_len_valid:
  assumes "utf8_char_ok w"
  shows "lossy_len (w @ s) = length w" "utf8_width (hd w) = length w"
  using assms
  by (cases rule: utf8_char_ok_cases;
      auto simp: lossy_len_def utf8_width_def byte_at_def Let_def byte_in_def utf8_second_ok_def
        numeral_2_eq_2 numeral_3_eq_3)+

text \<open>Well-formed text is read as it is.\<close>

lemma from_utf8_lossy_chars:
  "list_all utf8_char_ok ws \<Longrightarrow> from_utf8_lossy (concat ws) = concat ws"
proof (induction ws)
  case (Cons w ws)
  then have ok: "utf8_char_ok w" by simp
  then obtain c t where w: "w = c # t" by (cases rule: utf8_char_ok_cases) auto
  with lossy_len_valid(1) [OF ok, of "concat ws"] lossy_len_valid(2) [OF ok] Cons show ?case by simp
qed simp

lemma from_utf8_lossy_valid: "utf8_valid s \<Longrightarrow> from_utf8_lossy s = s"
  using from_utf8_lossy_chars [of "chars s"] by (simp add: utf8_valid_def concat_chars)

end
