(* ===== verification/Hashline_Edit.thy ===== *)
theory Hashline_Edit
  imports Line_Anchors Edit_Output
begin

text \<open>
  The \<open>hashline_edit\<close> tool (\<open>gbuild_hashline/edit/\<close> \<open>types.rs\<close>, \<open>range_policy.rs\<close>, \<open>apply.rs\<close>, the
  conversion of its result in \<open>mod.rs\<close>, and the rendering of anchored lines in \<open>read_file.rs\<close>): a
  batch of edits is resolved against the file by its anchors, refused as a whole if an anchor is
  stale or two edits overlap, and applied from the bottom up. \<open>None\<close> is a panic: an index or a
  slice out of range, or a subtraction below zero.
\<close>

section \<open>Types\<close>

datatype hashline_op =
    Op_Replace string "string option" string
  | Op_InsertAfter string string
  | Op_Write string

datatype edit_error_kind =
    AnchorStale | AmbiguousAnchor | AnchorNotFound | FileNotFound | OverlappingEdits | InvalidInput | IoError

record edit_error =
  ee_kind :: edit_error_kind
  ee_message :: string
  ee_requested_anchor :: "string option"
  ee_current :: "string option"
  ee_context :: "string option"
  ee_context_start_line :: "nat option"
  ee_shifted_to :: "nat option"
  ee_shifted_anchor :: "string option"
  ee_ambiguous_candidates :: "nat list"

record edits_applied =
  ea_applied :: nat
  ea_scheme :: string
  ea_snippet_start_line :: nat
  ea_snippet :: string
  ea_absolute_path :: string
  ea_warnings :: "string list"

datatype edit_output = EditsApplied edits_applied | Edit_Error edit_error

record edit_region_detail =
  ed_old_line :: nat
  ed_old_text :: string
  ed_new_line :: nat
  ed_new_text :: string

record apply_result =
  ar_output :: edit_output
  ar_new_content :: "string option"
  ar_edit_details :: "edit_region_detail list"

text \<open>A resolved operation: lines \<open>start\<close> to \<open>end\<close> (exclusive, from zero) are replaced.\<close>

record resolved_op =
  ro_original_idx :: nat
  ro_start :: nat
  ro_end :: nat
  ro_new_lines :: "string list"

section \<open>Range policy\<close>

datatype range_size = Range_Small | Range_Medium | Range_Large

definition classify_range :: "nat \<Rightarrow> range_size" where
  "classify_range line_count =
     (if line_count \<le> 5 then Range_Small else if line_count \<le> 20 then Range_Medium else Range_Large)"

definition range_warning :: "nat \<Rightarrow> nat \<Rightarrow> string option" where
  "range_warning start end =
     (let count = end - start in
      case classify_range count of
        Range_Large \<Rightarrow>
          Some (''Caution: large range edit ('' @ show_nat count @ '' lines, lines '' @ show_nat (start + 1)
            @ ''-'' @ show_nat end @ ''). Verify the target range is correct.'')
      | Range_Medium \<Rightarrow>
          Some (''Note: medium range edit ('' @ show_nat count @ '' lines, lines '' @ show_nat (start + 1)
            @ ''-'' @ show_nat end @ '').'')
      | Range_Small \<Rightarrow> None)"

section \<open>Anchored lines\<close>

definition anchor_suffix :: "anchor \<Rightarrow> string" where
  "anchor_suffix a = (case an_context a of Some ctx \<Rightarrow> an_local a @ '':'' @ ctx | None \<Rightarrow> an_local a)"

definition render_anchored_line :: "anchor \<Rightarrow> string \<Rightarrow> string" where
  "render_anchored_line a content = show_nat (an_line a) @ '':'' @ anchor_suffix a @ arrow @ content"

definition format_hashline_content ::
  "line_scheme \<Rightarrow> string \<Rightarrow> nat option \<Rightarrow> nat option \<Rightarrow> (string \<times> string) option" where
  "format_hashline_content scheme file_content offset limit =
     (let all_lines = split_lines file_content;
          anchors = generate_anchors scheme all_lines;
          skip = (case offset of Some n \<Rightarrow> n | None \<Rightarrow> 1) - 1;
          picked = drop skip (enumerate 0 all_lines);
          picked = (case limit of Some n \<Rightarrow> take n picked | None \<Rightarrow> picked)
      in map_option (\<lambda>ps. (join [newline] (map fst ps), join [newline] (map snd ps)))
           (traverse (\<lambda>(i, line).
              map_option (\<lambda>a. (show_nat (i + 1) @ '':'' @ anchor_suffix a @ arrow @ line, line))
                (nth_opt anchors i)) picked))"

text \<open>\<open>s.split_once(p)\<close> for a string.\<close>

definition split_once_str :: "string \<Rightarrow> string \<Rightarrow> (string \<times> string) option" where
  "split_once_str p s =
     map_option (\<lambda>k. (take k s, drop (k + length p) s))
       (find (\<lambda>k. prefix p (drop k s)) [0..<Suc (length s)])"

definition looks_like_anchor :: "string option \<Rightarrow> bool" where
  "looks_like_anchor pre \<longleftrightarrow>
     (case pre of
        Some b \<Rightarrow> length b \<le> 25 \<and> CHR '':'' \<in> set b \<and> CHR '' '' \<notin> set b
      | None \<Rightarrow> False)"

definition detect_anchor_prefix_in_content :: "string \<Rightarrow> nat option" where
  "detect_anchor_prefix_in_content content =
     map_option Suc
       (find (\<lambda>i. let s = trim_start (str_lines content ! i)
            in looks_like_anchor (map_option fst (split_once_str arrow s))
               \<or> looks_like_anchor (map_option fst (split_once_str ''->'' s)))
          [0..<length (str_lines content)])"

section \<open>Errors\<close>

definition plain_error :: "edit_error_kind \<Rightarrow> string \<Rightarrow> string option \<Rightarrow> edit_error" where
  "plain_error kind message requested =
     \<lparr>ee_kind = kind, ee_message = message, ee_requested_anchor = requested, ee_current = None,
      ee_context = None, ee_context_start_line = None, ee_shifted_to = None, ee_shifted_anchor = None,
      ee_ambiguous_candidates = []\<rparr>"

definition anchor_content_error :: "string \<Rightarrow> string \<Rightarrow> nat \<Rightarrow> edit_error" where
  "anchor_content_error op_label content line_num =
     (let lines = str_lines content;
          offending_line = (case nth_opt lines (line_num - 1) of Some l \<Rightarrow> l | None \<Rightarrow> []);
          ctx_start = line_num - 1 - 1;
          ctx_end = min (line_num + 1) (length lines);
          ctx = join [newline] (map (\<lambda>i.
              (if i + 1 = line_num then ''>>>'' else ''   '') @ '' line '' @ show_nat (i + 1) @ '': '' @ lines ! i)
            [ctx_start..<ctx_end])
      in \<lparr>ee_kind = InvalidInput,
          ee_message = op_label @ '' content contains anchor prefixes (e.g. '' @ [dquote] @ ''22:abc:rst'' @ arrow
            @ [dquote] @ '') copied from hashline_read output. The first offending line is line ''
            @ show_nat line_num @ ''. Strip the anchor prefixes and the '' @ arrow
            @ '' separator from every line, keeping only the actual file content, then retry.'',
          ee_requested_anchor = None, ee_current = Some offending_line, ee_context = Some ctx,
          ee_context_start_line = Some (ctx_start + 1), ee_shifted_to = None, ee_shifted_anchor = None,
          ee_ambiguous_candidates = []\<rparr>)"

definition anchor_format_hint :: "line_scheme \<Rightarrow> string \<times> string" where
  "anchor_format_hint scheme =
     (let len = min 4 (max 1 (scheme_hash_len scheme));
          hash = take len ''abcd''
      in case generate_anchors scheme [''x''] of
           a # _ \<Rightarrow>
             if an_context a \<noteq> None then (''LINE:HASH1:HASH2'', ''22:'' @ hash @ '':'' @ take len ''rstu'')
             else (''LINE:HASH'', ''22:'' @ hash)
         | [] \<Rightarrow> (''LINE:HASH'', ''22:'' @ hash))"

section \<open>Resolving an anchor\<close>

definition suffix_matches :: "string \<Rightarrow> anchor \<Rightarrow> bool" where
  "suffix_matches sfx a \<longleftrightarrow>
     (case (an_context a, split_once_char CHR '':'' sfx) of
        (Some ctx, Some (local, sfx_ctx)) \<Rightarrow> an_local a = local \<and> ctx = sfx_ctx
      | (None, None) \<Rightarrow> an_local a = sfx
      | _ \<Rightarrow> False)"

definition recover_anchor_by_suffix :: "line_scheme \<Rightarrow> string \<Rightarrow> string list \<Rightarrow> parsed_anchor option" where
  "recover_anchor_by_suffix scheme sfx lines =
     (case filter (suffix_matches sfx) (generate_anchors scheme lines) of
        [a] \<Rightarrow> Some (parsed_of a)
      | _ \<Rightarrow> None)"

text \<open>\<open>{:?}\<close> of a vector of numbers.\<close>

definition show_nats :: "nat list \<Rightarrow> string" where
  "show_nats ns = ''['' @ join '', '' (map show_nat ns) @ '']''"

definition stale_error ::
  "line_scheme \<Rightarrow> string \<Rightarrow> parsed_anchor \<Rightarrow> string list \<Rightarrow> edit_error option" where
  "stale_error scheme anchor_str parsed lines =
     (let shift = find_shifted scheme parsed lines DEFAULT_SEARCH_RADIUS;
          anchors = generate_anchors scheme lines;
          ctx_start = pa_line parsed - 1 - 5;
          ctx_end = min (pa_line parsed + 5) (length lines);
          anchored = (\<lambda>i. map_option (\<lambda>a. render_anchored_line a (lines ! i)) (nth_opt anchors i));
          idx = pa_line parsed - 1
      in case traverse anchored [ctx_start..<ctx_end] of
           None \<Rightarrow> None
         | Some rendered \<Rightarrow>
             (case (if idx < length lines then map_option Some (anchored idx) else Some None) of
                None \<Rightarrow> None
              | Some current \<Rightarrow>
                  let error = (\<lambda>kind message shifted_to shifted_anchor candidates.
                        \<lparr>ee_kind = kind, ee_message = message, ee_requested_anchor = Some anchor_str,
                         ee_current = current, ee_context = Some (join [newline] rendered),
                         ee_context_start_line = Some (ctx_start + 1), ee_shifted_to = shifted_to,
                         ee_shifted_anchor = shifted_anchor, ee_ambiguous_candidates = candidates\<rparr>);
                      at_line = ''Anchor stale at line '' @ show_nat (pa_line parsed) @ ''. ''
                  in case shift of
                       Shift_Found new_line \<Rightarrow>
                         (case nth_opt anchors (new_line - 1) of
                            None \<Rightarrow> None
                          | Some a \<Rightarrow>
                              let fresh = show_nat new_line @ '':'' @ anchor_suffix a
                              in Some (error AnchorStale
                                   (at_line @ ''Content appears to have shifted to line '' @ show_nat new_line
                                    @ ''. Retry with anchor '' @ [dquote] @ fresh @ [dquote] @ ''.'')
                                   (Some new_line) (Some fresh) []))
                     | Shift_Ambiguous candidates \<Rightarrow>
                         Some (error AmbiguousAnchor
                           (at_line @ ''Multiple candidates at lines '' @ show_nats candidates
                            @ ''. Use the fresh anchors from the context below to retry your edit.'')
                           None None candidates)
                     | Shift_NotFound \<Rightarrow>
                         Some (error AnchorStale
                           (at_line @ ''Use the fresh anchors from the context below to retry your edit.'')
                           None None [])))"

definition strip_arrow :: "string \<Rightarrow> string" where
  "strip_arrow s =
     (case split_once_str arrow s of
        Some (pre, _) \<Rightarrow> pre
      | None \<Rightarrow> (case split_once_str ''->'' s of Some (pre, _) \<Rightarrow> pre | None \<Rightarrow> s))"

definition validate_parsed ::
  "line_scheme \<Rightarrow> string \<Rightarrow> parsed_anchor \<Rightarrow> string list \<Rightarrow> (edit_error + nat) option" where
  "validate_parsed scheme anchor_str parsed lines =
     (case scheme_validate scheme parsed lines of
        Valid \<Rightarrow> if pa_line parsed = 0 then None else Some (Inr (pa_line parsed - 1))
      | OutOfRange \<Rightarrow>
          Some (Inl (plain_error AnchorNotFound
            (''Line '' @ show_nat (pa_line parsed) @ '' is out of range (file has '' @ show_nat (length lines)
             @ '' lines).'') (Some anchor_str)))
      | Stale \<Rightarrow> map_option Inl (stale_error scheme anchor_str parsed lines))"

definition validate_anchor ::
  "line_scheme \<Rightarrow> string \<Rightarrow> string list \<Rightarrow> (edit_error + nat) option" where
  "validate_anchor scheme anchor_str lines =
     (let anchor_str = strip_arrow anchor_str
      in case parsed_anchor_parse anchor_str of
           Some parsed \<Rightarrow> validate_parsed scheme anchor_str parsed lines
         | None \<Rightarrow>
             (case recover_anchor_by_suffix scheme anchor_str lines of
                Some recovered \<Rightarrow> validate_parsed scheme anchor_str recovered lines
              | None \<Rightarrow>
                  let (fmt, ex) = anchor_format_hint scheme
                  in Some (Inl (plain_error InvalidInput
                       (''Malformed anchor: '' @ [dquote] @ anchor_str @ [dquote] @ ''. Expected format: ''
                        @ [dquote] @ fmt @ [dquote] @ '' (e.g. '' @ [dquote] @ ex @ [dquote] @ '').'')
                       (Some anchor_str)))))"

section \<open>Resolving an operation\<close>

definition content_lines :: "string \<Rightarrow> string list \<Rightarrow> string list" where
  "content_lines content blank = (if content = [] then blank else str_lines content)"

definition eof_position :: "string list \<Rightarrow> nat" where
  "eof_position lines =
     (let len = length lines in if len > 1 \<and> lines ! (len - 1) = [] then len - 1 else len)"

text \<open>The answer of a panic, of an error, or the continuation with the value.\<close>

definition and_then :: "('e + 'a) option \<Rightarrow> ('a \<Rightarrow> ('e + 'b) option) \<Rightarrow> ('e + 'b) option" where
  "and_then r k = (case r of None \<Rightarrow> None | Some (Inl e) \<Rightarrow> Some (Inl e) | Some (Inr x) \<Rightarrow> k x)"

definition replaced_end ::
  "line_scheme \<Rightarrow> string list \<Rightarrow> nat \<Rightarrow> string option \<Rightarrow> (edit_error + nat) option" where
  "replaced_end scheme lines start end_anchor =
     (case end_anchor of
        Some ea \<Rightarrow>
          and_then (validate_anchor scheme ea lines)
            (\<lambda>e. if e < start then
                   Some (Inl (plain_error InvalidInput
                     (''end_anchor line '' @ show_nat (e + 1) @ '' is before start anchor line ''
                      @ show_nat (start + 1) @ ''.'') (Some ea)))
                 else Some (Inr (e + 1)))
      | None \<Rightarrow> Some (Inr (start + 1)))"

definition finish_op ::
  "string \<Rightarrow> nat \<Rightarrow> nat \<Rightarrow> nat \<Rightarrow> string \<Rightarrow> string list \<Rightarrow> (edit_error + resolved_op) option" where
  "finish_op label original_idx start end content blank =
     (case detect_anchor_prefix_in_content content of
        Some line_num \<Rightarrow> Some (Inl (anchor_content_error label content line_num))
      | None \<Rightarrow>
          Some (Inr \<lparr>ro_original_idx = original_idx, ro_start = start, ro_end = end,
                     ro_new_lines = content_lines content blank\<rparr>))"

fun resolve_op ::
  "line_scheme \<Rightarrow> string list \<Rightarrow> nat \<Rightarrow> hashline_op \<Rightarrow> (edit_error + resolved_op) option" where
  "resolve_op scheme lines original_idx (Op_Replace anchor end_anchor content) =
     and_then (validate_anchor scheme anchor lines)
       (\<lambda>start. and_then (replaced_end scheme lines start end_anchor)
          (\<lambda>end. finish_op ''replace'' original_idx start end content []))"
| "resolve_op scheme lines original_idx (Op_InsertAfter anchor content) =
     and_then (if anchor = ''0:'' then Some (Inr 0)
               else if anchor = ''EOF'' then Some (Inr (eof_position lines))
               else and_then (validate_anchor scheme anchor lines) (\<lambda>line. Some (Inr (line + 1))))
       (\<lambda>insert_at. finish_op ''insert_after'' original_idx insert_at insert_at content [[]])"
| "resolve_op scheme lines original_idx (Op_Write _) =
     Some (Inl (plain_error InvalidInput
       ''Write op must be the only operation in a batch. Either use write alone (to replace the entire file) or use replace/insert_after ops without write.''
       None))"

fun op_label :: "hashline_op \<Rightarrow> string" where
  "op_label (Op_Replace _ _ _) = ''replace''"
| "op_label (Op_InsertAfter _ _) = ''insert_after''"
| "op_label (Op_Write _) = ''write''"

definition batch_error :: "nat \<Rightarrow> nat \<Rightarrow> hashline_op \<Rightarrow> edit_error \<Rightarrow> edit_error" where
  "batch_error count idx op e =
     (if count > 1 then
        e\<lparr>ee_message := ''Edit '' @ show_nat (idx + 1) @ ''/'' @ show_nat count @ '' ('' @ op_label op @ ''): ''
            @ ee_message e @ [newline, newline] @ ''This batch contained '' @ show_nat count
            @ '' edits. Because this anchor failed validation, none of the edits were applied. Retry all ''
            @ show_nat count @ '' edits with fresh anchors, not just the failed one.''\<rparr>
      else e)"

fun resolve_loop ::
  "line_scheme \<Rightarrow> string list \<Rightarrow> nat \<Rightarrow> nat \<Rightarrow> hashline_op list \<Rightarrow> (edit_error + resolved_op list) option" where
  "resolve_loop scheme lines count idx [] = Some (Inr [])"
| "resolve_loop scheme lines count idx (op # ops) =
     (case resolve_op scheme lines idx op of
        None \<Rightarrow> None
      | Some (Inl e) \<Rightarrow> Some (Inl (batch_error count idx op e))
      | Some (Inr r) \<Rightarrow>
          and_then (resolve_loop scheme lines count (idx + 1) ops) (\<lambda>rs. Some (Inr (r # rs))))"

section \<open>Overlaps\<close>

definition edit_desc :: "nat \<Rightarrow> nat \<Rightarrow> nat \<Rightarrow> string" where
  "edit_desc start end idx =
     (if start = end then
        ''edit #'' @ show_nat (idx + 1) @ '' (insertion at line '' @ show_nat (start + 1) @ '')''
      else ''edit #'' @ show_nat (idx + 1) @ '' (lines '' @ show_nat (start + 1) @ ''-'' @ show_nat end @ '')'')"

definition overlap_error :: "nat \<times> nat \<times> nat \<Rightarrow> nat \<times> nat \<times> nat \<Rightarrow> edit_error" where
  "overlap_error a b =
     (case (a, b) of ((a_start, a_end, a_idx), (b_start, b_end, b_idx)) \<Rightarrow>
        plain_error OverlappingEdits
          (''Overlapping edits: '' @ edit_desc a_start a_end a_idx @ '' and ''
           @ edit_desc b_start b_end b_idx @ ''.'') None)"

definition op_range :: "resolved_op \<Rightarrow> nat \<times> nat \<times> nat" where
  "op_range op = (ro_start op, ro_end op, ro_original_idx op)"

definition replaced_ranges :: "resolved_op list \<Rightarrow> (nat \<times> nat \<times> nat) list" where
  "replaced_ranges ops = sort_key fst (map op_range (filter (\<lambda>op. ro_start op \<noteq> ro_end op) ops))"

text \<open>The insertions inside a replaced range, with that range, in the order of the two loops.\<close>

definition inserted_inside :: "resolved_op list \<Rightarrow> ((nat \<times> nat \<times> nat) \<times> resolved_op) list" where
  "inserted_inside ops =
     concat (map (\<lambda>op. map (\<lambda>r. (r, op))
         (filter (\<lambda>r. fst r \<le> ro_start op \<and> ro_start op < fst (snd r)) (replaced_ranges ops)))
       (filter (\<lambda>op. ro_start op = ro_end op) ops))"

definition check_overlaps :: "resolved_op list \<Rightarrow> edit_error option" where
  "check_overlaps ops =
     (let ranges = replaced_ranges ops
      in case find (\<lambda>(a, b). fst (snd a) > fst b) (zip ranges (tl ranges)) of
           Some (a, b) \<Rightarrow> Some (overlap_error a b)
         | None \<Rightarrow>
             (case inserted_inside ops of
                (r, op) # _ \<Rightarrow> Some (overlap_error r (op_range op))
              | [] \<Rightarrow> None))"

definition batch_overlap :: "nat \<Rightarrow> edit_error \<Rightarrow> edit_error" where
  "batch_overlap count e =
     (if count > 1 then
        e\<lparr>ee_message := ee_message e @ [newline, newline] @ ''This batch contained '' @ show_nat count
            @ '' edits. Because of the overlap, none were applied. Fix the overlapping ranges and retry all edits.''\<rparr>
      else e)"

section \<open>Application\<close>

text \<open>\<open>Vec::splice\<close>, and \<open>as usize\<close> on a signed number.\<close>

definition splice :: "nat \<Rightarrow> nat \<Rightarrow> 'a list \<Rightarrow> 'a list \<Rightarrow> 'a list option" where
  "splice start end new xs =
     (if start \<le> end \<and> end \<le> length xs then Some (take start xs @ new @ drop end xs) else None)"

definition as_usize :: "int \<Rightarrow> nat" where
  "as_usize i = nat (i mod 2 ^ 64)"

fun splice_all :: "resolved_op list \<Rightarrow> string list \<Rightarrow> string list option" where
  "splice_all [] lines = Some lines"
| "splice_all (op # ops) lines =
     (case splice (ro_start op) (ro_end op) (ro_new_lines op) lines of
        None \<Rightarrow> None
      | Some lines' \<Rightarrow> splice_all ops lines')"

text \<open>\<open>resolved.sort_by\<close>: from the bottom up, later requests first at the same line.\<close>

definition bottom_up :: "resolved_op list \<Rightarrow> resolved_op list" where
  "bottom_up ops = rev (sort_key ro_start (sort_key ro_original_idx ops))"

text \<open>The regions of the new file that the edits cover, from the top down.\<close>

fun region_loop ::
  "string list \<Rightarrow> resolved_op list \<Rightarrow> int \<Rightarrow> ((nat \<times> nat) \<times> edit_region_detail) list option" where
  "region_loop lines [] shift = Some []"
| "region_loop lines (op # ops) shift =
     (if ro_end op < ro_start op \<or> (ro_start op < ro_end op \<and> length lines < ro_end op) then None
      else
        let shifted_start = as_usize (int (ro_start op) + shift);
            inserted = length (ro_new_lines op);
            old_text = join [newline] (take (ro_end op - ro_start op) (drop (ro_start op) lines));
            detail = \<lparr>ed_old_line = ro_start op + 1, ed_old_text = old_text,
                      ed_new_line = shifted_start + 1, ed_new_text = join [newline] (ro_new_lines op)\<rparr>
        in map_option ((#) ((shifted_start, shifted_start + inserted), detail))
             (region_loop lines ops (shift + int inserted - int (ro_end op - ro_start op))))"

definition SNIPPET_CONTEXT :: nat where "SNIPPET_CONTEXT = 3"

definition MAX_CONTIGUOUS_SNIPPET :: nat where "MAX_CONTIGUOUS_SNIPPET = 80"

fun merge_regions :: "nat \<Rightarrow> (nat \<times> nat) list \<Rightarrow> (nat \<times> nat) list \<Rightarrow> (nat \<times> nat) list" where
  "merge_regions count [] merged = merged"
| "merge_regions count ((start, end) # regions) merged =
     (let ctx_start = start - SNIPPET_CONTEXT; ctx_end = min (end + SNIPPET_CONTEXT) count
      in if merged \<noteq> [] \<and> ctx_start \<le> snd (last merged)
         then merge_regions count regions (butlast merged @ [(fst (last merged), max (snd (last merged)) ctx_end)])
         else merge_regions count regions (merged @ [(ctx_start, ctx_end)]))"

definition lines_not_shown :: "nat \<Rightarrow> string" where
  "lines_not_shown n = ''... '' @ show_nat n @ '' lines not shown ...''"

fun snippet_parts ::
  "line_scheme \<Rightarrow> string \<Rightarrow> nat \<Rightarrow> nat \<Rightarrow> nat \<Rightarrow> (nat \<times> nat) list \<Rightarrow> string list option" where
  "snippet_parts scheme content count i prev_end [] =
     Some (if prev_end < count then [lines_not_shown (count - prev_end)] else [])"
| "snippet_parts scheme content count i prev_end ((start, end) # regions) =
     (if end < start then None
      else case format_hashline_content scheme content (Some (start + 1)) (Some (end - start)) of
             None \<Rightarrow> None
           | Some (region_snippet, _) \<Rightarrow>
               map_option (\<lambda>parts.
                   (if i > 0 then [lines_not_shown (start - prev_end)]
                    else if start > 0 then [lines_not_shown start] else [])
                   @ region_snippet # parts)
                 (snippet_parts scheme content count (i + 1) end regions))"

definition build_snippet ::
  "line_scheme \<Rightarrow> string \<Rightarrow> (nat \<times> nat) list \<Rightarrow> nat \<Rightarrow> string option" where
  "build_snippet scheme content regions count =
     (if regions = [] then Some []
      else
        let global_start = fst (hd regions) - SNIPPET_CONTEXT;
            global_end = min (snd (last regions) + SNIPPET_CONTEXT) count
        in if global_end < global_start then None
           else if global_end - global_start \<le> MAX_CONTIGUOUS_SNIPPET then
             map_option fst
               (format_hashline_content scheme content (Some (global_start + 1)) (Some (global_end - global_start)))
           else map_option (join [newline]) (snippet_parts scheme content count 0 0 (merge_regions count regions [])))"

definition failed :: "edit_error \<Rightarrow> apply_result" where
  "failed e = \<lparr>ar_output = Edit_Error e, ar_new_content = None, ar_edit_details = []\<rparr>"

definition build_write_result :: "line_scheme \<Rightarrow> string \<Rightarrow> string \<Rightarrow> edit_output option" where
  "build_write_result scheme file_path content =
     (let snippet_end = min (SNIPPET_CONTEXT * 2) (length (split_lines content))
      in map_option (\<lambda>(snippet, _). EditsApplied
             \<lparr>ea_applied = 1, ea_scheme = scheme_name scheme, ea_snippet_start_line = 1, ea_snippet = snippet,
              ea_absolute_path = file_path, ea_warnings = []\<rparr>)
           (format_hashline_content scheme content (Some 1) (Some snippet_end)))"

definition apply_write :: "line_scheme \<Rightarrow> string \<Rightarrow> string \<Rightarrow> apply_result option" where
  "apply_write scheme file_path content =
     (case detect_anchor_prefix_in_content content of
        Some line_num \<Rightarrow> Some (failed (anchor_content_error ''write'' content line_num))
      | None \<Rightarrow>
          map_option (\<lambda>out. \<lparr>ar_output = out, ar_new_content = Some content, ar_edit_details = []\<rparr>)
            (build_write_result scheme file_path content))"

definition apply_resolved ::
  "line_scheme \<Rightarrow> string \<Rightarrow> nat \<Rightarrow> string list \<Rightarrow> resolved_op list \<Rightarrow> apply_result option" where
  "apply_resolved scheme file_path count lines resolved =
     (let warnings = List.map_filter (\<lambda>op. range_warning (ro_start op) (ro_end op)) resolved;
          resolved = bottom_up resolved
      in case region_loop lines (rev resolved) 0 of
           None \<Rightarrow> None
         | Some tracked \<Rightarrow>
             (case splice_all resolved lines of
                None \<Rightarrow> None
              | Some result_lines \<Rightarrow>
                  let new_content = join [newline] result_lines;
                      regions = sort_key fst (map fst tracked)
                  in map_option (\<lambda>snippet.
                         \<lparr>ar_output = EditsApplied
                            \<lparr>ea_applied = count, ea_scheme = scheme_name scheme,
                             ea_snippet_start_line =
                               (case regions of r # _ \<Rightarrow> fst r - SNIPPET_CONTEXT + 1 | [] \<Rightarrow> 1),
                             ea_snippet = snippet, ea_absolute_path = file_path, ea_warnings = warnings\<rparr>,
                          ar_new_content = Some new_content, ar_edit_details = map snd tracked\<rparr>)
                       (build_snippet scheme new_content regions (length (split_lines new_content)))))"

definition apply_edits ::
  "line_scheme \<Rightarrow> string \<Rightarrow> string \<Rightarrow> hashline_op list \<Rightarrow> apply_result option" where
  "apply_edits scheme file_path content ops =
     (case ops of
        [Op_Write new_content] \<Rightarrow> apply_write scheme file_path new_content
      | _ \<Rightarrow>
          let lines = split_lines content
          in case resolve_loop scheme lines (length ops) 0 ops of
               None \<Rightarrow> None
             | Some (Inl e) \<Rightarrow> Some (failed e)
             | Some (Inr resolved) \<Rightarrow>
                 (case check_overlaps resolved of
                    Some e \<Rightarrow> Some (failed (batch_overlap (length ops) e))
                  | None \<Rightarrow> apply_resolved scheme file_path (length ops) lines resolved))"

end
