(* ===== verification/Hashline_Correct.thy ===== *)
theory Hashline_Correct
  imports Hashline_Edit
begin

text \<open>
  Correctness of \<open>hashline_edit\<close>: what an anchor names, what a batch of edits makes of a file, and
  that the tool never panics. The lemmas about anchors are proved in the locale of the lawful
  schemes; the properties are about every scheme that the constructors yield.
\<close>

section \<open>What an anchor names\<close>

text \<open>
  The text, without what follows an arrow, gives the line and the parts that line carries now;
  or it leaves out the line number, and the parts are those of this line alone.
\<close>

definition anchor_names :: "line_scheme \<Rightarrow> string list \<Rightarrow> string \<Rightarrow> nat \<Rightarrow> bool" where
  "anchor_names s lines str i \<longleftrightarrow>
     i < length lines
     \<and> (let g = generate_anchors s lines ! i; text = strip_arrow str
        in (\<exists>p. parsed_anchor_parse text = Some p \<and> pa_line p = i + 1 \<and> pa_local p = an_local g
              \<and> (an_context g \<noteq> None \<longrightarrow> pa_context p = an_context g))
           \<or> (parsed_anchor_parse text = None \<and> suffix_matches text g
              \<and> (\<forall>j < length lines. suffix_matches text (generate_anchors s lines ! j) \<longrightarrow> j = i)))"

text \<open>What an operation asks for, as the lines it replaces and what it puts there.\<close>

definition op_places :: "resolved_op \<Rightarrow> nat \<Rightarrow> nat \<Rightarrow> string list \<Rightarrow> bool" where
  "op_places r lo hi new \<longleftrightarrow> ro_start r = lo \<and> ro_end r = hi \<and> ro_new_lines r = new"

fun op_effect :: "line_scheme \<Rightarrow> string list \<Rightarrow> hashline_op \<Rightarrow> resolved_op \<Rightarrow> bool" where
  "op_effect s lines (Op_Replace a None c) r \<longleftrightarrow>
     (\<exists>i. anchor_names s lines a i \<and> op_places r i (i + 1) (content_lines c []))"
| "op_effect s lines (Op_Replace a (Some b) c) r \<longleftrightarrow>
     (\<exists>i j. anchor_names s lines a i \<and> anchor_names s lines b j \<and> i \<le> j
        \<and> op_places r i (j + 1) (content_lines c []))"
| "op_effect s lines (Op_InsertAfter a c) r \<longleftrightarrow>
     (\<exists>p. op_places r p p (content_lines c [[]])
        \<and> (if a = ''0:'' then p = 0 else if a = ''EOF'' then p = eof_position lines
           else \<exists>i. anchor_names s lines a i \<and> p = i + 1))"
| "op_effect s lines (Op_Write c) r \<longleftrightarrow> False"

fun op_content :: "hashline_op \<Rightarrow> string" where
  "op_content (Op_Replace _ _ c) = c"
| "op_content (Op_InsertAfter _ c) = c"
| "op_content (Op_Write c) = c"

text \<open>
  Two edits conflict when one replaces a line that the other replaces or inserts at.
\<close>

definition covers :: "resolved_op \<Rightarrow> nat \<Rightarrow> bool" where
  "covers r p \<longleftrightarrow> ro_start r \<le> p \<and> p < ro_end r"

definition touches :: "resolved_op \<Rightarrow> nat \<Rightarrow> bool" where
  "touches r p \<longleftrightarrow> covers r p \<or> p = ro_start r"

definition conflict :: "resolved_op \<Rightarrow> resolved_op \<Rightarrow> bool" where
  "conflict a b \<longleftrightarrow> (\<exists>p. (covers a p \<and> touches b p) \<or> (touches a p \<and> covers b p))"

text \<open>
  All edits at once: before each line come the new lines of the edits that start there, in the
  order of the request, and a line stays unless an edit covers it.
\<close>

definition new_at :: "resolved_op list \<Rightarrow> nat \<Rightarrow> string list" where
  "new_at rs p = concat (map ro_new_lines (filter (\<lambda>r. ro_start r = p) rs))"

definition covered :: "resolved_op list \<Rightarrow> nat \<Rightarrow> bool" where
  "covered rs p \<longleftrightarrow> list_ex (\<lambda>r. ro_start r \<le> p \<and> p < ro_end r) rs"

definition edited :: "resolved_op list \<Rightarrow> string list \<Rightarrow> string list" where
  "edited rs lines =
     concat (map (\<lambda>p. new_at rs p @ (if covered rs p then [] else [lines ! p])) [0..<length lines])
     @ new_at rs (length lines)"

section \<open>Resolving\<close>

lemma and_then_Inr:
  "and_then r k = Some (Inr y) \<longleftrightarrow> (\<exists>x. r = Some (Inr x) \<and> k x = Some (Inr y))"
  by (auto simp: and_then_def split: option.splits sum.splits)

lemma and_then_total: "r \<noteq> None \<Longrightarrow> (\<And>x. k x \<noteq> None) \<Longrightarrow> and_then r k \<noteq> None"
  by (auto simp: and_then_def split: option.splits sum.splits)

lemma nth_opt_total: "i < length xs \<Longrightarrow> nth_opt xs i = Some (xs ! i)"
  by (simp add: nth_opt_def)

lemma filter_singletonD:
  assumes "filter P xs = [x]"
  obtains i where "i < length xs" "xs ! i = x" "P x" "\<And>j. j < length xs \<Longrightarrow> P (xs ! j) \<Longrightarrow> j = i"
proof -
  from assms obtain us vs where xs: "xs = us @ x # vs" "\<forall>u \<in> set us. \<not> P u" "P x" "filter P vs = []"
    by (auto simp: filter_eq_Cons_iff)
  have "j = length us" if "j < length xs" "P (xs ! j)" for j
  proof (cases j "length us" rule: linorder_cases)
    case less
    then have "xs ! j \<in> set us" using xs(1) by (simp add: nth_append)
    with xs(2) that(2) show ?thesis by blast
  next
    case greater
    then have "xs ! j = vs ! (j - Suc (length us))" "j - Suc (length us) < length vs"
      using xs(1) that(1) by (simp_all add: nth_append nth_Cons')
    then have "xs ! j \<in> set vs" by simp
    with xs(4) that(2) show ?thesis by (auto simp: filter_empty_conv)
  qed
  with xs show thesis by (intro that [of "length us"]) auto
qed

lemma filter_singletonI:
  assumes "i < length xs" "P (xs ! i)" "\<And>j. j < length xs \<Longrightarrow> P (xs ! j) \<Longrightarrow> j = i"
  shows "filter P xs = [xs ! i]"
proof -
  have "\<not> P y" if "y \<in> set (take i xs)" for y
  proof
    assume "P y"
    from that assms(1) obtain j where "j < i" "y = xs ! j" by (auto simp: in_set_conv_nth)
    with assms(1) assms(3) [of j] \<open>P y\<close> show False by auto
  qed
  moreover have "\<not> P y" if "y \<in> set (drop (Suc i) xs)" for y
  proof
    assume "P y"
    from that obtain k where "k < length xs - Suc i" "y = xs ! (Suc i + k)" by (auto simp: in_set_conv_nth)
    with assms(3) [of "Suc i + k"] \<open>P y\<close> show False by force
  qed
  ultimately have "filter P (take i xs @ xs ! i # drop (Suc i) xs) = [xs ! i]"
    using assms(2) by (simp add: filter_empty_conv)
  then show ?thesis using id_take_nth_drop [OF assms(1)] by simp
qed

lemma validate_anchor_parsed:
  assumes "parsed_anchor_parse (strip_arrow str) = Some p
    \<or> (parsed_anchor_parse (strip_arrow str) = None
       \<and> recover_anchor_by_suffix s (strip_arrow str) lines = Some p)"
  shows "validate_anchor s str lines = validate_parsed s (strip_arrow str) p lines"
  using assms unfolding validate_anchor_def Let_def by auto

lemma validate_anchor_malformed:
  assumes "parsed_anchor_parse (strip_arrow str) = None"
    and "recover_anchor_by_suffix s (strip_arrow str) lines = None"
  shows "\<exists>e. validate_anchor s str lines = Some (Inl e)"
  using assms unfolding validate_anchor_def Let_def case_prod_unfold by (simp only: option.case) blast

context lawful_scheme
begin

lemma recover_iff:
  "recover_anchor_by_suffix s sfx lines = Some p \<longleftrightarrow>
     (\<exists>i < length lines. suffix_matches sfx (generate_anchors s lines ! i)
        \<and> (\<forall>j < length lines. suffix_matches sfx (generate_anchors s lines ! j) \<longrightarrow> j = i)
        \<and> p = parsed_of (generate_anchors s lines ! i))"
proof -
  let ?g = "generate_anchors s lines"
  have "recover_anchor_by_suffix s sfx lines = Some p \<longleftrightarrow>
      (\<exists>a. filter (suffix_matches sfx) ?g = [a] \<and> p = parsed_of a)"
    by (auto simp: recover_anchor_by_suffix_def split: list.splits)
  also have "\<dots> \<longleftrightarrow> (\<exists>i < length ?g. suffix_matches sfx (?g ! i)
      \<and> (\<forall>j < length ?g. suffix_matches sfx (?g ! j) \<longrightarrow> j = i) \<and> p = parsed_of (?g ! i))"
    (is "?l \<longleftrightarrow> ?r")
  proof
    assume ?l
    then obtain a where "filter (suffix_matches sfx) ?g = [a]" "p = parsed_of a" by blast
    then show ?r by (elim filter_singletonD) blast
  next
    assume ?r
    then show ?l using filter_singletonI [of _ ?g "suffix_matches sfx"] by blast
  qed
  finally show ?thesis by (simp add: anchors_length)
qed

lemma validate_parsed_iff:
  "validate_parsed s str p lines = Some (Inr i) \<longleftrightarrow> scheme_validate s p lines = Valid \<and> pa_line p = i + 1"
  using valid_hash [of p lines]
  by (auto simp: validate_parsed_def split: validation_result.splits)

lemma valid_at:
  assumes "pa_line p = i + 1"
  shows "scheme_validate s p lines = Valid \<longleftrightarrow>
     i < length lines \<and> pa_local p = an_local (generate_anchors s lines ! i)
     \<and> (an_context (generate_anchors s lines ! i) \<noteq> None \<longrightarrow>
          pa_context p = an_context (generate_anchors s lines ! i))"
  using assms by (simp add: valid_iff line_in_range_def Let_def)

lemma validate_named:
  assumes "parsed_anchor_parse (strip_arrow str) = Some p"
  shows "validate_anchor s str lines = Some (Inr i) \<longleftrightarrow> anchor_names s lines str i"
proof -
  have "anchor_names s lines str i \<longleftrightarrow> scheme_validate s p lines = Valid \<and> pa_line p = i + 1"
    unfolding anchor_names_def Let_def assms by (metis option.distinct(1) option.inject valid_at)
  moreover have "validate_anchor s str lines = validate_parsed s (strip_arrow str) p lines"
    using assms by (intro validate_anchor_parsed) simp
  ultimately show ?thesis by (simp only: validate_parsed_iff)
qed

lemma validate_recovered:
  assumes "parsed_anchor_parse (strip_arrow str) = None"
  shows "validate_anchor s str lines = Some (Inr i) \<longleftrightarrow> anchor_names s lines str i"
proof
  let ?g = "generate_anchors s lines" and ?t = "strip_arrow str"
  assume valid: "validate_anchor s str lines = Some (Inr i)"
  then have "recover_anchor_by_suffix s ?t lines \<noteq> None"
    using validate_anchor_malformed [OF assms, of s lines] by force
  then obtain p where p: "recover_anchor_by_suffix s ?t lines = Some p" by blast
  then obtain k where k: "k < length lines" "suffix_matches ?t (?g ! k)" "p = parsed_of (?g ! k)"
    "\<forall>j < length lines. suffix_matches ?t (?g ! j) \<longrightarrow> j = k"
    unfolding recover_iff by blast
  have "pa_line p = i + 1"
    using valid validate_anchor_parsed [of str p s lines] assms p validate_parsed_iff by simp
  with k(3) anchor_line [OF k(1)] have "k = i" by (simp add: parsed_of_def)
  with k assms show "anchor_names s lines str i" unfolding anchor_names_def Let_def by blast
next
  let ?g = "generate_anchors s lines" and ?t = "strip_arrow str"
  assume "anchor_names s lines str i"
  with assms have i: "i < length lines" "suffix_matches ?t (?g ! i)"
    "\<forall>j < length lines. suffix_matches ?t (?g ! j) \<longrightarrow> j = i"
    unfolding anchor_names_def Let_def by simp_all
  then have "recover_anchor_by_suffix s ?t lines = Some (parsed_of (?g ! i))" unfolding recover_iff by blast
  moreover have "pa_line (parsed_of (?g ! i)) = i + 1" using anchor_line [OF i(1)] by (simp add: parsed_of_def)
  ultimately show "validate_anchor s str lines = Some (Inr i)"
    using validate_anchor_parsed [of str "parsed_of (?g ! i)" s lines] assms fresh_valid [OF i(1)]
    by (simp add: validate_parsed_iff)
qed

lemma validate_anchor_iff:
  "validate_anchor s str lines = Some (Inr i) \<longleftrightarrow> anchor_names s lines str i"
  by (cases "parsed_anchor_parse (strip_arrow str)") (simp_all only: validate_named validate_recovered)

lemma shift_found_in_range:
  assumes "find_shifted s p lines radius = Shift_Found new_line"
  shows "new_line - 1 < length lines"
proof -
  let ?c = "map Suc (filter (shift_candidate (scheme_hash_len s) (scheme_validate s) p lines)
      [pa_line p - 1 - radius..<min (pa_line p - 1 + radius + 1) (length lines)])"
  have "?c = [new_line]"
    using assms unfolding shift_search find_shifted_generic_def Let_def by (auto split: list.splits)
  then have "new_line \<in> set ?c" by simp
  then show ?thesis by auto
qed

lemma stale_error_total:
  assumes "line_in_range (pa_line p) lines"
  shows "stale_error s str p lines \<noteq> None"
proof -
  have "traverse (\<lambda>i. map_option (\<lambda>a. render_anchored_line a (lines ! i)) (nth_opt (generate_anchors s lines) i))
      [a..<min b (length lines)] \<noteq> None" for a b
    using anchors_length [of lines] by (auto simp: traverse_None)
  then show ?thesis
    using assms anchors_length [of lines] shift_found_in_range [of p lines DEFAULT_SEARCH_RADIUS]
    unfolding stale_error_def Let_def line_in_range_def
    by (auto split: option.splits shift_result.splits)
qed

lemma validate_parsed_total: "validate_parsed s str p lines \<noteq> None"
  using valid_hash(2) [of p lines] stale_error_total [of p lines str] stale_in_range [of p lines]
  by (auto simp: validate_parsed_def split: validation_result.splits)

lemma validate_anchor_total: "validate_anchor s str lines \<noteq> None"
proof (cases "\<exists>p. parsed_anchor_parse (strip_arrow str) = Some p
    \<or> (parsed_anchor_parse (strip_arrow str) = None
       \<and> recover_anchor_by_suffix s (strip_arrow str) lines = Some p)")
  case True
  then show ?thesis using validate_anchor_parsed [of str _ s lines] validate_parsed_total by metis
next
  case False
  then have "\<exists>e. validate_anchor s str lines = Some (Inl e)"
    by (intro validate_anchor_malformed) (metis not_None_eq)+
  then show ?thesis by auto
qed

text \<open>A resolved operation does what was asked, inside the file.\<close>

lemma names_in_range: "anchor_names s lines str i \<Longrightarrow> i < length lines"
  by (simp add: anchor_names_def)

lemma finish_op_Inr:
  "finish_op label idx start end content blank = Some (Inr r) \<longleftrightarrow>
     op_places r start end (content_lines content blank) \<and> ro_original_idx r = idx
     \<and> detect_anchor_prefix_in_content content = None"
  by (cases r) (auto simp: finish_op_def op_places_def split: option.splits)

lemma replaced_end_Inr:
  "replaced_end s lines start b = Some (Inr e) \<longleftrightarrow>
     (case b of None \<Rightarrow> e = start + 1
      | Some ea \<Rightarrow> \<exists>j. anchor_names s lines ea j \<and> start \<le> j \<and> e = j + 1)"
  by (cases b) (auto simp: replaced_end_def and_then_Inr validate_anchor_iff not_less split: if_splits)

lemma insert_place_Inr:
  "(if a = ''0:'' then Some (Inr 0) else if a = ''EOF'' then Some (Inr (eof_position lines))
    else and_then (validate_anchor s a lines) (\<lambda>line. Some (Inr (line + 1)))) = Some (Inr p :: edit_error + nat)
   \<longleftrightarrow> (if a = ''0:'' then p = 0 else if a = ''EOF'' then p = eof_position lines
        else \<exists>i. anchor_names s lines a i \<and> p = i + 1)"
  by (auto simp: and_then_Inr validate_anchor_iff)

lemma resolve_op_iff:
  "resolve_op s lines idx op = Some (Inr r) \<longleftrightarrow>
     op_effect s lines op r \<and> ro_original_idx r = idx \<and> detect_anchor_prefix_in_content (op_content op) = None"
proof (cases op)
  case (Op_Replace a b c)
  then show ?thesis
    by (cases b) (auto simp: and_then_Inr validate_anchor_iff replaced_end_Inr finish_op_Inr)
next
  case (Op_InsertAfter a c)
  show ?thesis
    unfolding Op_InsertAfter resolve_op.simps op_effect.simps op_content.simps and_then_Inr insert_place_Inr finish_op_Inr
    by blast
qed simp

lemma op_effect_range:
  assumes "op_effect s lines op r"
  shows "ro_start r \<le> ro_end r \<and> ro_end r \<le> length lines"
proof (cases op)
  case (Op_Replace a b c)
  with assms show ?thesis by (cases b) (auto simp: op_places_def dest: names_in_range)
next
  case (Op_InsertAfter a c)
  have "eof_position lines \<le> length lines" by (simp add: eof_position_def Let_def)
  with Op_InsertAfter assms show ?thesis
    by (auto simp: op_places_def Suc_le_eq dest: names_in_range split: if_splits)
qed (use assms in simp)

lemma resolve_op_total: "resolve_op s lines idx op \<noteq> None"
proof -
  have "finish_op label idx start end content blank \<noteq> None" for label start "end" content blank
    by (auto simp: finish_op_def split: option.splits)
  moreover have "replaced_end s lines start b \<noteq> None" for start b
    by (cases b) (simp_all add: replaced_end_def and_then_total validate_anchor_total del: not_None_eq)
  ultimately show ?thesis
    by (cases op) (simp_all add: and_then_total validate_anchor_total del: not_None_eq)
qed

lemma resolve_loop_iff:
  "resolve_loop s lines count idx ops = Some (Inr rs) \<longleftrightarrow>
     list_all2 (op_effect s lines) ops rs \<and> map ro_original_idx rs = [idx..<idx + length ops]
     \<and> list_all (\<lambda>op. detect_anchor_prefix_in_content (op_content op) = None) ops"
proof (induction ops arbitrary: idx rs)
  case (Cons op ops)
  have "resolve_loop s lines count idx (op # ops) = Some (Inr rs) \<longleftrightarrow>
      (\<exists>r rs'. rs = r # rs' \<and> resolve_op s lines idx op = Some (Inr r)
         \<and> resolve_loop s lines count (idx + 1) ops = Some (Inr rs'))"
    by (auto simp: and_then_Inr split: option.splits sum.splits)
  also have "\<dots> \<longleftrightarrow> list_all2 (op_effect s lines) (op # ops) rs
      \<and> map ro_original_idx rs = [idx..<idx + length (op # ops)]
      \<and> list_all (\<lambda>op. detect_anchor_prefix_in_content (op_content op) = None) (op # ops)"
    unfolding Cons.IH resolve_op_iff by (auto simp: list_all2_Cons1 upt_conv_Cons simp del: upt_Suc)
  finally show ?case .
qed auto

lemma resolve_loop_total: "resolve_loop s lines count idx ops \<noteq> None"
proof (induction ops arbitrary: idx)
  case (Cons op ops)
  with resolve_op_total [of lines idx op] show ?case
    by (auto intro!: and_then_total [unfolded not_None_eq] split: option.splits sum.splits)
qed simp

end

section \<open>Overlaps\<close>

lemma sorted_wrt_conj:
  "sorted_wrt P xs \<Longrightarrow> sorted_wrt Q xs \<Longrightarrow> sorted_wrt (\<lambda>x y. P x y \<and> Q x y) xs"
  by (induction xs) auto

lemma sorted_wrt_filter_iff:
  "sorted_wrt R (filter P xs) \<longleftrightarrow> sorted_wrt (\<lambda>x y. P x \<longrightarrow> P y \<longrightarrow> R x y) xs"
  by (induction xs) auto

lemma sorted_wrt_pair: "sorted_wrt R xs \<Longrightarrow> a \<in> set xs \<Longrightarrow> b \<in> set xs \<Longrightarrow> a \<noteq> b \<Longrightarrow> R a b \<or> R b a"
  by (induction xs) auto

lemma map_sort_key:
  assumes "\<And>x. f x = g (h x)"
  shows "map h (sort_key f xs) = sort_key g (map h xs)"
proof -
  have "map h (insort_key f x ys) = insort_key g (h x) (map h ys)" for x ys
    by (induction ys) (simp_all add: assms)
  then show ?thesis by (induction xs) simp_all
qed

lemma windows_disjoint:
  assumes "find (\<lambda>(a, b). fst (snd a) > fst b) (zip rs (tl rs)) = None"
    and "\<forall>r \<in> set rs. fst r < fst (snd r :: nat \<times> 'b)"
  shows "sorted_wrt (\<lambda>a b. fst (snd a) \<le> fst b) rs"
  using assms
proof (induction rs rule: induct_list012)
  case (3 x y zs)
  from 3(3) have xy: "fst (snd x) \<le> fst y" by (auto split: if_splits)
  have yz: "sorted_wrt (\<lambda>a b. fst (snd a) \<le> fst b) (y # zs)"
    using 3 by (auto split: if_splits)
  have "fst (snd x) \<le> fst z" if "z \<in> set zs" for z
    using xy yz that 3(4) by (fastforce dest: less_imp_le)
  with xy yz show ?case by simp
qed simp_all

text \<open>Without an overlap, each edit ends before the next begins.\<close>

definition in_sequence :: "resolved_op list \<Rightarrow> bool" where
  "in_sequence rs \<longleftrightarrow> sorted_wrt (\<lambda>a b. ro_end a \<le> ro_start b) rs"

lemma no_overlap_in_sequence:
  assumes "check_overlaps rs = None" "\<forall>r \<in> set rs. ro_start r \<le> ro_end r"
  shows "in_sequence (sort_key ro_start rs)"
proof -
  let ?P = "\<lambda>r. ro_start r \<noteq> ro_end r" and ?os = "sort_key ro_start rs"
  have apart: "find (\<lambda>(a, b). fst (snd a) > fst b) (zip (replaced_ranges rs) (tl (replaced_ranges rs))) = None"
    and inside: "inserted_inside rs = []"
    using assms(1) by (auto simp: check_overlaps_def Let_def split: option.splits prod.splits list.splits)
  have "\<forall>r \<in> set (replaced_ranges rs). fst r < fst (snd r)"
    using assms(2) by (auto simp: replaced_ranges_def op_range_def le_less)
  then have "sorted_wrt (\<lambda>a b. fst (snd a) \<le> fst b) (replaced_ranges rs)"
    by (rule windows_disjoint [OF apart])
  moreover have "replaced_ranges rs = map op_range (filter ?P ?os)"
    unfolding replaced_ranges_def filter_sort
    by (rule map_sort_key [symmetric]) (simp add: op_range_def)
  ultimately have repl: "sorted_wrt (\<lambda>a b. ?P a \<longrightarrow> ?P b \<longrightarrow> ro_end a \<le> ro_start b) ?os"
    by (simp add: sorted_wrt_map op_range_def sorted_wrt_filter_iff)
  have "sorted_wrt (\<lambda>a b. ro_start a \<le> ro_start b) ?os"
    using sorted_sort_key [of ro_start rs] by (simp add: sorted_map)
  from sorted_wrt_conj [OF repl this] show ?thesis unfolding in_sequence_def
  proof (rule sorted_wrt_mono_rel [rotated])
    fix a b
    assume ab: "a \<in> set ?os" "b \<in> set ?os"
      and h: "(?P a \<longrightarrow> ?P b \<longrightarrow> ro_end a \<le> ro_start b) \<and> ro_start a \<le> ro_start b"
    show "ro_end a \<le> ro_start b"
    proof (cases "?P a \<and> \<not> ?P b")
      case True
      with ab have "op_range a \<in> set (replaced_ranges rs)" "b \<in> set (filter (\<lambda>op. ro_start op = ro_end op) rs)"
        by (auto simp: replaced_ranges_def)
      with inside h have "\<not> (ro_start a \<le> ro_start b \<and> ro_start b < ro_end a)"
        by (force simp: inserted_inside_def op_range_def filter_empty_conv)
      with h show ?thesis by simp
    next
      case False
      with h show ?thesis by auto
    qed
  qed
qed

section \<open>Splicing from the bottom up\<close>

definition in_file :: "string list \<Rightarrow> resolved_op \<Rightarrow> bool" where
  "in_file lines r \<longleftrightarrow> ro_start r \<le> ro_end r \<and> ro_end r \<le> length lines"

fun assemble :: "string list \<Rightarrow> nat \<Rightarrow> resolved_op list \<Rightarrow> string list" where
  "assemble lines p [] = drop p lines"
| "assemble lines p (r # rs) =
     take (ro_start r - p) (drop p lines) @ ro_new_lines r @ assemble lines (ro_end r) rs"

lemma splice_all_append:
  "splice_all (xs @ ys) lines =
     (case splice_all xs lines of None \<Rightarrow> None | Some lines' \<Rightarrow> splice_all ys lines')"
  by (induction xs arbitrary: lines) (auto split: option.splits)

lemma splice_all_assemble:
  assumes "in_sequence os" "list_all (in_file lines) os" "\<forall>r \<in> set os. p \<le> ro_start r" "p \<le> length lines"
  shows "splice_all (rev os) lines = Some (take p lines @ assemble lines p os)"
  using assms
proof (induction os arbitrary: p)
  case (Cons r os)
  then have r: "p \<le> ro_start r" "ro_start r \<le> ro_end r" "ro_end r \<le> length lines"
    by (simp_all add: in_file_def)
  have "splice_all (rev os) lines = Some (take (ro_end r) lines @ assemble lines (ro_end r) os)"
    using Cons.prems r(3) by (intro Cons.IH) (simp_all add: in_sequence_def)
  moreover have "take (ro_start r) lines = take p lines @ take (ro_start r - p) (drop p lines)"
    using r(1) by (metis le_add_diff_inverse take_add)
  ultimately show ?case
    using r by (simp add: splice_all_append splice_def min_def)
qed simp

text \<open>The segments of the declarative reading, from a line on.\<close>

definition line_after :: "resolved_op list \<Rightarrow> string list \<Rightarrow> nat \<Rightarrow> string list" where
  "line_after rs lines p = new_at rs p @ (if covered rs p then [] else [lines ! p])"

definition edited_from :: "resolved_op list \<Rightarrow> string list \<Rightarrow> nat \<Rightarrow> string list" where
  "edited_from rs lines p =
     concat (map (line_after rs lines) [p..<length lines]) @ new_at rs (length lines)"

lemma edited_from_split:
  assumes "p \<le> q" "q \<le> length lines"
  shows "edited_from rs lines p = concat (map (line_after rs lines) [p..<q]) @ edited_from rs lines q"
  using upt_add_eq_append [OF assms(1), of "length lines - q"] assms(2)
  by (simp add: edited_from_def)

lemma edited_from_cong:
  assumes "\<And>q. p \<le> q \<Longrightarrow> new_at rs q = new_at rs' q" "\<And>q. p \<le> q \<Longrightarrow> covered rs q = covered rs' q"
    and "p \<le> length lines"
  shows "edited_from rs lines p = edited_from rs' lines p"
proof -
  have "map (line_after rs lines) [p..<length lines] = map (line_after rs' lines) [p..<length lines]"
    using assms(1,2) by (auto simp: line_after_def)
  then show ?thesis unfolding edited_from_def
    using assms(1) [OF assms(3)] by (simp only:)
qed

lemma untouched:
  assumes "\<forall>r \<in> set rs. q < ro_start r"
  shows "new_at rs q = []" "\<not> covered rs q"
  using assms by (auto simp: new_at_def covered_def list_ex_iff filter_empty_conv)

lemma new_at_Cons: "new_at (r # rs) q = (if ro_start r = q then ro_new_lines r else []) @ new_at rs q"
  by (simp add: new_at_def)

lemma covered_Cons: "covered (r # rs) q \<longleftrightarrow> (ro_start r \<le> q \<and> q < ro_end r) \<or> covered rs q"
  by (simp add: covered_def)

lemma edited_from_first:
  assumes "in_file lines r" "\<forall>x \<in> set rs. ro_end r \<le> ro_start x"
  shows "edited_from (r # rs) lines (ro_start r) = ro_new_lines r @ edited_from rs lines (ro_end r)"
proof (cases "ro_start r = ro_end r")
  case True
  have rest: "edited_from (r # rs) lines (Suc (ro_start r)) = edited_from rs lines (Suc (ro_start r))"
    if "ro_start r < length lines"
    using that True by (intro edited_from_cong) (auto simp: new_at_Cons covered_Cons)
  show ?thesis
  proof (cases "ro_start r < length lines")
    case less: True
    with rest True show ?thesis
      using edited_from_split [of "ro_start r" "Suc (ro_start r)" lines]
      by (simp add: line_after_def new_at_Cons covered_Cons)
  next
    case False
    with assms(1) True have "ro_start r = length lines" by (simp add: in_file_def)
    with True show ?thesis by (simp add: edited_from_def new_at_Cons)
  qed
next
  case False
  with assms(1) have lt: "ro_start r < ro_end r" "ro_end r \<le> length lines" by (auto simp: in_file_def)
  have far: "new_at rs q = []" "\<not> covered rs q" if "q < ro_end r" for q
    using untouched [of rs q] assms(2) that by fastforce+
  have "line_after (r # rs) lines (ro_start r) = ro_new_lines r"
    using lt(1) by (simp add: line_after_def new_at_Cons covered_Cons far)
  moreover have "map (line_after (r # rs) lines) [Suc (ro_start r)..<ro_end r]
      = map (\<lambda>_. []) [Suc (ro_start r)..<ro_end r]"
    by (auto simp: line_after_def new_at_Cons covered_Cons far)
  moreover have "edited_from (r # rs) lines (ro_end r) = edited_from rs lines (ro_end r)"
    using lt by (intro edited_from_cong) (auto simp: new_at_Cons covered_Cons)
  ultimately show ?thesis
    using edited_from_split [of "ro_start r" "ro_end r" lines "r # rs"] lt
    by (simp add: upt_conv_Cons)
qed

lemma assemble_edited:
  assumes "in_sequence os" "list_all (in_file lines) os" "\<forall>r \<in> set os. p \<le> ro_start r" "p \<le> length lines"
  shows "assemble lines p os = edited_from os lines p"
  using assms
proof (induction os arbitrary: p)
  case Nil
  have "map (line_after [] lines) [p..<length lines] = map (\<lambda>q. [lines ! q]) [p..<length lines]"
    by (simp add: line_after_def new_at_def covered_def)
  then have "concat (map (line_after [] lines) [p..<length lines]) = map (\<lambda>q. lines ! q) [p..<length lines]"
    by (metis concat_map_singleton)
  moreover have "map (\<lambda>q. lines ! q) [p..<length lines] = drop p lines" by (auto intro: nth_equalityI)
  ultimately show ?case by (simp add: edited_from_def new_at_def)
next
  case (Cons r os)
  then have r: "p \<le> ro_start r" "in_file lines r" "ro_start r \<le> length lines"
    by (simp_all add: in_file_def)
  have "line_after (r # os) lines q = [lines ! q]" if "q < ro_start r" for q
  proof -
    have "\<forall>x \<in> set (r # os). q < ro_start x"
      using Cons.prems(1) that r(2) by (fastforce simp: in_sequence_def in_file_def)
    from untouched [OF this] show ?thesis by (simp add: line_after_def)
  qed
  then have "map (line_after (r # os) lines) [p..<ro_start r] = map (\<lambda>q. [lines ! q]) [p..<ro_start r]" by auto
  then have "concat (map (line_after (r # os) lines) [p..<ro_start r]) = map (\<lambda>q. lines ! q) [p..<ro_start r]"
    by (metis concat_map_singleton)
  also have "\<dots> = take (ro_start r - p) (drop p lines)"
    using r by (auto intro: nth_equalityI)
  finally have "edited_from (r # os) lines p =
      take (ro_start r - p) (drop p lines) @ edited_from (r # os) lines (ro_start r)"
    using edited_from_split [OF r(1) r(3)] by simp
  moreover have "assemble lines (ro_end r) os = edited_from os lines (ro_end r)"
    using Cons.prems r(2) by (intro Cons.IH) (simp_all add: in_sequence_def in_file_def)
  moreover have "edited_from (r # os) lines (ro_start r) = ro_new_lines r @ edited_from os lines (ro_end r)"
    using Cons.prems r(2) by (intro edited_from_first) (simp_all add: in_sequence_def)
  ultimately show ?case by simp
qed

text \<open>The order of the edits of one line is that of the request, because the sort is stable.\<close>

lemma edited_sort: "edited_from (sort_key ro_start rs) lines 0 = edited rs lines"
proof -
  have "new_at (sort_key ro_start rs) p = new_at rs p" for p
    by (simp add: new_at_def sort_key_stable)
  moreover have "covered (sort_key ro_start rs) p = covered rs p" for p
    by (simp add: covered_def list_ex_iff)
  ultimately show ?thesis by (simp add: edited_from_def edited_def line_after_def [abs_def])
qed

lemma splice_all_edited:
  assumes "check_overlaps rs = None" "list_all (in_file lines) rs" "sorted (map ro_original_idx rs)"
  shows "splice_all (bottom_up rs) lines = Some (edited rs lines)"
proof -
  let ?os = "sort_key ro_start rs"
  have "in_sequence ?os"
    using assms(1,2) by (intro no_overlap_in_sequence) (auto simp: in_file_def list_all_iff)
  moreover have "list_all (in_file lines) ?os" using assms(2) by (simp add: list_all_iff)
  moreover have "bottom_up rs = rev ?os"
    using sort_key_id_if_sorted [OF assms(3)] by (simp add: bottom_up_def)
  ultimately show ?thesis
    using splice_all_assemble [of ?os lines 0] assemble_edited [of ?os lines 0]
    by (simp add: edited_sort)
qed

text \<open>The overlap check refuses exactly the conflicts.\<close>

lemma conflict_iff:
  assumes "ro_start a \<le> ro_end a" "ro_start b \<le> ro_end b"
  shows "conflict a b \<longleftrightarrow>
     (if ro_start a = ro_end a then ro_start b \<le> ro_start a \<and> ro_start a < ro_end b
      else if ro_start b = ro_end b then ro_start a \<le> ro_start b \<and> ro_start b < ro_end a
      else ro_start a < ro_end b \<and> ro_start b < ro_end a)"
proof -
  have "(\<exists>p. covers x p \<and> touches y p) \<longleftrightarrow>
      ro_start x < ro_end x \<and> (if ro_start y = ro_end y then ro_start x \<le> ro_start y \<and> ro_start y < ro_end x
        else ro_start x < ro_end y \<and> ro_start y < ro_end x)"
    if "ro_start x \<le> ro_end x" "ro_start y \<le> ro_end y" for x y
  proof (cases "ro_start y = ro_end y")
    case False
    have "covers x p \<and> touches y p \<Longrightarrow> ro_start x < ro_end y \<and> ro_start y < ro_end x" for p
      using False that by (auto simp: covers_def touches_def)
    moreover have "covers x (max (ro_start x) (ro_start y)) \<and> touches y (max (ro_start x) (ro_start y))"
      if "ro_start x < ro_end x" "ro_start x < ro_end y" "ro_start y < ro_end x"
      using that by (auto simp: covers_def touches_def max_def)
    moreover have "covers x p \<Longrightarrow> ro_start x < ro_end x" for p by (simp add: covers_def)
    ultimately show ?thesis using False by (simp only: if_False) blast
  qed (auto simp: covers_def touches_def)
  from this [OF assms] this [OF assms(2,1)] show ?thesis
    unfolding conflict_def using assms by (auto simp: ex_disj_distrib conj_commute)
qed

lemma accepted_no_conflict:
  assumes ord: "\<And>r. r \<in> set rs \<Longrightarrow> ro_start r \<le> ro_end r" and l: "check_overlaps rs = None"
  shows "\<forall>a \<in> set rs. \<forall>b \<in> set rs. a \<noteq> b \<longrightarrow> \<not> conflict a b"
proof (intro ballI impI)
  fix a b assume ab: "a \<in> set rs" "b \<in> set rs" "a \<noteq> b"
  have "sorted_wrt (\<lambda>a b. ro_end a \<le> ro_start b) (sort_key ro_start rs)"
    using no_overlap_in_sequence [OF l] ord by (simp add: in_sequence_def)
  then have apart: "ro_end a \<le> ro_start b \<or> ro_end b \<le> ro_start a"
    if "a \<in> set rs" "b \<in> set rs" "a \<noteq> b" for a b
    using that sorted_wrt_pair [of _ "sort_key ro_start rs" a b] by auto
  have inside: "\<not> (ro_start a \<le> ro_start b \<and> ro_start b < ro_end a)"
    if "a \<in> set rs" "b \<in> set rs" "ro_start b = ro_end b" for a b
  proof
    assume "ro_start a \<le> ro_start b \<and> ro_start b < ro_end a"
    with that have "(op_range a, b) \<in> set (inserted_inside rs)"
      by (auto simp: inserted_inside_def replaced_ranges_def op_range_def)
    with l show False by (auto simp: check_overlaps_def Let_def split: option.splits list.splits prod.splits)
  qed
  from apart [OF ab] inside [OF ab(1,2)] inside [OF ab(2,1)] ord [OF ab(1)] ord [OF ab(2)]
  show "\<not> conflict a b" by (auto simp: conflict_iff)
qed

lemma no_conflict_accepted:
  assumes ord: "\<And>r. r \<in> set rs \<Longrightarrow> ro_start r \<le> ro_end r" and "distinct (map ro_original_idx rs)"
    and r: "\<forall>a \<in> set rs. \<forall>b \<in> set rs. a \<noteq> b \<longrightarrow> \<not> conflict a b"
  shows "check_overlaps rs = None"
proof -
  let ?P = "\<lambda>r. ro_start r \<noteq> ro_end r" and ?rr = "replaced_ranges rs"
  have from_op: "\<exists>r \<in> set rs. t = op_range r \<and> ?P r" if "t \<in> set ?rr" for t
    using that by (auto simp: replaced_ranges_def)
  have sorted: "sorted (map fst ?rr)" by (simp add: replaced_ranges_def)
  have "distinct (map (\<lambda>t. snd (snd t)) (map op_range rs))"
    using assms(2) by (simp add: op_range_def comp_def)
  then have "distinct (map op_range rs)" using distinct_map [of "\<lambda>t. snd (snd t)" "map op_range rs"] by blast
  then have dist: "distinct ?rr" by (simp add: replaced_ranges_def distinct_map_filter)
  have "\<not> fst (snd a) > fst b" if "(a, b) \<in> set (zip ?rr (tl ?rr))" for a b
  proof -
    from that obtain i where i: "Suc i < length ?rr" "a = ?rr ! i" "b = ?rr ! Suc i"
      by (auto simp: set_zip nth_tl less_diff_conv)
    then obtain x y where xy: "x \<in> set rs" "y \<in> set rs" "a = op_range x" "b = op_range y" "?P x" "?P y"
      using from_op [of a] from_op [of b] by auto
    moreover have "a \<noteq> b" using i dist by (simp add: nth_eq_iff_index_eq)
    moreover have "fst a \<le> fst b" using sorted i sorted_iff_nth_mono_less [of "map fst ?rr"] by simp
    ultimately have "\<not> conflict x y" "ro_start x \<le> ro_start y" using r by (auto simp: op_range_def)
    with xy ord [OF xy(1)] ord [OF xy(2)] show ?thesis by (auto simp: conflict_iff op_range_def)
  qed
  then have "find (\<lambda>(a, b). fst (snd a) > fst b) (zip ?rr (tl ?rr)) = None"
    by (auto simp: find_None_iff)
  moreover have "inserted_inside rs = []"
  proof (rule ccontr)
    assume "inserted_inside rs \<noteq> []"
    then obtain t y where y: "y \<in> set rs" "ro_start y = ro_end y" and t: "t \<in> set ?rr"
      "fst t \<le> ro_start y" "ro_start y < fst (snd t)"
      by (auto simp: inserted_inside_def filter_empty_conv)
    with from_op [OF t(1)] obtain x where "x \<in> set rs" "?P x" "ro_start x \<le> ro_start y" "ro_start y < ro_end x"
      by (auto simp: op_range_def)
    moreover from this y have "conflict x y" using ord by (simp add: conflict_iff)
    ultimately show False using r y by metis
  qed
  ultimately show ?thesis by (simp add: check_overlaps_def Let_def)
qed

lemma check_overlaps_iff:
  assumes "list_all (in_file lines) rs" "distinct (map ro_original_idx rs)"
  shows "check_overlaps rs = None \<longleftrightarrow> (\<forall>a \<in> set rs. \<forall>b \<in> set rs. a \<noteq> b \<longrightarrow> \<not> conflict a b)"
proof -
  have "ro_start r \<le> ro_end r" if "r \<in> set rs" for r
    using assms(1) that by (auto simp: in_file_def list_all_iff)
  with accepted_no_conflict no_conflict_accepted assms(2) show ?thesis by blast
qed

end
