(* ===== verification/Hashline_Apply.thy ===== *)
theory Hashline_Apply
  imports Hashline_Correct
begin

text \<open>
  What \<open>hashline_edit\<close> reports and that it never panics: the regions of the new file, the snippet
  of fresh anchors, and the properties of \<open>apply_edits\<close> as a whole.
\<close>

section \<open>The lines of the new file\<close>

lemma split_lines_parts:
  "split_lines content =
     (let ps = split_char newline content in map strip_cr (butlast ps) @ [last ps])"
proof (cases "content = []")
  case False
  have "ends_with content [newline] \<longleftrightarrow> last (split_char newline content) = []"
    using False
  proof (induction content)
    case (Cons c cs)
    then show ?case
      by (cases cs) (auto simp: ends_with_def suffix_def Cons_eq_append_conv split: list.splits)
  qed simp
  with False show ?thesis by (auto simp: split_lines_def str_lines_def Let_def)
qed (simp add: split_lines_def)

definition plain_lines :: "string list \<Rightarrow> bool" where
  "plain_lines ls \<longleftrightarrow> list_all (\<lambda>l. newline \<notin> set l) ls"

lemma split_lines_plain: "plain_lines (split_lines content)"
  using str_lines_newline [of _ content] by (auto simp: split_lines_def plain_lines_def list_all_iff)

lemma content_lines_plain: "plain_lines blank \<Longrightarrow> plain_lines (content_lines c blank)"
  using str_lines_newline [of _ c] by (auto simp: content_lines_def plain_lines_def list_all_iff)

lemma split_lines_join:
  assumes "plain_lines ls" "ls \<noteq> []"
  shows "split_lines (join [newline] ls) = map strip_cr (butlast ls) @ [last ls]"
  using assms by (simp add: split_lines_parts split_char_join plain_lines_def Let_def)

lemma new_count:
  assumes "plain_lines ls"
  shows "length (split_lines (join [newline] ls)) = max 1 (length ls)"
proof (cases "ls = []")
  case False
  then have "length (butlast ls) + 1 = length ls" by simp
  with False show ?thesis unfolding split_lines_join [OF assms False] by (simp add: max_def Suc_le_eq)
qed (simp add: split_lines_def)

section \<open>Regions\<close>

definition region_of :: "string list \<Rightarrow> string list \<Rightarrow> resolved_op \<Rightarrow> (nat \<times> nat) \<times> edit_region_detail \<Rightarrow> bool" where
  "region_of lines new r t \<longleftrightarrow>
     (case t of ((a, b), d) \<Rightarrow>
        a \<le> b \<and> b \<le> length new \<and> take (b - a) (drop a new) = ro_new_lines r
        \<and> d = \<lparr>ed_old_line = ro_start r + 1,
               ed_old_text = join [newline] (take (ro_end r - ro_start r) (drop (ro_start r) lines)),
               ed_new_line = a + 1, ed_new_text = join [newline] (ro_new_lines r)\<rparr>)"

lemma region_loop_correct:
  assumes "in_sequence os" "list_all (in_file lines) os" "\<forall>r \<in> set os. p \<le> ro_start r" "p \<le> length lines"
    and "int p + shift = int (length pre)" "length pre + length (assemble lines p os) < 2 ^ 64"
  shows "\<exists>tr. region_loop lines os shift = Some tr
    \<and> list_all2 (region_of lines (pre @ assemble lines p os)) os tr"
  using assms
proof (induction os arbitrary: p shift pre)
  case (Cons r os)
  then have r: "p \<le> ro_start r" "ro_start r \<le> ro_end r" "ro_end r \<le> length lines"
    by (simp_all add: in_file_def)
  define pre' where "pre' = pre @ take (ro_start r - p) (drop p lines) @ ro_new_lines r"
  define a where "a = length pre + (ro_start r - p)"
  let ?n = "length (ro_new_lines r)" and ?new = "pre @ assemble lines p (r # os)"
  have new: "?new = pre' @ assemble lines (ro_end r) os" by (simp add: pre'_def)
  have len: "length pre' = a + ?n" using r by (simp add: pre'_def a_def)
  have "int (ro_start r) + shift = int a" using Cons.prems(5) r(1) by (simp add: a_def)
  moreover have bound: "a + ?n + length (assemble lines (ro_end r) os) < 2 ^ 64"
    using Cons.prems(6) r by (simp add: a_def)
  ultimately have start: "as_usize (int (ro_start r) + shift) = a"
    by (simp add: as_usize_def nat_mod_distrib)
  have shift': "int (ro_end r) + (shift + int ?n - int (ro_end r - ro_start r)) = int (length pre')"
    using Cons.prems(5) r by (simp add: len a_def)
  have "\<exists>tr. region_loop lines os (shift + int ?n - int (ro_end r - ro_start r)) = Some tr
      \<and> list_all2 (region_of lines (pre' @ assemble lines (ro_end r) os)) os tr"
    using Cons.prems shift' bound len r(3)
    by (intro Cons.IH [where p = "ro_end r"]) (simp_all add: in_sequence_def)
  then obtain tr where tr: "region_loop lines os (shift + int ?n - int (ro_end r - ro_start r)) = Some tr"
    "list_all2 (region_of lines ?new) os tr" unfolding new by blast
  have "drop a ?new = ro_new_lines r @ assemble lines (ro_end r) os" and "a + ?n \<le> length ?new"
    using r by (simp_all add: a_def)
  then have "region_of lines ?new r ((a, a + ?n),
      \<lparr>ed_old_line = ro_start r + 1,
       ed_old_text = join [newline] (take (ro_end r - ro_start r) (drop (ro_start r) lines)),
       ed_new_line = a + 1, ed_new_text = join [newline] (ro_new_lines r)\<rparr>)"
    unfolding region_of_def by (simp only: prod.case) simp
  with tr r(2,3) start show ?case by (simp add: Let_def)
qed simp

section \<open>Snippets\<close>

definition region_in :: "nat \<Rightarrow> nat \<times> nat \<Rightarrow> bool" where
  "region_in count r \<longleftrightarrow> fst r \<le> snd r \<and> fst r \<le> count"

lemma merge_regions_ordered:
  assumes "list_all (region_in count) regions" "list_all (\<lambda>r. fst r \<le> snd r) merged"
  shows "list_all (\<lambda>r. fst r \<le> snd r) (merge_regions count regions merged)"
  using assms
proof (induction count regions merged rule: merge_regions.induct)
  case (2 count start "end" regions merged)
  let ?s = "start - SNIPPET_CONTEXT" and ?e = "min (end + SNIPPET_CONTEXT) count"
  from 2(3) have new: "?s \<le> ?e" by (auto simp: region_in_def)
  show ?case
  proof (cases "merged \<noteq> [] \<and> ?s \<le> snd (last merged)")
    case True
    have "list_all (\<lambda>r. fst r \<le> snd r) (butlast merged)" "fst (last merged) \<le> snd (last merged)"
      using True 2(4) by (auto simp: list_all_iff dest: in_set_butlastD)
    with 2(1) [OF refl refl True] 2(3) True show ?thesis by (simp add: Let_def)
  next
    case False
    then have "merge_regions count ((start, end) # regions) merged = merge_regions count regions (merged @ [(?s, ?e)])"
      unfolding merge_regions.simps Let_def by (simp only: if_False)
    with 2(2) [OF refl refl False] 2(3,4) new show ?thesis by simp
  qed
qed simp

context lawful_scheme
begin

lemma format_total: "format_hashline_content s content offset limit \<noteq> None"
proof -
  have "traverse (\<lambda>(i, line). map_option (f i line) (nth_opt (generate_anchors s lines) i)) xs \<noteq> None"
    if "set xs \<subseteq> set (enumerate 0 lines)" for f :: "nat \<Rightarrow> string \<Rightarrow> anchor \<Rightarrow> string \<times> string" and lines xs
  proof
    assume "traverse (\<lambda>(i, line). map_option (f i line) (nth_opt (generate_anchors s lines) i)) xs = None"
    then obtain i line where "(i, line) \<in> set xs" "nth_opt (generate_anchors s lines) i = None"
      by (auto simp: traverse_None)
    with that anchors_length [of lines] show False by (auto simp: in_set_enumerate_eq)
  qed
  moreover have "set (case limit of None \<Rightarrow> drop k xs | Some n \<Rightarrow> take n (drop k xs)) \<subseteq> set xs" for k
    and xs :: "(nat \<times> string) list"
    by (auto split: option.splits dest: in_set_takeD in_set_dropD)
  ultimately show ?thesis unfolding format_hashline_content_def Let_def by simp
qed

lemma snippet_parts_total:
  "list_all (\<lambda>r. fst r \<le> snd r) regions \<Longrightarrow> snippet_parts s content count i prev regions \<noteq> None"
proof (induction regions arbitrary: i prev)
  case (Cons r regions)
  then show ?case
    using format_total [of content "Some (fst r + 1)" "Some (snd r - fst r)"]
    by (cases r) auto
qed simp

lemma build_snippet_total:
  assumes "list_all (region_in count) regions" "sorted (map fst regions)"
  shows "build_snippet s content regions count \<noteq> None"
proof (cases regions)
  case (Cons r rs)
  have "fst r \<le> fst (last regions)" using assms(2) Cons by (cases rs) (auto simp: sorted_wrt_append)
  moreover have "region_in count r" "region_in count (last regions)"
    using assms(1) Cons last_in_set [of regions] by (auto simp: list_all_iff)
  ultimately have "fst r - SNIPPET_CONTEXT \<le> min (snd (last regions) + SNIPPET_CONTEXT) count"
    by (auto simp: region_in_def)
  then have "\<not> min (snd (last regions) + SNIPPET_CONTEXT) count < fst (hd regions) - SNIPPET_CONTEXT"
    using Cons by (metis list.sel(1) not_le)
  moreover have "snippet_parts s content count 0 0 (merge_regions count regions []) \<noteq> None"
    using merge_regions_ordered [OF assms(1), of "[]"] by (intro snippet_parts_total) simp
  ultimately show ?thesis using Cons format_total
    unfolding build_snippet_def Let_def by (simp only: if_False list.distinct option.map_disc_iff split: if_split) blast
qed (simp add: build_snippet_def)

end

section \<open>The batch\<close>

lemma op_effect_in_file:
  assumes "constructed s" "list_all2 (op_effect s lines) ops rs"
  shows "list_all (in_file lines) rs"
  using assms(2) lawful_scheme.op_effect_range [OF constructed_lawful [OF assms(1)]]
  by (induction rule: list_all2_induct) (auto simp: in_file_def)

lemma op_effect_plain:
  assumes "op_effect s lines op r" shows "plain_lines (ro_new_lines r)"
proof -
  have "plain_lines (content_lines c blank)" if "blank = [] \<or> blank = [[]]" for c blank
    using that by (intro content_lines_plain) (auto simp: plain_lines_def)
  with assms show ?thesis by (cases "(s, lines, op, r)" rule: op_effect.cases) (auto simp: op_places_def)
qed

lemma edited_plain:
  assumes "list_all2 (op_effect s lines) ops rs" "plain_lines lines"
  shows "plain_lines (edited rs lines)"
proof -
  have "plain_lines (ro_new_lines r)" if "r \<in> set rs" for r
    using that assms(1) op_effect_plain by (metis in_set_conv_nth list_all2_conv_all_nth)
  then have "plain_lines (new_at rs p)" for p
    by (auto simp: new_at_def plain_lines_def list_all_iff)
  moreover have "(\<exists>p. x \<in> set (new_at rs p)) \<or> x \<in> set lines" if "x \<in> set (edited rs lines)" for x
    using that by (auto simp: edited_def split: if_splits)
  ultimately show ?thesis using assms(2) unfolding plain_lines_def list_all_iff by blast
qed

text \<open>The whole application of a batch that resolves and does not overlap.\<close>

lemma apply_resolved_correct:
  assumes s: "constructed s" and ops: "list_all2 (op_effect s lines) ops rs"
    and idx: "sorted (map ro_original_idx rs)" and apart: "check_overlaps rs = None"
    and plain: "plain_lines lines" and bound: "length (edited rs lines) < 2 ^ 64"
  obtains a where "apply_resolved s path count lines rs = Some a"
    and "ar_new_content a = Some (join [newline] (edited rs lines))"
    and "list_all2 (\<lambda>r d. \<exists>t. region_of lines (edited rs lines) r (t, d)) (sort_key ro_start rs) (ar_edit_details a)"
    and "\<exists>out. ar_output a = EditsApplied out \<and> ea_applied out = count"
proof -
  let ?os = "sort_key ro_start rs" and ?new = "edited rs lines"
  have in_file: "list_all (in_file lines) rs" by (rule op_effect_in_file [OF s ops])
  have seq: "in_sequence ?os"
    using apart in_file by (intro no_overlap_in_sequence) (auto simp: in_file_def list_all_iff)
  have rev: "rev (bottom_up rs) = ?os"
    using sort_key_id_if_sorted [OF idx] by (simp add: bottom_up_def)
  have new: "assemble lines 0 ?os = ?new"
    using in_file seq by (subst assemble_edited) (simp_all add: list_all_iff edited_sort)
  obtain tr where tr: "region_loop lines ?os 0 = Some tr" "list_all2 (region_of lines ?new) ?os tr"
    using region_loop_correct [of ?os lines 0 0 "[]"] in_file seq bound new by (auto simp: list_all_iff)
  let ?count = "length (split_lines (join [newline] ?new))" and ?rg = "sort_key fst (map fst tr)"
  have "region_in ?count (fst t)" if "t \<in> set tr" for t
    using tr(2) that new_count [OF edited_plain [OF ops plain]]
    by (auto simp: list_all2_conv_all_nth in_set_conv_nth region_of_def region_in_def split: prod.splits)
      (metis (no_types) fst_conv le_trans max.cobounded2 prod.collapse snd_conv)+
  then have "build_snippet s (join [newline] ?new) ?rg ?count \<noteq> None"
    by (intro lawful_scheme.build_snippet_total [OF constructed_lawful [OF s]]) (auto simp: list_all_iff)
  moreover have "splice_all (bottom_up rs) lines = Some ?new" by (rule splice_all_edited [OF apart in_file idx])
  ultimately obtain a where a: "apply_resolved s path count lines rs = Some a"
    "ar_new_content a = Some (join [newline] ?new)" "ar_edit_details a = map snd tr"
    "\<exists>out. ar_output a = EditsApplied out \<and> ea_applied out = count"
    using tr(1) by (auto simp: apply_resolved_def rev Let_def)
  moreover have "list_all2 (\<lambda>r d. \<exists>t. region_of lines ?new r (t, d)) ?os (map snd tr)"
    using tr(2) by (auto simp: list_all2_conv_all_nth) (metis prod.collapse)
  ultimately show thesis by (intro that [OF a(1)]) simp_all
qed

lemma apply_edits_batch:
  assumes "\<nexists>c. ops = [Op_Write c]"
  shows "apply_edits s path content ops =
     (let lines = split_lines content
      in case resolve_loop s lines (length ops) 0 ops of
           None \<Rightarrow> None
         | Some (Inl e) \<Rightarrow> Some (failed e)
         | Some (Inr resolved) \<Rightarrow>
             (case check_overlaps resolved of
                Some e \<Rightarrow> Some (failed (batch_overlap (length ops) e))
              | None \<Rightarrow> apply_resolved s path (length ops) lines resolved))"
  using assms by (auto simp: apply_edits_def split: list.split hashline_op.split)

section \<open>Size\<close>

lemma assemble_length:
  assumes "in_sequence os" "list_all (in_file lines) os" "\<forall>r \<in> set os. p \<le> ro_start r" "p \<le> length lines"
  shows "length (assemble lines p os) \<le> length lines - p + sum_list (map (\<lambda>r. length (ro_new_lines r)) os)"
  using assms
proof (induction os arbitrary: p)
  case (Cons r os)
  then have r: "p \<le> ro_start r" "ro_start r \<le> ro_end r" "ro_end r \<le> length lines"
    by (simp_all add: in_file_def)
  have "length (assemble lines (ro_end r) os)
      \<le> length lines - ro_end r + sum_list (map (\<lambda>r. length (ro_new_lines r)) os)"
    using Cons.prems r(3) by (intro Cons.IH) (simp_all add: in_sequence_def)
  with r show ?case by simp
qed simp

definition op_size :: "hashline_op \<Rightarrow> nat" where
  "op_size op = Suc (length (str_lines (op_content op)))"

lemma op_effect_size: "op_effect s lines op r \<Longrightarrow> length (ro_new_lines r) \<le> op_size op"
  by (cases "(s, lines, op, r)" rule: op_effect.cases)
    (auto simp: op_places_def op_size_def content_lines_def)

lemma new_lines_size:
  "list_all2 (op_effect s lines) ops rs \<Longrightarrow>
     sum_list (map (\<lambda>r. length (ro_new_lines r)) rs) \<le> sum_list (map op_size ops)"
  by (induction rule: list_all2_induct) (auto intro: add_mono dest: op_effect_size)

lemma sum_list_sort_key:
  "sum_list (map f (sort_key k xs)) = sum_list (map (f :: 'a \<Rightarrow> nat) xs)"
proof -
  have "sum_list (map f (insort_key k x ys)) = f x + sum_list (map f ys)" for x ys
    by (induction ys) auto
  then show ?thesis by (induction xs) simp_all
qed

lemma edited_length:
  assumes "list_all2 (op_effect s lines) ops rs" "list_all (in_file lines) rs" "check_overlaps rs = None"
  shows "length (edited rs lines) \<le> length lines + sum_list (map op_size ops)"
proof -
  let ?os = "sort_key ro_start rs"
  have os: "in_sequence ?os" "list_all (in_file lines) ?os"
    using no_overlap_in_sequence [OF assms(3)] assms(2) by (simp_all add: in_file_def list_all_iff)
  then have "assemble lines 0 ?os = edited rs lines"
    by (subst assemble_edited) (simp_all add: edited_sort)
  then show ?thesis
    using assemble_length [of ?os lines 0] os new_lines_size [OF assms(1)] by (simp add: sum_list_sort_key)
qed

section \<open>Reading, then editing\<close>

lemma find_str_first:
  assumes "p \<noteq> []" "hd p \<notin> set xs"
  shows "find (\<lambda>k. prefix p (drop k (xs @ p @ ys))) [0..<Suc (length (xs @ p @ ys))] = Some (length xs)"
proof -
  have "\<not> prefix p (drop j (xs @ p @ ys))" if "j < length xs" for j
  proof
    assume "prefix p (drop j (xs @ p @ ys))"
    then obtain zs where "drop j (xs @ p @ ys) = p @ zs" by (auto simp: prefix_def)
    then have "hd (drop j (xs @ p @ ys)) = hd p" using assms(1) by simp
    then have "hd p = (xs @ p @ ys) ! j" using that by (simp only: hd_drop_conv_nth length_append trans_less_add1)
    with that assms(2) show False by (simp add: nth_append)
  qed
  then show ?thesis by (intro find_upt_first) simp_all
qed

lemma split_once_str_first:
  assumes "p \<noteq> []" "hd p \<notin> set xs"
  shows "split_once_str p (xs @ p @ ys) = Some (xs, ys)"
  using find_str_first [OF assms, of ys] by (simp add: split_once_str_def)

lemma split_once_str_absent:
  assumes "p \<noteq> []" "hd p \<notin> set xs"
  shows "split_once_str p xs = None"
proof -
  have "\<not> prefix p (drop k xs)" for k
  proof
    assume "prefix p (drop k xs)"
    with assms(1) have "hd p \<in> set (drop k xs)" by (auto simp: prefix_def)
    with assms(2) show False by (auto dest: in_set_dropD)
  qed
  then show ?thesis by (simp add: split_once_str_def find_None_iff)
qed

lemma render_anchored: "render_anchored_line a c = anchor_render a @ arrow @ c"
  by (simp add: render_anchored_line_def anchor_render_def anchor_suffix_def split: option.splits)

lemma anchor_render_chars:
  assumes "letters (an_local a)" "\<And>ctx. an_context a = Some ctx \<Longrightarrow> letters ctx" "c \<in> set (anchor_render a)"
  shows "45 < (of_char c :: nat) \<and> (of_char c :: nat) < 128"
proof -
  have "45 < (of_char d :: nat) \<and> (of_char d :: nat) < 128" if "d \<in> set x" "letters x" for d x
    using that by (auto simp: letters_def list_all_iff is_ascii_lowercase_def)
  moreover have "45 < (of_char d :: nat) \<and> (of_char d :: nat) < 128" if "d \<in> set (show_nat n)" for d n
    using show_nat_digits [OF that] by (auto simp: is_digit_def)
  ultimately show ?thesis
    using assms by (auto simp: anchor_render_def split: option.splits)
qed

context lawful_scheme
begin

lemma anchor_letters:
  assumes "i < length lines"
  shows "letters (an_local (generate_anchors s lines ! i))"
    and "an_context (generate_anchors s lines ! i) = Some ctx \<Longrightarrow> letters ctx"
  using anchor_local [OF assms] encode_hash_letters [OF hash_len_pos] context_letters [OF assms] by simp_all

lemma rendered_names:
  assumes "i < length lines" "length lines < 2 ^ 64"
    and "strip_arrow text = anchor_render (generate_anchors s lines ! i)"
  shows "anchor_names s lines text i"
proof -
  let ?a = "generate_anchors s lines ! i"
  have "parsed_anchor_parse (anchor_render ?a) = Some (parsed_of ?a)"
    using assms anchor_line [OF assms(1)] by (intro parse_render anchor_letters) simp_all
  with assms(3) show ?thesis
    using assms(1) anchor_line [OF assms(1)] by (simp add: anchor_names_def parsed_of_def)
qed

lemma rendered_chars:
  assumes "i < length lines"
  shows "hd arrow \<notin> set (anchor_render (generate_anchors s lines ! i))"
    and "CHR ''-'' \<notin> set (anchor_render (generate_anchors s lines ! i))"
  using anchor_render_chars [OF anchor_letters [OF assms]] by (fastforce simp: arrow_def)+

lemma shown_anchor_names:
  assumes "i < length lines" "length lines < 2 ^ 64"
  shows "anchor_names s lines (render_anchored_line (generate_anchors s lines ! i) t) i"
    and "anchor_names s lines (anchor_render (generate_anchors s lines ! i)) i"
  using rendered_chars [OF assms(1)] split_once_str_first [of arrow _ t] split_once_str_absent [of arrow]
    split_once_str_absent [of "''->''"]
  by (intro rendered_names [OF assms]; simp add: render_anchored strip_arrow_def arrow_def)+

end

text \<open>A call through a scope looks like a copied anchor to the check of new text.\<close>

lemma scope_call_taken_for_anchor: "detect_anchor_prefix_in_content ''Foo::get()->bar();'' = Some 1"
  by code_simp

section \<open>The properties of \<open>apply_edits\<close>\<close>

text \<open>The size of a request: no file that a process can hold reaches the bound.\<close>

definition fits :: "string \<Rightarrow> hashline_op list \<Rightarrow> bool" where
  "fits content ops \<longleftrightarrow> length (split_lines content) + sum_list (map op_size ops) < 2 ^ 64"

text \<open>A batch that may be applied, as the request reads.\<close>

definition accepted :: "line_scheme \<Rightarrow> string list \<Rightarrow> hashline_op list \<Rightarrow> resolved_op list \<Rightarrow> bool" where
  "accepted s lines ops rs \<longleftrightarrow>
     list_all2 (op_effect s lines) ops rs \<and> map ro_original_idx rs = [0..<length ops]
     \<and> list_all (\<lambda>op. detect_anchor_prefix_in_content (op_content op) = None) ops
     \<and> (\<forall>a \<in> set rs. \<forall>b \<in> set rs. a \<noteq> b \<longrightarrow> \<not> conflict a b)"

lemma accepted_iff:
  assumes "constructed s"
  shows "accepted s lines ops rs \<longleftrightarrow>
    resolve_loop s lines (length ops) 0 ops = Some (Inr rs) \<and> check_overlaps rs = None"
proof (cases "resolve_loop s lines (length ops) 0 ops = Some (Inr rs)")
  case True
  then have rs: "list_all2 (op_effect s lines) ops rs" "map ro_original_idx rs = [0..<length ops]"
    using lawful_scheme.resolve_loop_iff [OF constructed_lawful [OF assms]] by simp_all
  have "distinct (map ro_original_idx rs)" unfolding rs(2) by simp
  from check_overlaps_iff [OF op_effect_in_file [OF assms rs(1)] this] True show ?thesis
    unfolding accepted_def lawful_scheme.resolve_loop_iff [OF constructed_lawful [OF assms]] by simp
next
  case False
  then show ?thesis
    unfolding accepted_def lawful_scheme.resolve_loop_iff [OF constructed_lawful [OF assms]] by auto
qed

lemma accepted_applies:
  assumes "constructed s" "accepted s (split_lines content) ops rs" "fits content ops" "\<nexists>c. ops = [Op_Write c]"
  obtains a where "apply_edits s path content ops = Some a"
    and "ar_new_content a = Some (join [newline] (edited rs (split_lines content)))"
    and "list_all2 (\<lambda>r d. \<exists>t. region_of (split_lines content) (edited rs (split_lines content)) r (t, d))
           (sort_key ro_start rs) (ar_edit_details a)"
    and "\<exists>out. ar_output a = EditsApplied out \<and> ea_applied out = length ops"
proof -
  let ?lines = "split_lines content"
  have loop: "resolve_loop s ?lines (length ops) 0 ops = Some (Inr rs)" and apart: "check_overlaps rs = None"
    using assms(1,2) by (simp_all add: accepted_iff)
  have rs: "list_all2 (op_effect s ?lines) ops rs" and idx: "sorted (map ro_original_idx rs)"
    using assms(2) by (simp_all add: accepted_def)
  have "length (edited rs ?lines) < 2 ^ 64"
    using edited_length [OF rs op_effect_in_file [OF assms(1) rs] apart] assms(3) by (simp add: fits_def)
  from apply_resolved_correct [OF assms(1) rs idx apart split_lines_plain this]
  obtain a where a: "apply_resolved s path (length ops) ?lines rs = Some a"
    "ar_new_content a = Some (join [newline] (edited rs ?lines))"
    "list_all2 (\<lambda>r d. \<exists>t. region_of ?lines (edited rs ?lines) r (t, d)) (sort_key ro_start rs) (ar_edit_details a)"
    "\<exists>out. ar_output a = EditsApplied out \<and> ea_applied out = length ops" by blast
  have "apply_edits s path content ops = Some a"
    unfolding apply_edits_batch [OF assms(4)] by (simp add: loop apart a(1))
  with a show thesis by (intro that)
qed

lemma refused_error:
  assumes "constructed s" "\<nexists>rs. accepted s (split_lines content) ops rs" "\<nexists>c. ops = [Op_Write c]"
  shows "\<exists>e. apply_edits s path content ops = Some (failed e)"
proof -
  let ?lines = "split_lines content"
  obtain res where loop: "resolve_loop s ?lines (length ops) 0 ops = Some res"
    using lawful_scheme.resolve_loop_total [OF constructed_lawful [OF assms(1)]] by blast
  show ?thesis
  proof (cases res)
    case (Inl e)
    with loop show ?thesis unfolding apply_edits_batch [OF assms(3)] by auto
  next
    case (Inr rs)
    with loop assms(1,2) have "check_overlaps rs \<noteq> None" by (auto simp: accepted_iff)
    with loop Inr show ?thesis unfolding apply_edits_batch [OF assms(3)] by auto
  qed
qed

lemma write_total: "constructed s \<Longrightarrow> build_write_result s path content \<noteq> None"
  using lawful_scheme.format_total [OF constructed_lawful, of s content]
  by (auto simp: build_write_result_def Let_def)

text \<open>
  C6. A batch of edits, other than a lone write of the whole file, does exactly what its text asks
  for, as long as its line counts fit the machine's integers. It is applied if and only if every
  anchor names a line of the file as it is now, no new text carries anchors copied from a
  reading, and no edit replaces a line that another one replaces or inserts at; the new file
  then holds, before each old line, the new lines of the edits that start there in the order of
  the request, and keeps exactly the lines that no edit covers.
\<close>

theorem hashline_edit_spec:
  assumes "constructed s" "fits content ops" "\<nexists>c. ops = [Op_Write c]"
  shows "(\<exists>a out. apply_edits s path content ops = Some a \<and> ar_output a = EditsApplied out
            \<and> ar_new_content a = Some new)
     \<longleftrightarrow> (\<exists>rs. accepted s (split_lines content) ops rs
            \<and> new = join [newline] (edited rs (split_lines content)))"
proof (cases "\<exists>rs. accepted s (split_lines content) ops rs")
  case True
  then obtain rs where rs: "accepted s (split_lines content) ops rs" by blast
  have unique: "rs' = rs" if "accepted s (split_lines content) ops rs'" for rs'
    using rs that assms(1) by (simp add: accepted_iff)
  have right: "(\<exists>rs'. accepted s (split_lines content) ops rs' \<and> new = join [newline] (edited rs' (split_lines content)))
      \<longleftrightarrow> new = join [newline] (edited rs (split_lines content))"
    using rs unique by metis
  obtain a out where "apply_edits s path content ops = Some a" "ar_output a = EditsApplied out"
    "ar_new_content a = Some (join [newline] (edited rs (split_lines content)))"
    using accepted_applies [OF assms(1) rs assms(2,3), of path] by metis
  then show ?thesis unfolding right by auto
next
  case False
  from refused_error [OF assms(1) False assms(3), of path] show ?thesis
    using False by (auto simp: failed_def)
qed

theorem hashline_edit_spec_witness:
  "constructed (content_only 3)
   \<and> (\<exists>a out. apply_edits (content_only 3) ''f'' ''ab'' [Op_InsertAfter ''EOF'' ''y'', Op_InsertAfter ''0:'' ''x''] = Some a
        \<and> ar_output a = EditsApplied out
        \<and> ar_new_content a = Some (''x'' @ [newline] @ ''ab'' @ [newline] @ ''y''))"
proof -
  let ?ops = "[Op_InsertAfter ''EOF'' ''y'', Op_InsertAfter ''0:'' ''x'']"
  let ?rs = "[\<lparr>ro_original_idx = 0, ro_start = 1, ro_end = 1, ro_new_lines = [''y'']\<rparr>,
      \<lparr>ro_original_idx = 1, ro_start = 0, ro_end = 0, ro_new_lines = [''x'']\<rparr>]"
  have s: "constructed (content_only 3)" by (simp add: constructedI)
  have lines: "split_lines ''ab'' = [''ab'']" "str_lines ''x'' = [''x'']" "str_lines ''y'' = [''y'']" by code_simp+
  have clean: "detect_anchor_prefix_in_content ''x'' = None" "detect_anchor_prefix_in_content ''y'' = None"
    by code_simp+
  have "list_all2 (op_effect (content_only 3) [''ab'']) ?ops ?rs"
    by (simp add: op_places_def content_lines_def eof_position_def lines)
  moreover have "\<not> conflict a b" if "a \<in> set ?rs" "b \<in> set ?rs" for a b
    using that by (auto simp: conflict_iff)
  ultimately have "accepted (content_only 3) (split_lines ''ab'') ?ops ?rs"
    unfolding accepted_def lines by (simp add: clean)
  moreover have "join [newline] (edited ?rs (split_lines ''ab'')) = ''x'' @ [newline] @ ''ab'' @ [newline] @ ''y''"
    unfolding lines by code_simp
  moreover have "fits ''ab'' ?ops" by (simp add: fits_def lines op_size_def)
  ultimately show ?thesis using hashline_edit_spec [OF s, of "''ab''" ?ops "''f''"] s by fastforce
qed

text \<open>
  C12. The tool never panics: on every content and every batch, however malformed its anchors,
  \<open>apply_edits\<close> returns, and it gives a new content exactly when it reports no error. None of its
  indexings, slices, splices and unsigned conversions is out of range.
\<close>

theorem hashline_edit_total:
  assumes "constructed s" "fits content ops"
  shows "\<exists>a. apply_edits s path content ops = Some a
    \<and> ((\<exists>e. ar_output a = Edit_Error e) \<longleftrightarrow> ar_new_content a = None)"
proof (cases "\<exists>c. ops = [Op_Write c]")
  case True
  then obtain c where ops: "ops = [Op_Write c]" by blast
  have "build_write_result s path c \<noteq> None" using assms(1) by (rule write_total)
  then obtain out where "build_write_result s path c = Some out" by blast
  moreover from this have "\<exists>ea. out = EditsApplied ea" by (auto simp: build_write_result_def Let_def)
  ultimately show ?thesis
    by (auto simp: ops apply_edits_def apply_write_def failed_def split: option.splits)
next
  case False
  show ?thesis
  proof (cases "\<exists>rs. accepted s (split_lines content) ops rs")
    case True
    then obtain rs where "accepted s (split_lines content) ops rs" by blast
    from accepted_applies [OF assms(1) this assms(2) False, of path] show ?thesis by (metis edit_output.distinct(1) option.distinct(1))
  next
    case refused: False
    from refused_error [OF assms(1) refused False, of path] show ?thesis by (auto simp: failed_def)
  qed
qed

theorem hashline_edit_total_witness:
  "constructed (chunk_scheme 3 8)
   \<and> (\<exists>a. apply_edits (chunk_scheme 3 8) ''f'' [] [Op_Replace ''99:zz:q'' None [], Op_Write []] = Some a
        \<and> ((\<exists>e. ar_output a = Edit_Error e) \<longleftrightarrow> ar_new_content a = None))"
proof -
  have s: "constructed (chunk_scheme 3 8)" by (simp add: constructedI)
  have "split_lines [] = [[]]" "str_lines [] = []" by code_simp+
  then have "fits [] [Op_Replace ''99:zz:q'' None [], Op_Write []]" by (simp add: fits_def op_size_def)
  from hashline_edit_total [OF s this, of "''f''"] s show ?thesis by blast
qed

text \<open>
  C15. What was read can be edited: \<open>hashline_read\<close> shows the requested lines, each behind its
  anchor, and each shown line, given back whole as an anchor, names that line.
\<close>

theorem read_anchors_resolve:
  assumes "constructed s" "length (split_lines content) < 2 ^ 64"
  shows "\<exists>picked. picked = (case limit of Some n \<Rightarrow> take n | None \<Rightarrow> id)
          (drop ((case offset of Some n \<Rightarrow> n | None \<Rightarrow> 1) - 1) [0..<length (split_lines content)])
     \<and> format_hashline_content s content offset limit =
         Some (join [newline] (map (\<lambda>i. render_anchored_line (generate_anchors s (split_lines content) ! i)
                                      (split_lines content ! i)) picked),
               join [newline] (map (\<lambda>i. split_lines content ! i) picked))
     \<and> (\<forall>i \<in> set picked.
          validate_anchor s (render_anchored_line (generate_anchors s (split_lines content) ! i)
            (split_lines content ! i)) (split_lines content) = Some (Inr i))"
proof -
  let ?lines = "split_lines content" and ?skip = "(case offset of Some n \<Rightarrow> n | None \<Rightarrow> 1) - 1"
  let ?cut = "\<lambda>xs. (case limit of Some n \<Rightarrow> take n | None \<Rightarrow> id) (drop ?skip xs)"
  have law: "lawful_scheme s" using assms(1) by (rule constructed_lawful)
  let ?g = "generate_anchors s ?lines"
  have sub: "i < length ?lines" if "i \<in> set (?cut [0..<length ?lines])" for i
    using that by (auto split: option.splits dest!: in_set_takeD in_set_dropD)
  have "enumerate 0 ?lines = map (\<lambda>i. (i, ?lines ! i)) [0..<length ?lines]"
    by (auto intro: nth_equalityI simp: nth_enumerate_eq)
  then have picked: "?cut (enumerate 0 ?lines) = map (\<lambda>i. (i, ?lines ! i)) (?cut [0..<length ?lines])"
    by (simp add: drop_map take_map split: option.splits)
  have "traverse (\<lambda>(i, line). map_option (\<lambda>a. (show_nat (i + 1) @ '':'' @ anchor_suffix a @ arrow @ line, line)) (nth_opt ?g i))
      (?cut (enumerate 0 ?lines))
      = Some (map (\<lambda>i. (render_anchored_line (?g ! i) (?lines ! i), ?lines ! i)) (?cut [0..<length ?lines]))"
    unfolding traverse_Some picked using sub lawful_scheme.anchors_length [OF law] lawful_scheme.anchor_line [OF law]
    by (auto simp: list_all2_map1 list_all2_map2 render_anchored_line_def intro: list.rel_refl_strong)
  then have "format_hashline_content s content offset limit =
      Some (join [newline] (map (\<lambda>i. render_anchored_line (?g ! i) (?lines ! i)) (?cut [0..<length ?lines])),
            join [newline] (map (\<lambda>i. ?lines ! i) (?cut [0..<length ?lines])))"
    by (simp add: format_hashline_content_def Let_def comp_def split: option.splits)
  moreover have "validate_anchor s (render_anchored_line (?g ! i) (?lines ! i)) ?lines = Some (Inr i)"
    if "i \<in> set (?cut [0..<length ?lines])" for i
    unfolding lawful_scheme.validate_anchor_iff [OF law]
    using lawful_scheme.shown_anchor_names(1) [OF law sub [OF that] assms(2)] .
  ultimately show ?thesis by blast
qed

theorem read_anchors_resolve_witness:
  "validate_anchor (chunk_scheme 3 8)
     (render_anchored_line (generate_anchors (chunk_scheme 3 8) [''a'', ''b''] ! 1) ''b'') [''a'', ''b''] = Some (Inr 1)"
proof -
  have lines: "split_lines (''a'' @ [newline] @ ''b'') = [''a'', ''b'']" by code_simp
  then have "length (split_lines (''a'' @ [newline] @ ''b'')) < 2 ^ 64" by simp
  from read_anchors_resolve [OF constructedI(2) this, of 3 8 None None] show ?thesis
    unfolding lines by simp
qed

end
