(* ===== verification/Hashline_Tool.thy ===== *)
theory Hashline_Tool
  imports Hashline_Apply Model_Paths Edit_Output
begin

text \<open>
  The \<open>hashline_edit\<close> tool around \<open>apply_edits\<close> (\<open>gbuild_hashline/edit/mod.rs\<close>): finding the file,
  reading it as text, writing the new content and turning the answer into that of
  \<open>search_replace\<close>. The file system is a record of functions; a run gives its answer and the
  writes it made. \<open>None\<close> is a panic.
\<close>

section \<open>The answer\<close>

definition context_count :: nat where "context_count = 3"

definition search_replace_detail_of :: "string list \<Rightarrow> edit_region_detail \<Rightarrow> search_replace_detail option" where
  "search_replace_detail_of old_lines d =
     (let old_idx = ed_old_line d - 1;
          before_start = old_idx - context_count;
          old_text_line_count = (if ed_old_text d = [] then 0 else length (split_char newline (ed_old_text d)));
          after_start = old_idx + old_text_line_count;
          after_end = min (after_start + context_count) (length old_lines)
      in if before_start < old_idx \<and> length old_lines < old_idx then None
         else Some
           \<lparr>sd_old_string = ed_old_text d, sd_old_line = ed_old_line d,
            sd_new_string = ed_new_text d, sd_new_line = ed_new_line d,
            sd_context_before =
              (if before_start < old_idx then
                 join [newline] (take (old_idx - before_start) (drop before_start old_lines)) @ [newline]
               else []),
            sd_context_after =
              (if after_start < after_end then
                 join [newline] (take (after_end - after_start) (drop after_start old_lines)) @ [newline]
               else []),
            sd_line_prefix = []\<rparr>)"

definition emdash :: string where
  "emdash = [CHR 0xE2, CHR 0x80, CHR 0x94]"

definition error_text :: "edit_error \<Rightarrow> string" where
  "error_text err =
     ee_message err
     @ (case ee_context err of
          Some ctx \<Rightarrow>
            [newline, newline]
            @ (case ee_context_start_line err of
                 Some start \<Rightarrow> ''Fresh anchors around line '' @ show_nat start @ '' '' @ emdash
                   @ '' use these to retry your edit:''
               | None \<Rightarrow> ''Fresh anchors '' @ emdash @ '' use these to retry your edit:'')
            @ [newline] @ ctx
        | None \<Rightarrow> [])
     @ (case ee_shifted_anchor err of
          Some a \<Rightarrow> [newline, newline] @ ''Suggested anchor: '' @ a
        | None \<Rightarrow> [])"

definition to_search_replace ::
  "edit_output \<Rightarrow> string \<Rightarrow> string \<Rightarrow> string option \<Rightarrow> edit_region_detail list \<Rightarrow> search_replace_output option" where
  "to_search_replace out file_path old_content new_content edit_details =
     (case out of
        EditsApplied applied \<Rightarrow>
          let new_text = (case new_content of Some t \<Rightarrow> t | None \<Rightarrow> []);
              details =
                (if edit_details = [] then
                   Some [\<lparr>sd_old_string = old_content, sd_old_line = 1, sd_new_string = new_text,
                          sd_new_line = 1, sd_context_before = [], sd_context_after = [],
                          sd_line_prefix = []\<rparr>]
                 else traverse (search_replace_detail_of (split_char newline old_content)) edit_details)
          in map_option (\<lambda>details. SR_EditsApplied
                 \<lparr>sr_old_string = old_content, sr_new_string = new_text,
                  sr_output_for_prompt =
                    (if ea_warnings applied = [] then ea_snippet applied
                     else join [newline] (ea_warnings applied) @ [newline, newline] @ ea_snippet applied),
                  sr_output_for_prompt_concise = None,
                  sr_absolute_path = ea_absolute_path applied, sr_details = details,
                  sr_unicode_normalized = False\<rparr>)
               details
      | Edit_Error err \<Rightarrow>
          Some (case ee_kind err of
                  FileNotFound \<Rightarrow> SR_FileNotFound (error_text err)
                | InvalidInput \<Rightarrow> SR_InvalidInput (error_text err)
                | _ \<Rightarrow> SR_NoMatchesFound (error_text err) file_path))"

section \<open>The run\<close>

text \<open>
  The file system as the tool sees it: canonical paths (\<open>try_canonicalize\<close>,
  \<open>canonicalize_with_timeout\<close>), the search for a confusable file name, reading and writing, the
  text of a missing file (\<open>format_not_found_error\<close>), and the home directory in \<open>tilde\<close>.
\<close>

record edit_world =
  ew_canonical :: "string \<Rightarrow> string option"
  ew_confusable :: "string \<Rightarrow> string option"
  ew_absolute :: "string \<Rightarrow> string"
  ew_read :: "string \<Rightarrow> io_fault + string"
  ew_write :: "string \<Rightarrow> string \<Rightarrow> io_fault option"
  ew_missing :: "string \<Rightarrow> string \<Rightarrow> string"
  ew_tilde :: "string \<Rightarrow> string"

type_synonym run_answer = "((string + search_replace_output) \<times> (string \<times> string) list) option"

text \<open>The answer to an I/O fault, and a run that answers with the writes made so far.\<close>

definition fault_output :: "edit_world \<Rightarrow> string \<Rightarrow> string \<Rightarrow> string \<Rightarrow> io_fault \<Rightarrow> search_replace_output" where
  "fault_output w display_path path doing e =
     (if io_kind_of e = Io_NotFound then SR_FileNotFound (ew_missing w display_path path)
      else SR_InvalidInput (''Failed to '' @ doing @ '' file: '' @ io_text e))"

definition run_result :: "(string \<times> string) list \<Rightarrow> search_replace_output option \<Rightarrow> run_answer" where
  "run_result writes out = map_option (\<lambda>result. (Inr result, writes)) out"

definition edit_existing ::
  "edit_world \<Rightarrow> line_scheme \<Rightarrow> string \<Rightarrow> string \<Rightarrow> hashline_op list \<Rightarrow> run_answer" where
  "edit_existing w scheme display_path path ops =
     (case ew_read w path of
        Inl e \<Rightarrow> run_result [] (Some (fault_output w display_path path ''read'' e))
      | Inr bytes \<Rightarrow>
          let old_content = from_utf8_lossy bytes
          in case apply_edits scheme path old_content ops of
               None \<Rightarrow> None
             | Some r \<Rightarrow>
                 (case ar_new_content r of
                    None \<Rightarrow> run_result [] (to_search_replace (ar_output r) path old_content None (ar_edit_details r))
                  | Some new_content \<Rightarrow>
                      (case ew_write w path new_content of
                         Some e \<Rightarrow>
                           run_result [(path, new_content)]
                             (to_search_replace (Edit_Error (plain_error IoError
                                (''Edits validated but failed to write file: '' @ io_text e @ ''.'') None))
                                path old_content None [])
                       | None \<Rightarrow>
                           run_result [(path, new_content)]
                             (to_search_replace (ar_output r) path old_content (Some new_content)
                                (ar_edit_details r)))))"

definition create_or_missing ::
  "edit_world \<Rightarrow> line_scheme \<Rightarrow> string \<Rightarrow> string \<Rightarrow> hashline_op list \<Rightarrow> run_answer" where
  "create_or_missing w scheme display_path joined_path ops =
     (case ops of
        [Op_Write content] \<Rightarrow>
          (case ew_write w joined_path content of
             Some e \<Rightarrow> run_result [(joined_path, content)] (Some (fault_output w display_path joined_path ''write'' e))
           | None \<Rightarrow>
               let abs = ew_absolute w joined_path
               in case apply_edits scheme abs content ops of
                    None \<Rightarrow> None
                  | Some r \<Rightarrow>
                      run_result [(joined_path, content)]
                        (to_search_replace (ar_output r) abs [] (ar_new_content r) (ar_edit_details r)))
      | _ \<Rightarrow> run_result [] (Some (SR_FileNotFound (ew_missing w display_path joined_path))))"

definition hashline_edit_run ::
  "edit_world \<Rightarrow> scheme_params \<Rightarrow> string \<Rightarrow> string option \<Rightarrow> string \<Rightarrow> hashline_op list \<Rightarrow> run_answer" where
  "hashline_edit_run w params cwd display_cwd file_path ops =
     (if ops = [] then run_result [] (Some (SR_InvalidInput ''No edit operations provided.''))
      else case build_scheme params of
             None \<Rightarrow> None
           | Some (Inl e) \<Rightarrow> Some (Inl e, [])
           | Some (Inr scheme) \<Rightarrow>
               let display_path = path_join (case display_cwd of Some d \<Rightarrow> d | None \<Rightarrow> cwd) file_path;
                   joined_path = resolve_model_path (ew_tilde w) cwd display_cwd file_path
               in case ew_canonical w joined_path of
                    Some path \<Rightarrow> edit_existing w scheme display_path path ops
                  | None \<Rightarrow>
                      (case ew_confusable w joined_path of
                         Some path \<Rightarrow> edit_existing w scheme display_path path ops
                       | None \<Rightarrow> create_or_missing w scheme display_path joined_path ops))"

section \<open>What a run writes\<close>

lemma split_lines_count: "length (split_lines content) = length (split_char newline content)"
  by (simp add: split_lines_parts Let_def)

lemma details_convert:
  assumes "list_all2 (\<lambda>r d. \<exists>t. region_of (split_lines content) new r (t, d)) rs ds"
    and "list_all (in_file (split_lines content)) rs"
  shows "\<exists>out. to_search_replace (EditsApplied applied) path content new_content ds = Some (SR_EditsApplied out)
    \<and> sr_new_string out = (case new_content of Some t \<Rightarrow> t | None \<Rightarrow> [])"
proof -
  have "search_replace_detail_of (split_char newline content) d \<noteq> None" if "d \<in> set ds" for d
  proof -
    from that assms(1) obtain i t where i: "i < length rs" "i < length ds" "d = ds ! i"
      "region_of (split_lines content) new (rs ! i) (t, d)"
      by (auto simp: in_set_conv_nth list_all2_conv_all_nth)
    moreover have "in_file (split_lines content) (rs ! i)" using assms(2) i(1) by (simp add: list_all_iff)
    ultimately have "ed_old_line d - 1 \<le> length (split_char newline content)"
      by (cases t) (auto simp: region_of_def in_file_def split_lines_count)
    then show ?thesis by (simp add: search_replace_detail_of_def Let_def)
  qed
  then have "traverse (search_replace_detail_of (split_char newline content)) ds \<noteq> None"
    by (auto simp: traverse_None)
  then show ?thesis by (auto simp: to_search_replace_def Let_def)
qed

lemma error_answer:
  "\<exists>out. to_search_replace (Edit_Error e) path content new ds = Some out \<and> (\<forall>ea. out \<noteq> SR_EditsApplied ea)"
  by (auto simp: to_search_replace_def split: edit_error_kind.splits)

lemma edit_existing_accepted:
  assumes "constructed s" "ew_read w path = Inr bytes" "\<nexists>c. ops = [Op_Write c]" "fits (from_utf8_lossy bytes) ops"
    and "accepted s (split_lines (from_utf8_lossy bytes)) ops rs"
    and new: "new = join [newline] (edited rs (split_lines (from_utf8_lossy bytes)))"
  shows "\<exists>out. edit_existing w s display path ops = Some (Inr out, [(path, new)])
    \<and> ((\<exists>ea. out = SR_EditsApplied ea \<and> sr_new_string ea = new) \<longleftrightarrow> ew_write w path new = None)"
proof -
  let ?old = "from_utf8_lossy bytes"
  from accepted_applies [OF assms(1) assms(5) assms(4) assms(3), of path]
  obtain a ea where a: "apply_edits s path ?old ops = Some a" "ar_new_content a = Some new"
    "ar_output a = EditsApplied ea"
    "list_all2 (\<lambda>r d. \<exists>t. region_of (split_lines ?old) (edited rs (split_lines ?old)) r (t, d))
       (sort_key ro_start rs) (ar_edit_details a)"
    unfolding new by blast
  have "list_all (in_file (split_lines ?old)) (sort_key ro_start rs)"
    using op_effect_in_file [OF assms(1)] assms(5) by (auto simp: accepted_def list_all_iff)
  from details_convert [OF a(4) this, of ea path "Some new"]
  obtain sr where sr: "to_search_replace (EditsApplied ea) path ?old (Some new) (ar_edit_details a) = Some (SR_EditsApplied sr)"
    "sr_new_string sr = new" by auto
  show ?thesis
  proof (cases "ew_write w path new")
    case None
    with a(1-3) sr assms(2) show ?thesis by (simp add: edit_existing_def run_result_def)
  next
    case (Some e)
    obtain out where "to_search_replace (Edit_Error (plain_error IoError
        (''Edits validated but failed to write file: '' @ io_text e @ ''.'') None)) path ?old None [] = Some out"
      "\<forall>ea. out \<noteq> SR_EditsApplied ea" using error_answer by metis
    with Some a(1-3) assms(2) show ?thesis unfolding edit_existing_def run_result_def Let_def
      by (simp only: sum.case option.case option.map option.distinct prod.inject sum.inject simp_thms ex_simps) blast
  qed
qed

lemma edit_existing_refused:
  assumes "constructed s" "ew_read w path = Inr bytes" "\<nexists>c. ops = [Op_Write c]"
    and "\<nexists>rs. accepted s (split_lines (from_utf8_lossy bytes)) ops rs"
  shows "\<exists>out. edit_existing w s display path ops = Some (Inr out, []) \<and> (\<nexists>ea. out = SR_EditsApplied ea)"
proof -
  obtain e where "apply_edits s path (from_utf8_lossy bytes) ops = Some (failed e)"
    using refused_error [OF assms(1,4,3)] by blast
  moreover obtain out where "to_search_replace (Edit_Error e) path (from_utf8_lossy bytes) None [] = Some out"
    "\<forall>ea. out \<noteq> SR_EditsApplied ea" using error_answer by metis
  ultimately show ?thesis using assms(2) by (simp add: edit_existing_def run_result_def failed_def)
qed

text \<open>
  C13. A run of the tool on a file that it can read writes that file at most once, and only with
  what an accepted batch makes of the text; a refused batch leaves every file alone. Success is
  answered exactly when the write went through, with the new content.
\<close>

theorem hashline_run_writes:
  assumes "build_scheme params = Some (Inr s)"
    and "ew_canonical w (resolve_model_path (ew_tilde w) cwd display_cwd file_path) = Some path"
    and "ew_read w path = Inr bytes" "ops \<noteq> []" "\<nexists>c. ops = [Op_Write c]" "fits (from_utf8_lossy bytes) ops"
  shows "\<exists>out writes. hashline_edit_run w params cwd display_cwd file_path ops = Some (Inr out, writes)
    \<and> (case writes of
         [] \<Rightarrow> (\<nexists>rs. accepted s (split_lines (from_utf8_lossy bytes)) ops rs) \<and> (\<nexists>ea. out = SR_EditsApplied ea)
       | (p, new) # rest \<Rightarrow>
           p = path \<and> rest = []
           \<and> (\<exists>rs. accepted s (split_lines (from_utf8_lossy bytes)) ops rs
                \<and> new = join [newline] (edited rs (split_lines (from_utf8_lossy bytes))))
           \<and> ((\<exists>ea. out = SR_EditsApplied ea \<and> sr_new_string ea = new) \<longleftrightarrow> ew_write w path new = None))"
proof -
  let ?display = "path_join (case display_cwd of Some d \<Rightarrow> d | None \<Rightarrow> cwd) file_path"
  have run: "hashline_edit_run w params cwd display_cwd file_path ops = edit_existing w s ?display path ops"
    using assms(1,2,4) by (simp add: hashline_edit_run_def)
  have s: "constructed s" using assms(1) by (rule build_scheme_constructed)
  show ?thesis
  proof (cases "\<exists>rs. accepted s (split_lines (from_utf8_lossy bytes)) ops rs")
    case True
    then obtain rs where rs: "accepted s (split_lines (from_utf8_lossy bytes)) ops rs" by blast
    from edit_existing_accepted [where display = ?display, OF s assms(3,5,6) rs refl] rs show ?thesis
      unfolding run by fastforce
  next
    case False
    from edit_existing_refused [where display = ?display, OF s assms(3,5) False] False show ?thesis
      unfolding run by fastforce
  qed
qed

text \<open>A file system with one text in every file, where every name but those of \<open>new\<close> is found.\<close>

definition sample_files :: "bool \<Rightarrow> edit_world" where
  "sample_files new =
     \<lparr>ew_canonical = (\<lambda>p. if new then None else Some p), ew_confusable = (\<lambda>_. None), ew_absolute = id,
      ew_read = (\<lambda>_. Inr ''ab''), ew_write = (\<lambda>_ _. None), ew_missing = (\<lambda>_ _. ''missing''), ew_tilde = id\<rparr>"

lemma default_scheme: "build_scheme scheme_params_default = Some (Inr (chunk_scheme 3 8))"
  by (simp add: build_scheme_def scheme_params_default_def scheme_params_validate_def chunk_with_params_def)

lemma sample_path: "resolve_model_path (ew_tilde (sample_files new)) ''/r'' None ''f'' = ''/r/f''"
  unfolding sample_files_def edit_world.simps by code_simp

theorem hashline_run_writes_witness:
  "\<exists>out writes. hashline_edit_run (sample_files False) scheme_params_default ''/r'' None ''f''
       [Op_InsertAfter ''EOF'' ''y''] = Some (Inr out, writes)
     \<and> (writes = [] \<or> (\<exists>new. writes = [(''/r/f'', new)] \<and> (\<exists>ea. out = SR_EditsApplied ea \<and> sr_new_string ea = new)))"
proof -
  let ?ops = "[Op_InsertAfter ''EOF'' ''y'']" and ?w = "sample_files False"
  have found: "ew_canonical ?w (resolve_model_path (ew_tilde ?w) ''/r'' None ''f'') = Some ''/r/f''"
    unfolding sample_path by (simp add: sample_files_def)
  have read: "ew_read ?w ''/r/f'' = Inr ''ab''" by (simp add: sample_files_def)
  have written: "ew_write ?w path new = None" for path new by (simp add: sample_files_def)
  have "from_utf8_lossy ''ab'' = ''ab''" "split_lines ''ab'' = [''ab'']" "str_lines ''y'' = [''y'']" by code_simp+
  then have fits: "fits (from_utf8_lossy ''ab'') ?ops" by (simp add: fits_def op_size_def)
  from hashline_run_writes [OF default_scheme found read _ _ fits] show ?thesis
    unfolding written by (fastforce split: list.splits)
qed

text \<open>
  A refused write still creates the file: when the path is new, the content is written
  before it is checked, so a text with copied anchors is on disk although the tool answers that
  its input is invalid.
\<close>

theorem refused_write_creates_file:
  assumes "build_scheme params = Some (Inr s)"
    and "joined = resolve_model_path (ew_tilde w) cwd display_cwd file_path"
    and "ew_canonical w joined = None" "ew_confusable w joined = None" "ew_write w joined content = None"
    and "detect_anchor_prefix_in_content content = Some line"
  shows "\<exists>msg. hashline_edit_run w params cwd display_cwd file_path [Op_Write content]
    = Some (Inr (SR_InvalidInput msg), [(joined, content)])"
  using assms
  by (simp add: hashline_edit_run_def create_or_missing_def apply_edits_def apply_write_def failed_def
      to_search_replace_def anchor_content_error_def run_result_def Let_def)

theorem refused_write_creates_file_witness:
  "\<exists>msg. hashline_edit_run (sample_files True) scheme_params_default ''/r'' None ''f''
       [Op_Write (''1:abc'' @ arrow @ ''x'')] = Some (Inr (SR_InvalidInput msg), [(''/r/f'', ''1:abc'' @ arrow @ ''x'')])"
proof -
  have "detect_anchor_prefix_in_content (''1:abc'' @ arrow @ ''x'') = Some 1" by code_simp
  moreover have "ew_canonical (sample_files True) ''/r/f'' = None" "ew_confusable (sample_files True) ''/r/f'' = None"
    "ew_write (sample_files True) ''/r/f'' (''1:abc'' @ arrow @ ''x'') = None"
    by (simp_all add: sample_files_def)
  ultimately show ?thesis
    using refused_write_creates_file [OF default_scheme sample_path [symmetric, of True]] by blast
qed

end
