(* ===== verification/Hashline_Grep.thy ===== *)
theory Hashline_Grep
  imports Hashline_Tool
begin

text \<open>
  \<open>hashline_grep\<close> (\<open>gbuild_hashline/grep.rs\<close>): anchors put into the lines of a search result, with
  a cache of the anchors of each file for the length of the call. The search itself is the
  standard grep tool, whose output is the argument. \<open>None\<close> is a panic.
\<close>

section \<open>Definitions\<close>

type_synonym anchor_cache = "string \<rightharpoonup> anchor list"

definition file_anchors :: "line_scheme \<Rightarrow> string \<Rightarrow> anchor list" where
  "file_anchors scheme bytes = generate_anchors scheme (split_lines (from_utf8_lossy bytes))"

definition get_or_generate ::
  "(string \<Rightarrow> string option) \<Rightarrow> line_scheme \<Rightarrow> anchor_cache \<Rightarrow> string \<Rightarrow> anchor list option \<times> anchor_cache" where
  "get_or_generate read scheme cache path =
     (case cache path of
        Some anchors \<Rightarrow> (Some anchors, cache)
      | None \<Rightarrow>
          (case read path of
             None \<Rightarrow> (None, cache)
           | Some bytes \<Rightarrow>
               (Some (file_anchors scheme bytes), cache(path \<mapsto> file_anchors scheme bytes))))"

definition parse_rg_line :: "string \<Rightarrow> (nat \<times> char \<times> string) option" where
  "parse_rg_line line =
     (let ds = takeWhile is_digit line; idx = length ds
      in if idx = 0 \<or> idx \<ge> length line then None
         else if line ! idx \<noteq> CHR '':'' \<and> line ! idx \<noteq> CHR ''-'' then None
         else map_option (\<lambda>num. (num, line ! idx, drop (idx + 1) line)) (parse_uint 64 ds))"

definition names_file :: "string \<Rightarrow> bool" where
  "names_file line \<longleftrightarrow>
     parse_rg_line line = None \<and> \<not> starts_with line ''Found '' \<and> \<not> starts_with line ''... ['' \<and> line \<noteq> []"

text \<open>One line of the body: its text in the result, the cache and the current file after it.\<close>

definition inject_line ::
  "(string \<Rightarrow> string option) \<Rightarrow> string \<Rightarrow> line_scheme \<Rightarrow> string \<Rightarrow> anchor_cache \<Rightarrow> string option
     \<Rightarrow> (string \<times> anchor_cache \<times> string option) option" where
  "inject_line read cwd scheme line cache cur =
     (if line = ''--'' then Some (line, cache, cur)
      else
        let plain = (\<lambda>cache. Some (line, cache, if names_file line then Some (path_join cwd line) else cur))
        in case parse_rg_line line of
             None \<Rightarrow> plain cache
           | Some (line_num, separator, content) \<Rightarrow>
               (case cur of
                  None \<Rightarrow> plain cache
                | Some file_path \<Rightarrow>
                    (case get_or_generate read scheme cache file_path of
                       (None, cache) \<Rightarrow> plain cache
                     | (Some anchors, cache) \<Rightarrow>
                         if line_num - 1 < length anchors then
                           if line_num = 0 then None
                           else Some (show_nat line_num @ '':'' @ anchor_suffix (anchors ! (line_num - 1))
                                      @ [separator] @ content, cache, cur)
                         else plain cache)))"

fun inject_loop ::
  "(string \<Rightarrow> string option) \<Rightarrow> string \<Rightarrow> line_scheme \<Rightarrow> string list \<Rightarrow> anchor_cache \<Rightarrow> string option
     \<Rightarrow> string \<Rightarrow> string option" where
  "inject_loop read cwd scheme [] cache cur result = Some result"
| "inject_loop read cwd scheme (line # lines) cache cur result =
     (let result = (if \<not> ends_with result [newline] \<and> \<not> ends_with result ''>'' then result @ [newline] else result)
      in case inject_line read cwd scheme line cache cur of
           None \<Rightarrow> None
         | Some (text, cache, cur) \<Rightarrow> inject_loop read cwd scheme lines cache cur (result @ text))"

definition closing_tag :: string where
  "closing_tag = newline # ''</workspace_result>''"

definition inject_anchors ::
  "(string \<Rightarrow> string option) \<Rightarrow> string \<Rightarrow> line_scheme \<Rightarrow> string \<Rightarrow> string option" where
  "inject_anchors read cwd scheme stdout_bytes =
     (let stdout = from_utf8_lossy stdout_bytes
      in case (find (\<lambda>k. prefix (''>'' @ [newline]) (drop k stdout)) [0..<Suc (length stdout)],
               find (\<lambda>k. prefix closing_tag (drop k stdout)) (rev [0..<Suc (length stdout)])) of
           (Some start, Some end) \<Rightarrow>
             (if end < start + 2 then None
              else map_option (\<lambda>result. result @ drop end stdout)
                     (inject_loop read cwd scheme (str_lines (take (end - (start + 2)) (drop (start + 2) stdout)))
                        Map.empty None (take (start + 2) stdout)))
         | _ \<Rightarrow> Some stdout_bytes)"

section \<open>What it is meant to do\<close>

text \<open>Each line by itself, without a cache; the lines are put together with line feeds.\<close>

definition line_text ::
  "(string \<Rightarrow> string option) \<Rightarrow> string \<Rightarrow> line_scheme \<Rightarrow> string \<Rightarrow> string option
     \<Rightarrow> (string \<times> string option) option" where
  "line_text read cwd scheme line cur =
     (case (parse_rg_line line, map_option (file_anchors scheme) (Option.bind cur read)) of
        (Some (n, separator, content), Some anchors) \<Rightarrow>
          if n - 1 < length anchors then
            if n = 0 then None
            else Some (show_nat n @ '':'' @ anchor_suffix (anchors ! (n - 1)) @ [separator] @ content, cur)
          else Some (line, cur)
      | _ \<Rightarrow> Some (line, if names_file line \<and> line \<noteq> ''--'' then Some (path_join cwd line) else cur))"

fun annotated ::
  "(string \<Rightarrow> string option) \<Rightarrow> string \<Rightarrow> line_scheme \<Rightarrow> string list \<Rightarrow> string option \<Rightarrow> string list option" where
  "annotated read cwd scheme [] cur = Some []"
| "annotated read cwd scheme (line # lines) cur =
     (case line_text read cwd scheme line cur of
        None \<Rightarrow> None
      | Some (text, cur) \<Rightarrow> map_option ((#) text) (annotated read cwd scheme lines cur))"

definition cache_sound :: "(string \<Rightarrow> string option) \<Rightarrow> line_scheme \<Rightarrow> anchor_cache \<Rightarrow> bool" where
  "cache_sound read scheme cache \<longleftrightarrow>
     (\<forall>path. cache path \<noteq> None \<longrightarrow> cache path = map_option (file_anchors scheme) (read path))"

lemma get_or_generate_sound:
  assumes "cache_sound read scheme cache"
  shows "fst (get_or_generate read scheme cache path) = map_option (file_anchors scheme) (read path)"
    and "cache_sound read scheme (snd (get_or_generate read scheme cache path))"
proof -
  from assms have "cache path = None \<or> cache path = map_option (file_anchors scheme) (read path)"
    unfolding cache_sound_def by metis
  then show "fst (get_or_generate read scheme cache path) = map_option (file_anchors scheme) (read path)"
    by (auto simp: get_or_generate_def split: option.splits)
  show "cache_sound read scheme (snd (get_or_generate read scheme cache path))"
    using assms by (auto simp: get_or_generate_def cache_sound_def split: option.splits)
qed

text \<open>The cache is never seen.\<close>

lemma separator_not_numbered: "parse_rg_line ''--'' = None"
  by (simp add: parse_rg_line_def is_digit_def)

lemma inject_line_text:
  assumes "cache_sound read scheme cache"
  shows "case line_text read cwd scheme line cur of
      None \<Rightarrow> inject_line read cwd scheme line cache cur = None
    | Some (t, cur') \<Rightarrow> \<exists>cache'. inject_line read cwd scheme line cache cur = Some (t, cache', cur')
        \<and> cache_sound read scheme cache'"
proof (cases "parse_rg_line line")
  case None
  then show ?thesis using assms by (simp add: line_text_def inject_line_def)
next
  case (Some parsed)
  then have line: "line \<noteq> ''--''" "\<not> names_file line"
    using separator_not_numbered by (auto simp: names_file_def)
  obtain n sep content where parsed: "parsed = (n, sep, content)" by (cases parsed)
  show ?thesis
  proof (cases cur)
    case None
    with Some parsed line assms show ?thesis by (simp add: line_text_def inject_line_def)
  next
    case path: (Some path)
    obtain found cache' where got: "get_or_generate read scheme cache path = (found, cache')" by fastforce
    with get_or_generate_sound [OF assms, of path]
    have "found = map_option (file_anchors scheme) (read path)" "cache_sound read scheme cache'" by simp_all
    with Some parsed line path got show ?thesis
      by (cases "read path") (simp_all add: line_text_def inject_line_def)
  qed
qed

text \<open>A text that the loop puts on a line of its own.\<close>

definition separable :: "string \<Rightarrow> bool" where
  "separable text \<longleftrightarrow> text \<noteq> [] \<and> last text \<noteq> newline \<and> last text \<noteq> CHR ''>''"

lemma ends_with_last: "ends_with s [c] \<longleftrightarrow> s \<noteq> [] \<and> last s = c"
  by (cases s rule: rev_cases) (auto simp: ends_with_def suffix_def)

lemma inject_loop_step:
  assumes "cache_sound read scheme cache" "line_text read cwd scheme line cur = Some (t, cur')" "result \<noteq> []"
  obtains cache' where "cache_sound read scheme cache'"
    and "\<And>lines. inject_loop read cwd scheme (line # lines) cache cur result
      = inject_loop read cwd scheme lines cache' cur' ((if separable result then result @ [newline] else result) @ t)"
proof -
  obtain cache' where line: "inject_line read cwd scheme line cache cur = Some (t, cache', cur')"
    "cache_sound read scheme cache'"
    using inject_line_text [OF assms(1), of cwd line cur] assms(2) by auto
  then show thesis
    using assms(3) by (intro that [of cache']) (simp_all add: Let_def ends_with_last separable_def)
qed

text \<open>Empty texts are left out.\<close>

definition nonempty :: "string list \<Rightarrow> string list" where
  "nonempty ts = filter (\<lambda>t. t \<noteq> []) ts"

lemma nonempty_simps [simp]: "nonempty [] = []" "nonempty (t # ts) = (if t = [] then nonempty ts else t # nonempty ts)"
  by (simp_all add: nonempty_def)

lemma nonempty_Nil: "ts \<noteq> [] \<Longrightarrow> last ts \<noteq> [] \<Longrightarrow> nonempty ts \<noteq> []"
  using last_in_set [of ts] by (auto simp: nonempty_def filter_empty_conv)

lemma inject_loop_annotated:
  assumes "cache_sound read scheme cache" "annotated read cwd scheme lines cur = Some ts"
    and "list_all (\<lambda>t. t = [] \<or> separable t) (butlast ts)" "ts = [] \<or> last ts \<noteq> []" "result \<noteq> []"
  shows "inject_loop read cwd scheme lines cache cur result =
     Some (result @ (if ts \<noteq> [] \<and> separable result then [newline] else []) @ join [newline] (nonempty ts))"
  using assms
proof (induction lines arbitrary: cache cur ts result)
  case (Cons line lines)
  obtain t cur' ts' where t: "line_text read cwd scheme line cur = Some (t, cur')"
    "annotated read cwd scheme lines cur' = Some ts'" "ts = t # ts'"
    using Cons.prems(2) by (auto split: option.splits)
  let ?r = "(if separable result then result @ [newline] else result) @ t"
  obtain cache' where sound: "cache_sound read scheme cache'"
    and step: "inject_loop read cwd scheme (line # lines) cache cur result = inject_loop read cwd scheme lines cache' cur' ?r"
    using inject_loop_step [OF Cons.prems(1) t(1) Cons.prems(5)] by metis
  show ?case
  proof (cases "ts' = []")
    case True
    with t(2) have "lines = []" by (cases lines) (auto split: option.splits)
    with True t(3) Cons.prems(4) step show ?thesis by simp
  next
    case False
    have rest: "list_all (\<lambda>t. t = [] \<or> separable t) (butlast ts')" "ts' = [] \<or> last ts' \<noteq> []" "?r \<noteq> []"
      "t = [] \<or> separable t" "nonempty ts' \<noteq> []"
      using False Cons.prems(3-5) t(3) nonempty_Nil by auto
    have "separable ?r \<longleftrightarrow> t \<noteq> []" using rest(4) by (auto simp: separable_def)
    then have "inject_loop read cwd scheme lines cache' cur' ?r =
        Some (?r @ (if t \<noteq> [] then [newline] else []) @ join [newline] (nonempty ts'))"
      using Cons.IH [OF sound t(2) rest(1-3)] False by simp
    with step rest(5) t(3) show ?thesis by (cases "nonempty ts'") simp_all
  qed
qed simp

section \<open>Properties\<close>

lemma find_rev_upt:
  assumes "i < n" "P i" "\<And>j. i < j \<Longrightarrow> j < n \<Longrightarrow> \<not> P j"
  shows "find P (rev [0..<n]) = Some i"
  using assms
proof (induction n)
  case (Suc n)
  show ?case
  proof (cases "i = n")
    case False
    with Suc.prems have "\<not> P n" "i < n" by auto
    with Suc show ?thesis by simp
  qed (use Suc.prems in simp)
qed simp

lemma find_closing:
  "find (\<lambda>k. prefix closing_tag (drop k (body @ closing_tag))) (rev [0..<Suc (length (body @ closing_tag))])
     = Some (length body)"
proof (rule find_rev_upt)
  fix j assume "length body < j"
  then have "length (drop j (body @ closing_tag)) < length closing_tag" by (simp add: closing_tag_def)
  then show "\<not> prefix closing_tag (drop j (body @ closing_tag))" by (auto dest: prefix_length_le)
qed simp_all

lemma inject_anchors_wrapped:
  assumes "stdout = tag @ ''>'' @ [newline] @ body @ closing_tag" "CHR ''>'' \<notin> set tag" "utf8_valid stdout"
  shows "inject_anchors read cwd s stdout = map_option (\<lambda>result. result @ closing_tag)
     (inject_loop read cwd s (str_lines body) Map.empty None (tag @ ''>'' @ [newline]))"
proof -
  let ?pre = "tag @ ''>'' @ [newline]"
  have opens: "find (\<lambda>k. prefix (''>'' @ [newline]) (drop k stdout)) [0..<Suc (length stdout)] = Some (length tag)"
    using find_str_first [of "''>'' @ [newline]" tag "body @ closing_tag"] assms(1,2) by simp
  have closes: "find (\<lambda>k. prefix closing_tag (drop k stdout)) (rev [0..<Suc (length stdout)]) = Some (length (?pre @ body))"
    using find_closing [of "?pre @ body"] assms(1) by simp
  have parts: "take (length (?pre @ body) - (length tag + 2)) (drop (length tag + 2) stdout) = body"
    "drop (length (?pre @ body)) stdout = closing_tag" "take (length tag + 2) stdout = ?pre"
    by (simp_all add: assms(1))
  show ?thesis
    unfolding inject_anchors_def from_utf8_lossy_valid [OF assms(3)] Let_def opens closes prod.case option.case parts
    by simp
qed

lemma numbered_line_text:
  assumes "parse_rg_line line = Some (n, separator, content)" "read path = Some bytes" "0 < n"
    and "n \<le> length (file_anchors s bytes)"
  shows "line_text read cwd s line (Some path) =
     Some (show_nat n @ '':'' @ anchor_suffix (file_anchors s bytes ! (n - 1)) @ [separator] @ content, Some path)"
proof -
  have "n - 1 < length (file_anchors s bytes)" using assms(3,4) by simp
  with assms(1-3) show ?thesis by (simp add: line_text_def)
qed

lemma sample_numbered:
  "parse_rg_line ''1:<b>'' = Some (1, CHR '':'', ''<b>'')" "parse_rg_line ''2-c'' = Some (2, CHR ''-'', ''c'')"
  "parse_rg_line ''f'' = None"
proof -
  have "show_nat 1 = ''1''" "show_nat 2 = ''2''" by code_simp+
  then have "parse_uint 64 ''1'' = Some 1" "parse_uint 64 ''2'' = Some 2"
    using parse_show_nat [of 1 64] parse_show_nat [of 2 64] by simp_all
  then show "parse_rg_line ''1:<b>'' = Some (1, CHR '':'', ''<b>'')" "parse_rg_line ''2-c'' = Some (2, CHR ''-'', ''c'')"
    "parse_rg_line ''f'' = None"
    by (simp_all add: parse_rg_line_def is_digit_def)
qed

lemma sample_header: "line_text read ''/r'' s ''f'' None = Some (''f'', Some ''/r/f'')"
  by (simp add: line_text_def sample_numbered names_file_def starts_with_def path_join_def is_absolute_def)

lemma sample_file:
  "length (file_anchors (content_only 3) (''<b>'' @ [newline] @ ''c'')) = 2" "show_nat 1 = ''1''" "show_nat 2 = ''2''"
proof -
  have "split_lines (from_utf8_lossy (''<b>'' @ [newline] @ ''c'')) = [''<b>'', ''c'']" by code_simp
  then show "length (file_anchors (content_only 3) (''<b>'' @ [newline] @ ''c'')) = 2"
    by (simp add: file_anchors_def content_only_def content_only_generate_def)
qed code_simp+

text \<open>The loop with its cache gives the lines by themselves, put together.\<close>

lemma grep_annotates:
  assumes "stdout = tag @ ''>'' @ [newline] @ body @ closing_tag" "CHR ''>'' \<notin> set tag" "utf8_valid stdout"
    and "annotated read cwd s (str_lines body) None = Some texts"
    and "list_all (\<lambda>t. t = [] \<or> separable t) (butlast texts)" "texts = [] \<or> last texts \<noteq> []"
  shows "inject_anchors read cwd s stdout = Some (tag @ ''>'' @ [newline] @ join [newline] (nonempty texts) @ closing_tag)"
  using inject_anchors_wrapped [OF assms(1-3), of read cwd s] assms(4-6)
    inject_loop_annotated [of read s Map.empty cwd "str_lines body" None texts "tag @ ''>'' @ [newline]"]
  by (simp add: cache_sound_def separable_def)

text \<open>The anchor of a numbered line names that line of the file to the edit tool.\<close>

lemma grep_anchor_resolves:
  assumes "constructed s" "parse_rg_line line = Some (n, separator, content)" "read path = Some bytes"
    and "0 < n" "n \<le> length (split_lines (from_utf8_lossy bytes))"
    and "length (split_lines (from_utf8_lossy bytes)) < 2 ^ 64"
  shows "\<exists>a. line_text read cwd s line (Some path) = Some (a @ [separator] @ content, Some path)
    \<and> validate_anchor s a (split_lines (from_utf8_lossy bytes)) = Some (Inr (n - 1))"
proof -
  let ?lines = "split_lines (from_utf8_lossy bytes)"
  have law: "lawful_scheme s" using assms(1) by (rule constructed_lawful)
  have n: "n - 1 < length ?lines" using assms(4,5) by simp
  let ?a = "generate_anchors s ?lines ! (n - 1)"
  have "anchor_render ?a = show_nat n @ '':'' @ anchor_suffix ?a"
    using lawful_scheme.anchor_line [OF law n] assms(4)
    by (simp add: anchor_render_def anchor_suffix_def split: option.splits)
  then have "line_text read cwd s line (Some path) = Some (anchor_render ?a @ [separator] @ content, Some path)"
    using assms(2-4) n lawful_scheme.anchors_length [OF law] by (simp add: line_text_def file_anchors_def)
  moreover have "validate_anchor s (anchor_render ?a) ?lines = Some (Inr (n - 1))"
    unfolding lawful_scheme.validate_anchor_iff [OF law]
    by (rule lawful_scheme.shown_anchor_names(2) [OF law n assms(6)])
  ultimately show ?thesis by blast
qed

text \<open>
  A search result as the search tool means it: the name of a file, a line of the current file with
  its number and the separator of a match or of its context, another line (the separator of
  groups, the summary, the note on a truncation), or the blank line between two files.
\<close>

datatype grep_line = File_Header string | Numbered nat char string | Note string | Blank

fun grep_line_text :: "grep_line \<Rightarrow> string" where
  "grep_line_text (File_Header name) = name"
| "grep_line_text (Numbered n sep content) = show_nat n @ [sep] @ content"
| "grep_line_text (Note t) = t"
| "grep_line_text Blank = []"

definition whole_line :: "string \<Rightarrow> bool" where
  "whole_line t \<longleftrightarrow> t \<noteq> [] \<and> newline \<notin> set t \<and> last t \<noteq> creturn \<and> last t \<noteq> CHR ''>''"

fun grep_result :: "(string \<Rightarrow> string option) \<Rightarrow> string \<Rightarrow> string option \<Rightarrow> grep_line list \<Rightarrow> bool" where
  "grep_result read cwd cur [] \<longleftrightarrow> True"
| "grep_result read cwd cur (File_Header name # ls) \<longleftrightarrow>
     whole_line name \<and> parse_rg_line name = None \<and> name \<noteq> ''--''
     \<and> \<not> starts_with name ''Found '' \<and> \<not> starts_with name ''... [''
     \<and> grep_result read cwd (Some (path_join cwd name)) ls"
| "grep_result read cwd cur (Numbered n sep content # ls) \<longleftrightarrow>
     whole_line (sep # content) \<and> sep \<in> {CHR '':'', CHR ''-''}
     \<and> (case Option.bind cur read of
          None \<Rightarrow> False
        | Some bytes \<Rightarrow> 0 < n \<and> n \<le> length (split_lines (from_utf8_lossy bytes))
            \<and> length (split_lines (from_utf8_lossy bytes)) < 2 ^ 64)
     \<and> grep_result read cwd cur ls"
| "grep_result read cwd cur (Note t # ls) \<longleftrightarrow>
     whole_line t \<and> (t = ''--'' \<or> starts_with t ''Found '' \<or> starts_with t ''... ['')
     \<and> grep_result read cwd cur ls"
| "grep_result read cwd cur (Blank # ls) \<longleftrightarrow> ls \<noteq> [] \<and> grep_result read cwd cur ls"

text \<open>
  The result with anchors: a numbered line starts with an anchor that the edit tool takes for that
  line, and blank lines are left out.
\<close>

inductive anchored_lines ::
  "(string \<Rightarrow> string option) \<Rightarrow> string \<Rightarrow> line_scheme \<Rightarrow> string option \<Rightarrow> grep_line list \<Rightarrow> string list \<Rightarrow> bool"
  for read cwd s where
  anchored_nil: "anchored_lines read cwd s cur [] []"
| anchored_header: "anchored_lines read cwd s (Some (path_join cwd name)) ls ts \<Longrightarrow>
    anchored_lines read cwd s cur (File_Header name # ls) (name # ts)"
| anchored_numbered: "read path = Some bytes \<Longrightarrow>
    validate_anchor s a (split_lines (from_utf8_lossy bytes)) = Some (Inr (n - 1)) \<Longrightarrow>
    anchored_lines read cwd s (Some path) ls ts \<Longrightarrow>
    anchored_lines read cwd s (Some path) (Numbered n sep content # ls) ((a @ [sep] @ content) # ts)"
| anchored_note: "anchored_lines read cwd s cur ls ts \<Longrightarrow> anchored_lines read cwd s cur (Note t # ls) (t # ts)"
| anchored_blank: "anchored_lines read cwd s cur ls ts \<Longrightarrow> anchored_lines read cwd s cur (Blank # ls) ts"

lemma parse_rg_line_numbered:
  assumes "n < 2 ^ 64" "sep \<in> {CHR '':'', CHR ''-''}"
  shows "parse_rg_line (show_nat n @ [sep] @ content) = Some (n, sep, content)"
proof -
  have sep: "\<not> is_digit sep" using assms(2) by (auto simp: is_digit_def)
  have "takeWhile is_digit (show_nat n @ sep # content) = show_nat n"
    using show_nat_facts [of n] sep by (simp add: takeWhile_append2 list_all_iff)
  then show ?thesis
    using assms show_nat_facts [of n] parse_show_nat [of n 64] by (auto simp: parse_rg_line_def nth_append Let_def)
qed

lemma note_text:
  assumes "t = ''--'' \<or> starts_with t ''Found '' \<or> starts_with t ''... [''"
  shows "line_text read cwd s t cur = Some (t, cur)"
proof -
  have "takeWhile is_digit t = []"
    using assms by (cases t) (auto simp: starts_with_def prefix_def is_digit_def)
  then have "parse_rg_line t = None" by (simp add: parse_rg_line_def Let_def)
  with assms show ?thesis by (auto simp: line_text_def names_file_def)
qed

lemma whole_line_separable: "whole_line t \<Longrightarrow> separable (a @ t)"
  unfolding whole_line_def separable_def by (metis append_is_Nil_conv last_appendR last_in_set)

lemma blank_text: "line_text read cwd s [] cur = Some ([], cur)"
  by (simp add: line_text_def names_file_def parse_rg_line_def)

lemma grep_result_annotated:
  assumes "constructed s" "grep_result read cwd cur ls"
  shows "\<exists>ts. annotated read cwd s (map grep_line_text ls) cur = Some ts \<and> list_all (\<lambda>t. t = [] \<or> separable t) ts
    \<and> (ts = [] \<longleftrightarrow> ls = []) \<and> (ts = [] \<or> last ts \<noteq> []) \<and> anchored_lines read cwd s cur ls (nonempty ts)"
  using assms(2)
proof (induction read cwd cur ls rule: grep_result.induct)
  case (2 read cwd cur name ls)
  then have "line_text read cwd s name cur = Some (name, Some (path_join cwd name))" "name \<noteq> []"
    by (auto simp: line_text_def names_file_def whole_line_def)
  with 2 show ?case using whole_line_separable [of name "[]"] by (auto intro: anchored_header)
next
  case (3 read cwd cur n sep content ls)
  then obtain path bytes where f: "cur = Some path" "read path = Some bytes" "0 < n"
      "n \<le> length (split_lines (from_utf8_lossy bytes))" "length (split_lines (from_utf8_lossy bytes)) < 2 ^ 64"
    by (auto simp: bind_eq_Some_conv split: option.splits)
  then have "parse_rg_line (show_nat n @ [sep] @ content) = Some (n, sep, content)"
    using 3 by (intro parse_rg_line_numbered) auto
  from grep_anchor_resolves [where s = s and read = read and path = path and cwd = cwd, OF assms(1) this f(2-5)] obtain a where
      a: "line_text read cwd s (show_nat n @ [sep] @ content) (Some path) = Some (a @ [sep] @ content, Some path)"
        "validate_anchor s a (split_lines (from_utf8_lossy bytes)) = Some (Inr (n - 1))" by blast
  from 3 obtain ts where ts: "annotated read cwd s (map grep_line_text ls) cur = Some ts"
      "list_all (\<lambda>t. t = [] \<or> separable t) ts" "ts = [] \<longleftrightarrow> ls = []" "ts = [] \<or> last ts \<noteq> []"
      "anchored_lines read cwd s cur ls (nonempty ts)" by auto
  then have "anchored_lines read cwd s cur (Numbered n sep content # ls) ((a @ [sep] @ content) # nonempty ts)"
    using anchored_numbered [where read = read and path = path and s = s and n = n, OF f(2) a(2)] f(1) by simp
  with ts show ?case
    using a(1) f(1) 3 whole_line_separable [of "sep # content" a]
    by (intro exI [of _ "(a @ [sep] @ content) # ts"]) (cases "ls = []"; simp)
next
  case (4 read cwd cur t ls)
  then have "t \<noteq> []" by (simp add: whole_line_def)
  with 4 show ?case using note_text [of t read cwd s cur] whole_line_separable [of t "[]"]
    by (auto intro: anchored_note)
next
  case (5 read cwd cur ls)
  then show ?case using blank_text [of read cwd s cur] by (auto intro: anchored_blank)
qed (simp add: anchored_nil)

lemma grep_result_whole:
  "grep_result read cwd cur ls \<Longrightarrow>
     list_all (\<lambda>t. t = [] \<or> whole_line t) (map grep_line_text ls) \<and> (ls = [] \<or> last (map grep_line_text ls) \<noteq> [])"
proof (induction read cwd cur ls rule: grep_result.induct)
  case (3 read cwd cur n sep content ls)
  then show ?case
    using show_nat_digits [of newline n] show_nat_facts [of n] by (auto simp: whole_line_def is_digit_def)
qed (auto simp: whole_line_def)

lemma grep_result_lines:
  assumes "grep_result read cwd cur ls"
  shows "str_lines (join [newline] (map grep_line_text ls)) = map grep_line_text ls"
proof (cases "ls = []")
  case False
  have whole: "\<forall>t \<in> set (map grep_line_text ls). t = [] \<or> whole_line t" "last (map grep_line_text ls) \<noteq> []"
    using grep_result_whole [OF assms] False by (auto simp: list_all_iff)
  then have "list_all (\<lambda>t. newline \<notin> set t) (map grep_line_text ls)" by (fastforce simp: list_all_iff whole_line_def)
  moreover have "strip_cr t = t" if "t \<in> set (butlast (map grep_line_text ls))" for t
    using in_set_butlastD [OF that] whole(1)
    by (auto simp: whole_line_def strip_cr_def strip_suffix_Some split: option.split)
  ultimately show ?thesis
    using False whole(2) append_butlast_last_id [of "map grep_line_text ls"]
    by (simp add: str_lines_def split_char_join Let_def map_idI)
qed (simp add: str_lines_def)



text \<open>
  Two lines of a search result run together when the first ends with a greater-than sign,
  as markup and generic types do: the loop takes it for the end of the opening tag and leaves
  the line feed out, so the second line with its anchor is no longer on a line of its own.
\<close>

theorem grep_glues_lines:
  "\<exists>h1 h2. inject_anchors (\<lambda>_. Some (''<b>'' @ [newline] @ ''c'')) ''/r'' (content_only 3)
       (''<w>'' @ [newline] @ ''f'' @ [newline] @ ''1:<b>'' @ [newline] @ ''2-c'' @ closing_tag)
     = Some (''<w>'' @ [newline] @ ''f'' @ [newline] @ ''1:'' @ h1 @ '':<b>2:'' @ h2 @ ''-c'' @ closing_tag)"
proof -
  let ?read = "\<lambda>_ :: string. Some (''<b>'' @ [newline] @ ''c'')" and ?s = "content_only 3"
  let ?body = "''f'' @ [newline] @ ''1:<b>'' @ [newline] @ ''2-c''"
  have lines: "str_lines ?body = [''f'', ''1:<b>'', ''2-c'']" by code_simp
  have ok: "utf8_valid (''<w'' @ ''>'' @ [newline] @ ?body @ closing_tag)" by code_simp
  have none: "cache_sound ?read ?s Map.empty" by (simp add: cache_sound_def)
  obtain h1 h2 where texts: "line_text ?read ''/r'' ?s ''1:<b>'' (Some ''/r/f'') = Some (''1:'' @ h1 @ '':<b>'', Some ''/r/f'')"
    "line_text ?read ''/r'' ?s ''2-c'' (Some ''/r/f'') = Some (''2:'' @ h2 @ ''-c'', Some ''/r/f'')"
    using numbered_line_text [OF sample_numbered(1), of ?read "''/r/f''" _ ?s "''/r''"]
      numbered_line_text [OF sample_numbered(2), of ?read "''/r/f''" _ ?s "''/r''"] sample_file by simp
  let ?r0 = "''<w'' @ ''>'' @ [newline]"
  obtain c1 where c1: "cache_sound ?read ?s c1"
    and l1: "\<And>lines. inject_loop ?read ''/r'' ?s (''f'' # lines) Map.empty None ?r0
      = inject_loop ?read ''/r'' ?s lines c1 (Some ''/r/f'') (?r0 @ ''f'')"
    by (rule inject_loop_step [OF none sample_header, of ?r0]) (simp_all add: separable_def)
  obtain c2 where c2: "cache_sound ?read ?s c2"
    and l2: "\<And>lines. inject_loop ?read ''/r'' ?s (''1:<b>'' # lines) c1 (Some ''/r/f'') (?r0 @ ''f'')
      = inject_loop ?read ''/r'' ?s lines c2 (Some ''/r/f'') (?r0 @ ''f'' @ [newline] @ ''1:'' @ h1 @ '':<b>'')"
    by (rule inject_loop_step [OF c1 texts(1), of "?r0 @ ''f''"]) (simp_all add: separable_def)
  obtain c3 where l3: "inject_loop ?read ''/r'' ?s [''2-c''] c2 (Some ''/r/f'') (?r0 @ ''f'' @ [newline] @ ''1:'' @ h1 @ '':<b>'')
      = inject_loop ?read ''/r'' ?s [] c3 (Some ''/r/f'') (?r0 @ ''f'' @ [newline] @ ''1:'' @ h1 @ '':<b>2:'' @ h2 @ ''-c'')"
    by (rule inject_loop_step [OF c2 texts(2), of "?r0 @ ''f'' @ [newline] @ ''1:'' @ h1 @ '':<b>''"]) (simp_all add: separable_def)
  show ?thesis
    using inject_anchors_wrapped [OF refl _ ok, of ?read "''/r''" ?s] unfolding lines l1 l2 l3 by auto
qed

end
