(* ===== verification/Utf8_Text.thy ===== *)
theory Utf8_Text
  imports Edit_Output Text_Truncate
begin

text \<open>
  Searching and cutting UTF-8 text: \<open>str::match_indices\<close>, slices that panic off a character
  boundary, and the lemmas that a match of one well-formed text in another starts and ends at
  boundaries.
\<close>

section \<open>Definitions\<close>

text \<open>\<open>&s[a..b]\<close>: \<open>None\<close> is the panic.\<close>

definition str_slice :: "string \<Rightarrow> nat \<Rightarrow> nat \<Rightarrow> string option" where
  "str_slice s a b =
     (if a \<le> b \<and> b \<le> length s \<and> is_char_boundary s a \<and> is_char_boundary s b
      then Some (take (b - a) (drop a s)) else None)"

text \<open>
  \<open>s.match_indices(p)\<close> for a non-empty pattern: the matches from the left that do not overlap.
  An empty pattern, which no caller passes, has no match here.
\<close>

function (sequential) matches_from :: "nat \<Rightarrow> string \<Rightarrow> string \<Rightarrow> nat list" where
  "matches_from k p [] = []"
| "matches_from k p (c # s) =
     (if p = [] then []
      else if prefix p (c # s) then k # matches_from (k + length p) p (drop (length p) (c # s))
      else matches_from (Suc k) p s)"
  by pat_completeness auto
termination
  by (relation "measure (\<lambda>(k, p, s). length s)") auto

declare matches_from.simps [simp del]

definition match_indices :: "string \<Rightarrow> string \<Rightarrow> nat list" where
  "match_indices s p = matches_from 0 p s"

text \<open>\<open>s.char_indices()\<close>.\<close>

fun char_offsets :: "nat \<Rightarrow> string list \<Rightarrow> (nat \<times> string) list" where
  "char_offsets n [] = []"
| "char_offsets n (c # cs) = (n, c) # char_offsets (n + length c) cs"

section \<open>Characters\<close>

lemma utf8_char_ok_lead:
  assumes "utf8_char_ok w"
  obtains c t where "w = c # t" "lead_len c = length w" "\<not> cont_byte c" "list_all cont_byte t"
  using assms
proof (cases rule: utf8_char_ok_cases)
  case (1 a)
  then show ?thesis by (intro that [of a "[]"]) (auto simp: lead_len_def byte_in_def cont_byte_def Let_def)
next
  case (2 a b)
  then show ?thesis by (intro that [of a "[b]"]) (auto simp: lead_len_def byte_in_def cont_byte_def Let_def)
next
  case (3 a b c)
  then have "cont_byte b"
    by (auto simp: utf8_second_ok_def byte_in_def cont_byte_def Let_def split: if_splits)
  with 3 show ?thesis
    by (intro that [of a "[b, c]"]) (auto simp: lead_len_def byte_in_def cont_byte_def Let_def)
next
  case (4 a b c d)
  then have "cont_byte b"
    by (auto simp: utf8_second_ok_def byte_in_def cont_byte_def Let_def split: if_splits)
  with 4 show ?thesis
    by (intro that [of a "[b, c, d]"]) (auto simp: lead_len_def byte_in_def cont_byte_def Let_def)
qed

lemma utf8_valid_iff: "utf8_valid s \<longleftrightarrow> (\<exists>cs. s = concat cs \<and> list_all utf8_char_ok cs)"
  using concat_chars [of s] chars_concat by (metis utf8_valid_def)

text \<open>A boundary cuts the list of characters.\<close>

lemma char_boundary_split:
  assumes "list_all utf8_char_ok cs" "is_char_boundary (concat cs) i"
  obtains us vs where "cs = us @ vs" "i = length (concat us)"
  using assms
proof (induction cs arbitrary: i thesis)
  case Nil
  then show ?case by (auto simp: is_char_boundary_def)
next
  case (Cons w cs)
  obtain c t where w: "w = c # t" "list_all cont_byte t" using Cons.prems(2) by (auto elim: utf8_char_ok_lead)
  show ?case
  proof (cases "i < length w")
    case True
    have "i = 0"
    proof (rule ccontr)
      assume "i \<noteq> 0"
      with True w have "cont_byte (concat (w # cs) ! i)" by (cases i) (auto simp: nth_append list_all_length)
      with Cons.prems(3) True \<open>i \<noteq> 0\<close> show False by (auto simp: is_char_boundary_def)
    qed
    then show ?thesis by (intro Cons.prems(1) [of "[]" "w # cs"]) auto
  next
    case False
    then have "concat (w # cs) ! i = concat cs ! (i - length w)" by (simp add: nth_append)
    with False Cons.prems(3) w(1) have "is_char_boundary (concat cs) (i - length w)"
      by (auto simp: is_char_boundary_def)
    with Cons.IH [of "i - length w"] Cons.prems(2) obtain us vs where "cs = us @ vs" "i - length w = length (concat us)"
      by auto
    with False show ?thesis by (intro Cons.prems(1) [of "w # us" vs]) auto
  qed
qed

lemma boundary_concat:
  assumes "list_all utf8_char_ok vs"
  shows "is_char_boundary (concat us @ concat vs) (length (concat us))"
proof (cases vs)
  case (Cons v vs')
  with assms obtain c t where "v = c # t" "\<not> cont_byte c" by (auto elim: utf8_char_ok_lead)
  with Cons show ?thesis by (simp add: is_char_boundary_def)
qed (simp add: is_char_boundary_def)

text \<open>Decoding is unique, so a text that begins with another begins with its characters.\<close>

lemma prefix_chars:
  assumes "list_all utf8_char_ok ps" "list_all utf8_char_ok vs" "prefix (concat ps) (concat vs)"
  shows "\<exists>ws. vs = ps @ ws"
  using assms
proof (induction ps arbitrary: vs)
  case (Cons p ps)
  obtain c t where p: "p = c # t" "lead_len c = length p" using Cons.prems(1) by (auto elim: utf8_char_ok_lead)
  obtain z where z: "concat vs = p @ concat ps @ z" using Cons.prems(3) by (auto simp: prefix_def)
  with p obtain v vs' where vs: "vs = v # vs'" by (cases vs) auto
  then obtain d u where v: "v = d # u" "lead_len d = length v" using Cons.prems(2) by (auto elim: utf8_char_ok_lead)
  have "d = c" using z vs v(1) p(1) by simp
  with v p have "length v = length p" by simp
  with z vs have "v = p" "concat vs' = concat ps @ z" by simp_all
  with Cons.IH [of vs'] Cons.prems(1,2) vs show ?case by (auto simp: prefix_def)
qed simp

text \<open>A match of one text in another lies between boundaries.\<close>

lemma match_boundaries:
  assumes "utf8_valid s" "utf8_valid p" "p \<noteq> []" "prefix p (drop k s)" "k \<le> length s"
  shows "is_char_boundary s k" "is_char_boundary s (k + length p)" "k + length p \<le> length s"
proof -
  obtain cs ps where cs: "s = concat cs" "list_all utf8_char_ok cs" and ps: "p = concat ps" "list_all utf8_char_ok ps"
    using assms(1,2) by (auto simp: utf8_valid_iff)
  obtain z where z: "drop k s = p @ z" using assms(4) by (auto simp: prefix_def)
  obtain q qs where "ps = q # qs" using ps(1) assms(3) by (cases ps) auto
  with ps obtain c t where c: "p = c # t" "\<not> cont_byte c" by (auto elim: utf8_char_ok_lead)
  have k: "k < length s" using z c(1) by (metis append_Cons drop_eq_Nil leI list.distinct(1))
  then have "s ! k = c" using z c(1) by (metis append_Cons hd_drop_conv_nth list.sel(1))
  with c(2) k show b: "is_char_boundary s k" by (simp add: is_char_boundary_def)
  obtain us vs where us: "cs = us @ vs" "k = length (concat us)"
    using char_boundary_split [OF cs(2)] b cs(1) by metis
  then have "prefix (concat ps) (concat vs)" using z cs(1) ps(1) by (simp add: prefix_def)
  with prefix_chars [OF ps(2)] cs(2) us(1) obtain ws where ws: "vs = ps @ ws" by auto
  have "is_char_boundary (concat (us @ ps) @ concat ws) (length (concat (us @ ps)))"
    using cs(2) us(1) ws by (intro boundary_concat) simp
  then show "is_char_boundary s (k + length p)" "k + length p \<le> length s"
    using cs(1) us ws ps(1) by simp_all
qed

section \<open>Matches\<close>

lemma matches_from_sound:
  assumes "i \<in> set (matches_from k p s)"
  shows "\<exists>j. i = k + j \<and> prefix p (drop j s) \<and> p \<noteq> [] \<and> j \<le> length s"
  using assms
proof (induction k p s rule: matches_from.induct)
  case (2 k p c s)
  show ?case
  proof (cases "p \<noteq> [] \<and> prefix p (c # s)")
    case True
    then have split: "i = k \<or> i \<in> set (matches_from (k + length p) p (drop (length p) (c # s)))"
      using 2(3) by (simp add: matches_from.simps)
    show ?thesis
    proof (cases "i = k")
      case True
      with \<open>p \<noteq> [] \<and> prefix p (c # s)\<close> show ?thesis by (intro exI [of _ 0]) simp
    next
      case False
      with split 2(1) True obtain j where "i = k + length p + j" "prefix p (drop j (drop (length p) (c # s)))"
        "j \<le> length (drop (length p) (c # s))" by blast
      with True show ?thesis
        by (intro exI [of _ "length p + j"]) (auto simp: add.commute dest: prefix_length_le)
    qed
  next
    case False
    with 2(2,3) obtain j where "i = Suc k + j" "prefix p (drop j s)" "p \<noteq> []" "j \<le> length s"
      by (auto simp: matches_from.simps split: if_splits)
    then show ?thesis by (intro exI [of _ "Suc j"]) simp
  qed
qed (simp add: matches_from.simps)

lemma match_indices_sound:
  assumes "i \<in> set (match_indices s p)"
  shows "prefix p (drop i s)" "p \<noteq> []" "i \<le> length s"
  using matches_from_sound [of i 0 p s] assms by (auto simp: match_indices_def)

lemma matches_from_complete:
  assumes "matches_from k p s = []" "p \<noteq> []"
  shows "\<not> prefix p (drop j s)"
  using assms
proof (induction k p s arbitrary: j rule: matches_from.induct)
  case (2 k p c s)
  then have "\<not> prefix p (c # s)" "matches_from (Suc k) p s = []"
    by (auto simp: matches_from.simps split: if_splits)
  with 2 show ?case by (cases j) auto
qed (auto simp: prefix_def)

lemma matches_from_sorted:
  "sorted_wrt (\<lambda>a b. a + length p \<le> b) (matches_from k p s)"
proof (induction k p s rule: matches_from.induct)
  case (2 k p c s)
  have "k + length p \<le> i" if "i \<in> set (matches_from (k + length p) p (drop (length p) (c # s)))" for i
    using matches_from_sound [OF that] by auto
  with 2 show ?case by (auto simp: matches_from.simps)
qed (simp add: matches_from.simps)

section \<open>Replacing spans\<close>

text \<open>
  The loop that copies the text between the spans and puts the new text in their place, with the
  places of the new text.
\<close>

fun replace_spans ::
  "string \<Rightarrow> string \<Rightarrow> (nat \<times> nat) list \<Rightarrow> nat \<Rightarrow> string \<Rightarrow> nat list \<Rightarrow> (string \<times> nat list) option" where
  "replace_spans text new [] last_end out places =
     map_option (\<lambda>t. (out @ t, places)) (str_slice text last_end (length text))"
| "replace_spans text new ((start, len) # spans) last_end out places =
     (case str_slice text last_end start of
        None \<Rightarrow> None
      | Some t \<Rightarrow>
          replace_spans text new spans (start + len) (out @ t @ new) (places @ [length (out @ t)]))"

text \<open>What it makes of spans that follow each other.\<close>

fun spliced :: "string \<Rightarrow> string \<Rightarrow> (nat \<times> nat) list \<Rightarrow> nat \<Rightarrow> string" where
  "spliced text new [] from = drop from text"
| "spliced text new ((start, len) # spans) from =
     take (start - from) (drop from text) @ new @ spliced text new spans (start + len)"

fun spans_ok :: "string \<Rightarrow> (nat \<times> nat) list \<Rightarrow> nat \<Rightarrow> bool" where
  "spans_ok text [] from \<longleftrightarrow> from \<le> length text \<and> is_char_boundary text from"
| "spans_ok text ((start, len) # spans) from \<longleftrightarrow>
     from \<le> start \<and> start \<le> length text \<and> is_char_boundary text from \<and> is_char_boundary text start
     \<and> spans_ok text spans (start + len)"

lemma replace_spans_spliced:
  assumes "spans_ok text spans from"
  shows "\<exists>places. replace_spans text new spans from out ps = Some (out @ spliced text new spans from, ps @ places)
    \<and> length places = length spans
    \<and> (\<forall>q \<in> set places. prefix new (drop q (out @ spliced text new spans from)))"
  using assms
proof (induction spans arbitrary: "from" out ps)
  case Nil
  then show ?case by (simp add: str_slice_def is_char_boundary_def)
next
  case (Cons span spans)
  obtain start len where span: "span = (start, len)" by fastforce
  let ?t = "take (start - from) (drop from text)"
  have slice: "str_slice text from start = Some ?t" using Cons.prems span by (simp add: str_slice_def)
  from Cons.IH [of "start + len" "out @ ?t @ new" "ps @ [length (out @ ?t)]"] Cons.prems span
  obtain places where places: "replace_spans text new spans (start + len) (out @ ?t @ new) (ps @ [length (out @ ?t)])
      = Some ((out @ ?t @ new) @ spliced text new spans (start + len), (ps @ [length (out @ ?t)]) @ places)"
    "length places = length spans"
    "\<forall>q \<in> set places. prefix new (drop q ((out @ ?t @ new) @ spliced text new spans (start + len)))"
    by auto
  have "drop (length (out @ ?t)) (out @ ?t @ new @ spliced text new spans (start + len))
      = new @ spliced text new spans (start + len)"
    by (metis append.assoc append_eq_conv_conj)
  with places slice span show ?case
    by (intro exI [of _ "length (out @ ?t) # places"]) (auto simp: prefix_def)
qed

text \<open>The spans of the matches of a text, and the library's replacement.\<close>

lemma matches_spans:
  assumes "utf8_valid text" "utf8_valid p" "text = pre @ s"
    and "is_char_boundary text from" "from \<le> length pre"
  shows "spans_ok text (map (\<lambda>i. (i, length p)) (matches_from (length pre) p s)) from
    \<and> (p \<noteq> [] \<longrightarrow> spliced text new (map (\<lambda>i. (i, length p)) (matches_from (length pre) p s)) from
         = drop from pre @ replace p new s)"
  using assms(3-)
proof (induction "length s" arbitrary: pre s "from" rule: less_induct)
  case less
  show ?case
  proof (cases s)
    case Nil
    with less.prems show ?thesis by (simp add: matches_from.simps)
  next
    case (Cons c t)
    show ?thesis
    proof (cases "p \<noteq> [] \<and> prefix p s")
      case True
      then obtain r where r: "s = p @ r" by (auto simp: prefix_def)
      have rest: "drop (length p) (c # t) = r" using r Cons by (metis append_eq_conv_conj)
      have here: "is_char_boundary text (length pre)" "is_char_boundary text (length (pre @ p))" "length (pre @ p) \<le> length text"
        using match_boundaries [OF assms(1,2), of "length pre"] True less.prems(1) by simp_all
      have "length r < length s" using r True by simp
      from less.hyps [OF this, of "pre @ p" "length (pre @ p)"] here less.prems(1) r
      have "spans_ok text (map (\<lambda>i. (i, length p)) (matches_from (length (pre @ p)) p r)) (length (pre @ p))
          \<and> (p \<noteq> [] \<longrightarrow> spliced text new (map (\<lambda>i. (i, length p)) (matches_from (length (pre @ p)) p r)) (length (pre @ p))
               = replace p new r)"
        by simp
      moreover have "matches_from (length pre) p s = length pre # matches_from (length (pre @ p)) p r"
        using True Cons rest by (simp add: matches_from.simps)
      moreover have "replace p new s = new @ replace p new r" using True Cons rest by (simp add: replace.simps)
      moreover have "take (length pre - from) (drop from text) = drop from pre"
        using less.prems(1,3) by simp
      ultimately show ?thesis using less.prems here True by simp
    next
      case False
      then have "matches_from (length pre) p s = (if p = [] then [] else matches_from (length (pre @ [c])) p t)"
        "replace p new s = c # replace p new t"
        using Cons by (auto simp: matches_from.simps replace.simps)
      moreover have "spans_ok text (map (\<lambda>i. (i, length p)) (matches_from (length (pre @ [c])) p t)) from
          \<and> (p \<noteq> [] \<longrightarrow> spliced text new (map (\<lambda>i. (i, length p)) (matches_from (length (pre @ [c])) p t)) from
               = drop from (pre @ [c]) @ replace p new t)"
        using less.prems Cons by (intro less.hyps) simp_all
      ultimately show ?thesis using less.prems Cons by simp
    qed
  qed
qed

lemma match_indices_spans:
  assumes "utf8_valid text" "utf8_valid p" "p \<noteq> []"
  shows "spans_ok text (map (\<lambda>i. (i, length p)) (match_indices text p)) 0"
    and "spliced text new (map (\<lambda>i. (i, length p)) (match_indices text p)) 0 = replace p new text"
  using matches_spans [OF assms(1,2), of "[]" "text" 0 new] assms(3)
  by (simp_all add: match_indices_def is_char_boundary_def)

end
