(* ===== verification/Unicode_Confusables.thy ===== *)
theory Unicode_Confusables
  imports Utf8_Text
begin

text \<open>
  Typography that looks like ASCII (\<open>gbuild-tools/src/util/unicode_confusables.rs\<close>) and matching
  modulo it (\<open>search_replace/helpers.rs\<close>): the map of characters, normalisation, detection, the
  map of offsets back into the original text, and the search for matches that are safe to
  replace. A character is the string of its bytes.
\<close>

section \<open>Definitions\<close>

definition CONFUSABLE_MAP :: "(string \<times> string) list" where
  "CONFUSABLE_MAP =
     [([CHR 0xE2, CHR 0x80, CHR 0x9C], [CHR 0x22]), ([CHR 0xE2, CHR 0x80, CHR 0x9D], [CHR 0x22]),
      ([CHR 0xE2, CHR 0x80, CHR 0x98], [CHR 0x27]), ([CHR 0xE2, CHR 0x80, CHR 0x99], [CHR 0x27]),
      ([CHR 0xE2, CHR 0x80, CHR 0x94], ''--''), ([CHR 0xE2, CHR 0x80, CHR 0x93], ''-''),
      ([CHR 0xE2, CHR 0x80, CHR 0xA6], ''...''), ([CHR 0xC2, CHR 0xA0], '' '')]"

definition lookup :: "string \<Rightarrow> string option" where
  "lookup c = map_option snd (find (\<lambda>e. fst e = c) CONFUSABLE_MAP)"

definition has_confusables :: "string \<Rightarrow> bool" where
  "has_confusables s \<longleftrightarrow> list_ex (\<lambda>c. lookup c \<noteq> None) (chars s)"

definition ascii_form :: "string \<Rightarrow> string" where
  "ascii_form c = (case lookup c of Some r \<Rightarrow> r | None \<Rightarrow> c)"

definition normalize_confusables :: "string \<Rightarrow> string" where
  "normalize_confusables s = concat (map ascii_form (chars s))"

record confusable_hit =
  ch_byte_offset :: nat
  ch_unicode_char :: string
  ch_ascii_replacement :: string
  ch_line_number :: nat

fun detect_loop :: "(nat \<times> string) list \<Rightarrow> nat \<Rightarrow> confusable_hit list" where
  "detect_loop [] line = []"
| "detect_loop ((byte_offset, c) # cs) line =
     (case lookup c of
        Some r \<Rightarrow>
          [\<lparr>ch_byte_offset = byte_offset, ch_unicode_char = c, ch_ascii_replacement = r, ch_line_number = line\<rparr>]
      | None \<Rightarrow> [])
     @ detect_loop cs (if c = [newline] then line + 1 else line)"

definition detect_confusables :: "string \<Rightarrow> confusable_hit list" where
  "detect_confusables s = detect_loop (char_offsets 0 (chars s)) 1"

definition char_origins :: "nat \<Rightarrow> string \<Rightarrow> nat list" where
  "char_origins orig c =
     (case lookup c of
        Some r \<Rightarrow> replicate (length r) orig
      | None \<Rightarrow> map (\<lambda>i. orig + i) [0..<length c])"

definition build_offset_map :: "string \<Rightarrow> string \<times> nat list" where
  "build_offset_map s =
     (concat (map (\<lambda>(orig, c). ascii_form c) (char_offsets 0 (chars s))),
      concat (map (\<lambda>(orig, c). char_origins orig c) (char_offsets 0 (chars s))) @ [length s])"

record normalized_match =
  nm_original_start :: nat
  nm_original_len :: nat

datatype normalized_match_result =
  NM_NoMatch | NM_Matches "normalized_match list" | NM_Ambiguous

text \<open>One candidate: \<open>None\<close> is a panic, \<open>Some None\<close> a candidate that is rejected.\<close>

definition validate_candidate ::
  "string \<Rightarrow> nat list \<Rightarrow> string \<Rightarrow> nat \<Rightarrow> normalized_match option option" where
  "validate_candidate text offset_map norm_pattern norm_start =
     (case (nth_opt offset_map norm_start, nth_opt offset_map (norm_start + length norm_pattern)) of
        (Some orig_start, Some orig_end) \<Rightarrow>
          if orig_end \<le> orig_start then Some None
          else (case str_slice text orig_start orig_end of
                  None \<Rightarrow> None
                | Some orig_slice \<Rightarrow>
                    if normalize_confusables orig_slice \<noteq> norm_pattern then Some None
                    else Some (Some \<lparr>nm_original_start = orig_start, nm_original_len = orig_end - orig_start\<rparr>))
      | _ \<Rightarrow> None)"

definition overlapping :: "normalized_match list \<Rightarrow> bool" where
  "overlapping ms \<longleftrightarrow>
     list_ex (\<lambda>(a, b). nm_original_start a + nm_original_len a > nm_original_start b) (zip ms (tl ms))"

definition find_normalized_match_positions :: "string \<Rightarrow> string \<Rightarrow> normalized_match_result option" where
  "find_normalized_match_positions text pattern =
     (let (norm_text, offset_map) = build_offset_map text; norm_pattern = normalize_confusables pattern
      in if norm_pattern = [] then Some NM_NoMatch
         else case traverse (validate_candidate text offset_map norm_pattern) (match_indices norm_text norm_pattern) of
                None \<Rightarrow> None
              | Some candidates \<Rightarrow>
                  let validated = List.map_filter id candidates
                  in Some (if validated = [] then if None \<in> set candidates then NM_Ambiguous else NM_NoMatch
                           else if overlapping validated then NM_Ambiguous else NM_Matches validated))"

definition replace_normalized_matches ::
  "string \<Rightarrow> normalized_match list \<Rightarrow> string \<Rightarrow> (string \<times> nat list) option" where
  "replace_normalized_matches text ms new =
     replace_spans text new (map (\<lambda>m. (nm_original_start m, nm_original_len m)) ms) 0 [] []"

definition replace_using_positions ::
  "string \<Rightarrow> nat list \<Rightarrow> string \<Rightarrow> string \<Rightarrow> (string \<times> nat list) option" where
  "replace_using_positions text positions old new =
     replace_spans text new (map (\<lambda>pos. (pos, length old)) positions) 0 [] []"

section \<open>The map of offsets\<close>

lemma find_SomeD: "find P xs = Some x \<Longrightarrow> x \<in> set xs \<and> P x"
  by (induction xs) (auto split: if_splits)

lemma lookup_cases:
  assumes "lookup c = Some r"
  shows "r \<noteq> []" "list_all (\<lambda>b. \<not> cont_byte b) r" "utf8_valid r" "length r \<le> length c" "c \<noteq> []"
proof -
  from assms obtain e where "e \<in> set CONFUSABLE_MAP" "fst e = c" "snd e = r"
    by (auto simp: lookup_def dest: find_SomeD)
  moreover have "list_all (\<lambda>e. snd e \<noteq> [] \<and> list_all (\<lambda>b. \<not> cont_byte b) (snd e) \<and> utf8_valid (snd e)
      \<and> length (snd e) \<le> length (fst e) \<and> fst e \<noteq> []) CONFUSABLE_MAP"
    by code_simp
  ultimately show "r \<noteq> []" "list_all (\<lambda>b. \<not> cont_byte b) r" "utf8_valid r" "length r \<le> length c" "c \<noteq> []"
    by (auto simp: list_all_iff)
qed

lemma char_origins_length [simp]: "length (char_origins orig c) = length (ascii_form c)"
  by (simp add: char_origins_def ascii_form_def split: option.splits)

lemma map_char_offsets: "map snd (char_offsets n cs) = cs"
  by (induction cs arbitrary: n) auto

lemma norm_text: "fst (build_offset_map s) = normalize_confusables s"
proof -
  have "map (\<lambda>(orig, c). ascii_form c) (char_offsets 0 (chars s)) = map ascii_form (map snd (char_offsets 0 (chars s)))"
    by (auto simp: case_prod_unfold)
  then show ?thesis by (simp add: build_offset_map_def normalize_confusables_def map_char_offsets)
qed

text \<open>The origins of the characters from an offset on, with the sentinel.\<close>

definition origins_from :: "nat \<Rightarrow> string list \<Rightarrow> nat list" where
  "origins_from n cs = concat (map (\<lambda>(orig, c). char_origins orig c) (char_offsets n cs)) @ [n + length (concat cs)]"

lemma origins_from_simps [simp]:
  "origins_from n [] = [n]"
  "origins_from n (c # cs) = char_origins n c @ origins_from (n + length c) cs"
  by (simp_all add: origins_from_def add.assoc)

lemma offset_map: "snd (build_offset_map s) = origins_from 0 (chars s)"
  by (simp add: build_offset_map_def origins_from_def concat_chars)

lemma origins_from_length: "length (origins_from n cs) = Suc (length (concat (map ascii_form cs)))"
  by (induction cs arbitrary: n) auto

lemma ascii_form_valid:
  assumes "utf8_char_ok c" shows "utf8_valid (ascii_form c)" "ascii_form c \<noteq> []"
proof -
  have "utf8_valid c" using assms chars_concat [of "[c]"] by (simp add: utf8_valid_def)
  moreover have "c \<noteq> []" using assms by (auto elim: utf8_char_ok_lead)
  ultimately show "utf8_valid (ascii_form c)" "ascii_form c \<noteq> []"
    using lookup_cases by (auto simp: ascii_form_def split: option.splits)
qed

lemma utf8_valid_concat_map:
  "(\<And>c. c \<in> set cs \<Longrightarrow> utf8_valid (f c)) \<Longrightarrow> utf8_valid (concat (map f cs))"
proof (induction cs)
  case (Cons c cs)
  have "utf8_valid (f c)" "utf8_valid (concat (map f cs))" using Cons by simp_all
  then obtain us vs where "f c = concat us" "list_all utf8_char_ok us"
    "concat (map f cs) = concat vs" "list_all utf8_char_ok vs"
    unfolding utf8_valid_iff by blast
  then show ?case unfolding utf8_valid_iff by (intro exI [of _ "us @ vs"]) simp
qed (auto simp: utf8_valid_iff intro: exI [of _ "[]"])

lemma normalize_valid: "utf8_valid s \<Longrightarrow> utf8_valid (normalize_confusables s)"
  unfolding normalize_confusables_def
proof (rule utf8_valid_concat_map)
  fix c assume "c \<in> set (chars s)"
  moreover assume "utf8_valid s"
  ultimately show "utf8_valid (ascii_form c)" by (intro ascii_form_valid) (simp add: utf8_valid_def list_all_iff)
qed

text \<open>The origin of a boundary of the normalised text is a boundary of the text.\<close>

lemma origin_boundary:
  assumes "list_all utf8_char_ok cs" "is_char_boundary (concat (map ascii_form cs)) k"
    and "k \<le> length (concat (map ascii_form cs))"
  shows "\<exists>us vs. cs = us @ vs \<and> origins_from n cs ! k = n + length (concat us)"
  using assms
proof (induction cs arbitrary: n k)
  case Nil
  then show ?case by simp
next
  case (Cons c cs)
  show ?case
  proof (cases "k < length (ascii_form c)")
    case True
    have "char_origins n c ! k = n"
    proof (cases "lookup c")
      case None
      have "k = 0"
      proof (rule ccontr)
        assume "k \<noteq> 0"
        obtain d t where c: "c = d # t" "list_all cont_byte t" using Cons.prems(1) by (auto elim: utf8_char_ok_lead)
        have "concat (map ascii_form (c # cs)) ! k = c ! k" using True None by (simp add: nth_append ascii_form_def)
        moreover have "cont_byte (c ! k)" using c True None \<open>k \<noteq> 0\<close>
          by (cases k) (auto simp: list_all_length ascii_form_def)
        ultimately show False using Cons.prems(2) True \<open>k \<noteq> 0\<close> by (simp add: is_char_boundary_def)
      qed
      with True None show ?thesis by (simp add: char_origins_def ascii_form_def)
    next
      case (Some r)
      with True show ?thesis by (simp add: char_origins_def ascii_form_def)
    qed
    with True show ?thesis by (intro exI [of _ "[]"] exI [of _ "c # cs"]) (simp add: nth_append)
  next
    case False
    let ?j = "k - length (ascii_form c)"
    have tail: "list_all utf8_char_ok cs" using Cons.prems(1) by simp
    have "concat (map ascii_form (c # cs)) ! k = concat (map ascii_form cs) ! ?j"
      using False by (simp add: nth_append)
    moreover have "ascii_form c \<noteq> []" using Cons.prems(1) ascii_form_valid by simp
    ultimately have "is_char_boundary (concat (map ascii_form cs)) ?j"
      using Cons.prems(2) False by (auto simp: is_char_boundary_def)
    moreover have "?j \<le> length (concat (map ascii_form cs))" using Cons.prems(3) False by auto
    ultimately obtain us vs where
      "cs = us @ vs" "origins_from (n + length c) cs ! ?j = n + length c + length (concat us)"
      using Cons.IH [OF tail] by blast
    with False show ?thesis
      by (intro exI [of _ "c # us"] exI [of _ vs]) (simp add: nth_append)
  qed
qed

text \<open>The documented shape of the map.\<close>

lemma origins_from_bounds:
  "x \<in> set (origins_from n cs) \<Longrightarrow> n \<le> x \<and> x \<le> n + length (concat cs)"
proof (induction cs arbitrary: n)
  case (Cons c cs)
  have "n \<le> y \<and> y \<le> n + length c" if "y \<in> set (char_origins n c)" for y
    using that by (auto simp: char_origins_def split: option.splits)
  with Cons show ?case by (fastforce simp: add.assoc)
qed simp

lemma origins_from_sorted: "sorted (origins_from n cs)"
proof (induction cs arbitrary: n)
  case (Cons c cs)
  have "sorted (char_origins n c)"
    by (auto simp: char_origins_def sorted_map sorted_wrt_iff_nth_less split: option.splits)
  moreover have "x \<le> y" if "x \<in> set (char_origins n c)" "y \<in> set (origins_from (n + length c) cs)" for x y
    using that origins_from_bounds [OF that(2)] by (auto simp: char_origins_def split: option.splits)
  ultimately show ?case using Cons by (simp add: sorted_append)
qed simp

section \<open>Safe matches\<close>

abbreviation spans_of :: "normalized_match list \<Rightarrow> (nat \<times> nat) list" where
  "spans_of ms \<equiv> map (\<lambda>m. (nm_original_start m, nm_original_len m)) ms"

definition safe_match :: "string \<Rightarrow> string \<Rightarrow> normalized_match \<Rightarrow> bool" where
  "safe_match text pattern m \<longleftrightarrow>
     (\<exists>piece. str_slice text (nm_original_start m) (nm_original_start m + nm_original_len m) = Some piece
        \<and> piece \<noteq> [] \<and> normalize_confusables piece = normalize_confusables pattern)"

lemma origin_is_boundary:
  assumes "utf8_valid t" "is_char_boundary (normalize_confusables t) k" "k \<le> length (normalize_confusables t)"
  shows "\<exists>i. nth_opt (snd (build_offset_map t)) k = Some i \<and> is_char_boundary t i \<and> i \<le> length t"
proof -
  have ok: "list_all utf8_char_ok (chars t)" using assms(1) by (simp add: utf8_valid_def)
  obtain us vs where uv: "chars t = us @ vs" "origins_from 0 (chars t) ! k = length (concat us)"
    using origin_boundary [OF ok, of k 0] assms(2,3) by (auto simp: normalize_confusables_def)
  have "t = concat us @ concat vs" using concat_chars [of t] uv(1) by simp
  moreover have "is_char_boundary (concat us @ concat vs) (length (concat us))"
    using ok uv(1) by (intro boundary_concat) simp
  moreover have "k < length (origins_from 0 (chars t))"
    using assms(3) by (simp add: origins_from_length normalize_confusables_def)
  ultimately show ?thesis using uv(2) by (simp add: offset_map)
qed

lemma candidate_checked:
  assumes "utf8_valid t" "utf8_valid pattern"
    and "k \<in> set (match_indices (normalize_confusables t) (normalize_confusables pattern))"
  shows "\<exists>r. validate_candidate t (snd (build_offset_map t)) (normalize_confusables pattern) k = Some r
    \<and> (\<forall>m. r = Some m \<longrightarrow> safe_match t pattern m)"
proof -
  let ?n = "normalize_confusables t" and ?p = "normalize_confusables pattern"
  have m: "prefix ?p (drop k ?n)" "?p \<noteq> []" "k \<le> length ?n" using match_indices_sound [OF assms(3)] by auto
  have v: "utf8_valid ?n" "utf8_valid ?p" using assms(1,2) normalize_valid by auto
  note b = match_boundaries [OF v m(2) m(1) m(3)]
  obtain i where i: "nth_opt (snd (build_offset_map t)) k = Some i" "is_char_boundary t i" "i \<le> length t"
    using origin_is_boundary [OF assms(1) b(1) m(3)] by blast
  obtain j where j: "nth_opt (snd (build_offset_map t)) (k + length ?p) = Some j" "is_char_boundary t j" "j \<le> length t"
    using origin_is_boundary [OF assms(1) b(2) b(3)] by blast
  show ?thesis
  proof (cases "j \<le> i")
    case True
    then show ?thesis unfolding validate_candidate_def i(1) j(1) by simp
  next
    case False
    then have slice: "str_slice t i j = Some (take (j - i) (drop i t))" using i j by (simp add: str_slice_def)
    have "take (j - i) (drop i t) \<noteq> []" using False j(3) by simp
    then have "safe_match t pattern \<lparr>nm_original_start = i, nm_original_len = j - i\<rparr>"
      if "normalize_confusables (take (j - i) (drop i t)) = ?p"
      using that slice False by (simp add: safe_match_def)
    with False slice show ?thesis unfolding validate_candidate_def i(1) j(1) by simp
  qed
qed

lemma spans_ok_matches:
  assumes "list_all (safe_match t pattern) ms" "\<not> overlapping ms" "is_char_boundary t from" "from \<le> length t"
    and "\<And>m. ms \<noteq> [] \<Longrightarrow> m = hd ms \<Longrightarrow> from \<le> nm_original_start m"
  shows "spans_ok t (spans_of ms) from"
  using assms
proof (induction ms arbitrary: "from")
  case (Cons m ms)
  have m: "is_char_boundary t (nm_original_start m)" "is_char_boundary t (nm_original_start m + nm_original_len m)"
    "nm_original_start m + nm_original_len m \<le> length t"
    using Cons.prems(1) by (auto simp: safe_match_def str_slice_def split: if_splits)
  have "nm_original_start m + nm_original_len m \<le> nm_original_start (hd ms)" if "ms \<noteq> []"
    using that Cons.prems(2) by (cases ms) (auto simp: overlapping_def)
  moreover have "\<not> overlapping ms" using Cons.prems(2) by (cases ms) (auto simp: overlapping_def)
  ultimately have "spans_ok t (spans_of ms) (nm_original_start m + nm_original_len m)"
    using Cons.prems(1) m by (intro Cons.IH) auto
  with m Cons.prems show ?case by simp
qed simp

lemma find_normalized_sound:
  assumes "utf8_valid t" "utf8_valid pattern"
  obtains r where "find_normalized_match_positions t pattern = Some r"
    and "\<And>ms. r = NM_Matches ms \<Longrightarrow> ms \<noteq> [] \<and> list_all (safe_match t pattern) ms \<and> spans_ok t (spans_of ms) 0"
proof -
  let ?n = "normalize_confusables t" and ?p = "normalize_confusables pattern"
  let ?f = "validate_candidate t (snd (build_offset_map t)) ?p"
  show thesis
  proof (cases "?p = []")
    case True
    then show thesis
      by (intro that [of NM_NoMatch]) (simp_all add: find_normalized_match_positions_def case_prod_unfold)
  next
    case False
    have "?f k \<noteq> None" if "k \<in> set (match_indices ?n ?p)" for k
      using candidate_checked [OF assms that] by force
    then have "traverse ?f (match_indices ?n ?p) \<noteq> None" unfolding traverse_None by blast
    then obtain cands where cands: "traverse ?f (match_indices ?n ?p) = Some cands" by blast
    let ?v = "List.map_filter id cands"
    have safe: "list_all (safe_match t pattern) ?v"
    proof -
      have "safe_match t pattern m" if "Some m \<in> set cands" for m
      proof -
        from that obtain i where i: "i < length cands" "cands ! i = Some m" by (auto simp: in_set_conv_nth)
        with cands have "i < length (match_indices ?n ?p)" "?f (match_indices ?n ?p ! i) = Some (Some m)"
          by (auto simp: traverse_Some list_all2_conv_all_nth)
        with candidate_checked [OF assms, of "match_indices ?n ?p ! i"] show ?thesis by auto
      qed
      then show ?thesis by (auto simp: list_all_iff set_map_filter)
    qed
    have spans: "spans_ok t (spans_of ?v) 0" if "\<not> overlapping ?v"
      using safe that by (intro spans_ok_matches) (auto simp: is_char_boundary_def)
    have "find_normalized_match_positions t pattern =
        Some (if ?v = [] then if None \<in> set cands then NM_Ambiguous else NM_NoMatch
              else if overlapping ?v then NM_Ambiguous else NM_Matches ?v)"
      unfolding find_normalized_match_positions_def case_prod_unfold Let_def norm_text cands
      by (simp only: False if_False option.case)
    then show thesis
    proof (rule that)
      fix ms
      assume "(if ?v = [] then if None \<in> set cands then NM_Ambiguous else NM_NoMatch
        else if overlapping ?v then NM_Ambiguous else NM_Matches ?v) = NM_Matches ms"
      then have "ms = ?v" "?v \<noteq> []" "\<not> overlapping ?v" by (simp_all split: if_splits)
      with safe spans show "ms \<noteq> [] \<and> list_all (safe_match t pattern) ms \<and> spans_ok t (spans_of ms) 0" by simp
    qed
  qed
qed

text \<open>
  A range that ends inside the expansion of a character has no counterpart in the text: the
  first of the two hyphens of an em dash maps to the empty slice in front of it.
\<close>

lemma offset_map_partial:
  "build_offset_map [CHR 0xE2, CHR 0x80, CHR 0x94] = (''--'', [0, 0, 3])
   \<and> normalize_confusables (take (0 - 0) [CHR 0xE2, CHR 0x80, CHR 0x94]) \<noteq> take 1 ''--''"
  by code_simp

end
