(* ===== verification/Edit_Details.thy ===== *)
theory Edit_Details
  imports Unicode_Confusables
begin

text \<open>
  Where an edit went, for the answer (\<open>search_replace/helpers.rs\<close>): the lines of the inserted
  text, their context and the beginning of the first line. \<open>None\<close> is a panic: a slice off a
  character boundary, an index past the end, a subtraction below zero.
\<close>

section \<open>Definitions\<close>

text \<open>\<open>s.split_inclusive(c)\<close> for an ASCII character.\<close>

fun split_inclusive :: "char \<Rightarrow> string \<Rightarrow> string list" where
  "split_inclusive c [] = []"
| "split_inclusive c (x # s) =
     (if x = c then [x] # split_inclusive c s
      else case split_inclusive c s of [] \<Rightarrow> [[x]] | p # ps \<Rightarrow> (x # p) # ps)"

text \<open>\<open>s[..i].matches('\n').count()\<close>.\<close>

definition newlines_before :: "string \<Rightarrow> nat \<Rightarrow> nat option" where
  "newlines_before s i = map_option (\<lambda>t. count_list t newline) (str_slice s 0 i)"

record line_range =
  lr_start_line :: nat
  lr_end_line :: nat

definition compute_line_range :: "string \<Rightarrow> nat \<Rightarrow> string \<Rightarrow> line_range option" where
  "compute_line_range text start_pos inserted =
     map_option
       (\<lambda>start_line. \<lparr>lr_start_line = start_line,
          lr_end_line = start_line + max 1 (length (split_inclusive newline inserted)) - 1\<rparr>)
       (newlines_before text start_pos)"

text \<open>\<open>v[a..b]\<close> of a vector.\<close>

definition vec_slice :: "'a list \<Rightarrow> nat \<Rightarrow> nat \<Rightarrow> 'a list option" where
  "vec_slice xs a b = (if a \<le> b \<and> b \<le> length xs then Some (take (b - a) (drop a xs)) else None)"

definition render_snippet :: "string \<Rightarrow> string \<Rightarrow> nat \<Rightarrow> nat \<Rightarrow> (string \<times> string \<times> string) option" where
  "render_snippet new_text new_string start_pos context_size =
     (case compute_line_range new_text start_pos new_string of
        None \<Rightarrow> None
      | Some r \<Rightarrow>
          let lines = split_inclusive newline new_text;
              snippet_start = lr_start_line r - context_size;
              snippet_end = min (lr_end_line r + context_size) (length lines - 1)
          in case (if snippet_start < lr_start_line r
                   then map_option concat (vec_slice lines snippet_start (lr_start_line r)) else Some [],
                   if lr_end_line r < snippet_end
                   then map_option concat (vec_slice lines (lr_end_line r + 1) (snippet_end + 1)) else Some []) of
               (Some before_context, Some after_context) \<Rightarrow>
                 if snippet_end < snippet_start then None
                 else Some
                   (concat (take (snippet_end - snippet_start + 1) (drop snippet_start
                      (map (\<lambda>(line_num, line). show_nat (line_num + 1) @ arrow @ line) (enumerate 0 lines)))),
                    before_context, after_context)
             | _ \<Rightarrow> None)"

definition edit_detail_at ::
  "string \<Rightarrow> string \<Rightarrow> string \<Rightarrow> nat \<Rightarrow> nat \<Rightarrow> search_replace_detail option" where
  "edit_detail_at new_text old_string new_string context_lines start_pos =
     (case (render_snippet new_text new_string start_pos context_lines,
            compute_line_range new_text start_pos new_string, str_slice new_text 0 start_pos) of
        (Some (snippet, context_before, context_after), Some r, Some before_match) \<Rightarrow>
          let line_start = unwrap_or (map_option (\<lambda>i. i + 1) (rfind_char newline before_match)) 0
          in map_option
               (\<lambda>line_prefix.
                  \<lparr>sd_old_string = old_string, sd_old_line = lr_start_line r + 1,
                   sd_new_string = new_string, sd_new_line = lr_start_line r + 1,
                   sd_context_before = context_before, sd_context_after = context_after,
                   sd_line_prefix = line_prefix\<rparr>)
               (str_slice new_text line_start start_pos)
      | _ \<Rightarrow> None)"

definition build_edit_details ::
  "string \<Rightarrow> string \<Rightarrow> string \<Rightarrow> nat list \<Rightarrow> nat \<Rightarrow> search_replace_detail list option" where
  "build_edit_details new_text old_string new_string new_positions context_lines =
     traverse (edit_detail_at new_text old_string new_string context_lines) new_positions"

section \<open>Lines\<close>

lemma split_inclusive_concat: "concat (split_inclusive c s) = s"
  by (induction s) (auto split: list.splits)

lemma split_inclusive_count: "count_list s c \<le> length (split_inclusive c s)"
  by (induction s) (auto split: list.splits)

lemma count_list_take: "count_list (take k s) c \<le> count_list s c"
  by (metis append_take_drop_id count_list_append le_add1)

section \<open>Well-formed pieces\<close>

lemma utf8_valid_append: "utf8_valid a \<Longrightarrow> utf8_valid b \<Longrightarrow> utf8_valid (a @ b)"
  unfolding utf8_valid_iff by (metis concat_append list_all_append)

lemma utf8_valid_Nil [simp]: "utf8_valid []"
  by (simp add: utf8_valid_def chars.simps)

lemma boundary_append:
  assumes "utf8_valid b" shows "is_char_boundary (a @ b) (length a)"
proof -
  obtain cs where "b = concat cs" "list_all utf8_char_ok cs" using assms by (auto simp: utf8_valid_iff)
  with boundary_concat [of cs "[a]"] show ?thesis by simp
qed

lemma slice_valid:
  assumes "utf8_valid s" "is_char_boundary s a" "is_char_boundary s b" "a \<le> b" "b \<le> length s"
  shows "utf8_valid (take (b - a) (drop a s))" "utf8_valid (drop a s)"
proof -
  obtain cs where cs: "s = concat cs" "list_all utf8_char_ok cs" using assms(1) by (auto simp: utf8_valid_iff)
  obtain us vs where us: "cs = us @ vs" "a = length (concat us)" using char_boundary_split [OF cs(2)] assms(2) cs(1) by metis
  have d: "drop a s = concat vs" using cs(1) us by simp
  then show "utf8_valid (drop a s)" using cs(2) us(1) by (auto simp: utf8_valid_iff)
  have "is_char_boundary (concat vs) (b - a)"
    using assms(2-5) unfolding d [symmetric] by (auto simp: is_char_boundary_def)
  then obtain ps qs where "vs = ps @ qs" "b - a = length (concat ps)"
    using char_boundary_split [of vs] cs(2) us(1) by auto
  then show "utf8_valid (take (b - a) (drop a s))" using cs(2) us(1) d by (auto simp: utf8_valid_iff)
qed

lemma spliced_valid:
  assumes "utf8_valid t" "utf8_valid new" "spans_ok t spans from"
  shows "utf8_valid (spliced t new spans from)"
  using assms(3)
proof (induction spans arbitrary: "from")
  case Nil
  then show ?case using slice_valid(2) [OF assms(1), of "from" "length t"] by (simp add: is_char_boundary_def)
next
  case (Cons span spans)
  obtain start len where span: "span = (start, len)" by fastforce
  with Cons slice_valid(1) [OF assms(1), of "from" start] assms(2) show ?case
    by (auto intro!: utf8_valid_append)
qed

lemma replace_valid:
  assumes "utf8_valid t" "utf8_valid p" "utf8_valid new" "p \<noteq> []"
  shows "utf8_valid (replace p new t)"
  using spliced_valid [OF assms(1,3) match_indices_spans(1) [OF assms(1,2,4)]]
    match_indices_spans(2) [OF assms(1,2,4)] by simp

section \<open>The places of the new text\<close>

lemma replace_spans_boundaries:
  assumes "utf8_valid t" "utf8_valid new" "spans_ok t spans from"
    and "replace_spans t new spans from out ps = Some (r, places)"
    and "\<And>q. q \<in> set ps \<Longrightarrow> q \<le> length out \<and> is_char_boundary (out @ spliced t new spans from) q"
  shows "\<forall>q \<in> set places. q \<le> length r \<and> is_char_boundary r q"
  using assms(3-)
proof (induction spans arbitrary: "from" out ps)
  case Nil
  then show ?case by (fastforce simp: str_slice_def split: if_splits)
next
  case (Cons span spans)
  obtain start len where span: "span = (start, len)" by fastforce
  let ?t = "take (start - from) (drop from t)"
  have slice: "str_slice t from start = Some ?t" using Cons.prems(1) span by (simp add: str_slice_def)
  have ok: "spans_ok t spans (start + len)" using Cons.prems(1) span by simp
  have "is_char_boundary ((out @ ?t) @ new @ spliced t new spans (start + len)) (length (out @ ?t))"
    using spliced_valid [OF assms(1,2) ok] assms(2) by (intro boundary_append utf8_valid_append)
  with Cons.prems(3) span
  have "q \<le> length (out @ ?t @ new) \<and> is_char_boundary ((out @ ?t @ new) @ spliced t new spans (start + len)) q"
    if "q \<in> set (ps @ [length (out @ ?t)])" for q
    using that by fastforce
  with Cons.IH [OF ok, of "out @ ?t @ new" "ps @ [length (out @ ?t)]"] Cons.prems(2) slice span
  show ?case by simp
qed

lemma rfind_char_split:
  assumes "rfind_char c s = Some i"
  shows "i < length s" "s ! i = c"
proof -
  have find: "find_char c u = Some k \<Longrightarrow> k < length u \<and> u ! k = c" for u k
    by (induction u arbitrary: k) (auto split: if_splits)
  from assms obtain k where "find_char c (rev s) = Some k" "i = length s - Suc k"
    by (auto simp: rfind_char_def)
  with find [of "rev s" k] show "i < length s" "s ! i = c" by (auto simp: rev_nth)
qed

lemma after_newline_boundary:
  assumes "utf8_valid s" "i < length s" "s ! i = newline"
  shows "is_char_boundary s (Suc i)"
proof -
  have "prefix [newline] (drop i s)" using assms(2,3) by (simp add: Cons_nth_drop_Suc [symmetric])
  moreover have "utf8_valid [newline]" by code_simp
  ultimately show ?thesis using match_boundaries(2) [OF assms(1), of "[newline]" i] assms(2) by simp
qed

lemma edit_detail_total:
  assumes "utf8_valid t" "0 < n" "q \<le> length t" "is_char_boundary t q"
  shows "\<exists>d. edit_detail_at t old new n q = Some d \<and> sd_old_string d = old \<and> sd_new_string d = new
    \<and> sd_new_line d = count_list (take q t) newline + 1"
proof -
  let ?k = "count_list (take q t) newline" and ?lines = "split_inclusive newline t"
  have head: "str_slice t 0 q = Some (take q t)" using assms(3,4) by (simp add: str_slice_def is_char_boundary_def)
  have k: "?k \<le> length ?lines"
    using split_inclusive_count [of t newline] count_list_take [of q t newline] by simp
  obtain r where r: "compute_line_range t q new = Some r" "lr_start_line r = ?k" "?k \<le> lr_end_line r"
    using head by (auto simp: compute_line_range_def newlines_before_def)
  have "render_snippet t new q n \<noteq> None"
  proof -
    have "length ?lines - Suc 0 \<ge> ?k - n" using k assms(2) by simp
    moreover have "lr_end_line r + n \<ge> ?k - n" using r(3) by simp
    ultimately have "\<not> min (lr_end_line r + n) (length ?lines - 1) < ?k - n" by simp
    moreover have "vec_slice ?lines (lr_end_line r + 1) (min (lr_end_line r + n) (length ?lines - 1) + 1) \<noteq> None"
      if "lr_end_line r < min (lr_end_line r + n) (length ?lines - 1)" using that by (auto simp: vec_slice_def)
    moreover have "vec_slice ?lines (?k - n) ?k \<noteq> None" using k by (simp add: vec_slice_def)
    ultimately show ?thesis unfolding render_snippet_def r(1) option.case r(2) Let_def
      by (auto split: option.splits)
  qed
  moreover have "str_slice t (unwrap_or (map_option (\<lambda>i. i + 1) (rfind_char newline (take q t))) 0) q \<noteq> None"
  proof (cases "rfind_char newline (take q t)")
    case None
    with head show ?thesis by (simp add: unwrap_or_def)
  next
    case (Some i)
    with rfind_char_split [OF Some] assms have "i < q" "is_char_boundary t (Suc i)"
      by (auto intro: after_newline_boundary)
    with Some assms show ?thesis by (simp add: unwrap_or_def str_slice_def)
  qed
  ultimately show ?thesis using r head by (auto simp: edit_detail_at_def Let_def)
qed

lemma list_all2_mono_in:
  "list_all2 P xs ys \<Longrightarrow> (\<And>x y. x \<in> set xs \<Longrightarrow> P x y \<Longrightarrow> Q x y) \<Longrightarrow> list_all2 Q xs ys"
  by (auto simp: list_all2_conv_all_nth)

lemma build_edit_details_total:
  assumes "utf8_valid t" "0 < n" "\<forall>q \<in> set places. q \<le> length t \<and> is_char_boundary t q"
  obtains ds where "build_edit_details t old new places n = Some ds" "length ds = length places"
    and "list_all2 (\<lambda>q d. sd_old_string d = old \<and> sd_new_string d = new
           \<and> sd_new_line d = count_list (take q t) newline + 1) places ds"
proof -
  have "edit_detail_at t old new n q \<noteq> None" if "q \<in> set places" for q
    using edit_detail_total [OF assms(1,2), of q old new] assms(3) that by force
  then have "traverse (edit_detail_at t old new n) places \<noteq> None" unfolding traverse_None by blast
  then obtain ds where ds: "traverse (edit_detail_at t old new n) places = Some ds" by blast
  then have all: "list_all2 (\<lambda>q d. edit_detail_at t old new n q = Some d) places ds" by (simp add: traverse_Some)
  show thesis
  proof
    show "build_edit_details t old new places n = Some ds" using ds by (simp add: build_edit_details_def)
    show "length ds = length places" using all by (simp add: list_all2_lengthD)
    show "list_all2 (\<lambda>q d. sd_old_string d = old \<and> sd_new_string d = new
           \<and> sd_new_line d = count_list (take q t) newline + 1) places ds"
      using all
    proof (rule list_all2_mono_in)
      fix q d
      assume "q \<in> set places" "edit_detail_at t old new n q = Some d"
      with edit_detail_total [OF assms(1,2), of q old new] assms(3)
      show "sd_old_string d = old \<and> sd_new_string d = new \<and> sd_new_line d = count_list (take q t) newline + 1"
        by auto
    qed
  qed
qed

section \<open>Files are read as well-formed text\<close>

lemma second_ok_cont: "utf8_second_ok a b \<Longrightarrow> cont_byte b" "\<not> cont_byte (CHR 0x00)"
  by (auto simp: utf8_second_ok_def byte_in_def cont_byte_def Let_def split: if_splits)

lemma second_ok_plain: "byte_in 194 223 a \<Longrightarrow> utf8_second_ok a b \<longleftrightarrow> cont_byte b"
  by (auto simp: utf8_second_ok_def byte_in_def Let_def)

lemma byte_at_cont:
  assumes "cont_byte (byte_at s i)"
  shows "i < length s" "byte_at s i = s ! i"
  using assms second_ok_cont(2) by (auto simp: byte_at_def split: if_splits)

lemma take_bytes:
  "0 < length s \<Longrightarrow> take 1 s = [s ! 0]"
  "1 < length s \<Longrightarrow> take 2 s = [s ! 0, s ! 1]"
  "2 < length s \<Longrightarrow> take 3 s = [s ! 0, s ! 1, s ! 2]"
  "3 < length s \<Longrightarrow> take 4 s = [s ! 0, s ! 1, s ! 2, s ! 3]"
  by (auto simp: less_eq_Suc_le Suc_le_length_iff eval_nat_numeral simp del: take_Cons')

lemma lossy_piece:
  assumes "lossy_len (c # s) = utf8_width c"
  shows "utf8_char_ok (take (lossy_len (c # s)) (c # s))"
proof -
  let ?s = "c # s"
  have c: "byte_at ?s 0 = c" by (simp add: byte_at_def)
  consider "utf8_width c = 1" | "utf8_width c = 2" | "utf8_width c = 3" | "utf8_width c = 4"
    using assms by (auto simp: utf8_width_def lossy_len_def Let_def c split: if_splits)
  then show ?thesis
  proof cases
    case 1
    then have "byte_in 0 127 c" by (auto simp: utf8_width_def split: if_splits)
    then show ?thesis unfolding assms 1 by (simp add: utf8_char_ok_def)
  next
    case 2
    then have "utf8_second_ok c (byte_at ?s 1)" using assms by (auto simp: lossy_len_def Let_def c split: if_splits)
    moreover have "byte_in 194 223 c" using 2 by (auto simp: utf8_width_def split: if_splits)
    ultimately show ?thesis
      using byte_at_cont [of ?s 1] take_bytes(2) [of ?s] unfolding assms 2
      by (simp add: second_ok_plain utf8_char_ok_def del: take_Cons')
  next
    case 3
    then have "utf8_second_ok c (byte_at ?s 1)" "cont_byte (byte_at ?s 2)"
      using assms by (auto simp: lossy_len_def Let_def c split: if_splits)
    moreover have "byte_in 224 239 c" using 3 by (auto simp: utf8_width_def split: if_splits)
    ultimately show ?thesis
      using byte_at_cont [of ?s 1] byte_at_cont [of ?s 2] take_bytes(3) [of ?s] second_ok_cont(1) [of c "byte_at ?s 1"]
      unfolding assms 3
      by (auto simp: utf8_char_ok_def utf8_second_ok_def byte_in_def Let_def split: if_splits simp del: take_Cons')
  next
    case 4
    then have "utf8_second_ok c (byte_at ?s 1)" "cont_byte (byte_at ?s 2)" "cont_byte (byte_at ?s 3)"
      using assms by (auto simp: lossy_len_def Let_def c split: if_splits)
    moreover have "byte_in 240 244 c" using 4 by (auto simp: utf8_width_def split: if_splits)
    ultimately show ?thesis
      using byte_at_cont [of ?s 1] byte_at_cont [of ?s 2] byte_at_cont [of ?s 3] take_bytes(4) [of ?s]
        second_ok_cont(1) [of c "byte_at ?s 1"]
      unfolding assms 4
      by (auto simp: utf8_char_ok_def utf8_second_ok_def byte_in_def Let_def split: if_splits simp del: take_Cons')
  qed
qed

lemma replacement_char_ok: "utf8_char_ok replacement_char"
  by code_simp

lemma from_utf8_lossy_utf8: "utf8_valid (from_utf8_lossy s)"
proof (induction s rule: from_utf8_lossy.induct)
  case (2 c s)
  let ?n = "lossy_len (c # s)"
  have one: "utf8_valid w" if "utf8_char_ok w" for w
    using that by (auto simp: utf8_valid_iff intro: exI [of _ "[w]"])
  have "utf8_valid (if ?n = utf8_width c then take ?n (c # s) else replacement_char)"
    using lossy_piece [of c s] replacement_char_ok by (simp add: one del: take_Cons')
  with 2 show ?case unfolding from_utf8_lossy.simps Let_def by (intro utf8_valid_append) auto
qed simp

end
