(* ===== verification/Search_Replace.thy ===== *)
theory Search_Replace
  imports Edit_Details Model_Paths
begin

text \<open>
  The \<open>search_replace\<close> tool (\<open>gbuild-tools/src/implementations/gbuild/search_replace\<close>): creating a
  file, replacing a text in a file, the hints of a failed search and the answers of the legacy
  version. The resources of a call are a record of functions and settings; a run gives its
  answer and the events it caused, in order. \<open>None\<close> is a panic.
\<close>

section \<open>Input and resources\<close>

datatype search_replace_version = Version_Current | Version_Legacy0_4_10

definition from_contract :: "string option \<Rightarrow> search_replace_version" where
  "from_contract v = (if v = Some ''legacy-0.4.10'' then Version_Legacy0_4_10 else Version_Current)"

definition is_legacy :: "search_replace_version \<Rightarrow> bool" where
  "is_legacy v \<longleftrightarrow> v = Version_Legacy0_4_10"

record search_replace_input =
  si_file_path :: string
  si_old_string :: string
  si_new_string :: string
  si_replace_all :: bool

record search_replace_params =
  sp_skip_read_before_edit :: bool
  sp_empty_old_string_does_not_override :: bool
  sp_unicode_normalized_fallback :: bool
  sp_include_user_edit_hint :: bool

datatype tool_error = TE_InvalidArguments string | TE_Execution string string | TE_Other string

record query_tools =
  qt_jq :: "string option"
  qt_python :: "string option"
  qt_sed :: "string option"
  qt_cut :: "string option"

text \<open>
  What a call can reach: \<open>try_canonicalize\<close>, the search for a confusable file name, \<open>is_dir\<close>, the
  ignore filter, the file system, the text of a missing file (\<open>format_not_found_error\<close>), the home
  directory in \<open>tilde\<close>, \<open>TemplateRenderer::resolve\<close>, the settings and the tools on the path.
\<close>

record search_world =
  sw_canonical :: "string \<Rightarrow> io_fault + string"
  sw_confusable :: "string \<Rightarrow> string option"
  sw_is_dir :: "string \<Rightarrow> bool"
  sw_respect_gitignore :: "bool option"
  sw_gitignore :: "(string \<Rightarrow> bool) option"
  sw_read :: "string \<Rightarrow> io_fault + string"
  sw_write :: "string \<Rightarrow> string \<Rightarrow> io_fault option"
  sw_missing :: "string \<Rightarrow> string \<Rightarrow> string"
  sw_tilde :: "string \<Rightarrow> string"
  sw_resolve :: "string \<Rightarrow> tool_error + string"
  sw_params :: "search_replace_params option"
  sw_query_tools :: query_tools
  sw_cwd :: string
  sw_display_cwd :: "string option"
  sw_contract_version :: "string option"
  sw_tool_call_id :: string

record file_written =
  fw_tool_call_id :: string
  fw_absolute_path :: string
  fw_content :: string
  fw_previous_content :: "string option"
  fw_is_new_file :: bool

text \<open>An event is a call of \<open>write_file\<close>, whether it succeeds or not, or a notification.\<close>

datatype edit_event = Ev_Write string string | Ev_Notify file_written

type_synonym search_answer = "((tool_error + search_replace_output) \<times> edit_event list) option"

abbreviation answered :: "search_replace_output \<Rightarrow> search_answer" where
  "answered out \<equiv> Some (Inr out, [])"

text \<open>\<open>TemplateRenderer::resolve(..).await?\<close> and what follows it.\<close>

definition resolved :: "search_world \<Rightarrow> string \<Rightarrow> (string \<Rightarrow> search_answer) \<Rightarrow> search_answer" where
  "resolved w template k = (case sw_resolve w template of Inl e \<Rightarrow> Some (Inl e, []) | Inr name \<Rightarrow> k name)"

section \<open>Path and name checks\<close>

definition NAME_MAX :: nat where "NAME_MAX = 255"

definition CONTEXT_LINES :: nat where "CONTEXT_LINES = 3"

definition validate_path_length :: "string \<Rightarrow> search_replace_output option" where
  "validate_path_length file_path =
     map_option
       (\<lambda>component. SR_FilenameTooLong
          (''Error: file name exceeds the '' @ show_nat NAME_MAX @ ''-character limit (''
           @ show_nat (case component of Normal name \<Rightarrow> length name | _ \<Rightarrow> 0)
           @ '' characters). Please use a shorter file name.''))
       (find (\<lambda>component. case component of Normal name \<Rightarrow> NAME_MAX < length name | _ \<Rightarrow> False)
          (components file_path))"

definition name_too_long :: search_replace_output where
  "name_too_long = SR_FilenameTooLong
     (''Error: file name exceeds the '' @ show_nat NAME_MAX @ ''-character limit. Please use a shorter file name.'')"

definition blocked_path :: "string \<Rightarrow> string \<Rightarrow> search_replace_output" where
  "blocked_path verb file_path = SR_InvalidInput
     (''Error: cannot '' @ verb @ '' '' @ file_path
      @ ''. A component of the path already exists as a file where a directory is expected.'')"

definition write_failed :: "string \<Rightarrow> io_fault \<Rightarrow> search_replace_output" where
  "write_failed file_path e = SR_InvalidInput (''Error: failed to write '' @ file_path @ '': '' @ io_text e)"

definition display_path :: "search_world \<Rightarrow> string \<Rightarrow> string" where
  "display_path w file_path =
     path_join (case sw_display_cwd w of Some d \<Rightarrow> d | None \<Rightarrow> sw_cwd w) file_path"

section \<open>Creating a file\<close>

definition create_fault :: "search_world \<Rightarrow> string \<Rightarrow> string \<Rightarrow> io_fault \<Rightarrow> search_replace_output" where
  "create_fault w file_path path e =
     (case io_kind_of e of
        Io_NotFound \<Rightarrow> SR_FileNotFound (sw_missing w (display_path w file_path) path)
      | Io_AlreadyExists \<Rightarrow> blocked_path ''create'' file_path
      | Io_InvalidFilename \<Rightarrow> name_too_long
      | _ \<Rightarrow> write_failed file_path e)"

definition created :: "search_replace_input \<Rightarrow> string \<Rightarrow> search_replace_output" where
  "created inp path = SR_EditsApplied
     \<lparr>sr_old_string = si_old_string inp, sr_new_string = si_new_string inp,
      sr_output_for_prompt = ''The file '' @ si_file_path inp @ '' has been created successfully.'',
      sr_output_for_prompt_concise = Some (''The file '' @ si_file_path inp @ '' has been created.''),
      sr_absolute_path = path,
      sr_details =
        [\<lparr>sd_old_string = si_old_string inp, sd_old_line = 1, sd_new_string = si_new_string inp,
          sd_new_line = 1, sd_context_before = [], sd_context_after = [], sd_line_prefix = []\<rparr>],
      sr_unicode_normalized = False\<rparr>"

definition handle_new_file_creation ::
  "search_world \<Rightarrow> search_replace_input \<Rightarrow> string \<Rightarrow> bool \<Rightarrow> search_answer" where
  "handle_new_file_creation w inp path empty_old_string_does_not_override =
     (let file_exists = (case sw_read w path of Inr bytes \<Rightarrow> bytes \<noteq> [] | Inl e \<Rightarrow> False);
          old_text = (case sw_read w path of Inr bytes \<Rightarrow> Some (from_utf8_lossy bytes) | Inl e \<Rightarrow> None);
          content = si_new_string inp
      in if file_exists \<and> empty_old_string_does_not_override then
           resolved w ''${{ params.edit.old_string }}'' (\<lambda>old_string_name.
             answered (SR_FileAlreadyExists
               (old_string_name
                @ '' is empty, which is only allowed when creating a new file or when the file is empty.'')))
         else case sw_write w path content of
             Some e \<Rightarrow> Some (Inr (create_fault w (si_file_path inp) path e), [Ev_Write path content])
           | None \<Rightarrow>
               Some (Inr (created inp path),
                 [Ev_Write path content,
                  Ev_Notify
                    (if old_text \<noteq> None \<and> file_exists \<and> empty_old_string_does_not_override
                     then \<lparr>fw_tool_call_id = sw_tool_call_id w, fw_absolute_path = path, fw_content = content,
                           fw_previous_content = old_text, fw_is_new_file = False\<rparr>
                     else \<lparr>fw_tool_call_id = sw_tool_call_id w, fw_absolute_path = path, fw_content = content,
                           fw_previous_content = None, fw_is_new_file = True\<rparr>)]))"

section \<open>Hints\<close>

text \<open>\<open>s.split_whitespace()\<close>.\<close>

fun take_word :: "string \<Rightarrow> string \<times> string" where
  "take_word [] = ([], [])"
| "take_word (c # s) =
     (if 0 < ws_len (c # s) then ([], c # s) else let (word, rest) = take_word s in (c # word, rest))"

lemma take_word_append: "fst (take_word s) @ snd (take_word s) = s"
  by (induction s) (auto simp: case_prod_unfold Let_def)

lemma trim_start_length: "length (trim_start s) \<le> length s"
  using trim_start_suffix suffix_length_le by blast

function split_whitespace :: "string \<Rightarrow> string list" where
  "split_whitespace s =
     (let t = trim_start s
      in if t = [] then [] else fst (take_word t) # split_whitespace (snd (take_word t)))"
  by pat_completeness auto
termination
proof (relation "measure length")
  fix s t :: string
  assume t: "t = trim_start s" "t \<noteq> []"
  from t(2) obtain c u where u: "t = c # u" by (cases t) auto
  have "\<not> 0 < ws_len t" using t(1) by simp
  then have "fst (take_word t) \<noteq> []" unfolding u by (simp add: case_prod_unfold Let_def)
  then have "length (snd (take_word t)) < length t"
    by (metis take_word_append length_append length_greater_0_conv less_add_same_cancel2)
  then show "(snd (take_word t), s) \<in> measure length" using trim_start_length [of s] t(1) by simp
qed simp

declare split_whitespace.simps [simp del]

text \<open>\<open>max_by_key(|w| w.len())\<close>: of several longest words the last.\<close>

definition longest_word :: "string list \<Rightarrow> string" where
  "longest_word ws = foldl (\<lambda>best word. if length best \<le> length word then word else best) [] ws"

definition build_nearest_match_hint :: "string \<Rightarrow> string \<Rightarrow> string" where
  "build_nearest_match_hint content old_string =
     (let keyword = longest_word (split_whitespace (case str_lines old_string of l # ls \<Rightarrow> l | [] \<Rightarrow> []))
      in if keyword = [] then []
         else case find (\<lambda>(i, l). str_contains l keyword) (enumerate 0 (str_lines content)) of
                Some (i, l) \<Rightarrow>
                  truncate_str_with_marker
                    ([newline, newline] @ ''Nearest match: line '' @ show_nat (i + 1) @ '': '' @ trim_end l) 200
              | None \<Rightarrow> [])"

text \<open>Tools on the path (\<open>util/query_tools.rs\<close>).\<close>

definition query_tools_wrap :: "string option list \<Rightarrow> string list" where
  "query_tools_wrap tools = map (\<lambda>t. [backtick] @ t @ [backtick]) (List.map_filter id tools)"

definition json_tools :: "query_tools \<Rightarrow> string list" where
  "json_tools t = query_tools_wrap [qt_jq t, qt_python t]"

definition text_tools :: "query_tools \<Rightarrow> string list" where
  "text_tools t = query_tools_wrap [qt_python t, qt_sed t, qt_cut t]"

definition edit_tools :: "query_tools \<Rightarrow> string list" where
  "edit_tools t = query_tools_wrap [qt_python t, qt_sed t]"

definition examples_clause :: "string list \<Rightarrow> string" where
  "examples_clause tools =
     (case tools of
        [] \<Rightarrow> []
      | [a] \<Rightarrow> '' (e.g. '' @ a @ '')''
      | [a, b] \<Rightarrow> '' (e.g. '' @ a @ '' or '' @ b @ '')''
      | _ \<Rightarrow> '' (e.g. '' @ join '', '' (butlast tools) @ '', or '' @ last tools @ '')'')"

definition MAX_LISTED_LINES :: nat where "MAX_LISTED_LINES = 8"

definition line_summary :: "nat list \<Rightarrow> string" where
  "line_summary affected_lines =
     (if length affected_lines \<le> MAX_LISTED_LINES then join '', '' (map show_nat affected_lines)
      else join '', '' (map show_nat (take MAX_LISTED_LINES affected_lines))
           @ '' (and '' @ show_nat (length affected_lines - MAX_LISTED_LINES) @ '' more)'')"

definition confusable_message :: "nat list \<Rightarrow> query_tools \<Rightarrow> string \<Rightarrow> string \<Rightarrow> string \<Rightarrow> string" where
  "confusable_message affected_lines tools read_tool_name old_string_param execute_tool_name =
     (let read_qualifier = (if read_tool_name = [] then [] else '' in '' @ read_tool_name @ '' output'');
          param = (if old_string_param = [] then ''old_string'' else old_string_param);
          terminal_fallback =
            (if edit_tools tools = [] \<or> execute_tool_name = [] then []
             else '', or use '' @ execute_tool_name @ '' with a short script'' @ examples_clause (edit_tools tools)
                  @ '' to edit the file directly'')
      in [newline, newline]
         @ ''The nearest matching region contains Unicode typography characters (smart quotes, em-dashes, etc.) on lines ''
         @ line_summary affected_lines @ '' that look identical to ASCII'' @ read_qualifier
         @ '' but differ at the byte level. Re-read the file and use a shorter '' @ param
         @ '' anchored on nearby ASCII-only context'' @ terminal_fallback @ ''.'')"

text \<open>\<open>s.find(p)\<close>.\<close>

definition str_find :: "string \<Rightarrow> string \<Rightarrow> nat option" where
  "str_find s p = find (\<lambda>k. starts_with (drop k s) p) [0..<Suc (length s)]"

text \<open>\<open>Some None\<close> is the answer that there is no hint.\<close>

definition build_confusable_hint ::
  "string \<Rightarrow> string \<Rightarrow> query_tools \<Rightarrow> string \<Rightarrow> string \<Rightarrow> string \<Rightarrow> string option option" where
  "build_confusable_hint content old_string tools read_tool_name old_string_param execute_tool_name =
     (if \<not> has_confusables content then Some None
      else let (norm_file, offset_map) = build_offset_map content; norm_old = normalize_confusables old_string
           in case str_find norm_file norm_old of
                None \<Rightarrow> Some None
              | Some norm_start \<Rightarrow>
                  (case (nth_opt offset_map norm_start, nth_opt offset_map (norm_start + length norm_old)) of
                     (Some orig_start, Some orig_end) \<Rightarrow>
                       (case (newlines_before content orig_start, newlines_before content orig_end) of
                          (Some before_start, Some before_end) \<Rightarrow>
                            let affected_lines = remdups_adj
                                  (map ch_line_number
                                    (filter (\<lambda>h. before_start + 1 \<le> ch_line_number h \<and> ch_line_number h \<le> before_end + 1)
                                      (detect_confusables content)))
                            in Some (if affected_lines = [] then None
                                     else Some (confusable_message affected_lines tools read_tool_name
                                                  old_string_param execute_tool_name))
                        | _ \<Rightarrow> None)
                   | _ \<Rightarrow> None))"

section \<open>Replacing in a file\<close>

abbreviation crlf :: string where "crlf \<equiv> [creturn, newline]"

definition read_fault ::
  "search_world \<Rightarrow> string \<Rightarrow> string \<Rightarrow> io_fault \<Rightarrow> tool_error + search_replace_output" where
  "read_fault w file_path path e =
     (case io_kind_of e of
        Io_NotFound \<Rightarrow> Inr (SR_FileNotFound (sw_missing w (display_path w file_path) path))
      | Io_IsADirectory \<Rightarrow> Inr (SR_InvalidInput (''Error: '' @ file_path @ '' is a directory, not a file.''))
      | Io_InvalidFilename \<Rightarrow> Inr name_too_long
      | Io_PermissionDenied \<Rightarrow> Inr (SR_InvalidInput (''Error: permission denied reading '' @ file_path @ ''.''))
      | _ \<Rightarrow> Inl (TE_Execution ''search_replace'' (io_text e)))"

definition replace_fault :: "string \<Rightarrow> io_fault \<Rightarrow> search_replace_output" where
  "replace_fault file_path e =
     (case io_kind_of e of
        Io_AlreadyExists \<Rightarrow> blocked_path ''write'' file_path
      | Io_InvalidFilename \<Rightarrow> name_too_long
      | _ \<Rightarrow> write_failed file_path e)"

text \<open>The answer when the text is not found.\<close>

definition no_match_answer ::
  "search_world \<Rightarrow> search_replace_input \<Rightarrow> string \<Rightarrow> bool \<Rightarrow> bool \<Rightarrow> string \<Rightarrow> search_answer" where
  "no_match_answer w inp path legacy include_user_edit_hint match_text =
     resolved w ''${{ tools.by_kind.read }}'' (\<lambda>read_name.
     resolved w ''${{ params.edit.old_string }}'' (\<lambda>old_string_param.
     resolved w ''${{ tools.by_kind.execute }}'' (\<lambda>execute_name.
       let hint = (if legacy then [] else build_nearest_match_hint match_text (si_old_string inp))
       in case (if legacy then Some None
                else build_confusable_hint match_text (si_old_string inp) (sw_query_tools w)
                       read_name old_string_param execute_name) of
            None \<Rightarrow> None
          | Some confusable_hint \<Rightarrow>
              answered (SR_NoMatchesFound
                (''The string to replace was not found in the file, use the '' @ read_name
                 @ '' tool to see the correct string.''
                 @ (if include_user_edit_hint then '' The user may have changed the file since you last read it.'' else [])
                 @ hint @ unwrap_or confusable_hint []) path))))"

definition updated_answer ::
  "search_replace_input \<Rightarrow> string \<Rightarrow> search_replace_detail list \<Rightarrow> nat \<Rightarrow> bool \<Rightarrow> search_replace_output" where
  "updated_answer inp path details count used_normalized_fallback = SR_EditsApplied
     \<lparr>sr_old_string = si_old_string inp, sr_new_string = si_new_string inp,
      sr_output_for_prompt = ''The file '' @ si_file_path inp
        @ (if count = 1 then '' has been updated successfully.''
           else '' has been updated. All occurrences were successfully replaced.''),
      sr_output_for_prompt_concise = Some (''The file '' @ si_file_path inp
        @ (if count = 1 then '' has been updated.'' else '' has been updated. All occurrences were replaced.'')),
      sr_absolute_path = path, sr_details = details, sr_unicode_normalized = used_normalized_fallback\<rparr>"

text \<open>The end of a replacement: write, notify, answer.\<close>

definition write_replacement ::
  "search_world \<Rightarrow> search_replace_input \<Rightarrow> string \<Rightarrow> string \<Rightarrow> bool \<Rightarrow> bool \<Rightarrow> string \<times> nat list \<Rightarrow> search_answer" where
  "write_replacement w inp path old_text has_crlf used_normalized_fallback replacement =
     (let (new_text, new_positions) = replacement;
          write_text = (if has_crlf then replace [newline] crlf (replace crlf [newline] new_text) else new_text)
      in case sw_write w path write_text of
           Some e \<Rightarrow> Some (Inr (replace_fault (si_file_path inp) e), [Ev_Write path write_text])
         | None \<Rightarrow>
             map_option
               (\<lambda>details.
                  (Inr (updated_answer inp path details (length new_positions) used_normalized_fallback),
                   [Ev_Write path write_text,
                    Ev_Notify \<lparr>fw_tool_call_id = sw_tool_call_id w, fw_absolute_path = path,
                      fw_content = write_text, fw_previous_content = Some old_text, fw_is_new_file = False\<rparr>]))
               (build_edit_details new_text (si_old_string inp) (si_new_string inp) new_positions CONTEXT_LINES))"

text \<open>
  The search: an answer at once, or the positions and whether they came from the fallback.
\<close>

definition find_positions ::
  "search_world \<Rightarrow> search_replace_input \<Rightarrow> string \<Rightarrow> (nat list \<times> bool \<Rightarrow> search_answer) \<Rightarrow> search_answer" where
  "find_positions w inp match_text k =
     (let positions = match_indices match_text (si_old_string inp);
          fallback_enabled = (case sw_params w of Some p \<Rightarrow> sp_unicode_normalized_fallback p | None \<Rightarrow> False)
      in if positions = [] \<and> fallback_enabled then
           (case find_normalized_match_positions match_text (si_old_string inp) of
              None \<Rightarrow> None
            | Some (NM_Matches ms) \<Rightarrow>
                if 1 < length ms \<and> \<not> si_replace_all inp then
                  resolved w ''${{ params.edit.replace_all }}'' (\<lambda>replace_all_name.
                    answered (SR_MultipleMatchesFound
                      (''The string to replace was found multiple times in the file (via Unicode normalization). Use ''
                       @ replace_all_name
                       @ '' to replace all occurrences, or include more context to only edit one occurrence.'')))
                else k (map nm_original_start ms, True)
            | Some NM_Ambiguous \<Rightarrow>
                resolved w ''${{ params.edit.old_string }}'' (\<lambda>old_string_name.
                  answered (SR_MultipleMatchesFound
                    (''The string to replace was found via Unicode normalization but the match is ambiguous (partial or overlapping). Use a more specific ''
                     @ old_string_name @ '' that avoids lines with Unicode typography characters.'')))
            | Some NM_NoMatch \<Rightarrow> k (positions, False))
         else k (positions, False))"

definition handle_replacement ::
  "search_world \<Rightarrow> search_replace_input \<Rightarrow> string \<Rightarrow> bool \<Rightarrow> bool \<Rightarrow> search_answer" where
  "handle_replacement w inp path legacy include_user_edit_hint =
     (case sw_read w path of
        Inl e \<Rightarrow> Some (read_fault w (si_file_path inp) path e, [])
      | Inr bytes \<Rightarrow>
          let old_text = from_utf8_lossy bytes;
              has_crlf = str_contains old_text crlf;
              match_text = (if has_crlf then replace crlf [newline] old_text else old_text)
          in find_positions w inp match_text (\<lambda>(positions, used_normalized_fallback).
               if positions = [] then no_match_answer w inp path legacy include_user_edit_hint match_text
               else if 1 < length positions \<and> \<not> si_replace_all inp then
                 resolved w ''${{ params.edit.replace_all }}'' (\<lambda>replace_all_name.
                   answered (SR_MultipleMatchesFound
                     (''The string to replace was found multiple times in the file. Use '' @ replace_all_name
                      @ '' to replace all occurrences, or include more context to only edit one occurrence.'')))
               else if used_normalized_fallback then
                 (case find_normalized_match_positions match_text (si_old_string inp) of
                    None \<Rightarrow> None
                  | Some (NM_Matches ms) \<Rightarrow>
                      (case replace_normalized_matches match_text ms (si_new_string inp) of
                         None \<Rightarrow> None
                       | Some r \<Rightarrow> write_replacement w inp path old_text has_crlf True r)
                  | Some _ \<Rightarrow>
                      answered (SR_NoMatchesFound
                        ''Internal error: normalized match disappeared on re-evaluation'' path))
               else
                 (case replace_using_positions match_text positions (si_old_string inp) (si_new_string inp) of
                    None \<Rightarrow> None
                  | Some r \<Rightarrow> write_replacement w inp path old_text has_crlf False r)))"

section \<open>The run\<close>

definition find_path :: "search_world \<Rightarrow> string \<Rightarrow> string" where
  "find_path w file_path =
     (let joined = resolve_model_path (sw_tilde w) (sw_cwd w) (sw_display_cwd w) file_path
      in case sw_canonical w joined of
           Inr path \<Rightarrow> path
         | Inl e \<Rightarrow> if io_kind_of e = Io_NotFound then unwrap_or (sw_confusable w joined) joined else joined)"

definition gitignored :: "search_world \<Rightarrow> string \<Rightarrow> bool" where
  "gitignored w path \<longleftrightarrow>
     unwrap_or (sw_respect_gitignore w) True
     \<and> (case sw_gitignore w of Some is_ignored \<Rightarrow> is_ignored path | None \<Rightarrow> False)"

definition run_search_replace :: "search_world \<Rightarrow> search_replace_input \<Rightarrow> search_answer" where
  "run_search_replace w inp =
     (let path = find_path w (si_file_path inp); legacy = is_legacy (from_contract (sw_contract_version w))
      in case validate_path_length (si_file_path inp) of
           Some err \<Rightarrow> answered err
         | None \<Rightarrow>
             if sw_is_dir w path then answered (SR_InvalidInput ''File path is a directory'')
             else if \<not> legacy \<and> gitignored w path then
               answered (SR_InvalidInput
                 (''Error: '' @ si_file_path inp @ '' is ignored by .gitignore and cannot be edited.''))
             else if si_old_string inp = si_new_string inp then
               answered (SR_InvalidInput ''Old string and new string are the same'')
             else if si_old_string inp = [] then
               handle_new_file_creation w inp path
                 (unwrap_or (map_option sp_empty_old_string_does_not_override (sw_params w)) False)
             else
               handle_replacement w inp path legacy
                 (unwrap_or (map_option sp_include_user_edit_hint (sw_params w)) True))"

text \<open>The answers of version 0.4.10 (\<open>versions/legacy_0_4_10.rs\<close>).\<close>

datatype legacy_error_kind =
  Legacy_FileAlreadyExists | Legacy_FileNotFound | Legacy_MultipleMatchesFound | Legacy_NoMatchesFound

record render_context =
  rc_file_path :: string
  rc_read_tool_name :: string
  rc_replace_all_param_name :: string
  rc_old_string_param_name :: string

definition render_error :: "legacy_error_kind \<Rightarrow> render_context \<Rightarrow> string" where
  "render_error kind ctx =
     (case kind of
        Legacy_FileAlreadyExists \<Rightarrow> rc_old_string_param_name ctx
          @ '' is empty, which is only allowed when creating a new file or when the file is empty.''
      | Legacy_FileNotFound \<Rightarrow>
          ''File not found: '' @ rc_file_path ctx @ ''. Please check the path and try again.''
      | Legacy_MultipleMatchesFound \<Rightarrow>
          ''The string to replace was found multiple times in the file. Use '' @ rc_replace_all_param_name ctx
          @ '' to replace all occurrences, or include more context to only edit one occurrence.''
      | Legacy_NoMatchesFound \<Rightarrow>
          ''The string to replace was not found in the file, use the '' @ rc_read_tool_name ctx
          @ '' tool to see the correct string.'')"

definition build_render_context :: "search_world \<Rightarrow> string \<Rightarrow> tool_error + render_context" where
  "build_render_context w file_path =
     (case sw_resolve w ''${{ tools.by_kind.read }}'' of
        Inl e \<Rightarrow> Inl e
      | Inr read_tool_name \<Rightarrow>
          (case sw_resolve w ''${{ params.edit.replace_all }}'' of
             Inl e \<Rightarrow> Inl e
           | Inr replace_all_name \<Rightarrow>
               (case sw_resolve w ''${{ params.edit.old_string }}'' of
                  Inl e \<Rightarrow> Inl e
                | Inr old_string_name \<Rightarrow>
                    Inr \<lparr>rc_file_path = file_path, rc_read_tool_name = read_tool_name,
                         rc_replace_all_param_name = replace_all_name,
                         rc_old_string_param_name = old_string_name\<rparr>)))"

definition downgrade_structured_errors ::
  "search_world \<Rightarrow> string \<Rightarrow> search_replace_output \<Rightarrow> tool_error + search_replace_output" where
  "downgrade_structured_errors w file_path out =
     (case build_render_context w file_path of
        Inl e \<Rightarrow> Inl e
      | Inr ctx \<Rightarrow>
          Inr (case out of
                 SR_FileAlreadyExists _ \<Rightarrow> SR_InvalidInput (render_error Legacy_FileAlreadyExists ctx)
               | SR_FileNotFound _ \<Rightarrow> SR_InvalidInput (render_error Legacy_FileNotFound ctx)
               | SR_FilenameTooLong msg \<Rightarrow> SR_InvalidInput msg
               | SR_MultipleMatchesFound _ \<Rightarrow> SR_InvalidInput (render_error Legacy_MultipleMatchesFound ctx)
               | SR_NoMatchesFound _ _ \<Rightarrow> SR_InvalidInput (render_error Legacy_NoMatchesFound ctx)
               | _ \<Rightarrow> out))"

definition search_replace_run :: "search_world \<Rightarrow> search_replace_input \<Rightarrow> search_answer" where
  "search_replace_run w inp =
     map_option
       (\<lambda>(result, events).
          (case result of
             Inl e \<Rightarrow> Inl e
           | Inr out \<Rightarrow>
               if is_legacy (from_contract (sw_contract_version w))
               then downgrade_structured_errors w (si_file_path inp) out else Inr out, events))
       (run_search_replace w inp)"

end
