(* ===== verification/Search_Replace_Correct.thy ===== *)
theory Search_Replace_Correct
  imports Search_Replace
begin

text \<open>
  What the \<open>search_replace\<close> tool promises: it never panics, writes at most once and only
  well-formed text, replaces the matches and nothing else, and keeps the line endings of a file.
\<close>

section \<open>Pieces\<close>

lemma newline_valid: "utf8_valid [newline]" "utf8_valid crlf"
  by code_simp+

lemma normalize_nonempty:
  assumes "utf8_valid s" "s \<noteq> []" shows "normalize_confusables s \<noteq> []"
proof -
  obtain c cs where cs: "chars s = c # cs" using assms(2) concat_chars [of s] by (cases "chars s") auto
  then have "utf8_char_ok c" using assms(1) by (simp add: utf8_valid_def)
  with cs ascii_form_valid(2) show ?thesis by (simp add: normalize_confusables_def)
qed

lemma newlines_before_total:
  "is_char_boundary s i \<Longrightarrow> i \<le> length s \<Longrightarrow> newlines_before s i \<noteq> None"
  by (simp add: newlines_before_def str_slice_def is_char_boundary_def)

lemma confusable_hint_total:
  assumes "utf8_valid t" "utf8_valid old" "old \<noteq> []"
  shows "build_confusable_hint t old tools a b c \<noteq> None"
proof (cases "str_find (normalize_confusables t) (normalize_confusables old)")
  case None
  then show ?thesis by (simp add: build_confusable_hint_def case_prod_unfold norm_text Let_def)
next
  case (Some k)
  let ?n = "normalize_confusables t" and ?p = "normalize_confusables old"
  have m: "prefix ?p (drop k ?n)" "k \<le> length ?n"
    using Some by (auto simp: str_find_def starts_with_def dest!: find_SomeD)
  note b = match_boundaries [OF normalize_valid [OF assms(1)] normalize_valid [OF assms(2)]
      normalize_nonempty [OF assms(2,3)] m]
  obtain om where om: "build_offset_map t = (?n, om)" using norm_text by (metis prod.collapse)
  obtain i where i: "nth_opt om k = Some i" "newlines_before t i \<noteq> None"
    using origin_is_boundary [OF assms(1) b(1) m(2)] newlines_before_total unfolding om snd_conv by blast
  obtain j where j: "nth_opt om (k + length ?p) = Some j" "newlines_before t j \<noteq> None"
    using origin_is_boundary [OF assms(1) b(2) b(3)] newlines_before_total unfolding om snd_conv by blast
  from i(2) j(2) obtain x y where xy: "newlines_before t i = Some x" "newlines_before t j = Some y" by blast
  show ?thesis
    unfolding build_confusable_hint_def om Let_def prod.case Some option.case i(1) j(1) xy by simp
qed

lemma exact_replaced:
  assumes "utf8_valid t" "utf8_valid old" "utf8_valid new" "old \<noteq> []"
  obtains places where "replace_using_positions t (match_indices t old) old new = Some (replace old new t, places)"
    and "length places = length (match_indices t old)"
    and "\<forall>q \<in> set places. q \<le> length (replace old new t) \<and> is_char_boundary (replace old new t) q"
proof -
  note spans = match_indices_spans [OF assms(1,2,4)]
  obtain places where p: "replace_using_positions t (match_indices t old) old new = Some (replace old new t, places)"
    "length places = length (match_indices t old)"
    using replace_spans_spliced [OF spans(1), of new "[]" "[]"]
    unfolding replace_using_positions_def spans(2) by auto
  moreover have "\<forall>q \<in> set places. q \<le> length (replace old new t) \<and> is_char_boundary (replace old new t) q"
    using p(1) unfolding replace_using_positions_def
    by (rule replace_spans_boundaries [OF assms(1,3) spans(1)]) simp
  ultimately show thesis using that by blast
qed

lemma normalized_replaced:
  assumes "utf8_valid t" "utf8_valid new" "spans_ok t (spans_of ms) 0"
  obtains places where "replace_normalized_matches t ms new = Some (spliced t new (spans_of ms) 0, places)"
    and "length places = length ms"
    and "\<forall>q \<in> set places. q \<le> length (spliced t new (spans_of ms) 0)
           \<and> is_char_boundary (spliced t new (spans_of ms) 0) q"
proof -
  obtain places where p: "replace_normalized_matches t ms new = Some (spliced t new (spans_of ms) 0, places)"
    "length places = length ms"
    using replace_spans_spliced [OF assms(3), of new "[]" "[]"]
    unfolding replace_normalized_matches_def by auto
  moreover have "\<forall>q \<in> set places. q \<le> length (spliced t new (spans_of ms) 0)
      \<and> is_char_boundary (spliced t new (spans_of ms) 0) q"
    using p(1) unfolding replace_normalized_matches_def
    by (rule replace_spans_boundaries [OF assms(1-3)]) simp
  ultimately show thesis using that by blast
qed

section \<open>The shape of a run\<close>

definition applied :: "tool_error + search_replace_output \<Rightarrow> bool" where
  "applied result \<longleftrightarrow> (case result of Inr (SR_EditsApplied _) \<Rightarrow> True | _ \<Rightarrow> False)"

text \<open>The bytes that go to the file for a text, by the line endings of the file.\<close>

definition on_disk :: "bool \<Rightarrow> string \<Rightarrow> string" where
  "on_disk has_crlf t = (if has_crlf then replace [newline] crlf (replace crlf [newline] t) else t)"

definition written :: "search_world \<Rightarrow> string \<Rightarrow> string \<Rightarrow> string option \<Rightarrow> search_answer \<Rightarrow> bool" where
  "written w path content previous a \<longleftrightarrow>
     (\<exists>result. applied result = (sw_write w path content = None)
        \<and> a = Some (result, Ev_Write path content
                # (if sw_write w path content = None
                   then [Ev_Notify \<lparr>fw_tool_call_id = sw_tool_call_id w, fw_absolute_path = path,
                           fw_content = content, fw_previous_content = previous,
                           fw_is_new_file = (previous = None)\<rparr>]
                   else [])))"

definition refused :: "search_answer \<Rightarrow> bool" where
  "refused a \<longleftrightarrow> (\<exists>result. a = Some (result, []) \<and> \<not> applied result)"

lemma applied_simps [simp]:
  "\<not> applied (Inl e)" "applied (Inr (SR_EditsApplied ap))" "\<not> applied (Inr (SR_InvalidInput m))"
  "\<not> applied (Inr (SR_FileNotFound m))" "\<not> applied (Inr (SR_FilenameTooLong m))"
  "\<not> applied (Inr (SR_FileAlreadyExists m))" "\<not> applied (Inr (SR_MultipleMatchesFound m))"
  "\<not> applied (Inr (SR_NoMatchesFound m p))"
  by (simp_all add: applied_def)

lemma applied_iff: "applied result \<longleftrightarrow> (\<exists>ap. result = Inr (SR_EditsApplied ap))"
  by (simp add: applied_def split: sum.splits search_replace_output.splits)

lemma written_first:
  "written w path content previous (Some (result, events)) \<Longrightarrow> hd events = Ev_Write path content"
  by (auto simp: written_def)

lemma refused_answered [simp]: "refused (answered out) \<longleftrightarrow> \<not> applied (Inr out)" "refused (Some (Inl e, []))"
  by (simp_all add: refused_def)

lemma refused_resolved: "(\<And>name. refused (k name)) \<Longrightarrow> refused (resolved w template k)"
  by (simp add: resolved_def split: sum.splits)

lemma fault_not_applied [simp]:
  "\<not> applied (Inr (create_fault w f p e))" "\<not> applied (Inr (replace_fault f e))" "\<not> applied (read_fault w f p e)"
  by (simp_all add: create_fault_def replace_fault_def read_fault_def blocked_path_def name_too_long_def write_failed_def
      split: io_kind.splits)

lemma refused_case:
  "x \<noteq> None \<Longrightarrow> refused (case x of None \<Rightarrow> None | Some y \<Rightarrow> answered (SR_NoMatchesFound (f y) p))"
  by auto

lemma no_match_refused:
  assumes "utf8_valid t" "utf8_valid (si_old_string inp)" "si_old_string inp \<noteq> []"
  shows "refused (no_match_answer w inp path legacy hint t)"
  unfolding no_match_answer_def Let_def
  by (intro refused_resolved refused_case) (simp add: confusable_hint_total [OF assms] del: not_None_eq)

lemma updated_answer_applied: "applied (Inr (updated_answer inp path ds n fb))"
  by (simp add: updated_answer_def)

lemma write_replacement_written:
  assumes "utf8_valid r" "\<forall>q \<in> set places. q \<le> length r \<and> is_char_boundary r q"
  shows "written w path (on_disk has_crlf r) (Some old) (write_replacement w inp path old has_crlf fb (r, places))"
proof -
  have "(0::nat) < CONTEXT_LINES" by (simp add: CONTEXT_LINES_def)
  from build_edit_details_total [OF assms(1) this assms(2)]
  obtain ds where "build_edit_details r (si_old_string inp) (si_new_string inp) places CONTEXT_LINES = Some ds" by blast
  then show ?thesis
    unfolding written_def write_replacement_def prod.case on_disk_def [symmetric] Let_def
    by (cases "sw_write w path (on_disk has_crlf r)") (auto simp: updated_answer_applied)
qed

lemma on_disk_valid: "utf8_valid t \<Longrightarrow> utf8_valid (on_disk has_crlf t)"
  by (simp add: on_disk_def replace_valid newline_valid)

text \<open>The text that is searched.\<close>

definition lf_text :: "string \<Rightarrow> string" where
  "lf_text t = (if str_contains t crlf then replace crlf [newline] t else t)"

definition fallback_enabled :: "search_world \<Rightarrow> bool" where
  "fallback_enabled w \<longleftrightarrow> (case sw_params w of Some p \<Rightarrow> sp_unicode_normalized_fallback p | None \<Rightarrow> False)"

lemma lf_text_valid: "utf8_valid (lf_text (from_utf8_lossy bytes))"
  by (simp add: lf_text_def replace_valid newline_valid from_utf8_lossy_utf8)

text \<open>What an edit makes of the text: the abstract contract of an exact replacement.\<close>

definition exact_edit :: "string \<Rightarrow> string \<Rightarrow> bool \<Rightarrow> string \<Rightarrow> string option" where
  "exact_edit old new all t =
     (if length (match_indices t old) = 1 \<or> 1 < length (match_indices t old) \<and> all
      then Some (replace old new t) else None)"

text \<open>What the fallback makes of a text that has no exact match.\<close>

definition normalized_edit :: "string \<Rightarrow> string \<Rightarrow> bool \<Rightarrow> string \<Rightarrow> string option" where
  "normalized_edit old new all t =
     (case find_normalized_match_positions t old of
        Some (NM_Matches ms) \<Rightarrow>
          if 1 < length ms \<and> \<not> all then None else Some (spliced t new (spans_of ms) 0)
      | _ \<Rightarrow> None)"

definition edit_result :: "search_world \<Rightarrow> search_replace_input \<Rightarrow> string \<Rightarrow> string option" where
  "edit_result w inp t =
     (if match_indices t (si_old_string inp) = [] \<and> fallback_enabled w
      then normalized_edit (si_old_string inp) (si_new_string inp) (si_replace_all inp) t
      else exact_edit (si_old_string inp) (si_new_string inp) (si_replace_all inp) t)"

definition performs :: "search_world \<Rightarrow> string \<Rightarrow> string \<Rightarrow> string option \<Rightarrow> search_answer \<Rightarrow> bool" where
  "performs w path t result a \<longleftrightarrow>
     (case result of
        None \<Rightarrow> refused a
      | Some r \<Rightarrow> written w path (on_disk (str_contains t crlf) r) (Some t) a)"

text \<open>The steps after the search, in continuation style.\<close>

definition after_search ::
  "search_world \<Rightarrow> search_replace_input \<Rightarrow> string \<Rightarrow> bool \<Rightarrow> bool \<Rightarrow> string \<Rightarrow> nat list \<times> bool \<Rightarrow> search_answer" where
  "after_search w inp path legacy hint t = (\<lambda>(positions, fb).
     let match_text = lf_text t in
     if positions = [] then no_match_answer w inp path legacy hint match_text
     else if 1 < length positions \<and> \<not> si_replace_all inp then
       resolved w ''${{ params.edit.replace_all }}'' (\<lambda>replace_all_name.
         answered (SR_MultipleMatchesFound
           (''The string to replace was found multiple times in the file. Use '' @ replace_all_name
            @ '' to replace all occurrences, or include more context to only edit one occurrence.'')))
     else if fb then
       (case find_normalized_match_positions match_text (si_old_string inp) of
          None \<Rightarrow> None
        | Some (NM_Matches ms) \<Rightarrow>
            (case replace_normalized_matches match_text ms (si_new_string inp) of
               None \<Rightarrow> None
             | Some r \<Rightarrow> write_replacement w inp path t (str_contains t crlf) True r)
        | Some _ \<Rightarrow>
            answered (SR_NoMatchesFound ''Internal error: normalized match disappeared on re-evaluation'' path))
     else
       (case replace_using_positions match_text positions (si_old_string inp) (si_new_string inp) of
          None \<Rightarrow> None
        | Some r \<Rightarrow> write_replacement w inp path t (str_contains t crlf) False r))"

lemma handle_replacement_steps:
  "sw_read w path = Inr bytes \<Longrightarrow>
     handle_replacement w inp path legacy hint =
       find_positions w inp (lf_text (from_utf8_lossy bytes))
         (after_search w inp path legacy hint (from_utf8_lossy bytes))"
  by (simp only: handle_replacement_def after_search_def lf_text_def sum.case Let_def)

lemma multiple_refused:
  "refused (resolved w template (\<lambda>name. answered (SR_MultipleMatchesFound (f name))))"
  by (simp add: refused_resolved)

lemma after_exact:
  assumes "utf8_valid (lf_text t)" "utf8_valid (si_old_string inp)" "utf8_valid (si_new_string inp)"
    and "si_old_string inp \<noteq> []"
  shows "performs w path t (exact_edit (si_old_string inp) (si_new_string inp) (si_replace_all inp) (lf_text t))
     (after_search w inp path legacy hint t (match_indices (lf_text t) (si_old_string inp), False))"
proof -
  let ?m = "lf_text t" and ?old = "si_old_string inp" and ?new = "si_new_string inp"
  let ?ps = "match_indices ?m ?old"
  consider "?ps = []" | "?ps \<noteq> []" "1 < length ?ps \<and> \<not> si_replace_all inp"
    | "?ps \<noteq> []" "\<not> (1 < length ?ps \<and> \<not> si_replace_all inp)" by blast
  then show ?thesis
  proof cases
    case 1
    with no_match_refused [OF assms(1,2,4)] show ?thesis
      unfolding after_search_def by (simp add: performs_def exact_edit_def)
  next
    case 2
    then have "exact_edit ?old ?new (si_replace_all inp) ?m = None" by (auto simp: exact_edit_def)
    then show ?thesis unfolding after_search_def Let_def prod.case performs_def
      by (simp only: 2 simp_thms if_True if_False option.case multiple_refused)
  next
    case 3
    obtain places where places: "replace_using_positions ?m ?ps ?old ?new = Some (replace ?old ?new ?m, places)"
      "\<forall>q \<in> set places. q \<le> length (replace ?old ?new ?m) \<and> is_char_boundary (replace ?old ?new ?m) q"
      using exact_replaced [OF assms] by metis
    have "exact_edit ?old ?new (si_replace_all inp) ?m = Some (replace ?old ?new ?m)"
      using 3 by (cases ?ps) (auto simp: exact_edit_def)
    moreover have "after_search w inp path legacy hint t (?ps, False) =
        write_replacement w inp path t (str_contains t crlf) False (replace ?old ?new ?m, places)"
      unfolding after_search_def Let_def prod.case by (simp only: 3 if_False places(1) option.case)
    ultimately show ?thesis
      using write_replacement_written [OF replace_valid [OF assms] places(2)] by (simp only: performs_def option.case)
  qed
qed

lemma after_normalized:
  assumes "utf8_valid (lf_text t)" "utf8_valid (si_new_string inp)"
    and "find_normalized_match_positions (lf_text t) (si_old_string inp) = Some (NM_Matches ms)"
    and "ms \<noteq> []" "\<not> (1 < length ms \<and> \<not> si_replace_all inp)" "spans_ok (lf_text t) (spans_of ms) 0"
  shows "written w path (on_disk (str_contains t crlf) (spliced (lf_text t) (si_new_string inp) (spans_of ms) 0)) (Some t)
     (after_search w inp path legacy hint t (map nm_original_start ms, True))"
proof -
  let ?r = "spliced (lf_text t) (si_new_string inp) (spans_of ms) 0"
  obtain places where places: "replace_normalized_matches (lf_text t) ms (si_new_string inp) = Some (?r, places)"
    "\<forall>q \<in> set places. q \<le> length ?r \<and> is_char_boundary ?r q"
    by (rule normalized_replaced [OF assms(1,2,6)]) blast
  have "after_search w inp path legacy hint t (map nm_original_start ms, True) =
      write_replacement w inp path t (str_contains t crlf) True (?r, places)"
    unfolding after_search_def Let_def prod.case length_map
    by (simp only: list.map_disc_iff assms(3-5) if_False if_True option.case normalized_match_result.case places(1))
  with write_replacement_written [OF spliced_valid [OF assms(1,2,6)] places(2)] show ?thesis by (simp only:)
qed

text \<open>A replacement does what the contract says, whatever the file, the text and the file system.\<close>

lemma handle_replacement_performs:
  assumes read: "sw_read w path = Inr bytes"
    and valid: "utf8_valid (si_old_string inp)" "utf8_valid (si_new_string inp)" and old: "si_old_string inp \<noteq> []"
  shows "performs w path (from_utf8_lossy bytes) (edit_result w inp (lf_text (from_utf8_lossy bytes)))
    (handle_replacement w inp path legacy hint)"
proof -
  let ?t = "from_utf8_lossy bytes"
  let ?m = "lf_text ?t" and ?old = "si_old_string inp"
  note m = lf_text_valid [of bytes]
  note exact = after_exact [OF m valid old, of w path legacy hint]
  show ?thesis
  proof (cases "match_indices ?m ?old = [] \<and> fallback_enabled w")
    case False
    then have "find_positions w inp ?m k = k (match_indices ?m ?old, False)" for k
      unfolding find_positions_def Let_def fallback_enabled_def by (simp only: if_False)
    with exact False show ?thesis unfolding handle_replacement_steps [OF read] edit_result_def by (simp only: if_False)
  next
    case True
    then have r: "edit_result w inp ?m = normalized_edit ?old (si_new_string inp) (si_replace_all inp) ?m"
      by (simp add: edit_result_def)
    obtain r where f: "find_normalized_match_positions ?m ?old = Some r"
      and safe: "\<And>ms. r = NM_Matches ms \<Longrightarrow> ms \<noteq> [] \<and> list_all (safe_match ?m ?old) ms \<and> spans_ok ?m (spans_of ms) 0"
      using find_normalized_sound [OF m valid(1)] by metis
    have step: "find_positions w inp ?m k =
       (case r of
          NM_Matches ms \<Rightarrow>
            if 1 < length ms \<and> \<not> si_replace_all inp then
              resolved w ''${{ params.edit.replace_all }}'' (\<lambda>replace_all_name.
                answered (SR_MultipleMatchesFound
                  (''The string to replace was found multiple times in the file (via Unicode normalization). Use ''
                   @ replace_all_name
                   @ '' to replace all occurrences, or include more context to only edit one occurrence.'')))
            else k (map nm_original_start ms, True)
        | NM_Ambiguous \<Rightarrow>
            resolved w ''${{ params.edit.old_string }}'' (\<lambda>old_string_name.
              answered (SR_MultipleMatchesFound
                (''The string to replace was found via Unicode normalization but the match is ambiguous (partial or overlapping). Use a more specific ''
                 @ old_string_name @ '' that avoids lines with Unicode typography characters.'')))
        | NM_NoMatch \<Rightarrow> k ([], False))" for k
      using True unfolding find_positions_def Let_def fallback_enabled_def f
      by (cases r) (simp_all only: simp_thms if_True option.case normalized_match_result.case)
    show ?thesis
    proof (cases r)
      case NM_NoMatch
      with exact True f show ?thesis unfolding handle_replacement_steps [OF read] step r
        by (simp add: normalized_edit_def exact_edit_def)
    next
      case NM_Ambiguous
      with f multiple_refused show ?thesis unfolding handle_replacement_steps [OF read] step r
        by (simp only: normalized_edit_def performs_def normalized_match_result.case option.case)
    next
      case (NM_Matches ms)
      note after = after_normalized [OF m valid(2) f [unfolded NM_Matches]]
      show ?thesis
      proof (cases "1 < length ms \<and> \<not> si_replace_all inp")
        case True
        with NM_Matches f multiple_refused show ?thesis unfolding handle_replacement_steps [OF read] step r
          by (simp only: normalized_edit_def performs_def normalized_match_result.case option.case simp_thms if_True)
      next
        case False
        with safe [OF NM_Matches] after have "written w path (on_disk (str_contains ?t crlf) (spliced ?m (si_new_string inp) (spans_of ms) 0))
            (Some ?t) (after_search w inp path legacy hint ?t (map nm_original_start ms, True))" by blast
        with NM_Matches f False show ?thesis unfolding handle_replacement_steps [OF read] step r
          by (simp only: normalized_edit_def performs_def normalized_match_result.case option.case if_False)
      qed
    qed
  qed
qed

section \<open>Creation and the guards\<close>

lemma creation_cases:
  "if (\<exists>c cs. sw_read w path = Inr (c # cs)) \<and> keep
   then refused (handle_new_file_creation w inp path keep)
   else written w path (si_new_string inp) None (handle_new_file_creation w inp path keep)"
proof (cases "(\<exists>c cs. sw_read w path = Inr (c # cs)) \<and> keep")
  case True
  then show ?thesis unfolding handle_new_file_creation_def Let_def
    by (auto intro!: refused_resolved)
next
  case False
  then have no: "\<not> ((case sw_read w path of Inl e \<Rightarrow> False | Inr bytes \<Rightarrow> bytes \<noteq> []) \<and> keep)"
    by (auto simp: neq_Nil_conv split: sum.splits)
  have "applied (Inr (created inp path))" by (simp add: created_def)
  with no False show ?thesis
    unfolding handle_new_file_creation_def Let_def written_def
    by (cases "sw_write w path (si_new_string inp)") auto
qed

text \<open>The checks before anything is read.\<close>

definition admitted :: "search_world \<Rightarrow> search_replace_input \<Rightarrow> bool" where
  "admitted w inp \<longleftrightarrow>
     validate_path_length (si_file_path inp) = None
     \<and> \<not> sw_is_dir w (find_path w (si_file_path inp))
     \<and> (is_legacy (from_contract (sw_contract_version w)) \<or> \<not> gitignored w (find_path w (si_file_path inp)))
     \<and> si_old_string inp \<noteq> si_new_string inp"

lemma run_not_admitted: "\<not> admitted w inp \<Longrightarrow> refused (run_search_replace w inp)"
  by (auto simp: admitted_def run_search_replace_def Let_def validate_path_length_def split: option.splits)

lemma run_creates:
  "admitted w inp \<Longrightarrow> si_old_string inp = [] \<Longrightarrow>
     run_search_replace w inp = handle_new_file_creation w inp (find_path w (si_file_path inp))
       (unwrap_or (map_option sp_empty_old_string_does_not_override (sw_params w)) False)"
  by (auto simp: admitted_def run_search_replace_def Let_def)

lemma run_replaces:
  "admitted w inp \<Longrightarrow> si_old_string inp \<noteq> [] \<Longrightarrow>
     run_search_replace w inp = handle_replacement w inp (find_path w (si_file_path inp))
       (is_legacy (from_contract (sw_contract_version w)))
       (unwrap_or (map_option sp_include_user_edit_hint (sw_params w)) True)"
  by (auto simp: admitted_def run_search_replace_def Let_def)

lemma edit_result_valid:
  assumes "utf8_valid t" "utf8_valid (si_old_string inp)" "utf8_valid (si_new_string inp)" "si_old_string inp \<noteq> []"
    and "edit_result w inp t = Some r"
  shows "utf8_valid r"
proof -
  obtain x where "find_normalized_match_positions t (si_old_string inp) = Some x"
    "\<And>ms. x = NM_Matches ms \<Longrightarrow> spans_ok t (spans_of ms) 0"
    using find_normalized_sound [OF assms(1,2)] by metis
  with assms(5) show ?thesis
    by (auto simp: edit_result_def normalized_edit_def exact_edit_def split: if_splits normalized_match_result.splits
        intro: replace_valid [OF assms(1-4)] spliced_valid [OF assms(1,3)])
qed

section \<open>One match\<close>

lemma replace_absent: "matches_from k p s = [] \<Longrightarrow> p \<noteq> [] \<Longrightarrow> replace p new s = s"
  by (induction k p s rule: matches_from.induct) (auto simp: matches_from.simps replace.simps split: if_splits)

lemma matches_from_single:
  assumes "matches_from n p s = [k]" "p \<noteq> []"
  shows "\<exists>a b. s = a @ p @ b \<and> replace p new s = a @ new @ b
    \<and> (\<forall>j. \<not> prefix p (drop j b)) \<and> (\<forall>j < length a. \<not> prefix p (drop j s))"
  using assms
proof (induction n p s rule: matches_from.induct)
  case (2 n p c s)
  show ?case
  proof (cases "prefix p (c # s)")
    case True
    then obtain b where b: "c # s = p @ b" by (auto simp: prefix_def)
    then have rest: "drop (length p) (c # s) = b" by simp
    have "matches_from (n + length p) p b = []" using 2(3,4) True rest by (auto simp: matches_from.simps)
    with 2(4) have "replace p new b = b" "\<forall>j. \<not> prefix p (drop j b)"
      by (auto dest: replace_absent matches_from_complete)
    moreover have "replace p new (c # s) = new @ replace p new b"
      using True 2(4) rest by (simp add: replace.simps)
    ultimately show ?thesis using b by (intro exI [of _ "[]"] exI [of _ b]) simp
  next
    case False
    with 2(2-4) obtain a b where ab: "s = a @ p @ b" "replace p new s = a @ new @ b"
      "\<forall>j. \<not> prefix p (drop j b)" "\<forall>j < length a. \<not> prefix p (drop j s)"
      by (auto simp: matches_from.simps)
    moreover have "\<not> prefix p (drop j (c # s))" if "j < length (c # a)" for j
      using that False ab(4) by (cases j) auto
    moreover have "replace p new (c # s) = c # replace p new s" using False by (simp add: replace.simps)
    ultimately show ?thesis by (intro exI [of _ "c # a"] exI [of _ b]) simp
  qed
qed (simp add: matches_from.simps)

text \<open>Occurrences that overlap count once.\<close>

lemma overlap_counted_once:
  "exact_edit ''aa'' ''b'' False ''aaa'' = Some ''ba'' \<and> prefix ''aa'' (drop 1 ''aaa'')"
  by code_simp

section \<open>Line endings\<close>

lemma to_crlf: "replace [newline] crlf s = concat (map (\<lambda>c. if c = newline then crlf else [c]) s)"
  by (induction s) (auto simp: replace.simps)

lemma to_lf_to_crlf: "replace crlf [newline] (replace [newline] crlf s) = s"
proof (induction s)
  case (Cons c s)
  show ?case
  proof (cases "c = newline")
    case True
    with Cons show ?thesis by (simp add: to_crlf replace_pair)
  next
    case False
    have "replace [newline] crlf s = [] \<or> hd (replace [newline] crlf s) \<noteq> newline"
      by (cases s) (auto simp: to_crlf)
    from replace_pair_skip [OF this, of creturn] False Cons show ?thesis by (simp add: to_crlf)
  qed
qed simp

lemma to_crlf_contains: "newline \<in> set s \<Longrightarrow> str_contains (replace [newline] crlf s) crlf"
proof -
  assume "newline \<in> set s"
  then obtain a b where "s = a @ newline # b" by (auto simp: in_set_conv_decomp)
  then have r: "replace [newline] crlf s = replace [newline] crlf a @ crlf @ replace [newline] crlf b"
    by (simp add: to_crlf)
  then show ?thesis unfolding str_contains_def list_ex_iff starts_with_def
    by (intro bexI [of _ "length (replace [newline] crlf a)"]) auto
qed

text \<open>In a file with mixed endings every line feed becomes a CRLF, in lines that are not edited as well.\<close>

lemma mixed_endings_change:
  "on_disk (str_contains (''a'' @ crlf @ ''b'' @ [newline] @ ''c'') crlf)
     (replace ''a'' ''x'' (lf_text (''a'' @ crlf @ ''b'' @ [newline] @ ''c''))) = ''x'' @ crlf @ ''b'' @ crlf @ ''c''"
  by code_simp

section \<open>Sample resources\<close>

definition sample_search :: "bool \<Rightarrow> string \<Rightarrow> search_world" where
  "sample_search fallback content =
     \<lparr>sw_canonical = Inr, sw_confusable = (\<lambda>_. None), sw_is_dir = (\<lambda>_. False),
      sw_respect_gitignore = None, sw_gitignore = None, sw_read = (\<lambda>_. Inr content), sw_write = (\<lambda>_ _. None),
      sw_missing = (\<lambda>_ _. ''missing''), sw_tilde = id, sw_resolve = Inr,
      sw_params = Some \<lparr>sp_skip_read_before_edit = False, sp_empty_old_string_does_not_override = False,
        sp_unicode_normalized_fallback = fallback, sp_include_user_edit_hint = True\<rparr>,
      sw_query_tools = \<lparr>qt_jq = None, qt_python = None, qt_sed = None, qt_cut = None\<rparr>,
      sw_cwd = ''/r'', sw_display_cwd = None, sw_contract_version = None, sw_tool_call_id = ''1''\<rparr>"

definition sample_input :: "string \<Rightarrow> string \<Rightarrow> search_replace_input" where
  "sample_input old new =
     \<lparr>si_file_path = ''f'', si_old_string = old, si_new_string = new, si_replace_all = False\<rparr>"

lemma sample_found: "find_path (sample_search fb content) ''f'' = ''/r/f''"
  unfolding sample_search_def find_path_def search_world.simps by code_simp

lemma sample_admitted: "old \<noteq> new \<Longrightarrow> admitted (sample_search fb content) (sample_input old new)"
proof -
  assume "old \<noteq> new"
  moreover have "validate_path_length ''f'' = None" by code_simp
  ultimately show ?thesis by (simp add: admitted_def sample_input_def sample_search_def gitignored_def)
qed

lemma sample_fields [simp]:
  "si_file_path (sample_input old new) = ''f''" "si_old_string (sample_input old new) = old"
  "si_new_string (sample_input old new) = new" "\<not> si_replace_all (sample_input old new)"
  "sw_read (sample_search fb content) p = Inr content" "sw_write (sample_search fb content) p c = None"
  "fallback_enabled (sample_search fb content) = fb" "sw_tool_call_id (sample_search fb content) = ''1''"
  by (simp_all add: sample_input_def sample_search_def fallback_enabled_def)

lemma sample_performs:
  assumes "old \<noteq> new" "old \<noteq> []" "utf8_valid old" "utf8_valid new"
  shows "performs (sample_search fb content) ''/r/f'' (from_utf8_lossy content)
    (edit_result (sample_search fb content) (sample_input old new) (lf_text (from_utf8_lossy content)))
    (run_search_replace (sample_search fb content) (sample_input old new))"
  using handle_replacement_performs [of "sample_search fb content" "''/r/f''" content "sample_input old new"] assms
  by (simp add: run_replaces sample_admitted sample_found)

lemma sample_applied:
  assumes "old \<noteq> new" "old \<noteq> []" "utf8_valid old" "utf8_valid new"
    and "edit_result (sample_search fb content) (sample_input old new) (lf_text (from_utf8_lossy content)) = Some r"
  obtains result events where "run_search_replace (sample_search fb content) (sample_input old new) = Some (result, events)"
    and "applied result"
  using sample_performs [OF assms(1-4), of fb content] assms(5) by (auto simp: performs_def written_def)

lemma run_shape:
  assumes "utf8_valid (si_old_string inp)" "utf8_valid (si_new_string inp)"
  shows "refused (run_search_replace w inp)
    \<or> (\<exists>content previous. utf8_valid content
         \<and> written w (find_path w (si_file_path inp)) content previous (run_search_replace w inp))"
proof (cases "admitted w inp")
  case True
  let ?path = "find_path w (si_file_path inp)"
  show ?thesis
  proof (cases "si_old_string inp = []")
    case empty: True
    show ?thesis unfolding run_creates [OF True empty]
      using creation_cases [of w ?path "unwrap_or (map_option sp_empty_old_string_does_not_override (sw_params w)) False" inp]
        assms(2) by (metis (full_types))
  next
    case False
    show ?thesis
    proof (cases "sw_read w ?path")
      case (Inl e)
      then have "refused (run_search_replace w inp)" unfolding run_replaces [OF True False]
        by (simp add: handle_replacement_def refused_def)
      then show ?thesis ..
    next
      case (Inr bytes)
      let ?m = "lf_text (from_utf8_lossy bytes)"
      note p = handle_replacement_performs [where w = w, OF Inr assms False]
      show ?thesis
      proof (cases "edit_result w inp ?m")
        case None
        with p show ?thesis unfolding run_replaces [OF True False] performs_def by simp
      next
        case (Some r)
        with edit_result_valid [OF lf_text_valid assms False Some] p show ?thesis
          unfolding run_replaces [OF True False] performs_def by (auto intro: on_disk_valid)
      qed
    qed
  qed
qed (simp add: run_not_admitted)

section \<open>Properties\<close>

text \<open>
  C11. A run never panics, whatever the file system, the settings and the file: it either refuses
  and touches nothing, or writes once, the file that it found and well-formed UTF-8, and then
  it answers success exactly when the write went through, with one notification that carries
  the content written.
\<close>

theorem search_replace_run_safe:
  assumes "utf8_valid (si_old_string inp)" "utf8_valid (si_new_string inp)"
  shows "refused (run_search_replace w inp)
    \<or> (\<exists>content previous. utf8_valid content
         \<and> written w (find_path w (si_file_path inp)) content previous (run_search_replace w inp))"
  using assms by (rule run_shape)

theorem search_replace_run_safe_witness:
  "refused (run_search_replace (sample_search True ''ab'') (sample_input ''a'' ''x''))
   \<or> (\<exists>content previous. utf8_valid content
        \<and> written (sample_search True ''ab'') ''/r/f'' content previous
            (run_search_replace (sample_search True ''ab'') (sample_input ''a'' ''x'')))"
proof -
  have "utf8_valid ''a''" "utf8_valid ''x''" by code_simp+
  then show ?thesis
    using search_replace_run_safe [of "sample_input ''a'' ''x''" "sample_search True ''ab''"]
    by (simp add: sample_found)
qed

text \<open>
  C7. A replacement refines its contract: on a file that can be read, the run writes the text
  with every occurrence replaced when there is exactly one or all are asked for, the safe matches
  modulo typography when there is none and the fallback is on, and refuses otherwise; the
  notification carries the text that the file had.
\<close>

theorem search_replace_refines:
  assumes "admitted w inp" "si_old_string inp \<noteq> []" "sw_read w (find_path w (si_file_path inp)) = Inr bytes"
    and "utf8_valid (si_old_string inp)" "utf8_valid (si_new_string inp)"
  shows "performs w (find_path w (si_file_path inp)) (from_utf8_lossy bytes)
    (edit_result w inp (lf_text (from_utf8_lossy bytes))) (run_search_replace w inp)"
  unfolding run_replaces [OF assms(1,2)] by (rule handle_replacement_performs [OF assms(3,4,5,2)])

theorem search_replace_refines_witness:
  "written (sample_search False ''ab'') ''/r/f'' ''xb'' (Some ''ab'')
     (run_search_replace (sample_search False ''ab'') (sample_input ''a'' ''x''))"
proof -
  have v: "utf8_valid ''a''" "utf8_valid ''x''" by code_simp+
  have t: "from_utf8_lossy ''ab'' = ''ab''" "lf_text ''ab'' = ''ab''" "str_contains ''ab'' crlf = False"
    "match_indices ''ab'' ''a'' = [0]" "replace ''a'' ''x'' ''ab'' = ''xb''" by code_simp+
  have r: "edit_result (sample_search False ''ab'') (sample_input ''a'' ''x'') ''ab'' = Some ''xb''"
    unfolding edit_result_def sample_fields exact_edit_def t by simp
  have "admitted (sample_search False ''ab'') (sample_input ''a'' ''x'')" by (rule sample_admitted) simp
  from search_replace_refines [OF this, of "''ab''"] v show ?thesis
    unfolding sample_fields sample_found t r performs_def option.case on_disk_def by simp
qed

lemma run_performs:
  assumes "admitted w inp" "si_old_string inp \<noteq> []" "utf8_valid (si_old_string inp)" "utf8_valid (si_new_string inp)"
    and "sw_read w (find_path w (si_file_path inp)) = Inr bytes"
  shows "performs w (find_path w (si_file_path inp)) (from_utf8_lossy bytes)
    (edit_result w inp (lf_text (from_utf8_lossy bytes))) (run_search_replace w inp)"
  unfolding run_replaces [OF assms(1,2)] by (rule handle_replacement_performs [OF assms(5,3,4,2)])

lemma exact_performed:
  assumes "performs w path t (exact_edit old new False (lf_text t)) (Some (result, events))" "applied result" "old \<noteq> []"
  obtains a b where "lf_text t = a @ old @ b" "\<forall>j. \<not> prefix old (drop j b)"
    "\<forall>j < length a. \<not> prefix old (drop j (lf_text t))"
    "hd events = Ev_Write path (on_disk (str_contains t crlf) (a @ new @ b))"
proof -
  obtain k where k: "matches_from 0 old (lf_text t) = [k]"
    "written w path (on_disk (str_contains t crlf) (replace old new (lf_text t))) (Some t) (Some (result, events))"
    using assms(1,2)
    by (auto simp: performs_def exact_edit_def refused_def match_indices_def length_Suc_conv split: if_splits)
  from matches_from_single [OF k(1) assms(3), of new] written_first [OF k(2)] that show thesis by metis
qed

lemma normalized_performed:
  assumes "performs w path t (normalized_edit old new all (lf_text t)) (Some (result, events))" "applied result"
    and "utf8_valid (lf_text t)" "utf8_valid old"
  obtains ms where "ms \<noteq> []" "length ms = 1 \<or> all" "list_all (safe_match (lf_text t) old) ms"
    "spans_ok (lf_text t) (spans_of ms) 0"
    "hd events = Ev_Write path (on_disk (str_contains t crlf) (spliced (lf_text t) new (spans_of ms) 0))"
proof -
  obtain r where r: "find_normalized_match_positions (lf_text t) old = Some r"
    "\<And>ms. r = NM_Matches ms \<Longrightarrow> ms \<noteq> [] \<and> list_all (safe_match (lf_text t) old) ms \<and> spans_ok (lf_text t) (spans_of ms) 0"
    using find_normalized_sound [OF assms(3,4)] by metis
  have "\<not> refused (Some (result, events))" using assms(2) by (simp add: refused_def)
  with assms(1) r(1) obtain ms where ms: "r = NM_Matches ms" "\<not> (1 < length ms \<and> \<not> all)"
    "written w path (on_disk (str_contains t crlf) (spliced (lf_text t) new (spans_of ms) 0)) (Some t) (Some (result, events))"
    by (auto simp: performs_def normalized_edit_def split: normalized_match_result.splits if_splits)
  with r(2) [OF ms(1)] written_first [OF ms(3)] show thesis by (intro that [of ms]) (cases ms; auto)+
qed

text \<open>A single safe match cuts the text in three.\<close>

lemma safe_match_split:
  assumes "safe_match t old m"
  obtains a piece b where "t = a @ piece @ b" "piece \<noteq> []" "normalize_confusables piece = normalize_confusables old"
    "spliced t new (spans_of [m]) 0 = a @ new @ b"
proof -
  let ?i = "nm_original_start m" and ?n = "nm_original_len m"
  have "take ?n (drop ?i t) \<noteq> []" "normalize_confusables (take ?n (drop ?i t)) = normalize_confusables old"
    using assms by (auto simp: safe_match_def str_slice_def split: if_splits)
  moreover have "t = take ?i t @ take ?n (drop ?i t) @ drop (?i + ?n) t"
    by (metis add.commute append_take_drop_id drop_drop)
  ultimately show thesis by (intro that [of "take ?i t" "take ?n (drop ?i t)" "drop (?i + ?n) t"]) simp_all
qed

text \<open>
  C17. An edit without \<open>replace_all\<close> changes one place: for a non-empty old text, when the run answers
  success, the decoded text of the file with LF endings was \<open>a @ m @ b\<close> and what is written is
  \<open>a @ new @ b\<close> in the line endings of the file. Either \<open>m\<close> is the old text, which occurs
  neither in \<open>b\<close> nor from any earlier place of the text, or the old text does not occur at all,
  the fallback is on and \<open>m\<close> reads like the old text once the typography of both is normalised.
\<close>

theorem single_edit_one_place:
  assumes "admitted w inp" "si_old_string inp \<noteq> []" "\<not> si_replace_all inp"
    and "utf8_valid (si_old_string inp)" "utf8_valid (si_new_string inp)"
    and "sw_read w (find_path w (si_file_path inp)) = Inr bytes"
    and "run_search_replace w inp = Some (result, events)" "applied result"
  shows "\<exists>a m b. lf_text (from_utf8_lossy bytes) = a @ m @ b
    \<and> hd events = Ev_Write (find_path w (si_file_path inp))
        (on_disk (str_contains (from_utf8_lossy bytes) crlf) (a @ si_new_string inp @ b))
    \<and> (m = si_old_string inp \<and> (\<forall>j. \<not> prefix (si_old_string inp) (drop j b))
         \<and> (\<forall>j < length a. \<not> prefix (si_old_string inp) (drop j (lf_text (from_utf8_lossy bytes))))
       \<or> fallback_enabled w \<and> (\<forall>j. \<not> prefix (si_old_string inp) (drop j (lf_text (from_utf8_lossy bytes))))
         \<and> m \<noteq> [] \<and> normalize_confusables m = normalize_confusables (si_old_string inp))"
proof -
  let ?t = "from_utf8_lossy bytes" and ?old = "si_old_string inp" and ?new = "si_new_string inp"
  note run = run_performs [OF assms(1,2,4-6), unfolded assms(7)]
  show ?thesis
  proof (cases "match_indices (lf_text ?t) ?old = [] \<and> fallback_enabled w")
    case True
    then have none: "\<not> prefix ?old (drop j (lf_text ?t))" for j
      using matches_from_complete assms(2) by (auto simp: match_indices_def)
    have "performs w (find_path w (si_file_path inp)) ?t (normalized_edit ?old ?new False (lf_text ?t)) (Some (result, events))"
      using run True assms(3) by (simp add: edit_result_def)
    then obtain ms where ms: "length ms = 1 \<or> False" "list_all (safe_match (lf_text ?t) ?old) ms"
      "hd events = Ev_Write (find_path w (si_file_path inp)) (on_disk (str_contains ?t crlf) (spliced (lf_text ?t) ?new (spans_of ms) 0))"
      by (rule normalized_performed [OF _ assms(8) lf_text_valid assms(4)])
    then obtain m where m: "ms = [m]" "safe_match (lf_text ?t) ?old m" by (auto simp: length_Suc_conv)
    obtain a piece b where "lf_text ?t = a @ piece @ b" "piece \<noteq> []" "normalize_confusables piece = normalize_confusables ?old"
      "spliced (lf_text ?t) ?new (spans_of [m]) 0 = a @ ?new @ b" by (rule safe_match_split [OF m(2)])
    with ms(3) m(1) True none show ?thesis
      by (intro exI [of _ a] exI [of _ piece] exI [of _ b]) simp
  next
    case False
    then have "performs w (find_path w (si_file_path inp)) ?t (exact_edit ?old ?new False (lf_text ?t)) (Some (result, events))"
      using run assms(3) by (auto simp: edit_result_def)
    then obtain a b where "lf_text ?t = a @ ?old @ b" "\<forall>j. \<not> prefix ?old (drop j b)"
      "\<forall>j < length a. \<not> prefix ?old (drop j (lf_text ?t))"
      "hd events = Ev_Write (find_path w (si_file_path inp)) (on_disk (str_contains ?t crlf) (a @ ?new @ b))"
      by (rule exact_performed [OF _ assms(8,2)])
    then show ?thesis by (intro exI [of _ a] exI [of _ ?old] exI [of _ b]) simp
  qed
qed

theorem single_edit_one_place_witness:
  "\<exists>result events a b. run_search_replace (sample_search False ''ab'') (sample_input ''a'' ''x'') = Some (result, events)
     \<and> ''ab'' = a @ ''a'' @ b \<and> hd events = Ev_Write ''/r/f'' (a @ ''x'' @ b)"
proof -
  have v: "''a'' \<noteq> ''x''" "''a'' \<noteq> []" "utf8_valid ''a''" "utf8_valid ''x''" by code_simp+
  have t: "from_utf8_lossy ''ab'' = ''ab''" "lf_text ''ab'' = ''ab''" "str_contains ''ab'' crlf = False"
    "match_indices ''ab'' ''a'' = [0]" by code_simp+
  have "edit_result (sample_search False ''ab'') (sample_input ''a'' ''x'') (lf_text (from_utf8_lossy ''ab''))
      = Some (replace ''a'' ''x'' ''ab'')" unfolding t edit_result_def sample_fields exact_edit_def by simp
  then obtain result events where run: "run_search_replace (sample_search False ''ab'') (sample_input ''a'' ''x'') = Some (result, events)"
    "applied result" by (rule sample_applied [OF v])
  have "\<exists>a m b. ''ab'' = a @ m @ b \<and> hd events = Ev_Write ''/r/f'' (on_disk False (a @ ''x'' @ b)) \<and> m = ''a''"
    using single_edit_one_place [of "sample_search False ''ab''" "sample_input ''a'' ''x''" "''ab''",
        OF sample_admitted [OF v(1)] _ _ _ _ _ run] v(2-4) sample_fields(4)
    unfolding sample_fields sample_found t by blast
  with run(1) show ?thesis unfolding on_disk_def if_False by blast
qed

text \<open>
  C14. Typography is matched safely: when the old text does not occur in the decoded text of the file
  (with LF endings) and the fallback is on, a successful run replaces, in that text, only spans
  that follow each other without overlap, each of which reads like the old text once the
  typography of both is normalised, and keeps the rest of that text. If the file is well-formed
  UTF-8 without CRLF, that text is the file, so every other byte of the file is kept.
\<close>

theorem normalized_edit_safe:
  assumes "admitted w inp" "si_old_string inp \<noteq> []" "fallback_enabled w"
    and "utf8_valid (si_old_string inp)" "utf8_valid (si_new_string inp)"
    and "sw_read w (find_path w (si_file_path inp)) = Inr bytes"
    and "match_indices (lf_text (from_utf8_lossy bytes)) (si_old_string inp) = []"
    and "run_search_replace w inp = Some (result, events)" "applied result"
  shows "\<exists>ms. ms \<noteq> [] \<and> (length ms = 1 \<or> si_replace_all inp)
    \<and> list_all (safe_match (lf_text (from_utf8_lossy bytes)) (si_old_string inp)) ms
    \<and> spans_ok (lf_text (from_utf8_lossy bytes)) (spans_of ms) 0
    \<and> hd events = Ev_Write (find_path w (si_file_path inp))
        (on_disk (str_contains (from_utf8_lossy bytes) crlf)
          (spliced (lf_text (from_utf8_lossy bytes)) (si_new_string inp) (spans_of ms) 0))
    \<and> (utf8_valid bytes \<and> \<not> str_contains bytes crlf \<longrightarrow>
         list_all (safe_match bytes (si_old_string inp)) ms \<and> spans_ok bytes (spans_of ms) 0
         \<and> hd events = Ev_Write (find_path w (si_file_path inp)) (spliced bytes (si_new_string inp) (spans_of ms) 0))"
proof -
  let ?t = "from_utf8_lossy bytes"
  have "performs w (find_path w (si_file_path inp)) ?t
      (normalized_edit (si_old_string inp) (si_new_string inp) (si_replace_all inp) (lf_text ?t)) (Some (result, events))"
    using run_performs [OF assms(1,2,4-6)] assms(3,7,8) by (simp add: edit_result_def)
  then obtain ms where ms: "ms \<noteq> []" "length ms = 1 \<or> si_replace_all inp"
    "list_all (safe_match (lf_text ?t) (si_old_string inp)) ms" "spans_ok (lf_text ?t) (spans_of ms) 0"
    "hd events = Ev_Write (find_path w (si_file_path inp)) (on_disk (str_contains ?t crlf) (spliced (lf_text ?t) (si_new_string inp) (spans_of ms) 0))"
    by (rule normalized_performed [OF _ assms(9) lf_text_valid assms(4)])
  moreover have "?t = bytes" "lf_text bytes = bytes" "on_disk (str_contains bytes crlf) r = r"
    if "utf8_valid bytes" "\<not> str_contains bytes crlf" for r
    using that by (simp_all add: from_utf8_lossy_valid lf_text_def on_disk_def)
  ultimately show ?thesis by (intro exI [of _ ms]) auto
qed

theorem normalized_edit_safe_witness:
  "\<exists>ms result events.
     run_search_replace (sample_search True ([CHR 0xE2, CHR 0x80, CHR 0x9C] @ ''a'')) (sample_input (dquote # ''a'') ''x'')
       = Some (result, events)
     \<and> ms \<noteq> [] \<and> list_all (safe_match ([CHR 0xE2, CHR 0x80, CHR 0x9C] @ ''a'') (dquote # ''a'')) ms
     \<and> hd events = Ev_Write ''/r/f'' (spliced ([CHR 0xE2, CHR 0x80, CHR 0x9C] @ ''a'') ''x'' (spans_of ms) 0)"
proof -
  let ?c = "[CHR 0xE2, CHR 0x80, CHR 0x9C] @ ''a''" and ?old = "dquote # ''a''"
  have v: "?old \<noteq> ''x''" "?old \<noteq> []" "utf8_valid ?old" "utf8_valid ''x''" by code_simp+
  have t: "from_utf8_lossy ?c = ?c" "lf_text ?c = ?c" "str_contains ?c crlf = False" "match_indices ?c ?old = []"
    "find_normalized_match_positions ?c ?old = Some (NM_Matches [\<lparr>nm_original_start = 0, nm_original_len = 4\<rparr>])"
    "utf8_valid ?c"
    by code_simp+
  have "edit_result (sample_search True ?c) (sample_input ?old ''x'') (lf_text (from_utf8_lossy ?c))
      = Some (spliced ?c ''x'' (spans_of [\<lparr>nm_original_start = 0, nm_original_len = 4\<rparr>]) 0)"
    unfolding t edit_result_def sample_fields normalized_edit_def by simp
  then obtain result events where run: "run_search_replace (sample_search True ?c) (sample_input ?old ''x'') = Some (result, events)"
    "applied result" by (rule sample_applied [OF v])
  have "\<exists>ms. ms \<noteq> [] \<and> list_all (safe_match ?c ?old) ms \<and> hd events = Ev_Write ''/r/f'' (spliced ?c ''x'' (spans_of ms) 0)"
    using normalized_edit_safe [of "sample_search True ?c" "sample_input ?old ''x''" ?c,
        OF sample_admitted [OF v(1)] _ _ _ _ _ _ run] v(2-4) sample_fields(4) t(3,6)
    unfolding sample_fields sample_found t by blast
  with run(1) show ?thesis by blast
qed

text \<open>
  C25. Line endings survive: on a file with CRLF line endings the run does what it would do on
  the text with LF endings, and writes the result with CRLF endings.
\<close>

theorem crlf_file_stays_crlf:
  assumes "admitted w inp" "si_old_string inp \<noteq> []"
    and "utf8_valid (si_old_string inp)" "utf8_valid (si_new_string inp)"
    and "utf8_valid u" "newline \<in> set u"
    and "sw_read w (find_path w (si_file_path inp)) = Inr (replace [newline] crlf u)"
  shows "case edit_result w inp u of
      None \<Rightarrow> refused (run_search_replace w inp)
    | Some v \<Rightarrow> written w (find_path w (si_file_path inp)) (replace [newline] crlf (replace crlf [newline] v))
        (Some (replace [newline] crlf u)) (run_search_replace w inp)"
proof -
  have t: "from_utf8_lossy (replace [newline] crlf u) = replace [newline] crlf u"
    by (simp add: from_utf8_lossy_valid replace_valid assms(5) newline_valid)
  note p = handle_replacement_performs [where w = w, OF assms(7,3,4,2)]
  show ?thesis
    using p unfolding run_replaces [OF assms(1,2)] t lf_text_def to_lf_to_crlf performs_def on_disk_def
    by (simp only: to_crlf_contains [OF assms(6)] if_True)
qed

theorem crlf_file_stays_crlf_witness:
  "written (sample_search False (''a'' @ crlf @ ''b'')) ''/r/f'' (''x'' @ crlf @ ''b'') (Some (''a'' @ crlf @ ''b''))
     (run_search_replace (sample_search False (''a'' @ crlf @ ''b'')) (sample_input ''a'' ''x''))"
proof -
  let ?u = "''a'' @ newline # ''b''"
  have v: "utf8_valid ''a''" "utf8_valid ''x''" "utf8_valid ?u" "newline \<in> set ?u" by code_simp+
  have t: "replace [newline] crlf ?u = ''a'' @ crlf @ ''b''" "match_indices ?u ''a'' = [0]"
    "replace ''a'' ''x'' ?u = ''x'' @ newline # ''b''"
    "replace [newline] crlf (replace crlf [newline] (''x'' @ newline # ''b'')) = ''x'' @ crlf @ ''b''" by code_simp+
  let ?w = "sample_search False (''a'' @ crlf @ ''b'')"
  have r: "edit_result ?w (sample_input ''a'' ''x'') ?u = Some (''x'' @ newline # ''b'')"
    unfolding edit_result_def sample_fields exact_edit_def t by simp
  have read: "sw_read ?w p = Inr (replace [newline] crlf ?u)" for p unfolding sample_fields t ..
  have "admitted ?w (sample_input ''a'' ''x'')" by (rule sample_admitted) simp
  from crlf_file_stays_crlf [OF this _ _ _ v(3,4) read] v(1,2) show ?thesis
    unfolding sample_fields sample_found r option.case t by simp
qed

text \<open>
  An empty old text overwrites a file that has content unless the setting forbids it, and the
  notification then says that the file is new and keeps nothing of its previous content.
\<close>

theorem overwrite_forgets_content:
  assumes "admitted w inp" "si_old_string inp = []"
    and "sw_read w (find_path w (si_file_path inp)) = Inr (c # cs)"
    and "\<And>p. sw_params w = Some p \<Longrightarrow> \<not> sp_empty_old_string_does_not_override p"
    and "sw_write w (find_path w (si_file_path inp)) (si_new_string inp) = None"
  shows "\<exists>ap. run_search_replace w inp = Some (Inr (SR_EditsApplied ap),
    [Ev_Write (find_path w (si_file_path inp)) (si_new_string inp),
     Ev_Notify \<lparr>fw_tool_call_id = sw_tool_call_id w, fw_absolute_path = find_path w (si_file_path inp),
       fw_content = si_new_string inp, fw_previous_content = None, fw_is_new_file = True\<rparr>])"
proof -
  have "\<not> unwrap_or (map_option sp_empty_old_string_does_not_override (sw_params w)) False"
    using assms(4) by (cases "sw_params w") (auto simp: unwrap_or_def)
  moreover have "written w (find_path w (si_file_path inp)) (si_new_string inp) None
      (handle_new_file_creation w inp (find_path w (si_file_path inp)) False)"
    using creation_cases [of w "find_path w (si_file_path inp)" False inp] by simp
  ultimately show ?thesis using assms(5) unfolding run_creates [OF assms(1,2)] written_def applied_iff
    by auto
qed

theorem overwrite_forgets_content_witness:
  "\<exists>ap. run_search_replace (sample_search False ''old'') (sample_input [] ''new'') = Some (Inr (SR_EditsApplied ap),
     [Ev_Write ''/r/f'' ''new'',
      Ev_Notify \<lparr>fw_tool_call_id = ''1'', fw_absolute_path = ''/r/f'', fw_content = ''new'',
        fw_previous_content = None, fw_is_new_file = True\<rparr>])"
proof -
  have p: "\<not> sp_empty_old_string_does_not_override p" if "sw_params (sample_search False ''old'') = Some p" for p
    using that by (auto simp: sample_search_def)
  have "admitted (sample_search False ''old'') (sample_input [] ''new'')" by (rule sample_admitted) simp
  from overwrite_forgets_content [OF this _ _ p, of "CHR ''o''" "''ld''"] show ?thesis by (simp add: sample_found)
qed

text \<open>
  The map of offsets that goes with the normalised text has one entry per byte and one for
  the end, is monotone, ends at the length of the text, and takes the character boundaries of
  the normalised text to character boundaries of the text.
\<close>

theorem offset_map_sound:
  assumes "utf8_valid s"
  shows "length (snd (build_offset_map s)) = Suc (length (fst (build_offset_map s)))
    \<and> sorted (snd (build_offset_map s)) \<and> last (snd (build_offset_map s)) = length s
    \<and> (\<forall>k. k \<le> length (fst (build_offset_map s)) \<and> is_char_boundary (fst (build_offset_map s)) k
         \<longrightarrow> is_char_boundary s (snd (build_offset_map s) ! k))"
proof -
  have "is_char_boundary s (snd (build_offset_map s) ! k)"
    if "k \<le> length (normalize_confusables s)" "is_char_boundary (normalize_confusables s) k" for k
    using origin_is_boundary [OF assms that(2,1)] by (auto simp: nth_opt_def split: if_splits)
  moreover have "last (snd (build_offset_map s)) = length s" by (simp add: build_offset_map_def)
  ultimately show ?thesis unfolding norm_text
    by (simp add: offset_map origins_from_length origins_from_sorted normalize_confusables_def)
qed

theorem offset_map_sound_witness:
  "length (snd (build_offset_map ([CHR 0xE2, CHR 0x80, CHR 0x94] @ ''a''))) = 4
   \<and> sorted (snd (build_offset_map ([CHR 0xE2, CHR 0x80, CHR 0x94] @ ''a'')))
   \<and> snd (build_offset_map ([CHR 0xE2, CHR 0x80, CHR 0x94] @ ''a'')) = [0, 0, 3, 4]"
proof -
  have "utf8_valid ([CHR 0xE2, CHR 0x80, CHR 0x94] @ ''a'')"
    "build_offset_map ([CHR 0xE2, CHR 0x80, CHR 0x94] @ ''a'') = (''--a'', [0, 0, 3, 4])" by code_simp+
  with offset_map_sound [of "[CHR 0xE2, CHR 0x80, CHR 0x94] @ ''a''"] show ?thesis by simp
qed

end
