(* ===== verification/Edit_Sessions.thy ===== *)
theory Edit_Sessions
  imports Hashline_Tool Search_Replace_Correct
begin

text \<open>
  The editing tools as one interface: a call answers and asks for at most one write, to the file
  it resolved its path to, and answers success only for a write that went through. Both tools
  provide it, and so does a client that mixes them. Sessions of calls are run on a store of
  files that each call reads through the world made from it.
\<close>

section \<open>Sessions\<close>

type_synonym store = "string \<rightharpoonup> string"

text \<open>
  The store after the writes of a call. A write that fails leaves what \<open>spoil\<close> says in its file:
  nothing is assumed about it.
\<close>

definition landed ::
  "(string \<Rightarrow> string \<Rightarrow> bool) \<Rightarrow> (string \<Rightarrow> string \<Rightarrow> string option) \<Rightarrow> (string \<times> string) list \<Rightarrow> store \<Rightarrow> store" where
  "landed faulty spoil ws st =
     foldl (\<lambda>st (p, c). if faulty p c then st(p := spoil p c) else st(p \<mapsto> c)) st ws"

text \<open>A session ends with its store, \<open>None\<close> when a call panics.\<close>

fun session ::
  "('w \<Rightarrow> 'i \<Rightarrow> ('out \<times> (string \<times> string) list) option) \<Rightarrow> ('w \<Rightarrow> string \<Rightarrow> string \<Rightarrow> bool)
   \<Rightarrow> (string \<Rightarrow> string \<Rightarrow> string option) \<Rightarrow> (store \<Rightarrow> 'w) \<Rightarrow> 'i list \<Rightarrow> store \<Rightarrow> store option" where
  "session run faulty spoil world [] st = Some st"
| "session run faulty spoil world (i # is) st =
     (case run (world st) i of
        None \<Rightarrow> None
      | Some (out, ws) \<Rightarrow> session run faulty spoil world is (landed (faulty (world st)) spoil ws st))"

text \<open>The files that the calls of a session resolve to, each in the store of its turn.\<close>

fun session_targets ::
  "('w \<Rightarrow> 'i \<Rightarrow> ('out \<times> (string \<times> string) list) option) \<Rightarrow> ('w \<Rightarrow> 'i \<Rightarrow> string) \<Rightarrow> ('w \<Rightarrow> string \<Rightarrow> string \<Rightarrow> bool)
   \<Rightarrow> (string \<Rightarrow> string \<Rightarrow> string option) \<Rightarrow> (store \<Rightarrow> 'w) \<Rightarrow> 'i list \<Rightarrow> store \<Rightarrow> string list" where
  "session_targets run target faulty spoil world [] st = []"
| "session_targets run target faulty spoil world (i # is) st =
     target (world st) i
     # (case run (world st) i of
          None \<Rightarrow> []
        | Some (out, ws) \<Rightarrow>
            session_targets run target faulty spoil world is (landed (faulty (world st)) spoil ws st))"

section \<open>The interface\<close>

locale edit_tool =
  fixes run :: "'w \<Rightarrow> 'i \<Rightarrow> ('out \<times> (string \<times> string) list) option"
    and target :: "'w \<Rightarrow> 'i \<Rightarrow> string"
    and faulty :: "'w \<Rightarrow> string \<Rightarrow> string \<Rightarrow> bool"
    and succeeded :: "'out \<Rightarrow> bool"
    and wellformed :: "'i \<Rightarrow> bool"
  assumes writes_target:
      "wellformed i \<Longrightarrow> run w i = Some (out, ws) \<Longrightarrow> ws = [] \<or> (\<exists>c. ws = [(target w i, c)])"
    and success_written:
      "wellformed i \<Longrightarrow> run w i = Some (out, ws) \<Longrightarrow> succeeded out \<Longrightarrow>
         \<exists>c. ws = [(target w i, c)] \<and> \<not> faulty w (target w i) c"
begin

lemma call_frame:
  assumes "wellformed i" "run w i = Some (out, ws)" "p \<noteq> target w i"
  shows "landed (faulty w) spoil ws st p = st p"
  using writes_target [OF assms(1,2)] assms(3) by (auto simp: landed_def)

lemma call_success:
  assumes "wellformed i" "run w i = Some (out, ws)" "succeeded out"
  obtains c where "ws = [(target w i, c)]" "landed (faulty w) spoil ws st (target w i) = Some c"
  using success_written [OF assms] by (auto simp: landed_def)

lemma session_frame:
  "list_all wellformed is \<Longrightarrow> session run faulty spoil world is st = Some st' \<Longrightarrow>
     p \<notin> set (session_targets run target faulty spoil world is st) \<Longrightarrow> st' p = st p"
proof (induction "is" arbitrary: st)
  case (Cons i "is")
  obtain out ws where r: "run (world st) i = Some (out, ws)" using Cons.prems(2) by (auto split: option.splits)
  have "st' p = landed (faulty (world st)) spoil ws st p" using Cons r by simp
  also have "\<dots> = st p" using Cons.prems(1,3) r by (intro call_frame) auto
  finally show ?case .
qed simp

lemma session_last:
  assumes "list_all wellformed (is @ [i])" "session run faulty spoil world is st = Some mid"
    and "run (world mid) i = Some (out, ws)" "succeeded out"
  shows "\<exists>c st'. session run faulty spoil world (is @ [i]) st = Some st'
    \<and> ws = [(target (world mid) i, c)] \<and> st' = mid(target (world mid) i \<mapsto> c)"
proof -
  have "session run faulty spoil world (is @ [i]) st = session run faulty spoil world [i] mid"
    using assms(2) by (induction "is" arbitrary: st) (auto split: option.splits)
  moreover obtain c where c: "ws = [(target (world mid) i, c)]" "\<not> faulty (world mid) (target (world mid) i) c"
    using success_written [OF _ assms(3,4)] assms(1) by auto
  ultimately show ?thesis using assms(3) by (auto simp: landed_def)
qed

end

section \<open>The search and replace tool\<close>

definition writes_of :: "edit_event list \<Rightarrow> (string \<times> string) list" where
  "writes_of evs = List.map_filter (\<lambda>e. case e of Ev_Write p c \<Rightarrow> Some (p, c) | _ \<Rightarrow> None) evs"

definition search_call ::
  "search_world \<Rightarrow> search_replace_input \<Rightarrow> ((tool_error + search_replace_output) \<times> (string \<times> string) list) option" where
  "search_call w inp = map_option (\<lambda>(result, evs). (result, writes_of evs)) (search_replace_run w inp)"

definition search_target :: "search_world \<Rightarrow> search_replace_input \<Rightarrow> string" where
  "search_target w inp = find_path w (si_file_path inp)"

definition search_faulty :: "search_world \<Rightarrow> string \<Rightarrow> string \<Rightarrow> bool" where
  "search_faulty w p c \<longleftrightarrow> sw_write w p c \<noteq> None"

definition utf8_input :: "search_replace_input \<Rightarrow> bool" where
  "utf8_input inp \<longleftrightarrow> utf8_valid (si_old_string inp) \<and> utf8_valid (si_new_string inp)"

lemma downgrade_applied:
  "applied (downgrade_structured_errors w f out) \<Longrightarrow> applied (Inr out)"
  by (auto simp: downgrade_structured_errors_def split: sum.splits search_replace_output.splits)

lemma search_run_result:
  assumes "run_search_replace w inp = Some (result, evs)"
  shows "\<exists>final. search_replace_run w inp = Some (final, evs) \<and> (applied final \<longrightarrow> applied result)"
  using assms downgrade_applied by (auto simp: search_replace_run_def split: sum.splits)

lemma search_call_shape:
  assumes "utf8_input inp"
  shows "\<exists>out. (search_call w inp = Some (out, []) \<and> \<not> applied out)
    \<or> (\<exists>c. search_call w inp = Some (out, [(search_target w inp, c)])
         \<and> (applied out \<longrightarrow> \<not> search_faulty w (search_target w inp) c))"
proof -
  from run_shape [of inp w] assms
  consider "refused (run_search_replace w inp)"
    | content previous where "written w (find_path w (si_file_path inp)) content previous (run_search_replace w inp)"
    by (auto simp: utf8_input_def)
  then show ?thesis
  proof cases
    case 1
    then obtain result where "run_search_replace w inp = Some (result, [])" "\<not> applied result"
      by (auto simp: refused_def)
    with search_run_result [OF this(1)] show ?thesis
      by (auto simp: search_call_def writes_of_def map_filter_simps)
  next
    case 2
    then obtain result evs where
      "run_search_replace w inp = Some (result, Ev_Write (find_path w (si_file_path inp)) content # evs)"
      "applied result \<longleftrightarrow> sw_write w (find_path w (si_file_path inp)) content = None"
      "evs = [] \<or> (\<exists>n. evs = [Ev_Notify n])"
      by (auto simp: written_def split: if_splits)
    with search_run_result [OF this(1)] show ?thesis
      by (auto simp: search_call_def search_target_def search_faulty_def writes_of_def map_filter_simps)
  qed
qed

interpretation srt: edit_tool search_call search_target search_faulty applied utf8_input
proof
  fix i w out ws
  assume i: "utf8_input i" and r: "search_call w i = Some (out, ws)"
  from search_call_shape [OF i, of w] r
  show "ws = [] \<or> (\<exists>c. ws = [(search_target w i, c)])" by auto
  assume "applied out"
  with search_call_shape [OF i, of w] r
  show "\<exists>c. ws = [(search_target w i, c)] \<and> \<not> search_faulty w (search_target w i) c" by auto
qed

section \<open>The hashline tool\<close>

text \<open>A call names its file and its operations; the settings are fixed.\<close>

record hashline_session =
  hs_world :: edit_world
  hs_params :: scheme_params
  hs_cwd :: string
  hs_display_cwd :: "string option"

definition hashline_call ::
  "hashline_session \<Rightarrow> string \<times> hashline_op list \<Rightarrow> ((string + search_replace_output) \<times> (string \<times> string) list) option" where
  "hashline_call h = (\<lambda>(file_path, ops).
     hashline_edit_run (hs_world h) (hs_params h) (hs_cwd h) (hs_display_cwd h) file_path ops)"

definition hashline_target :: "hashline_session \<Rightarrow> string \<times> hashline_op list \<Rightarrow> string" where
  "hashline_target h = (\<lambda>(file_path, ops).
     let joined = resolve_model_path (ew_tilde (hs_world h)) (hs_cwd h) (hs_display_cwd h) file_path
     in case ew_canonical (hs_world h) joined of
          Some path \<Rightarrow> path
        | None \<Rightarrow> unwrap_or (ew_confusable (hs_world h) joined) joined)"

definition hashline_faulty :: "hashline_session \<Rightarrow> string \<Rightarrow> string \<Rightarrow> bool" where
  "hashline_faulty h p c \<longleftrightarrow> ew_write (hs_world h) p c \<noteq> None"

definition hashline_applied :: "string + search_replace_output \<Rightarrow> bool" where
  "hashline_applied r \<longleftrightarrow> (case r of Inr (SR_EditsApplied _) \<Rightarrow> True | _ \<Rightarrow> False)"

lemma hashline_applied_iff: "hashline_applied r \<longleftrightarrow> (\<exists>ap. r = Inr (SR_EditsApplied ap))"
  by (simp add: hashline_applied_def split: sum.splits search_replace_output.splits)

lemma apply_edits_output:
  assumes "apply_edits s path content ops = Some r" "ar_new_content r = None"
  shows "\<exists>e. ar_output r = Edit_Error e"
  using assms
  by (auto simp: apply_edits_def apply_write_def apply_resolved_def failed_def Let_def
      split: list.splits hashline_op.splits option.splits sum.splits)

definition writes_once :: "edit_world \<Rightarrow> string \<Rightarrow> run_answer \<Rightarrow> bool" where
  "writes_once w path a \<longleftrightarrow>
     (\<forall>out ws. a = Some (out, ws) \<longrightarrow>
        (ws = [] \<and> \<not> hashline_applied out)
        \<or> (\<exists>c. ws = [(path, c)] \<and> (hashline_applied out \<longrightarrow> ew_write w path c = None)))"

lemma writes_once_none:
  "(\<And>ap. out \<noteq> Some (SR_EditsApplied ap)) \<Longrightarrow> writes_once w path (run_result [] out)"
  by (auto simp: writes_once_def run_result_def hashline_applied_iff)

lemma writes_once_one:
  "ew_write w path c = None \<or> (\<forall>ap. out \<noteq> Some (SR_EditsApplied ap)) \<Longrightarrow> writes_once w path (run_result [(path, c)] out)"
  by (auto simp: writes_once_def run_result_def hashline_applied_iff)

lemma error_not_applied: "to_search_replace (Edit_Error e) path content new ds \<noteq> Some (SR_EditsApplied ap)"
  using error_answer [of e path content new ds] by auto

lemma fault_output_not_applied: "fault_output w d path doing e \<noteq> SR_EditsApplied ap"
  by (simp add: fault_output_def)

lemma edit_existing_once: "writes_once w path (edit_existing w s display path ops)"
proof (cases "ew_read w path")
  case (Inl e)
  then show ?thesis by (simp add: edit_existing_def writes_once_none fault_output_not_applied)
next
  case (Inr bytes)
  show ?thesis
  proof (cases "apply_edits s path (from_utf8_lossy bytes) ops")
    case None
    with Inr show ?thesis by (simp add: edit_existing_def writes_once_def)
  next
    case (Some r)
    show ?thesis
    proof (cases "ar_new_content r")
      case None
      with apply_edits_output [OF Some] obtain e where "ar_output r = Edit_Error e" by blast
      with Inr Some None show ?thesis
        by (simp add: edit_existing_def Let_def writes_once_none error_not_applied)
    next
      case content: (Some c)
      with Inr Some show ?thesis
        by (cases "ew_write w path c") (simp_all add: edit_existing_def Let_def writes_once_one error_not_applied)
    qed
  qed
qed

lemma create_or_missing_once: "writes_once w path (create_or_missing w s display path ops)"
proof (cases "\<exists>c. ops = [Op_Write c]")
  case True
  then obtain c where "ops = [Op_Write c]" by blast
  then show ?thesis
    by (cases "ew_write w path c")
      (auto simp: create_or_missing_def Let_def fault_output_not_applied writes_once_def [of _ _ None]
        intro!: writes_once_one split: option.splits)
next
  case False
  then show ?thesis
    by (auto simp: create_or_missing_def intro!: writes_once_none split: list.splits hashline_op.splits)
qed

lemma hashline_call_once: "writes_once (hs_world h) (hashline_target h i) (hashline_call h i)"
proof (cases i)
  case (Pair file_path ops)
  then show ?thesis
    by (auto simp: hashline_call_def hashline_target_def hashline_edit_run_def Let_def unwrap_or_def
        edit_existing_once create_or_missing_once writes_once_none writes_once_def [of _ _ None]
        writes_once_def [of _ _ "Some (Inl e, [])" for e] hashline_applied_iff split: option.splits sum.splits)
qed

interpretation hlt: edit_tool hashline_call hashline_target hashline_faulty hashline_applied "\<lambda>_. True"
proof
  fix i w out ws
  assume r: "hashline_call w i = Some (out, ws)"
  note once = hashline_call_once [of w i, unfolded writes_once_def, rule_format, OF r]
  show "ws = [] \<or> (\<exists>c. ws = [(hashline_target w i, c)])" using once by auto
  assume "hashline_applied out"
  with once show "\<exists>c. ws = [(hashline_target w i, c)] \<and> \<not> hashline_faulty w (hashline_target w i) c"
    by (auto simp: hashline_faulty_def)
qed

section \<open>Both tools on one file system\<close>

datatype edit_call = Call_Search search_replace_input | Call_Hashline string "hashline_op list"

record editor =
  ed_search :: search_world
  ed_hashline :: hashline_session

text \<open>The hashline tool writes to the file system that the other tool writes to.\<close>

definition shared_hashline :: "editor \<Rightarrow> hashline_session" where
  "shared_hashline e =
     (ed_hashline e)\<lparr>hs_world := (hs_world (ed_hashline e))\<lparr>ew_write := sw_write (ed_search e)\<rparr>\<rparr>"

definition edit_call_run :: "editor \<Rightarrow> edit_call \<Rightarrow> (bool \<times> (string \<times> string) list) option" where
  "edit_call_run e call =
     (case call of
        Call_Search inp \<Rightarrow> map_option (\<lambda>(out, ws). (applied out, ws)) (search_call (ed_search e) inp)
      | Call_Hashline file_path ops \<Rightarrow>
          map_option (\<lambda>(out, ws). (hashline_applied out, ws)) (hashline_call (shared_hashline e) (file_path, ops)))"

definition edit_call_target :: "editor \<Rightarrow> edit_call \<Rightarrow> string" where
  "edit_call_target e call =
     (case call of
        Call_Search inp \<Rightarrow> search_target (ed_search e) inp
      | Call_Hashline file_path ops \<Rightarrow> hashline_target (shared_hashline e) (file_path, ops))"

definition edit_call_faulty :: "editor \<Rightarrow> string \<Rightarrow> string \<Rightarrow> bool" where
  "edit_call_faulty e = search_faulty (ed_search e)"

fun edit_call_ok :: "edit_call \<Rightarrow> bool" where
  "edit_call_ok (Call_Search inp) = utf8_input inp"
| "edit_call_ok (Call_Hashline file_path ops) = True"

lemma shared_faulty: "hashline_faulty (shared_hashline e) = edit_call_faulty e"
  by (intro ext) (simp add: hashline_faulty_def shared_hashline_def edit_call_faulty_def search_faulty_def)

interpretation edt: edit_tool edit_call_run edit_call_target edit_call_faulty "\<lambda>b. b" edit_call_ok
proof
  fix i w out ws
  assume i: "edit_call_ok i" and r: "edit_call_run w i = Some (out, ws)"
  have "ws = [] \<and> \<not> out
      \<or> (\<exists>c. ws = [(edit_call_target w i, c)] \<and> (out \<longrightarrow> \<not> edit_call_faulty w (edit_call_target w i) c))"
  proof (cases i)
    case (Call_Search inp)
    with r obtain o' where o': "search_call (ed_search w) inp = Some (o', ws)" "out = applied o'"
      by (auto simp: edit_call_run_def)
    with srt.writes_target [OF _ o'(1)] srt.success_written [OF _ o'(1)] i Call_Search show ?thesis
      by (auto simp: edit_call_target_def edit_call_faulty_def)
  next
    case (Call_Hashline file_path ops)
    with r obtain o' where o': "hashline_call (shared_hashline w) (file_path, ops) = Some (o', ws)" "out = hashline_applied o'"
      by (auto simp: edit_call_run_def)
    with hlt.writes_target [OF _ o'(1)] hlt.success_written [OF _ o'(1)] Call_Hashline show ?thesis
      by (auto simp: edit_call_target_def shared_faulty)
  qed
  then show "ws = [] \<or> (\<exists>c. ws = [(edit_call_target w i, c)])"
    and "out \<Longrightarrow> \<exists>c. ws = [(edit_call_target w i, c)] \<and> \<not> edit_call_faulty w (edit_call_target w i) c" by auto
qed

section \<open>Properties\<close>

text \<open>
  C16. Whatever a session of edits with both tools does, a file that none of its calls resolved its
  path to keeps its content, failed writes included.
\<close>

theorem edit_session_frame:
  assumes "list_all edit_call_ok calls"
    and "session edit_call_run edit_call_faulty spoil world calls st = Some st'"
    and "p \<notin> set (session_targets edit_call_run edit_call_target edit_call_faulty spoil world calls st)"
  shows "st' p = st p"
  using assms by (rule edt.session_frame)

text \<open>An editor whose tools read the store.\<close>

definition sample_editor :: "store \<Rightarrow> editor" where
  "sample_editor st =
     \<lparr>ed_search = sample_search False (unwrap_or (st ''/r/f'') []),
      ed_hashline = \<lparr>hs_world = sample_files False, hs_params = scheme_params_default, hs_cwd = ''/r'', hs_display_cwd = None\<rparr>\<rparr>"

theorem edit_session_frame_witness:
  "\<exists>st'. session edit_call_run edit_call_faulty (\<lambda>_ _. None) sample_editor [Call_Search (sample_input ''a'' ''x'')]
       [''/r/f'' \<mapsto> ''ab'', ''/q'' \<mapsto> ''kept''] = Some st' \<and> st' ''/q'' = Some ''kept''"
proof -
  let ?st = "[''/r/f'' \<mapsto> ''ab'', ''/q'' \<mapsto> ''kept'']" and ?i = "sample_input ''a'' ''x''"
  have "utf8_valid ''a''" "utf8_valid ''x''" by code_simp+
  then have u: "utf8_input ?i" by (simp add: utf8_input_def)
  obtain out ws where "search_call (ed_search (sample_editor ?st)) ?i = Some (out, ws)"
    using search_call_shape [OF u] by metis
  then have run: "edit_call_run (sample_editor ?st) (Call_Search ?i) = Some (applied out, ws)"
    by (simp add: edit_call_run_def)
  have t: "edit_call_target (sample_editor ?st) (Call_Search ?i) = ''/r/f''"
    by (simp add: edit_call_target_def search_target_def sample_editor_def sample_found)
  obtain st' where s: "session edit_call_run edit_call_faulty (\<lambda>_ _. None) sample_editor [Call_Search ?i] ?st = Some st'"
    using run by simp
  have "st' ''/q'' = ?st ''/q''"
  proof (rule edit_session_frame [OF _ s])
    show "list_all edit_call_ok [Call_Search ?i]" using u by simp
    show "''/q'' \<notin> set (session_targets edit_call_run edit_call_target edit_call_faulty (\<lambda>_ _. None) sample_editor
        [Call_Search ?i] ?st)" using run t by simp
  qed
  with s show ?thesis by auto
qed

text \<open>
  A session of calls of \<open>search_replace\<close> always completes, and when its last call answers success
  the store is that of the calls before with the new content in the file of that call.
\<close>

lemma search_session_completes:
  assumes "list_all utf8_input (calls @ [i])"
  shows "\<exists>mid out ws st'. session search_call search_faulty spoil world calls st = Some mid
    \<and> search_call (world mid) i = Some (out, ws)
    \<and> session search_call search_faulty spoil world (calls @ [i]) st = Some st'
    \<and> (applied out \<longrightarrow>
         (\<exists>c. ws = [(search_target (world mid) i, c)] \<and> st' = mid(search_target (world mid) i \<mapsto> c)))"
proof -
  have total: "search_call w c \<noteq> None" if "utf8_input c" for w c using search_call_shape [OF that, of w] by auto
  have complete: "\<exists>st'. session search_call search_faulty spoil world cs s = Some st'"
    if "list_all utf8_input cs" for cs s
    using that
  proof (induction cs arbitrary: s)
    case (Cons c cs)
    obtain out ws where "search_call (world s) c = Some (out, ws)" using total [of c "world s"] Cons.prems by auto
    with Cons show ?case by simp
  qed simp
  obtain mid where mid: "session search_call search_faulty spoil world calls st = Some mid"
    using complete [of calls st] assms by auto
  obtain out ws where call: "search_call (world mid) i = Some (out, ws)" using total [of i "world mid"] assms by auto
  obtain st' where st': "session search_call search_faulty spoil world (calls @ [i]) st = Some st'"
    using complete [OF assms] by auto
  from srt.session_last [OF assms mid call] st' show ?thesis using mid call by auto
qed

end
