(* ===== verification/File_Hints.thy ===== *)
theory File_Hints
  imports Search_Replace_Correct
begin

text \<open>
  Finding a file whose name the model cannot spell (\<open>gbuild-tools/src/util/fs.rs\<close>) and the hints of a
  missing path (\<open>gbuild-tools/src/util/path_suggestions.rs\<close>). A directory is the function that lists its
  entries as far as they could be read; \<open>timed_out\<close> says that the probe took too long, and \<open>lower\<close> is
  the lower case of Unicode text.
\<close>

section \<open>Names with special characters\<close>

definition FILENAME_SPECIAL_CHARACTER_MAP :: "(string \<times> string) list" where
  "FILENAME_SPECIAL_CHARACTER_MAP = [([CHR 0xE2, CHR 0x80, CHR 0xAF], '' ''), ([CHR 0xC2, CHR 0xA0], '' '')]"

definition normalize_filename :: "string \<Rightarrow> string" where
  "normalize_filename s =
     concat (map (\<lambda>c. case find (\<lambda>e. fst e = c) FILENAME_SPECIAL_CHARACTER_MAP of
                        Some (_, replacement) \<Rightarrow> replacement | None \<Rightarrow> c) (chars s))"

record unicode_path_match =
  up_resolved_path :: string
  up_note :: string

text \<open>\<open>c as u32\<close> of an encoded character, and \<open>{:04X}\<close>.\<close>

definition char_code :: "string \<Rightarrow> nat" where
  "char_code c =
     (case map of_char c of
        [a] \<Rightarrow> a
      | [a, b] \<Rightarrow> (a - 192) * 64 + (b - 128)
      | [a, b, d] \<Rightarrow> (a - 224) * 4096 + (b - 128) * 64 + (d - 128)
      | [a, b, d, e] \<Rightarrow> (a - 240) * 262144 + (b - 128) * 4096 + (d - 128) * 64 + (e - 128)
      | _ \<Rightarrow> 0)"

definition hex_digit :: "nat \<Rightarrow> char" where
  "hex_digit n = ''0123456789ABCDEF'' ! n"

fun hex_digits :: "nat \<Rightarrow> string" where
  "hex_digits n = (if n < 16 then [hex_digit n] else hex_digits (n div 16) @ [hex_digit (n mod 16)])"

declare hex_digits.simps [simp del]

definition hex4 :: "nat \<Rightarrow> string" where
  "hex4 n = replicate (4 - length (hex_digits n)) CHR ''0'' @ hex_digits n"

text \<open>The scan of a directory: \<open>None\<close> when an entry has the name itself.\<close>

fun scan_entries :: "string \<Rightarrow> string \<Rightarrow> string list \<Rightarrow> string list option" where
  "scan_entries file_name normalized_target [] = Some []"
| "scan_entries file_name normalized_target (entry # entries) =
     (if \<not> utf8_valid entry then scan_entries file_name normalized_target entries
      else if entry = file_name then None
      else map_option (\<lambda>ms. if normalize_filename entry = normalized_target then entry # ms else ms)
             (scan_entries file_name normalized_target entries))"

definition filename_note :: "string \<Rightarrow> string \<Rightarrow> string" where
  "filename_note matched_name file_name =
     (let differing_chars = map (\<lambda>(actual, _). ''U+'' @ hex4 (char_code actual))
            (filter (\<lambda>(a, b). a \<noteq> b) (zip (chars matched_name) (chars file_name)));
          chars_list = (if differing_chars = [] then [] else '' ('' @ join '', '' differing_chars @ '')'')
      in ''The specified filename did not exist exactly as given. A file was found by normalizing Unicode characters''
         @ chars_list @ '' to their ASCII equivalents. The actual filename is: '' @ matched_name @ [newline]
         @ ''For shell commands referencing this file, use glob patterns to avoid the mismatch.'')"

definition try_resolve_unicode_filename_inner ::
  "(string \<Rightarrow> string list option) \<Rightarrow> string \<Rightarrow> unicode_path_match option" where
  "try_resolve_unicode_filename_inner list_dir path =
     (case (path_file_name path, path_parent path) of
        (Some file_name, Some parent) \<Rightarrow>
          (case Option.bind (list_dir parent) (scan_entries file_name (normalize_filename file_name)) of
             Some [matched] \<Rightarrow>
               let matched_path = path_join parent matched;
                   matched_name = unwrap_or (path_file_name matched_path) ''?''
               in Some \<lparr>up_resolved_path = matched_path, up_note = filename_note matched_name file_name\<rparr>
           | _ \<Rightarrow> None)
      | _ \<Rightarrow> None)"

definition try_resolve_unicode_filename ::
  "bool \<Rightarrow> (string \<Rightarrow> string list option) \<Rightarrow> string \<Rightarrow> unicode_path_match option" where
  "try_resolve_unicode_filename timed_out list_dir path =
     (if timed_out then None else try_resolve_unicode_filename_inner list_dir path)"

section \<open>Hints for a missing path\<close>

definition MAX_SIMILAR :: nat where "MAX_SIMILAR = 3"

definition MIN_LEAF_LEN :: nat where "MIN_LEAF_LEN = 2"

definition MIN_REVERSE_STEM_LEN :: nat where "MIN_REVERSE_STEM_LEN = 4"

record path_not_found_hint =
  ph_suggestion :: "string option"
  ph_similar :: "string list"
  ph_cwd_note :: string

definition path_not_found_hint_fmt :: "path_not_found_hint \<Rightarrow> string" where
  "path_not_found_hint_fmt h =
     (case ph_suggestion h of
        Some s \<Rightarrow> '' Did you mean '' @ s @ ''?''
      | None \<Rightarrow>
          if ph_similar h = [] then []
          else [newline] @ ''Similar entries in parent directory: ''
               @ join '', '' (filter utf8_valid (List.map_filter path_file_name (ph_similar h))))
     @ [newline] @ ph_cwd_note h"

text \<open>\<open>path.file_stem()\<close>: the file name without its last extension.\<close>

definition path_file_stem :: "string \<Rightarrow> string option" where
  "path_file_stem p =
     map_option (\<lambda>name. case rfind_char CHR ''.'' name of
                          Some i \<Rightarrow> if i = 0 then name else take i name
                        | None \<Rightarrow> name) (path_file_name p)"

definition stem_of :: "(string \<Rightarrow> string) \<Rightarrow> string \<Rightarrow> string" where
  "stem_of lower name = lower (unwrap_or (path_file_stem name) name)"

fun similar_loop :: "(string \<Rightarrow> string) \<Rightarrow> string \<Rightarrow> string \<Rightarrow> string \<Rightarrow> nat \<Rightarrow> string list \<Rightarrow> string list" where
  "similar_loop lower parent base base_stem found [] = []"
| "similar_loop lower parent base base_stem found (entry # entries) =
     (let name = lower (from_utf8_lossy entry)
      in if name = base then similar_loop lower parent base base_stem found entries
         else
           let name_stem = stem_of lower name;
               forward = str_contains name_stem base_stem;
               backward = (\<not> forward \<and> MIN_REVERSE_STEM_LEN \<le> length name_stem \<and> str_contains base_stem name_stem)
           in if forward \<or> backward then
                path_join parent entry
                # (if MAX_SIMILAR \<le> found + 1 then [] else similar_loop lower parent base base_stem (found + 1) entries)
              else similar_loop lower parent base base_stem found entries)"

definition find_similar_entries ::
  "(string \<Rightarrow> string) \<Rightarrow> (string \<Rightarrow> string list option) \<Rightarrow> string \<Rightarrow> string list" where
  "find_similar_entries lower list_dir path =
     (case (path_parent path, path_file_name path) of
        (Some parent, Some b) \<Rightarrow>
          if length b < MIN_LEAF_LEN then []
          else (case list_dir parent of
                  None \<Rightarrow> []
                | Some entries \<Rightarrow> similar_loop lower parent (lower b) (stem_of lower (lower b)) 0 entries)
      | _ \<Rightarrow> [])"

definition try_suggest_under_cwd :: "(string \<Rightarrow> bool) \<Rightarrow> string \<Rightarrow> string \<Rightarrow> string option" where
  "try_suggest_under_cwd exists_path path cwd =
     (if \<not> is_absolute path \<or> path_starts_with path cwd then None
      else case path_parent cwd of
             None \<Rightarrow> None
           | Some cwd_parent \<Rightarrow>
               (case path_strip_prefix path cwd_parent of
                  None \<Rightarrow> None
                | Some rel \<Rightarrow>
                    if (case components rel of
                          Normal first # _ \<Rightarrow>
                            components (path_join cwd_parent first) \<noteq> components cwd
                            \<and> exists_path (path_join cwd_parent first)
                        | _ \<Rightarrow> False)
                    then None
                    else if exists_path (path_join cwd rel) then Some (path_join cwd rel) else None))"

definition collect_hints ::
  "(string \<Rightarrow> string) \<Rightarrow> (string \<Rightarrow> bool) \<Rightarrow> (string \<Rightarrow> string list option) \<Rightarrow> string \<Rightarrow> string
   \<Rightarrow> string option \<times> string list" where
  "collect_hints lower exists_path list_dir path cwd =
     (case try_suggest_under_cwd exists_path path cwd of
        Some corrected \<Rightarrow> (Some corrected, [])
      | None \<Rightarrow> (None, find_similar_entries lower list_dir path))"

definition path_not_found_hint_of ::
  "(string \<Rightarrow> string) \<Rightarrow> (string \<Rightarrow> bool) \<Rightarrow> (string \<Rightarrow> string list option) \<Rightarrow> bool
   \<Rightarrow> string \<Rightarrow> string \<Rightarrow> string \<Rightarrow> path_not_found_hint" where
  "path_not_found_hint_of lower exists_path list_dir timed_out path cwd display_cwd =
     (let (suggestion, similar) =
            (if timed_out then (None, []) else collect_hints lower exists_path list_dir path cwd)
      in \<lparr>ph_suggestion =
            map_option (\<lambda>corrected. case path_strip_prefix corrected cwd of
                                      Some rel \<Rightarrow> path_join display_cwd rel | None \<Rightarrow> corrected) suggestion,
          ph_similar = similar,
          ph_cwd_note = ''Note: your current working directory is '' @ display_cwd\<rparr>)"

definition format_not_found_error ::
  "(string \<Rightarrow> string) \<Rightarrow> (string \<Rightarrow> bool) \<Rightarrow> (string \<Rightarrow> string list option) \<Rightarrow> bool
   \<Rightarrow> string \<Rightarrow> string \<Rightarrow> string \<Rightarrow> string \<Rightarrow> bool \<Rightarrow> string" where
  "format_not_found_error lower exists_path list_dir timed_out shown_path resolved_path cwd display_cwd hints_enabled =
     ''Error: '' @ shown_path @ '' does not exist.''
     @ (if hints_enabled
        then path_not_found_hint_fmt
               (path_not_found_hint_of lower exists_path list_dir timed_out resolved_path cwd display_cwd)
        else [])"

section \<open>The fallback\<close>

lemma scan_entries_Some:
  assumes "scan_entries file_name target entries = Some ms"
  shows "ms = filter (\<lambda>e. utf8_valid e \<and> normalize_filename e = target) entries"
    and "e \<in> set entries \<Longrightarrow> utf8_valid e \<Longrightarrow> e \<noteq> file_name"
  using assms by (induction entries arbitrary: ms) (auto split: if_splits)

definition only_spelling :: "string list \<Rightarrow> string \<Rightarrow> string \<Rightarrow> bool" where
  "only_spelling entries file_name name \<longleftrightarrow>
     name \<in> set entries \<and> name \<noteq> file_name \<and> normalize_filename name = normalize_filename file_name
     \<and> list_all (\<lambda>e. utf8_valid e \<longrightarrow> e \<noteq> file_name \<and> (normalize_filename e = normalize_filename file_name \<longrightarrow> e = name))
         entries"

lemma fallback_sound:
  assumes "try_resolve_unicode_filename timed_out list_dir path = Some m"
  obtains file_name parent entries name where
    "path_file_name path = Some file_name" "path_parent path = Some parent" "list_dir parent = Some entries"
    "up_resolved_path m = path_join parent name" "only_spelling entries file_name name"
proof -
  from assms obtain file_name parent entries name where p:
    "path_file_name path = Some file_name" "path_parent path = Some parent" "list_dir parent = Some entries"
    "scan_entries file_name (normalize_filename file_name) entries = Some [name]" "up_resolved_path m = path_join parent name"
    by (auto simp: try_resolve_unicode_filename_def try_resolve_unicode_filename_inner_def Let_def bind_eq_Some_conv
        split: if_splits option.splits list.splits)
  note ms = scan_entries_Some(1) [OF p(4)] and other = scan_entries_Some(2) [OF p(4)]
  have name: "e = name" if "e \<in> set entries" "utf8_valid e" "normalize_filename e = normalize_filename file_name" for e
  proof -
    have "e \<in> set [name]" unfolding ms using that by simp
    then show ?thesis by simp
  qed
  have "name \<in> set (filter (\<lambda>e. utf8_valid e \<and> normalize_filename e = normalize_filename file_name) entries)"
    unfolding ms [symmetric] by simp
  then have "only_spelling entries file_name name"
    using name other by (auto simp: only_spelling_def list_all_iff)
  with p that show thesis by blast
qed

section \<open>The hints\<close>

lemma similar_loop_cases:
  "similar_loop lower parent base stem found (e # es) = similar_loop lower parent base stem found es
   \<or> similar_loop lower parent base stem found (e # es) =
       path_join parent e # (if MAX_SIMILAR \<le> found + 1 then [] else similar_loop lower parent base stem (found + 1) es)"
  by (simp add: Let_def)

lemma similar_loop_bounds:
  "found < MAX_SIMILAR \<Longrightarrow> length (similar_loop lower parent base stem found entries) + found \<le> MAX_SIMILAR
   \<and> set (similar_loop lower parent base stem found entries) \<subseteq> path_join parent ` set entries"
proof (induction entries arbitrary: found)
  case (Cons e es)
  from similar_loop_cases [of lower parent base stem found e es] show ?case
  proof
    assume "similar_loop lower parent base stem found (e # es) = similar_loop lower parent base stem found es"
    with Cons.IH [OF Cons.prems] show ?thesis by (simp only:) auto
  next
    assume "similar_loop lower parent base stem found (e # es) =
       path_join parent e # (if MAX_SIMILAR \<le> found + 1 then [] else similar_loop lower parent base stem (found + 1) es)"
    with Cons.IH [of "found + 1"] Cons.prems show ?thesis by (simp only:) (auto split: if_splits)
  qed
qed simp

lemma similar_entries_bounded: "length (find_similar_entries lower list_dir path) \<le> MAX_SIMILAR"
proof -
  have "(0::nat) < MAX_SIMILAR" by (simp add: MAX_SIMILAR_def)
  then have "length (similar_loop lower parent base stem 0 entries) \<le> MAX_SIMILAR" for parent base stem entries
    using similar_loop_bounds [of 0 lower parent base stem entries] by simp
  then show ?thesis by (simp add: find_similar_entries_def split: option.splits)
qed

lemma components_prefix:
  assumes "\<not> is_absolute q"
  shows "prefix (components p) (components (path_join p q))"
proof (cases "p = []")
  case True
  then show ?thesis by (simp add: components_def is_absolute_def map_filter_simps component_of_def path_join_def)
next
  case False
  obtain r where r: "path_join p q = r @ CHR ''/'' # q" "p = r \<or> p = r @ ''/''"
  proof (cases "last p = CHR ''/''")
    case True
    with False have "p = butlast p @ ''/''" by (metis append_butlast_last_id)
    with True False assms show thesis
      by (intro that [of "butlast p"]) (auto simp: path_join_def append_butlast_last_id)
  next
    case last: False
    with False assms show thesis by (intro that [of p]) (auto simp: path_join_def)
  qed
  have mf: "List.map_filter component_of (split_char CHR ''/'' (r @ ''/'')) = List.map_filter component_of (split_char CHR ''/'' r)"
    using split_char_app [of "CHR ''/''" r "[]"]
    by (simp add: map_filter_def component_of_def)
  have hd: "hd (split_char CHR ''/'' (r @ CHR ''/'' # t)) = hd (split_char CHR ''/'' r)" for t
    by (simp add: split_char_app split_char_not_Nil)
  have abs: "is_absolute (path_join p q) = is_absolute p" "hd (split_char CHR ''/'' (path_join p q)) = hd (split_char CHR ''/'' p)"
    using r False hd [of q] hd [of "[]"] by (cases r; auto simp: is_absolute_def)+
  have "List.map_filter component_of (split_char CHR ''/'' (path_join p q)) =
      List.map_filter component_of (split_char CHR ''/'' p) @ List.map_filter component_of (split_char CHR ''/'' q)"
    using r mf by (auto simp: split_char_app map_filter_def)
  with abs show ?thesis by (simp add: components_def Let_def)
qed

lemma skip_segments_relative: "\<not> is_absolute (join ''/'' (skip_segments n segs))" if "list_all (\<lambda>s. CHR ''/'' \<notin> set s) segs"
  using that
proof (induction n segs rule: skip_segments.induct)
  case (2 n s segs)
  show ?case
  proof (cases "component_of s = None")
    case False
    then obtain c t where "s = c # t" "c \<noteq> CHR ''/''" using 2 by (cases s) (auto simp: component_of_def)
    then have "\<not> is_absolute (join ''/'' (s # segs))" by (cases segs) (auto simp: is_absolute_def)
    with False 2 show ?thesis by (auto split: nat.splits)
  qed (use 2 in auto)
qed (simp add: is_absolute_def)

lemma as_path_relative: "\<not> is_absolute p \<Longrightarrow> \<not> is_absolute (as_path p)"
proof (induction p rule: as_path.induct)
  case (1 p)
  have "\<not> is_absolute (butlast p)" using 1(3) by (cases p rule: rev_cases) (auto simp: is_absolute_def starts_with_def)
  with 1 show ?case by (subst as_path.simps) auto
qed

lemma strip_prefix_relative:
  assumes "path_strip_prefix p base = Some rel" "components base \<noteq> []"
  shows "\<not> is_absolute rel"
proof -
  have "list_all (\<lambda>s. CHR ''/'' \<notin> set s) (split_char CHR ''/'' p)"
    using split_char_parts by (auto simp: list_all_iff)
  from as_path_relative [OF skip_segments_relative [OF this]] assms show ?thesis
    by (auto simp: path_strip_prefix_def split: if_splits)
qed

lemma as_path_absolute: "is_absolute p \<Longrightarrow> is_absolute (as_path p)"
proof (induction p rule: as_path.induct)
  case (1 p)
  have "is_absolute (butlast p)" if "\<not> length p \<le> 1"
    using 1(3) that by (cases p; cases "tl p") (auto simp: is_absolute_def)
  with 1 show ?case by (subst as_path.simps) auto
qed

lemma absolute_components: "is_absolute p \<Longrightarrow> components p \<noteq> []"
  by (simp add: components_def Let_def)

lemma parent_absolute:
  assumes "is_absolute p" "path_parent p = Some q"
  shows "is_absolute q"
proof -
  let ?t = "as_path p"
  have t: "is_absolute ?t" "?t \<noteq> ''/''" using assms as_path_absolute by (auto simp: path_parent_def Let_def split: if_splits)
  then obtain u where u: "?t = CHR ''/'' # u" by (cases ?t) (auto simp: is_absolute_def)
  have "CHR ''/'' \<notin> set (last_segment ?t)" by (auto simp: last_segment_def dest: set_takeWhileD)
  moreover have "length (last_segment ?t) \<le> length ?t"
    unfolding last_segment_def by (metis length_rev length_takeWhile_le)
  moreover have "suffix (last_segment ?t) ?t"
    by (metis last_segment_def rev_is_rev_conv rev_rev_ident suffix_to_prefix takeWhile_is_prefix)
  ultimately have "length (last_segment ?t) < length ?t"
    using u by (metis le_neq_implies_less list.set_intros(1) suffix_length_le suffix_order.dual_order.antisym
        suffix_def append_eq_append_conv append_Nil)
  with u have "is_absolute (take (length ?t - length (last_segment ?t)) ?t)"
    by (cases "length ?t - length (last_segment ?t)") (auto simp: is_absolute_def)
  with assms(2) show ?thesis by (auto simp: path_parent_def Let_def as_path_absolute split: if_splits)
qed

section \<open>Properties\<close>

text \<open>
  The path that a hint suggests lies in the directory that the model sees: it is the displayed
  working directory joined with a relative path, so no internal path is shown.
\<close>

theorem suggestion_in_display_space:
  assumes "is_absolute cwd"
    and "ph_suggestion (path_not_found_hint_of lower exists_path list_dir timed_out path cwd display_cwd) = Some s"
  shows "\<exists>rel. \<not> is_absolute rel \<and> s = path_join display_cwd rel"
proof -
  from assms(2) obtain corrected where c: "try_suggest_under_cwd exists_path path cwd = Some corrected"
    "s = (case path_strip_prefix corrected cwd of Some rel \<Rightarrow> path_join display_cwd rel | None \<Rightarrow> corrected)"
    by (auto simp: path_not_found_hint_of_def collect_hints_def split: if_splits option.splits)
  from c(1) obtain cwd_parent rel where rel: "path_parent cwd = Some cwd_parent"
    "path_strip_prefix path cwd_parent = Some rel" "corrected = path_join cwd rel"
    by (auto simp: try_suggest_under_cwd_def split: if_splits option.splits)
  have "\<not> is_absolute rel"
    using strip_prefix_relative [OF rel(2)] absolute_components parent_absolute [OF assms(1) rel(1)] by blast
  then have "path_starts_with corrected cwd" unfolding rel(3) path_starts_with_def by (rule components_prefix)
  then have "path_strip_prefix corrected cwd \<noteq> None" by (simp add: path_strip_prefix_def)
  then obtain q where q: "path_strip_prefix corrected cwd = Some q" by blast
  from strip_prefix_relative [OF q absolute_components [OF assms(1)]] c(2) q show ?thesis by auto
qed

theorem suggestion_in_display_space_witness:
  "\<exists>rel. \<not> is_absolute rel \<and> ''/work/a.rs'' = path_join ''/work'' rel"
proof -
  have "ph_suggestion (path_not_found_hint_of id (\<lambda>p. p = ''/t/repo/a.rs'') (\<lambda>_. None) False ''/t/a.rs'' ''/t/repo'' ''/work'')
      = Some ''/work/a.rs''" by code_simp
  moreover have "is_absolute ''/t/repo''" by code_simp
  ultimately show ?thesis by (intro suggestion_in_display_space)
qed

text \<open>
  C29. The file that a run of \<open>search_replace\<close> works on is the one that was named: the resolved path, its
  canonical form, or, when that does not exist, the only entry of its directory whose name
  differs from it in no-break spaces alone.
\<close>

theorem edited_file_is_named:
  assumes "sw_confusable w = (\<lambda>p. map_option up_resolved_path (try_resolve_unicode_filename timed_out list_dir p))"
    and "joined = resolve_model_path (sw_tilde w) (sw_cwd w) (sw_display_cwd w) file_path"
  shows "find_path w file_path = joined \<or> sw_canonical w joined = Inr (find_path w file_path)
    \<or> (\<exists>e file_name parent entries name. sw_canonical w joined = Inl e \<and> io_kind_of e = Io_NotFound
        \<and> path_file_name joined = Some file_name \<and> path_parent joined = Some parent \<and> list_dir parent = Some entries
        \<and> only_spelling entries file_name name \<and> find_path w file_path = path_join parent name)"
proof (cases "sw_canonical w joined")
  case (Inr path)
  then show ?thesis by (simp add: find_path_def assms(2))
next
  case (Inl e)
  show ?thesis
  proof (cases "io_kind_of e = Io_NotFound \<and> try_resolve_unicode_filename timed_out list_dir joined \<noteq> None")
    case True
    then obtain m where m: "try_resolve_unicode_filename timed_out list_dir joined = Some m" by blast
    have "find_path w file_path = up_resolved_path m"
      using True Inl m by (simp add: find_path_def assms(1) assms(2) [symmetric] unwrap_or_def)
    with fallback_sound [OF m] True Inl show ?thesis by metis
  next
    case False
    then have "find_path w file_path = joined"
      using Inl by (auto simp: find_path_def assms(1) assms(2) [symmetric] unwrap_or_def)
    then show ?thesis ..
  qed
qed

text \<open>A directory with a screenshot whose name has a narrow no-break space.\<close>

definition sample_directory :: "string \<Rightarrow> string list option" where
  "sample_directory d = (if d = ''/r'' then Some [''b'', ''a'' @ [CHR 0xE2, CHR 0x80, CHR 0xAF] @ ''b''] else None)"

definition sample_missing :: search_world where
  "sample_missing = (sample_search False [])\<lparr>
     sw_canonical := (\<lambda>_. Inl \<lparr>io_kind_of = Io_NotFound, io_text = []\<rparr>),
     sw_confusable := (\<lambda>p. map_option up_resolved_path (try_resolve_unicode_filename False sample_directory p))\<rparr>"

theorem edited_file_is_named_witness:
  "find_path sample_missing ''a b'' = ''/r/a'' @ [CHR 0xE2, CHR 0x80, CHR 0xAF] @ ''b''
   \<and> (\<exists>name. only_spelling [''b'', ''a'' @ [CHR 0xE2, CHR 0x80, CHR 0xAF] @ ''b''] ''a b'' name)"
proof -
  have r: "resolve_model_path id ''/r'' None ''a b'' = ''/r/a b''" by code_simp
  have d: "path_file_name ''/r/a b'' = Some ''a b''" "path_parent ''/r/a b'' = Some ''/r''"
    "sample_directory ''/r'' = Some [''b'', ''a'' @ [CHR 0xE2, CHR 0x80, CHR 0xAF] @ ''b'']" by code_simp+
  have "scan_entries ''a b'' (normalize_filename ''a b'') [''b'', ''a'' @ [CHR 0xE2, CHR 0x80, CHR 0xAF] @ ''b'']
      = Some [''a'' @ [CHR 0xE2, CHR 0x80, CHR 0xAF] @ ''b'']"
    "path_join ''/r'' (''a'' @ [CHR 0xE2, CHR 0x80, CHR 0xAF] @ ''b'') = ''/r/a'' @ [CHR 0xE2, CHR 0x80, CHR 0xAF] @ ''b''"
    by code_simp+
  then have u: "map_option up_resolved_path (try_resolve_unicode_filename False sample_directory ''/r/a b'')
      = Some (''/r/a'' @ [CHR 0xE2, CHR 0x80, CHR 0xAF] @ ''b'')"
    unfolding try_resolve_unicode_filename_def try_resolve_unicode_filename_inner_def d Let_def
    by (simp only: d if_False option.case prod.case bind.bind_lunit list.case option.map unicode_path_match.simps)
  have f: "find_path sample_missing ''a b'' = ''/r/a'' @ [CHR 0xE2, CHR 0x80, CHR 0xAF] @ ''b''"
    unfolding find_path_def sample_missing_def sample_search_def search_world.simps search_world.update_convs r u Let_def
    by (simp add: unwrap_or_def)
  have w: "sw_confusable sample_missing = (\<lambda>p. map_option up_resolved_path (try_resolve_unicode_filename False sample_directory p))"
    "''/r/a b'' = resolve_model_path (sw_tilde sample_missing) (sw_cwd sample_missing) (sw_display_cwd sample_missing) ''a b''"
    "sw_canonical sample_missing p = Inl \<lparr>io_kind_of = Io_NotFound, io_text = []\<rparr>" for p
    by (simp_all add: sample_missing_def sample_search_def r)
  have "''/r/a'' @ [CHR 0xE2, CHR 0x80, CHR 0xAF] @ ''b'' \<noteq> ''/r/a b''" by simp
  then obtain file_name parent entries name where n: "path_file_name ''/r/a b'' = Some file_name"
    "path_parent ''/r/a b'' = Some parent" "sample_directory parent = Some entries" "only_spelling entries file_name name"
    using edited_file_is_named [OF w(1,2)] unfolding f w(3) by blast
  have "file_name = ''a b''" "parent = ''/r''" using n(1,2) unfolding d option.inject by simp_all
  then have "entries = [''b'', ''a'' @ [CHR 0xE2, CHR 0x80, CHR 0xAF] @ ''b'']"
    using n(3) by (simp only: d option.inject)
  with n(4) \<open>file_name = ''a b''\<close>
  have "\<exists>name. only_spelling [''b'', ''a'' @ [CHR 0xE2, CHR 0x80, CHR 0xAF] @ ''b''] ''a b'' name" by blast
  with f show ?thesis by blast
qed

end
