(* ===== verification/Child_Env.thy ===== *)
theory Child_Env
  imports Line_Anchors
begin

text \<open>
  The environment of the commands that the agent runs: the policy on inherited variables
  (\<open>gbuild-tools/src/util/shell_env_policy.rs\<close>), the capture of the login shell's variables and the
  layers of a child's environment (\<open>gbuild-tools/src/computer/local/terminal.rs\<close>), on Unix. A
  \<open>HashMap\<close> that is given is a list of pairs with different names; the environment of the child is a
  map. Matching a name with a wildcard pattern is the function \<open>wild\<close> (the crate \<open>wildmatch\<close>).
\<close>

section \<open>The policy\<close>

datatype env_inherit = Inherit_Core | Inherit_All | Inherit_None

record env_policy =
  ep_inherit :: env_inherit
  ep_ignore_default_excludes :: bool
  ep_exclude :: "string list"
  ep_set :: "(string \<times> string) list"
  ep_include_only :: "string list"

definition env_policy_default :: env_policy where
  "env_policy_default =
     \<lparr>ep_inherit = Inherit_All, ep_ignore_default_excludes = True, ep_exclude = [], ep_set = [], ep_include_only = []\<rparr>"

definition is_noop :: "env_policy \<Rightarrow> bool" where
  "is_noop p \<longleftrightarrow>
     ep_inherit p = Inherit_All \<and> ep_ignore_default_excludes p \<and> ep_exclude p = [] \<and> ep_set p = []
     \<and> ep_include_only p = []"

definition DEFAULT_SECRET_EXCLUDES :: "string list" where
  "DEFAULT_SECRET_EXCLUDES = [''*KEY*'', ''*SECRET*'', ''*TOKEN*'']"

definition CORE_ENV_VARS :: "string list" where
  "CORE_ENV_VARS =
     [''PATH'', ''SHELL'', ''TMPDIR'', ''TEMP'', ''TMP'', ''HOME'', ''LANG'', ''LC_ALL'', ''LC_CTYPE'', ''LOGNAME'',
      ''USER'']"

definition eq_ignore_ascii_case :: "string \<Rightarrow> string \<Rightarrow> bool" where
  "eq_ignore_ascii_case a b \<longleftrightarrow> map ascii_lower a = map ascii_lower b"

definition core_env_var :: "string \<Rightarrow> bool" where
  "core_env_var name \<longleftrightarrow> list_ex (\<lambda>core. eq_ignore_ascii_case core name) CORE_ENV_VARS"

type_synonym wildcard = "string \<Rightarrow> string \<Rightarrow> bool"

definition matches_default_exclude :: "wildcard \<Rightarrow> env_policy \<Rightarrow> string \<Rightarrow> bool" where
  "matches_default_exclude wild p name \<longleftrightarrow>
     \<not> ep_ignore_default_excludes p \<and> list_ex (\<lambda>pat. wild pat name) DEFAULT_SECRET_EXCLUDES"

definition matches_exclude :: "wildcard \<Rightarrow> env_policy \<Rightarrow> string \<Rightarrow> bool" where
  "matches_exclude wild p name \<longleftrightarrow> list_ex (\<lambda>pat. wild pat name) (ep_exclude p)"

definition matches_include_only :: "wildcard \<Rightarrow> env_policy \<Rightarrow> string \<Rightarrow> bool" where
  "matches_include_only wild p name \<longleftrightarrow>
     ep_include_only p = [] \<or> list_ex (\<lambda>pat. wild pat name) (ep_include_only p)"

definition env_allows :: "wildcard \<Rightarrow> env_policy \<Rightarrow> string \<Rightarrow> bool" where
  "env_allows wild p name \<longleftrightarrow>
     \<not> matches_default_exclude wild p name \<and> \<not> matches_exclude wild p name \<and> matches_include_only wild p name"

definition allows_with_inherit :: "wildcard \<Rightarrow> env_policy \<Rightarrow> string \<Rightarrow> bool" where
  "allows_with_inherit wild p name \<longleftrightarrow>
     (case ep_inherit p of
        Inherit_None \<Rightarrow> False
      | Inherit_Core \<Rightarrow> core_env_var name \<and> env_allows wild p name
      | Inherit_All \<Rightarrow> env_allows wild p name)"

type_synonym child_env = "string \<rightharpoonup> string"

text \<open>\<open>iter.collect()\<close> into a map, where the last value of a name stays, \<open>env.retain\<close> and a loop of inserts.\<close>

definition collect_env :: "(string \<times> string) list \<Rightarrow> child_env" where
  "collect_env vars = foldl (\<lambda>m (k, v). m(k \<mapsto> v)) Map.empty vars"

definition retain_env :: "(string \<Rightarrow> bool) \<Rightarrow> child_env \<Rightarrow> child_env" where
  "retain_env keep m = (\<lambda>k. if keep k then m k else None)"

definition insert_envs :: "(string \<times> string) list \<Rightarrow> child_env \<Rightarrow> child_env" where
  "insert_envs kvs m = foldl (\<lambda>m (k, v). m(k \<mapsto> v)) m kvs"

definition create_env_from_vars :: "wildcard \<Rightarrow> (string \<times> string) list \<Rightarrow> env_policy \<Rightarrow> child_env" where
  "create_env_from_vars wild vars p =
     (let env = (case ep_inherit p of
                   Inherit_All \<Rightarrow> collect_env vars
                 | Inherit_None \<Rightarrow> Map.empty
                 | Inherit_Core \<Rightarrow> collect_env (filter (\<lambda>(k, _). core_env_var k) vars));
          env = retain_env (\<lambda>k. \<not> matches_default_exclude wild p k) env;
          env = retain_env (\<lambda>k. \<not> matches_exclude wild p k) env;
          env = insert_envs (ep_set p) env
      in retain_env (matches_include_only wild p) env)"

text \<open>The variables of the process are byte strings; those that are not UTF-8 are skipped.\<close>

definition create_env :: "wildcard \<Rightarrow> (string \<times> string) list \<Rightarrow> env_policy \<Rightarrow> child_env" where
  "create_env wild vars_os p =
     create_env_from_vars wild (filter (\<lambda>(k, v). utf8_valid k \<and> utf8_valid v) vars_os) p"

section \<open>The login shell\<close>

definition login_env_capture_enabled :: "(string \<times> string) list \<Rightarrow> bool" where
  "login_env_capture_enabled vars_os \<longleftrightarrow>
     (case collect_env vars_os ''GBUILD_LOGIN_ENV'' of Some v \<Rightarrow> v \<noteq> ''0'' \<and> v \<noteq> ''false'' | None \<Rightarrow> True)"

definition LOGIN_ENV_EXCLUDED :: "string list" where
  "LOGIN_ENV_EXCLUDED =
     [''PWD'', ''OLDPWD'', ''SHLVL'', ''_'', ''TERM'', ''GBUILD_AGENT'', ''SUDO_ASKPASS'', ''GBUILD_ASKPASS'',
      ''ELECTRON_RUN_AS_NODE'', ''SSH_AUTH_SOCK'', ''DBUS_SESSION_BUS_ADDRESS'', ''XDG_RUNTIME_DIR'',
      ''WAYLAND_DISPLAY'', ''GPG_TTY'']"

definition login_env_var_excluded :: "string \<Rightarrow> bool" where
  "login_env_var_excluded key \<longleftrightarrow>
     key \<in> set LOGIN_ENV_EXCLUDED \<or> ends_with (map ascii_lower key) ''_proxy'' \<or> starts_with key ''GBUILD_SANDBOX''"

abbreviation soh :: char where "soh \<equiv> CHR 0x01"

definition captured_pair :: "string \<Rightarrow> (string \<times> string) option" where
  "captured_pair pair =
     (case split_once_char CHR ''='' pair of
        Some (key, val) \<Rightarrow>
          if key \<noteq> [] \<and> key \<noteq> ''PATH'' \<and> \<not> login_env_var_excluded key then Some (key, val) else None
      | None \<Rightarrow> None)"

definition parse_login_env_capture :: "string \<Rightarrow> string option \<times> child_env" where
  "parse_login_env_capture stdout =
     (let parts = split_char soh stdout
      in (case nth_opt parts 1 of
            Some p \<Rightarrow> if trim p = [] then None else Some (trim p)
          | None \<Rightarrow> None,
          case nth_opt parts 2 of
            Some blob \<Rightarrow> collect_env (List.map_filter captured_pair (split_char nul blob))
          | None \<Rightarrow> Map.empty))"

text \<open>The loop that keeps the first of equal entries and no empty one.\<close>

fun merge_path_entries :: "string list \<Rightarrow> string list \<Rightarrow> string list" where
  "merge_path_entries seen [] = []"
| "merge_path_entries seen (e # es) =
     (if e = [] \<or> e \<in> set seen then merge_path_entries seen es else e # merge_path_entries (e # seen) es)"

definition merged_path :: "string \<Rightarrow> string \<Rightarrow> string" where
  "merged_path login_path current_path =
     join '':'' (merge_path_entries [] (split_char CHR '':'' login_path @ split_char CHR '':'' current_path))"

text \<open>What \<open>capture_login_env\<close> makes of the output of a shell that succeeded.\<close>

definition captured_env :: "(string \<times> string) list \<Rightarrow> string \<Rightarrow> child_env" where
  "captured_env vars_os stdout =
     (case parse_login_env_capture stdout of
        (None, _) \<Rightarrow> Map.empty
      | (Some login_path, env_map) \<Rightarrow>
          (if login_env_capture_enabled vars_os then env_map else Map.empty)
          (''PATH'' \<mapsto> merged_path login_path (case collect_env vars_os ''PATH'' of Some p \<Rightarrow> if utf8_valid p then p else [] | None \<Rightarrow> [])))"

section \<open>The layers\<close>

definition shell_env_overrides :: "(string \<times> string) list" where
  "shell_env_overrides =
     [(''TERM'', ''dumb''), (''NO_COLOR'', ''1''), (''FORCE_COLOR'', ''0''), (''GBUILD_AGENT'', ''1'')]"

definition pager_env :: "(string \<times> string) list" where
  "pager_env =
     [(''PAGER'', ''cat''), (''GIT_PAGER'', ''cat''), (''GH_PAGER'', ''cat''), (''MANPAGER'', ''cat''), (''AWS_PAGER'', []),
      (''SYSTEMD_PAGER'', ''cat''), (''GIT_EDITOR'', ''true''), (''GIT_SEQUENCE_EDITOR'', ''true''),
      (''GIT_TERMINAL_PROMPT'', ''0''), (''GPG_TTY'', [])]"

definition policy_admits :: "(string \<Rightarrow> bool) option \<Rightarrow> string \<Rightarrow> bool" where
  "policy_admits f name \<longleftrightarrow> (case f of Some admits \<Rightarrow> admits name | None \<Rightarrow> True)"

definition install_policy_base_env ::
  "wildcard \<Rightarrow> (string \<times> string) list \<Rightarrow> env_policy option \<Rightarrow> child_env \<Rightarrow> child_env" where
  "install_policy_base_env wild vars_os active cmd =
     (case active of Some p \<Rightarrow> create_env wild vars_os p | None \<Rightarrow> cmd)"

definition layer_login_env_vars ::
  "wildcard \<Rightarrow> (string \<times> string) list \<Rightarrow> (string \<times> string) list option \<Rightarrow> env_policy option \<Rightarrow> child_env \<Rightarrow> child_env" where
  "layer_login_env_vars wild vars_os login_env active cmd =
     (case login_env of
        None \<Rightarrow> cmd
      | Some login \<Rightarrow>
          foldl (\<lambda>cmd (key, val).
             if key \<noteq> ''PATH'' \<and> collect_env vars_os key = None
                \<and> policy_admits (map_option (allows_with_inherit wild) active) key
             then cmd(key \<mapsto> val) else cmd) cmd login)"

definition layer_request_env ::
  "wildcard \<Rightarrow> (string \<times> string) list \<Rightarrow> env_policy option \<Rightarrow> child_env \<Rightarrow> child_env" where
  "layer_request_env wild env active cmd =
     foldl (\<lambda>cmd (key, val).
        if policy_admits (map_option (env_allows wild) active) key then cmd(key \<mapsto> val) else cmd) cmd env"

definition layer_login_path ::
  "wildcard \<Rightarrow> (string \<times> string) list option \<Rightarrow> env_policy option \<Rightarrow> child_env \<Rightarrow> child_env" where
  "layer_login_path wild login_env active cmd =
     (case Option.bind login_env (\<lambda>l. map_of l ''PATH'') of
        Some path \<Rightarrow>
          if policy_admits (map_option (allows_with_inherit wild) active) ''PATH'' then cmd(''PATH'' \<mapsto> path) else cmd
      | None \<Rightarrow> cmd)"

definition apply_gbuild_agent_marker :: "child_env \<Rightarrow> child_env" where
  "apply_gbuild_agent_marker cmd = cmd(''GBUILD_AGENT'' \<mapsto> ''1'')"

text \<open>A command starts with the environment of the process.\<close>

definition apply_child_env ::
  "wildcard \<Rightarrow> (string \<times> string) list \<Rightarrow> env_policy option \<Rightarrow> (string \<times> string) list option
   \<Rightarrow> (string \<times> string) list \<Rightarrow> child_env" where
  "apply_child_env wild vars_os policy login_env request_env =
     (let active = (case policy of Some p \<Rightarrow> if is_noop p then None else Some p | None \<Rightarrow> None);
          cmd = install_policy_base_env wild vars_os active (collect_env vars_os);
          cmd = layer_login_env_vars wild vars_os login_env active cmd;
          cmd = insert_envs shell_env_overrides cmd;
          cmd = layer_request_env wild request_env active cmd;
          cmd = insert_envs pager_env cmd;
          cmd = layer_login_path wild login_env active cmd
      in apply_gbuild_agent_marker cmd)"

section \<open>Maps\<close>

lemma foldl_env: "foldl (\<lambda>m (k, v). m(k \<mapsto> v)) m kvs = m ++ map_of (rev kvs)"
  by (induction kvs arbitrary: m) auto

lemma foldl_env_if:
  "foldl (\<lambda>m (k, v). if P k then m(k \<mapsto> v) else m) m kvs = m ++ map_of (rev (filter (\<lambda>(k, _). P k) kvs))"
  by (induction kvs arbitrary: m) auto

lemma collect_env_map: "collect_env vars = map_of (rev vars)"
  by (simp add: collect_env_def foldl_env)

lemma insert_envs_map: "insert_envs kvs m = m ++ map_of (rev kvs)"
  by (simp add: insert_envs_def foldl_env)

lemma map_of_rev_filter: "map_of (rev (filter (\<lambda>(k, _). P k) kvs)) k = (if P k then map_of (rev kvs) k else None)"
  by (induction kvs) (auto simp: map_add_def split: option.splits)

section \<open>What the policy admits\<close>

lemma create_env_at:
  "create_env_from_vars wild vars p k =
     (if matches_include_only wild p k then
        case map_of (rev (ep_set p)) k of
          Some v \<Rightarrow> Some v
        | None \<Rightarrow>
            if \<not> matches_default_exclude wild p k \<and> \<not> matches_exclude wild p k
               \<and> (ep_inherit p = Inherit_All \<or> ep_inherit p = Inherit_Core \<and> core_env_var k)
            then map_of (rev vars) k else None
      else None)"
  by (cases "ep_inherit p")
    (auto simp: create_env_from_vars_def Let_def retain_env_def insert_envs_map collect_env_map map_of_rev_filter
      map_add_def split: option.splits)

lemma create_env_unset:
  assumes "k \<notin> fst ` set (ep_set p)"
  shows "create_env_from_vars wild vars p k = (if allows_with_inherit wild p k then collect_env vars k else None)"
proof -
  have "map_of (rev (ep_set p)) k = None" using assms by (simp add: map_of_eq_None_iff)
  then show ?thesis
    by (cases "ep_inherit p") (auto simp: create_env_at allows_with_inherit_def env_allows_def collect_env_map)
qed

definition inherits :: "wildcard \<Rightarrow> env_policy option \<Rightarrow> string \<Rightarrow> bool" where
  "inherits wild active = policy_admits (map_option (allows_with_inherit wild) active)"

definition accepts :: "wildcard \<Rightarrow> env_policy option \<Rightarrow> string \<Rightarrow> bool" where
  "accepts wild active = policy_admits (map_option (env_allows wild) active)"

definition active_policy :: "env_policy option \<Rightarrow> env_policy option" where
  "active_policy policy = (case policy of Some p \<Rightarrow> if is_noop p then None else Some p | None \<Rightarrow> None)"

text \<open>The value of a name, layer by layer from the last one.\<close>

definition child_value ::
  "wildcard \<Rightarrow> (string \<times> string) list \<Rightarrow> env_policy option \<Rightarrow> (string \<times> string) list
   \<Rightarrow> (string \<times> string) list \<Rightarrow> string \<Rightarrow> string option" where
  "child_value wild vars_os active login request k =
     (if k = ''GBUILD_AGENT'' then Some ''1''
      else if k = ''PATH'' \<and> map_of login k \<noteq> None \<and> inherits wild active k then map_of login k
      else if map_of pager_env k \<noteq> None then map_of pager_env k
      else if accepts wild active k \<and> map_of (rev request) k \<noteq> None then map_of (rev request) k
      else if map_of shell_env_overrides k \<noteq> None then map_of shell_env_overrides k
      else if k \<noteq> ''PATH'' \<and> collect_env vars_os k = None \<and> inherits wild active k \<and> map_of (rev login) k \<noteq> None
        then map_of (rev login) k
      else (case active of Some p \<Rightarrow> create_env wild vars_os p k | None \<Rightarrow> collect_env vars_os k))"

lemma map_of_rev_distinct: "distinct (map fst kvs) \<Longrightarrow> map_of (rev kvs) = map_of kvs"
  by (simp add: map_of_inject_set rev_map [symmetric])

lemma control_maps:
  "map_of (rev shell_env_overrides) = map_of shell_env_overrides" "map_of (rev pager_env) = map_of pager_env"
  by (rule map_of_rev_distinct; code_simp)+

lemma login_layer_at:
  "layer_login_env_vars wild vars_os login_env active cmd k =
     (if k \<noteq> ''PATH'' \<and> collect_env vars_os k = None \<and> inherits wild active k
         \<and> map_of (rev (case login_env of Some l \<Rightarrow> l | None \<Rightarrow> [])) k \<noteq> None
      then map_of (rev (case login_env of Some l \<Rightarrow> l | None \<Rightarrow> [])) k else cmd k)"
  by (auto simp: layer_login_env_vars_def inherits_def foldl_env_if map_of_rev_filter map_add_def split: option.splits)

lemma request_layer_at:
  "layer_request_env wild request active cmd k =
     (if accepts wild active k \<and> map_of (rev request) k \<noteq> None then map_of (rev request) k else cmd k)"
  by (auto simp: layer_request_env_def accepts_def foldl_env_if map_of_rev_filter map_add_def split: option.splits)

lemma path_layer_at:
  "layer_login_path wild login_env active cmd k =
     (if k = ''PATH'' \<and> map_of (case login_env of Some l \<Rightarrow> l | None \<Rightarrow> []) k \<noteq> None \<and> inherits wild active k
      then map_of (case login_env of Some l \<Rightarrow> l | None \<Rightarrow> []) k else cmd k)"
  by (auto simp: layer_login_path_def inherits_def bind_eq_Some_conv split: option.splits)

lemma insert_at: "insert_envs kvs m k = (if map_of (rev kvs) k \<noteq> None then map_of (rev kvs) k else m k)"
  by (auto simp: insert_envs_map map_add_def split: option.splits)

lemma base_at:
  "install_policy_base_env wild vars_os active cmd k =
     (case active of Some p \<Rightarrow> create_env wild vars_os p k | None \<Rightarrow> cmd k)"
  by (simp add: install_policy_base_env_def split: option.splits)

lemma apply_child_env_value:
  "apply_child_env wild vars_os policy login_env request k =
     child_value wild vars_os (active_policy policy) (case login_env of Some l \<Rightarrow> l | None \<Rightarrow> []) request k"
proof (cases "k = ''GBUILD_AGENT''")
  case False
  then show ?thesis
    unfolding apply_child_env_def active_policy_def [symmetric] Let_def apply_gbuild_agent_marker_def child_value_def
    by (simp only: fun_upd_apply path_layer_at insert_at request_layer_at login_layer_at base_at control_maps if_False)
qed (simp add: apply_child_env_def apply_gbuild_agent_marker_def child_value_def Let_def)

text \<open>
  The agent's marker always stands; the other control variables do not: the request's environment
  is layered on top of them.
\<close>

lemma agent_marker_stands: "apply_child_env wild vars_os policy login_env request ''GBUILD_AGENT'' = Some ''1''"
  by (simp add: apply_child_env_value child_value_def)

lemma request_overrides_control:
  "apply_child_env wild vars_os None None [(''TERM'', ''xterm'')] ''TERM'' = Some ''xterm''"
  by (simp add: apply_child_env_value child_value_def active_policy_def accepts_def policy_admits_def pager_env_def)

section \<open>The capture\<close>

text \<open>The output of the capture script for a list of variables.\<close>

definition capture_output :: "string \<Rightarrow> string \<Rightarrow> (string \<times> string) list \<Rightarrow> string" where
  "capture_output noise path vars =
     noise @ [soh] @ path @ [soh] @ concat (map (\<lambda>(k, v). k @ ''='' @ v @ [nul]) vars) @ [soh]"

definition capturable :: "string \<times> string \<Rightarrow> bool" where
  "capturable kv \<longleftrightarrow>
     {soh, nul, CHR ''=''} \<inter> set (fst kv) = {} \<and> {soh, nul} \<inter> set (snd kv) = {}"

lemma split_variables:
  assumes "list_all capturable vars"
  shows "split_char nul (concat (map (\<lambda>(k, v). k @ ''='' @ v @ [nul]) vars)) = map (\<lambda>(k, v). k @ ''='' @ v) vars @ [[]]"
  using assms
proof (induction vars)
  case (Cons kv vars)
  obtain k v where kv: "kv = (k, v)" by fastforce
  have "nul \<notin> set (k @ ''='' @ v)" using Cons.prems kv by (auto simp: capturable_def)
  from split_char_append [OF this] Cons kv show ?case by simp
qed simp

text \<open>The variables that the capture keeps are read back as the login shell has them.\<close>

lemma capture_roundtrip:
  assumes "list_all capturable vars" "soh \<notin> set noise" "soh \<notin> set path" "trim path \<noteq> []"
  shows "parse_login_env_capture (capture_output noise path vars) =
    (Some (trim path),
     collect_env (filter (\<lambda>(k, v). k \<noteq> [] \<and> k \<noteq> ''PATH'' \<and> \<not> login_env_var_excluded k) vars))"
proof -
  let ?blob = "concat (map (\<lambda>(k, v). k @ ''='' @ v @ [nul]) vars)"
  have "soh \<notin> set ?blob" using assms(1) by (fastforce simp: capturable_def list_all_iff)
  then have parts: "split_char soh (capture_output noise path vars) = [noise, path, ?blob, []]"
    using split_char_append [OF assms(2)] split_char_append [OF assms(3)] split_char_append [of soh ?blob "[]"]
    by (simp add: capture_output_def)
  have pair: "captured_pair (k @ ''='' @ v) =
      (if k \<noteq> [] \<and> k \<noteq> ''PATH'' \<and> \<not> login_env_var_excluded k then Some (k, v) else None)"
    if "capturable (k, v)" for k v
    using that split_once_char_append [of "CHR ''=''" k v] by (simp add: captured_pair_def capturable_def)
  have "List.map_filter captured_pair (map (\<lambda>(k, v). k @ ''='' @ v) vars @ [[]])
      = filter (\<lambda>(k, v). k \<noteq> [] \<and> k \<noteq> ''PATH'' \<and> \<not> login_env_var_excluded k) vars"
    using assms(1)
  proof (induction vars)
    case Nil
    then show ?case by (simp add: map_filter_simps captured_pair_def split_once_char_None)
  next
    case (Cons kv vars)
    then show ?case using pair [of "fst kv" "snd kv"] by (simp add: map_filter_simps case_prod_unfold)
  qed
  with parts split_variables [OF assms(1)] assms(4) show ?thesis
    by (simp add: parse_login_env_capture_def Let_def nth_opt_def)
qed

lemma merge_path_entries_set:
  "distinct (merge_path_entries seen es) \<and> set (merge_path_entries seen es) = set es - set seen - {[]}"
  by (induction seen es rule: merge_path_entries.induct) auto

section \<open>Properties\<close>

text \<open>
  C26. The filter for variables that are added later agrees with the construction of the base
  environment: a name that the policy does not set itself is in the base environment exactly
  when the filter admits it, with the value that it has in the process.
\<close>

theorem policy_filters_agree:
  assumes "k \<notin> fst ` set (ep_set p)"
  shows "create_env_from_vars wild vars p k = (if allows_with_inherit wild p k then collect_env vars k else None)"
  using assms by (rule create_env_unset)

theorem policy_filters_agree_witness:
  "create_env_from_vars (=) [(''LANG'', ''C''), (''A'', ''1'')]
     (env_policy_default\<lparr>ep_inherit := Inherit_Core\<rparr>) ''LANG'' = Some ''C''"
proof -
  let ?p = "env_policy_default\<lparr>ep_inherit := Inherit_Core\<rparr>"
  have "allows_with_inherit (=) ?p ''LANG''" "collect_env [(''LANG'', ''C''), (''A'', ''1'')] ''LANG'' = Some ''C''"
    by code_simp+
  moreover have "''LANG'' \<notin> fst ` set (ep_set ?p)" by (simp add: env_policy_default_def)
  ultimately show ?thesis using policy_filters_agree [of "''LANG''" ?p "(=)"] by simp
qed

text \<open>
  C18. An active policy binds every untrusted layer: a name in the environment of a child that is not
  \<open>PATH\<close>, not one of the agent's own control variables and not set by the policy matches none of
  the excluded patterns, none of the default secret patterns unless they are ignored, and one of
  the patterns that are included only, whether it comes from the process, the login shell or the
  request; and unless the request gives it, the policy inherits names, and only core ones if it
  inherits these only.
\<close>

theorem policy_binds_child_env:
  assumes "\<not> is_noop p"
    and "apply_child_env wild vars_os (Some p) login_env request k = Some v"
    and "k \<noteq> ''PATH''" "k \<noteq> ''GBUILD_AGENT''" "k \<notin> fst ` set shell_env_overrides" "k \<notin> fst ` set pager_env"
    and "k \<notin> fst ` set (ep_set p)"
  shows "(\<forall>pat \<in> set (ep_exclude p). \<not> wild pat k)
    \<and> (ep_ignore_default_excludes p \<or> (\<forall>pat \<in> set DEFAULT_SECRET_EXCLUDES. \<not> wild pat k))
    \<and> (ep_include_only p = [] \<or> (\<exists>pat \<in> set (ep_include_only p). wild pat k))
    \<and> (k \<in> fst ` set request \<or> ep_inherit p = Inherit_All \<or> ep_inherit p = Inherit_Core \<and> core_env_var k)"
proof -
  have "map_of shell_env_overrides k = None" "map_of pager_env k = None"
    using assms(5,6) by (simp_all add: map_of_eq_None_iff)
  with assms(1-4) create_env_unset [OF assms(7)]
  have "env_allows wild p k \<and> k \<in> fst ` set request \<or> allows_with_inherit wild p k"
    by (auto simp: apply_child_env_value child_value_def active_policy_def inherits_def accepts_def
        policy_admits_def create_env_def map_of_eq_None_iff split: if_splits)
  then show ?thesis
    by (auto simp: allows_with_inherit_def env_allows_def matches_exclude_def matches_default_exclude_def
        matches_include_only_def list_ex_iff split: env_inherit.splits)
qed

theorem policy_binds_child_env_witness:
  "apply_child_env (=) [(''API_KEY'', ''s''), (''LANG'', ''C'')] (Some (env_policy_default\<lparr>ep_exclude := [''API_KEY'']\<rparr>))
     None [] ''LANG'' = Some ''C''
   \<and> ''LANG'' \<notin> set (ep_exclude (env_policy_default\<lparr>ep_exclude := [''API_KEY'']\<rparr>))"
proof -
  let ?p = "env_policy_default\<lparr>ep_exclude := [''API_KEY'']\<rparr>"
  have "\<not> is_noop ?p" by code_simp
  moreover have e: "apply_child_env (=) [(''API_KEY'', ''s''), (''LANG'', ''C'')] (Some ?p) None [] ''LANG'' = Some ''C''"
    by code_simp
  moreover have "''LANG'' \<notin> fst ` set shell_env_overrides" "''LANG'' \<notin> fst ` set pager_env"
    "''LANG'' \<notin> fst ` set (ep_set ?p)" "''LANG'' \<noteq> ''PATH''" "''LANG'' \<noteq> ''GBUILD_AGENT''"
    by (simp_all add: shell_env_overrides_def pager_env_def env_policy_default_def)
  ultimately show ?thesis using policy_binds_child_env [OF _ e] by blast
qed

text \<open>\<open>PATH\<close> is no exception in the code, although its documentation makes it one.\<close>

lemma login_path_filtered:
  "\<not> is_noop p \<Longrightarrow> \<not> env_allows wild p ''PATH'' \<Longrightarrow> ''PATH'' \<notin> fst ` set (ep_set p) \<Longrightarrow>
     apply_child_env wild vars_os (Some p) login_env request ''PATH'' = None"
proof -
  assume a: "\<not> is_noop p" "\<not> env_allows wild p ''PATH''" "''PATH'' \<notin> fst ` set (ep_set p)"
  have "map_of shell_env_overrides ''PATH'' = None" "map_of pager_env ''PATH'' = None"
    by (simp_all add: shell_env_overrides_def pager_env_def)
  moreover have "\<not> allows_with_inherit wild p ''PATH''"
    using a(2) by (auto simp: allows_with_inherit_def split: env_inherit.splits)
  ultimately show ?thesis
    using a create_env_unset [OF a(3)]
    by (auto simp: apply_child_env_value child_value_def active_policy_def inherits_def accepts_def
        policy_admits_def create_env_def)
qed

end
