(* ===== verification/Command_Display.thy ===== *)
theory Command_Display
  imports Child_Env Search_Replace
begin

text \<open>
  The command as the user sees it (\<open>gbuild-tools/src/util/command_display.rs\<close>): a leading change to the
  session's own directory is left out. All cuts are at ASCII characters or after white space, so
  no slice can panic.
\<close>

section \<open>Definitions\<close>

definition ascii_alphabetic :: "char \<Rightarrow> bool" where
  "ascii_alphabetic c \<longleftrightarrow>
     (let n = of_char c :: nat in (65 \<le> n \<and> n \<le> 90) \<or> (97 \<le> n \<and> n \<le> 122))"

definition is_windows_shaped_str :: "string \<Rightarrow> bool" where
  "is_windows_shaped_str s \<longleftrightarrow>
     (case s of
        a # b # _ \<Rightarrow> (ascii_alphabetic a \<and> b = CHR '':'') \<or> (a = bslash \<and> b = bslash)
      | _ \<Rightarrow> False)"

definition is_absolute_shaped_path_token :: "string \<Rightarrow> bool" where
  "is_absolute_shaped_path_token s \<longleftrightarrow> (s \<noteq> [] \<and> hd s = CHR ''/'') \<or> is_windows_shaped_str s"

definition separator :: "char \<Rightarrow> bool" where
  "separator c \<longleftrightarrow> c = CHR ''/'' \<or> c = bslash"

fun split_separators :: "string \<Rightarrow> string list" where
  "split_separators [] = [[]]"
| "split_separators (c # s) =
     (if separator c then [] # split_separators s
      else case split_separators s of p # ps \<Rightarrow> (c # p) # ps | [] \<Rightarrow> [[c]])"

definition path_segments :: "string \<Rightarrow> string list" where
  "path_segments s = filter (\<lambda>p. p \<noteq> []) (split_separators (rev (dropWhile separator (rev s))))"

definition paths_equal_for_display :: "string \<Rightarrow> string \<Rightarrow> bool" where
  "paths_equal_for_display a b \<longleftrightarrow>
     (let case_insensitive = (is_windows_shaped_str a \<or> is_windows_shaped_str b)
      in list_all2 (\<lambda>x y. if case_insensitive then eq_ignore_ascii_case x y else x = y) (path_segments a) (path_segments b))"

definition trim_wrapping_parens :: "string \<Rightarrow> string option" where
  "trim_wrapping_parens s =
     (let t = trim s; inner = butlast (tl t)
      in if length t < 2 \<or> hd t \<noteq> CHR ''('' \<or> last t \<noteq> CHR '')'' then None
         else if CHR ''('' \<in> set inner \<or> CHR '')'' \<in> set inner then None
         else Some (trim inner))"

definition take_shell_word :: "string \<Rightarrow> (string \<times> string) option" where
  "take_shell_word s =
     (let t = trim_start s
      in if t = [] \<or> hd t = squote \<or> hd t = dquote then None
         else if fst (take_word t) = [] then None else Some (take_word t))"

function (sequential) quoted_end :: "char \<Rightarrow> nat \<Rightarrow> string \<Rightarrow> nat option" where
  "quoted_end quote i [] = None"
| "quoted_end quote i (b # s) =
     (if b = quote then Some i
      else if b = bslash \<and> quote = dquote \<and> s \<noteq> [] then quoted_end quote (i + 2) (tl s)
      else quoted_end quote (i + 1) s)"
  by pat_completeness auto
termination
  by (relation "measure (\<lambda>(q, i, s). length s)") auto

fun unquoted_token :: "string \<Rightarrow> string \<times> string" where
  "unquoted_token [] = ([], [])"
| "unquoted_token (c # s) =
     (if 0 < ws_len (c # s) \<or> c = CHR '';'' \<or> c = CHR ''|'' \<or> (c = CHR ''&'' \<and> s \<noteq> [] \<and> hd s = CHR ''&'')
      then ([], c # s)
      else let (token, rest) = unquoted_token s in (c # token, rest))"

definition take_path_token :: "string \<Rightarrow> (string \<times> string) option" where
  "take_path_token s =
     (let t = trim_start s
      in if t = [] then None
         else if hd t = squote \<or> hd t = dquote then
           map_option (\<lambda>i. (take (i + 1) t, drop (i + 1) t)) (quoted_end (hd t) 1 (tl t))
         else if fst (unquoted_token t) = [] then None else Some (unquoted_token t))"

definition unquote_path_token :: "string \<Rightarrow> string option" where
  "unquote_path_token token =
     (let t = trim token
      in if 2 \<le> length t then
           if (hd t = squote \<and> last t = squote) \<or> (hd t = dquote \<and> last t = dquote) then Some (butlast (tl t))
           else if hd t = squote \<or> hd t = dquote then None else Some t
         else Some t)"

definition line_break :: "string \<Rightarrow> bool" where
  "line_break s \<longleftrightarrow> newline \<in> set s \<or> creturn \<in> set s"

text \<open>What is left after the separator of a peeled prefix.\<close>

definition peel_separator :: "string \<Rightarrow> string option" where
  "peel_separator after_path =
     (let after = trim_start after_path;
          remainder = (case strip_prefix ''&&'' after of
                         Some stripped \<Rightarrow> Some (trim_start stripped)
                       | None \<Rightarrow> map_option trim_start (strip_prefix '';'' after))
      in if remainder = Some [] then None else remainder)"

definition skip_drive_flag :: "string \<Rightarrow> string" where
  "skip_drive_flag rest =
     (case take_shell_word rest of
        Some (flag, after_flag) \<Rightarrow> if flag = ''/d'' \<or> flag = ''/D'' then after_flag else rest
      | None \<Rightarrow> rest)"

definition peel_cd_prefix :: "string \<Rightarrow> string \<Rightarrow> string option" where
  "peel_cd_prefix command session_cwd =
     (let s = trim_start command
      in if s = [] \<or> line_break s then None
         else case take_shell_word s of
                None \<Rightarrow> None
              | Some (word, after) \<Rightarrow>
                  if \<not> eq_ignore_ascii_case word ''cd'' then None
                  else (case take_path_token (skip_drive_flag after) of
                          None \<Rightarrow> None
                        | Some (path_token, after_path) \<Rightarrow>
                            if line_break path_token then None
                            else (case unquote_path_token path_token of
                                    None \<Rightarrow> None
                                  | Some path_unquoted \<Rightarrow>
                                      if path_unquoted = ''-'' \<or> path_unquoted = ''..''
                                         \<or> \<not> is_absolute_shaped_path_token path_unquoted
                                         \<or> \<not> is_absolute_shaped_path_token session_cwd
                                         \<or> \<not> paths_equal_for_display path_unquoted session_cwd then None
                                      else peel_separator after_path)))"

definition strip_redundant_session_cd :: "string \<Rightarrow> string \<Rightarrow> string" where
  "strip_redundant_session_cd command session_cwd =
     (let trimmed = trim_start command; inner = unwrap_or (trim_wrapping_parens trimmed) trimmed
      in unwrap_or (peel_cd_prefix inner session_cwd) command)"

text \<open>
  What a peeled command hides is a \<open>cd\<close> to an absolute path that names the session's directory, with the
  separator after it, and what is shown is not empty.
\<close>

definition hides_session_cd :: "string \<Rightarrow> string \<Rightarrow> string \<Rightarrow> bool" where
  "hides_session_cd command shown session_cwd \<longleftrightarrow>
     (\<exists>w1 word flag w2 token w3 sep w4 path.
        command = w1 @ word @ flag @ w2 @ token @ w3 @ sep @ w4 @ shown
        \<and> eq_ignore_ascii_case word ''cd'' \<and> sep \<in> {''&&'', '';''} \<and> shown \<noteq> []
        \<and> unquote_path_token token = Some path \<and> is_absolute_shaped_path_token path
        \<and> paths_equal_for_display path session_cwd)"

section \<open>Slices\<close>

lemma unquoted_token_append: "fst (unquoted_token s) @ snd (unquoted_token s) = s"
  by (induction s) (auto simp: case_prod_unfold Let_def)

lemma trim_start_split: "\<exists>ws. s = ws @ trim_start s"
  using trim_start_suffix [of s] by (auto simp: suffix_def)

lemma take_shell_word_split: "take_shell_word s = Some (word, rest) \<Longrightarrow> \<exists>ws. s = ws @ word @ rest"
  using trim_start_split [of s] take_word_append [of "trim_start s"]
  by (auto simp: take_shell_word_def Let_def split: if_splits)

lemma take_path_token_split: "take_path_token s = Some (token, rest) \<Longrightarrow> \<exists>ws. s = ws @ token @ rest"
  using trim_start_split [of s] unquoted_token_append [of "trim_start s"]
  by (auto simp: take_path_token_def Let_def split: if_splits)

lemma skip_drive_flag_split: "\<exists>ws. s = ws @ skip_drive_flag s"
  using take_shell_word_split [of s]
  by (auto simp: skip_drive_flag_def split: option.splits)

lemma peel_separator_split:
  assumes "peel_separator s = Some r"
  obtains ws sep ws' where "s = ws @ sep @ ws' @ r" and "sep \<in> {''&&'', '';''}" and "r \<noteq> []"
proof -
  obtain sep rest where sep: "sep \<in> {''&&'', '';''}" "strip_prefix sep (trim_start s) = Some rest"
      and r: "r = trim_start rest" "r \<noteq> []"
    using assms by (auto simp: peel_separator_def Let_def split: if_splits option.splits)
  obtain ws where "s = ws @ trim_start s" using trim_start_split by blast
  moreover have "trim_start s = sep @ rest" using sep(2) by (simp add: strip_prefix_Some)
  moreover obtain ws' where "rest = ws' @ trim_start rest" using trim_start_split by blast
  ultimately have "s = ws @ sep @ ws' @ r" unfolding r(1) by metis
  then show ?thesis using that sep(1) r(2) by blast
qed

lemma paths_equal_for_display_refl: "paths_equal_for_display a a"
  by (simp add: paths_equal_for_display_def Let_def list_all2_same eq_ignore_ascii_case_def)

lemma peel_cd_prefix_hides:
  assumes "peel_cd_prefix command session_cwd = Some shown"
  shows "hides_session_cd command shown session_cwd"
proof -
  obtain word after token after_path path where
      word: "take_shell_word (trim_start command) = Some (word, after)" "eq_ignore_ascii_case word ''cd''"
      and token: "take_path_token (skip_drive_flag after) = Some (token, after_path)"
      and path: "unquote_path_token token = Some path" "is_absolute_shaped_path_token path"
        "paths_equal_for_display path session_cwd"
      and rest: "peel_separator after_path = Some shown"
    using assms by (auto simp: peel_cd_prefix_def Let_def split: if_splits option.splits prod.splits)
  obtain w0 where w0: "command = w0 @ trim_start command" using trim_start_split by blast
  obtain w1 where w1: "trim_start command = w1 @ word @ after" using take_shell_word_split [OF word(1)] by blast
  obtain flag where flag: "after = flag @ skip_drive_flag after" using skip_drive_flag_split by blast
  obtain w2 where w2: "skip_drive_flag after = w2 @ token @ after_path" using take_path_token_split [OF token] by blast
  obtain w3 sep w4 where sep: "after_path = w3 @ sep @ w4 @ shown" "sep \<in> {''&&'', '';''}" "shown \<noteq> []"
    using peel_separator_split [OF rest] by blast
  have "command = (w0 @ w1) @ word @ flag @ w2 @ token @ w3 @ sep @ w4 @ shown"
    using w0 w1 flag w2 sep(1) by (metis append.assoc)
  then show ?thesis unfolding hides_session_cd_def using word(2) path sep(2,3) by blast
qed

lemma strip_redundant_session_cd_shows:
  "strip_redundant_session_cd command session_cwd = command
   \<or> hides_session_cd (unwrap_or (trim_wrapping_parens (trim_start command)) (trim_start command))
       (strip_redundant_session_cd command session_cwd) session_cwd"
proof (cases "peel_cd_prefix (unwrap_or (trim_wrapping_parens (trim_start command)) (trim_start command)) session_cwd")
  case None
  then show ?thesis by (simp add: strip_redundant_session_cd_def Let_def unwrap_or_def)
next
  case (Some shown)
  then show ?thesis using peel_cd_prefix_hides by (simp add: strip_redundant_session_cd_def Let_def unwrap_or_def)
qed

lemma strip_redundant_session_cd_sample:
  "strip_redundant_session_cd ''cd /r/p && ls'' ''/r/p/'' = ''ls''"
  "strip_redundant_session_cd ''(cd /d C:/P; ls)'' ''c:/p'' = ''ls''"
  "strip_redundant_session_cd ''cd p && ls'' ''/p'' = ''cd p && ls''"
  by code_simp+

end
