(* ===== verification/Spec2Isabelle.thy ===== *)
theory Spec2Isabelle
  imports Permission_Handle Breaker_Threads Patch_Apply Hashline_Grep Edit_Sessions File_Hints Command_Display
begin

text \<open>
  \<^bold>\<open>A verification development for gBuild, a terminal coding agent written in Rust.\<close>

  The agent lets a model propose tool calls (run a shell command, edit a file, fetch a page) and
  executes those that its permission system lets pass. The theories model the parts of the
  program whose correctness is a matter of logic rather than of input and output:

  \<^item> the permission system under \<open>src/crates/codegen/gbuild-workspace/src/permission/\<close>: a rule
    language, the decomposition and normalisation of shell scripts, the policy evaluator with its
    gates for commands and for the files a command reads and writes, the analysis of execution
    risks, the classifier of auto mode, the grants of a session, and the actor that answers
    requests with the handle that talks to it;
  \<^item> the editing tools under \<open>src/crates/codegen/gbuild-tools/src/implementations/\<close>: \<open>apply_patch\<close>
    (parser, fuzzy line search, application), \<open>hashline_edit\<close> and \<open>hashline_grep\<close> (lines named by
    hashes), and \<open>search_replace\<close> (exact replacement with a fallback modulo typography), with the
    text utilities they use, and the environment of the commands that are run;
  \<^item> the circuit breaker \<open>src/crates/common/xai-circuit-breaker/\<close>, which protects the storage
    clients.

  A request goes through the parts in this order: the actor evaluates the managed policy
  (\<open>Gate_Preflight\<close> over \<open>Policy_Gate\<close> and \<open>Shell_Access_Gate\<close>), then the stages of its mode (always
  approve, auto mode with \<open>Exec_Risk\<close> and \<open>Auto_Mode\<close>, the session's grants), and prompts when no
  stage has answered. A tool call that is allowed reaches the editing tools.

  \<^bold>\<open>Theories and the code they model\<close>

  \<^item> \<^verbatim>\<open>Prelude\<close>: lemma collections and generic lemmas. \<^verbatim>\<open>Rust_Str\<close>: the string operations of
    the standard library the sources use (a string is its UTF-8 byte sequence, so offsets are byte offsets;
    where the code works on characters that need not be ASCII, \<open>chars\<close> decodes them). \<^verbatim>\<open>Rust_Num\<close>:
    decimal notation, parsing of integers, booleans and floats, \<open>f64\<close> values with rounding,
    durations and instants at their widths.
  \<^item> \<^verbatim>\<open>Permission_Types\<close> (\<open>types.rs\<close>), \<^verbatim>\<open>Permission_Rules\<close> (\<open>rules.rs\<close>): accesses, decisions,
    rules; \<open>parse_permission_rule\<close> with every error. Lemmas: every spelling of a rule
    (the inductive \<open>spells\<close>) is read as that rule, and exactly which strings are refused.
  \<^item> \<^verbatim>\<open>Bash_Tree\<close>, \<^verbatim>\<open>Command_Peel\<close> (\<open>bash_command_splitting.rs\<close>): decomposition over a syntax
    tree, display soft breaks; the \<open>env\<close> scanner, the decoder of quoted literals, wrapper and
    transparent prefix stripping, bounded normalisation. The locale \<open>peeler\<close> states what a
    stripping step promises (a proper tail) and gives existence and uniqueness of the normal
    form; it is interpreted on both kinds of stripping.
  \<^item> \<^verbatim>\<open>Permission_Policy\<close>, \<^verbatim>\<open>Policy_Evaluate\<close>, \<^verbatim>\<open>Policy_Gate\<close> (\<open>policy.rs\<close>): compilation of rules,
    \<open>evaluate\<close> and the gate \<open>evaluate_bash_command_gate\<close>. Lemmas: a declarative specification of
    the answers, and that the gate fails closed. The locale \<open>escalation\<close> states the algebra of
    combined answers; it is interpreted on \<open>combine_gate_decisions\<close> and, in \<open>Gate_Preflight\<close>, on
    \<open>combine_decisions\<close>.
  \<^item> \<^verbatim>\<open>Shell_Paths\<close>, \<^verbatim>\<open>Edit_Protection\<close>, \<^verbatim>\<open>Shell_Access\<close>, \<^verbatim>\<open>Shell_Access_Gate\<close> (\<open>shell_access.rs\<close>, \<open>gbuild-paths\<close>): lexical
    and symbolic-link normal forms of paths, protected edit targets, what a command reads and
    writes (operands, options, redirects, nested shells), and the gate that checks these files
    against the rules. Lemmas: canonicity of the lexical normal form, soundness of the
    protection, and that the gate fails closed.
  \<^item> \<^verbatim>\<open>Gate_Preflight\<close> (\<open>gate_preflight.rs\<close>), \<^verbatim>\<open>Exec_Risk\<close> (\<open>exec_risk.rs\<close>), \<^verbatim>\<open>Auto_Mode\<close> (\<open>auto_mode.rs\<close>):
    the combined managed decision, the scan of local Git configuration that a command may
    trigger, and the heuristic classifier with its allow-lists. Lemmas: when the scan
    finds no risk, every segment that runs Git runs it in a directory that was scanned, as far as
    the changes of directory before it succeed; what the classifier allows is routine and writes
    no file through a redirect or an operand.
  \<^item> \<^verbatim>\<open>Grant_Lists\<close> (\<open>web_fetch/domain.rs\<close>, MCP names), \<^verbatim>\<open>Bash_Evaluation\<close>, \<^verbatim>\<open>Session_Grants\<close>
    (\<open>manager.rs\<close>, \<open>state.rs\<close>): domains, server-wide grants, safe and dangerous commands, the
    evaluation of every segment of a script, and the decisions that grants give. Lemmas: which
    URLs a list of domains permits, and that a tool name belongs to at most one server.
  \<^item> \<^verbatim>\<open>Permission_Actor\<close>, \<^verbatim>\<open>Actor_Requests\<close>, \<^verbatim>\<open>Actor_Safety\<close>, \<^verbatim>\<open>Permission_Handle\<close> (\<open>manager.rs\<close>): the
    actor's state and each of its commands as a function that returns the new state and the
    effects, and the handle with its shared flags and queue: each method is a list of stores and
    sends, which the step relation \<open>manager_step\<close> interleaves with those of other callers and with
    the actor. Lemmas: deny rules bind in every
    mode, ask rules outside always-approve, protected edits need confirmation, the session's
    denials survive mode changes, one answer per request, the budget of automatic denials, the
    invariant of the state, and what the flags say of the mode of the actor at every moment.
  \<^item> \<^verbatim>\<open>Breaker_Window\<close> (\<open>window.rs\<close>), \<^verbatim>\<open>Breaker_Config\<close> (\<open>config.rs\<close>, \<open>retry_policy.rs\<close>),
    \<^verbatim>\<open>Circuit_Breaker\<close> (\<open>breaker.rs\<close>, \<open>state.rs\<close>, \<open>observer.rs\<close>, \<open>registry.rs\<close>),
    \<^verbatim>\<open>Breaker_Safety\<close> (the properties of sequential runs) and \<^verbatim>\<open>Breaker_Threads\<close> (the atomic
    steps of \<open>check\<close>, \<open>record\<close> and \<open>error_rate\<close> under interleaving, as a step relation with
    reachable states; a thread alone behaves like the sequential model).
    The locale \<open>sample_window\<close> is the interface of the window that the breaker's proofs use.
  \<^item> \<^verbatim>\<open>Patch_Parser\<close> (\<open>parser.rs\<close>, \<open>errors.rs\<close>), \<^verbatim>\<open>Patch_Apply\<close> (\<open>seek_sequence.rs\<close>, \<open>apply.rs\<close>):
    the notation of patches with its round trip, and the application of chunks in order.
  \<^item> \<^verbatim>\<open>Text_Truncate\<close> (\<open>util/truncate.rs\<close>), \<^verbatim>\<open>Model_Paths\<close> (\<open>types/resources.rs\<close>): bounded text and the
    resolution of the paths that the model names.
  \<^item> \<^verbatim>\<open>Line_Anchors\<close> (\<open>util/hash.rs\<close>, \<open>scheme.rs\<close>, \<open>anchor.rs\<close>, \<open>config.rs\<close>), \<^verbatim>\<open>Hashline_Edit\<close>, \<^verbatim>\<open>Hashline_Correct\<close>,
    \<^verbatim>\<open>Hashline_Apply\<close> (\<open>edit/apply.rs\<close>), \<^verbatim>\<open>Hashline_Tool\<close> (\<open>edit/mod.rs\<close>), \<^verbatim>\<open>Hashline_Grep\<close> (\<open>grep.rs\<close>): hashes at 32
    bits, the three anchor schemes, the resolution of anchors, overlap checks and splicing, the
    tool around them and the anchors in search results. The locale \<open>lawful_scheme\<close> is what an edit
    needs of a scheme; it is interpreted on all three. Lemmas: an accepted batch of edits gives
    the file that a declarative specification names and every other batch changes nothing,
    anchors that were shown by a read or by a search resolve to their lines, and the code never
    panics.
  \<^item> \<^verbatim>\<open>Edit_Output\<close> (\<open>types/output.rs\<close>), \<^verbatim>\<open>Utf8_Text\<close> (matches and slices of UTF-8 text),
    \<^verbatim>\<open>Unicode_Confusables\<close> (\<open>util/unicode_confusables.rs\<close>, \<open>search_replace/helpers.rs\<close>), \<^verbatim>\<open>Edit_Details\<close> (\<open>helpers.rs\<close>),
    \<^verbatim>\<open>Search_Replace\<close> (\<open>search_replace/mod.rs\<close>, \<open>versions/legacy_0_4_10.rs\<close>, \<open>util/query_tools.rs\<close>) and
    \<^verbatim>\<open>Search_Replace_Correct\<close>: the whole \<open>search_replace\<close> tool. Lemmas: a run refines the contract
    \<open>edit_result\<close>, never panics, writes at most once and only well-formed text, replaces modulo
    typography only spans that read like the pattern, keeps the bytes around them in a UTF-8 file
    without CRLF, and keeps CRLF line endings.
  \<^item> \<^verbatim>\<open>Edit_Sessions\<close>: the locale \<open>edit_tool\<close> states what an editing tool promises its client (at most
    one write, to the resolved file, success only for a write that went through); it is
    interpreted on \<open>search_replace\<close>, on \<open>hashline_edit\<close> and on a client that mixes both, and gives
    the frame property of sessions of edits and their completion.
  \<^item> \<^verbatim>\<open>File_Hints\<close> (\<open>util/fs.rs\<close>, \<open>util/path_suggestions.rs\<close>): files whose names differ from the one given
    in no-break spaces, and the hints of a missing path. Lemmas: the file that is edited is the
    one that was named or its only other spelling, and suggestions stay in the displayed directory.
  \<^item> \<^verbatim>\<open>Child_Env\<close> (\<open>util/shell_env_policy.rs\<close>, \<open>computer/local/terminal.rs\<close>): the environment of the commands
    that the agent runs. Lemmas: the value of every name layer by layer, no name other than
    \<open>PATH\<close> that the policy filters out enters through any layer of outside variables, and the round trip of the login shell's capture.
  \<^item> \<^verbatim>\<open>Command_Display\<close> (\<open>util/command_display.rs\<close>): the command as it is shown to the user. Lemmas:
    what is left out is a change to the session's own directory and nothing else.

  \<^bold>\<open>Conventions\<close>

  State is passed explicitly in records; a value of type option is \<open>None\<close> where the Rust code
  would panic or underflow, and errors are values of a sum type. Effects (answers, prompts,
  events, writes, notifications) are lists in the order of the code. What lies outside the
  modelled code is a parameter: the record \<open>externs\<close> holds the shell parser (tree-sitter), the
  glob compiler and matcher, the URL parser and Unicode lower-casing; \<open>filesystem\<close> the links and
  files that the gates look at; \<open>git_view\<close> what libgit2 reports; \<open>request_world\<close> what happens around
  one request (the prompter's answer, closed channels, the sandbox); \<open>manager_config\<close> the
  functions the actor is started with, such as the language-model classifier; \<open>edit_world\<close> and
  \<open>search_world\<close> the file system, the ignore filter and the template renderer of a tool call; \<open>wild\<close>
  the wildcard matcher of the environment policy. The
  clock is a function from the number of readings to the reading; the environment is a look-up
  function. Under concurrency each atomic access, each section under a lock and each send to a
  queue is one step, the steps happen in one total order, and the actor's changes to its own
  state while it serves a command are one step.

  \<^bold>\<open>Bounds and fuel\<close>

  The recursion budgets are the constants of the code (\<open>MAX_WRAPPER_DEPTH\<close>,
  \<open>MAX_TRANSPARENT_PREFIX_DEPTH\<close>, \<open>MAX_NORMALIZE_ROUNDS\<close>, \<open>MAX_INLINE_SHELL_DEPTH\<close>,
  \<open>MAX_SYMLINK_DEPTH\<close>, \<open>MAX_WINDOW_ENTRIES\<close>); where the code runs out of them the model does, and
  the theorems say what is reported then. The limits of automatic denials
  (\<open>AUTO_DENY_CONSECUTIVE_LIMIT\<close>, \<open>AUTO_DENY_TOTAL_LIMIT\<close>) are those of the code. The hypothesis
  \<open>fits\<close> of the hashline theorems says that a file and its edits have fewer than 2^64 lines, so
  that line arithmetic does not wrap. The only fuel of the model's own is the number of steps in
  \<open>run_alone\<close>, and the theorem about it shows that 12 and 10 steps suffice.

  \<^bold>\<open>Not modelled\<close>

  The prompt of the language-model classifier, its transport and the parsing of its answer; the
  messages of the prompter; the state and policy files on disk; JSON decoding and schemas;
  telemetry and tracing; the user interface, the session loop, network access and the other
  tools. They are effects around external crates, or code whose meaning lies in them, and a
  model without these crates could not state it faithfully. The manifest lists every crate with
  its reason.
\<close>

end
